(* ===== verification/Prelude.thy ===== *)
theory Prelude
  imports Complex_Main "HOL-Library.Word" "HOL-Library.Multiset" "HOL-Library.Product_Lexorder"
    "HOL-Library.List_Lexorder" "HOL-Library.Char_ord"
begin

text \<open>
  The prelude of the development: names for the machine types of the C++ sources, the
  theorem collections the components extend, \<open>std::map\<close> as an association list that is
  kept in key order (iteration order matters to the code, which walks such maps and keeps the
  first maximum), and the generic lemmas on lists and multisets the components share.
\<close>

subsection \<open>Machine types\<close>

type_synonym uint32 = "32 word"
type_synonym uint64 = "64 word"
type_synonym int64 = "64 word"   \<comment> \<open>read with \<open>sint\<close>\<close>
type_synonym cell_id = string

subsection \<open>Theorem collections\<close>

named_theorems sched_simps \<open>functional laws of the scheduler operations\<close>
named_theorems sim_frame \<open>fields a simulator operation leaves alone\<close>
named_theorems cho_frame \<open>fields a handover operation leaves alone\<close>

subsection \<open>\<open>std::map\<close>\<close>

text \<open>
  A \<open>std::map<K, T>\<close> is the list of its entries in the order in which the
  container is iterated. Lookup (\<open>find\<close>, \<open>at\<close>) is \<^const>\<open>map_of\<close>. Most maps have strings as keys.
\<close>

type_synonym 'v smap = "(string \<times> 'v) list"

fun smap_set :: "'k::linorder \<Rightarrow> 'v \<Rightarrow> ('k \<times> 'v) list \<Rightarrow> ('k \<times> 'v) list" where
  "smap_set k v [] = [(k, v)]"
| "smap_set k v ((a, b) # m) =
     (if k < a then (k, v) # (a, b) # m
      else if k = a then (k, v) # m
      else (a, b) # smap_set k v m)"

definition smap_sorted :: "('k::linorder \<times> 'v) list \<Rightarrow> bool" where
  "smap_sorted m \<longleftrightarrow> sorted_wrt (<) (map fst m)"

lemma map_of_smap_set [simp]: "map_of (smap_set k v m) = (map_of m)(k \<mapsto> v)"
  by (induction m) auto

lemma keys_smap_set [simp]: "fst ` set (smap_set k v m) = insert k (fst ` set m)"
  by (simp flip: dom_map_of_conv_image_fst)

lemma smap_set_Nil_iff [simp]: "smap_set k v m \<noteq> []"
  by (cases m) (auto split: if_splits)

lemma smap_sorted_Nil [simp]: "smap_sorted []"
  by (simp add: smap_sorted_def)

lemma smap_sorted_set [intro]: "smap_sorted m \<Longrightarrow> smap_sorted (smap_set k v m)"
  unfolding smap_sorted_def
proof (induction m)
  case Nil
  then show ?case by simp
next
  case (Cons p m)
  obtain a b where p: "p = (a, b)" by force
  have above: "\<forall>x \<in> set (map fst m). a < x" using Cons.prems by (simp add: p)
  have keys: "set (map fst (smap_set k v m)) = insert k (set (map fst m))"
    using keys_smap_set [of k v m] by simp
  show ?case
    using Cons above keys by (auto simp: p dest: order.strict_trans)
qed

lemma smap_sorted_distinct: "smap_sorted m \<Longrightarrow> distinct (map fst m)"
  unfolding smap_sorted_def by (simp add: strict_sorted_iff)

lemma smap_find_entry: "smap_sorted m \<Longrightarrow> (k, v) \<in> set m \<Longrightarrow> map_of m k = Some v"
  by (simp add: smap_sorted_distinct)

subsection \<open>Lists and multisets\<close>

lemma sum_list_update_group:
  fixes f :: "'a \<Rightarrow> 'b::ab_group_add"
  assumes "i < length xs"
  shows "sum_list (map f (xs[i := y])) = sum_list (map f xs) - f (xs ! i) + f y"
  using assms
proof (induction xs arbitrary: i)
  case Nil
  then show ?case by simp
next
  case (Cons x xs)
  then show ?case by (cases i) (simp_all add: algebra_simps)
qed

lemma image_mset_eq_on: "(\<And>x. x \<in># M \<Longrightarrow> f x = g x) \<Longrightarrow> image_mset f M = image_mset g M"
  by (rule image_mset_cong)

lemma sorted_wrt_mset_unique:
  fixes f :: "'a \<Rightarrow> 'b::linorder"
  assumes "sorted_wrt (<) (map f xs)" "sorted_wrt (<) (map f ys)" "mset xs = mset ys"
  shows "xs = ys"
proof (rule map_inj_on)
  from assms show eq: "map f xs = map f ys"
    by (metis mset_map sorted_list_of_multiset_mset sorted_sort_id strict_sorted_iff)
  have "set xs = set ys" using assms(3) by (rule mset_eq_setD)
  moreover have "distinct (map f xs)" using assms(1) by (simp add: strict_sorted_iff)
  ultimately show "inj_on f (set xs \<union> set ys)" by (simp add: distinct_map)
qed

end
