(* ===== verification/Scheduler.thy ===== *)
theory Scheduler
  imports Prelude
begin

text \<open>
  The event list of the simulation core, after \<open>src/src/core/model/scheduler.h\<close>: event
  keys and their comparison operators, the virtual interface of \<open>Scheduler\<close> as a record of
  functions (the C++ vtable), and the contract its implementations share as a locale. What
  follows from the contract alone is proved once, inside the locale: the order in which a
  scheduler hands out its events, and that moving all events from one implementation to
  another (\<open>DefaultSimulatorImpl::SetScheduler\<close>) loses nothing and keeps that order.
\<close>

subsection \<open>Event keys\<close>

record EventKey =
  m_ts :: uint64
  m_uid :: uint32
  m_context :: uint32

type_synonym impl_ptr = nat   \<comment> \<open>address of an \<open>EventImpl\<close>; 0 is \<open>nullptr\<close>\<close>

record Event =
  impl :: impl_ptr
  key :: EventKey

definition EventKey_eq :: "EventKey \<Rightarrow> EventKey \<Rightarrow> bool" where
  "EventKey_eq a b \<longleftrightarrow> m_uid a = m_uid b"

definition EventKey_neq :: "EventKey \<Rightarrow> EventKey \<Rightarrow> bool" where
  "EventKey_neq a b \<longleftrightarrow> m_uid a \<noteq> m_uid b"

definition EventKey_less :: "EventKey \<Rightarrow> EventKey \<Rightarrow> bool" where
  "EventKey_less a b =
     (if m_ts a < m_ts b then True
      else if m_ts a = m_ts b \<and> m_uid a < m_uid b then True
      else False)"

definition EventKey_greater :: "EventKey \<Rightarrow> EventKey \<Rightarrow> bool" where
  "EventKey_greater a b =
     (if m_ts a > m_ts b then True
      else if m_ts a = m_ts b \<and> m_uid a > m_uid b then True
      else False)"

definition Event_less :: "Event \<Rightarrow> Event \<Rightarrow> bool" where
  "Event_less a b = EventKey_less (key a) (key b)"

definition Event_greater :: "Event \<Rightarrow> Event \<Rightarrow> bool" where
  "Event_greater a b = EventKey_greater (key a) (key b)"

text \<open>The comparison is the lexicographic order on time stamp and unique id.\<close>

definition ord_key :: "EventKey \<Rightarrow> uint64 \<times> uint32" where
  "ord_key k = (m_ts k, m_uid k)"

abbreviation ev_ord :: "Event \<Rightarrow> uint64 \<times> uint32" where
  "ev_ord e \<equiv> ord_key (key e)"

abbreviation ev_uid :: "Event \<Rightarrow> uint32" where
  "ev_uid e \<equiv> m_uid (key e)"

lemma EventKey_less_ord: "EventKey_less a b \<longleftrightarrow> ord_key a < ord_key b"
  by (auto simp: EventKey_less_def ord_key_def)

lemma EventKey_greater_ord: "EventKey_greater a b \<longleftrightarrow> ord_key b < ord_key a"
  by (auto simp: EventKey_greater_def ord_key_def)

lemma Event_less_ord: "Event_less a b \<longleftrightarrow> ev_ord a < ev_ord b"
  by (simp add: Event_less_def EventKey_less_ord)

lemma Event_greater_ord: "Event_greater a b \<longleftrightarrow> ev_ord b < ev_ord a"
  by (simp add: Event_greater_def EventKey_greater_ord)

lemma ord_key_uid: "ord_key a = ord_key b \<Longrightarrow> m_uid a = m_uid b"
  by (simp add: ord_key_def)

subsection \<open>The virtual interface\<close>

text \<open>
  The virtual functions of \<open>Scheduler\<close>. \<open>PeekNext\<close> and \<open>RemoveNext\<close> may not be
  called on an empty list and \<open>Remove\<close> only for an event that is in it; the
  implementations then dereference an end iterator, which is the result \<^const>\<open>None\<close>.
\<close>

record 'q scheduler_ops =
  op_Insert :: "Event \<Rightarrow> 'q \<Rightarrow> 'q"
  op_IsEmpty :: "'q \<Rightarrow> bool"
  op_PeekNext :: "'q \<Rightarrow> Event option"
  op_RemoveNext :: "'q \<Rightarrow> (Event \<times> 'q) option"
  op_Remove :: "Event \<Rightarrow> 'q \<Rightarrow> 'q option"

text \<open>Removing the first event until none is left.\<close>

partial_function (option) drain :: "'q scheduler_ops \<Rightarrow> 'q \<Rightarrow> Event list \<Rightarrow> Event list option" where
  "drain ops q acc =
     (if op_IsEmpty ops q then Some acc
      else (case op_RemoveNext ops q of
              None \<Rightarrow> None
            | Some (e, q') \<Rightarrow> drain ops q' (acc @ [e])))"

text \<open>The loop of \<open>DefaultSimulatorImpl::SetScheduler\<close>.\<close>

partial_function (option) move_events ::
  "'q scheduler_ops \<Rightarrow> 'r scheduler_ops \<Rightarrow> 'q \<Rightarrow> 'r \<Rightarrow> 'r option" where
  "move_events ops ops' q r =
     (if op_IsEmpty ops q then Some r
      else (case op_RemoveNext ops q of
              None \<Rightarrow> None
            | Some (e, q') \<Rightarrow> move_events ops ops' q' (op_Insert ops' e r)))"

subsection \<open>The contract\<close>

definition uid_fresh :: "Event \<Rightarrow> Event multiset \<Rightarrow> bool" where
  "uid_fresh e M \<longleftrightarrow> (\<forall>f \<in># M. ev_uid f \<noteq> ev_uid e)"

definition uids_distinct :: "Event multiset \<Rightarrow> bool" where
  "uids_distinct M \<longleftrightarrow> (\<forall>e \<in># M. uid_fresh e (M - {#e#}))"

definition is_next :: "Event \<Rightarrow> Event multiset \<Rightarrow> bool" where
  "is_next e M \<longleftrightarrow> e \<in># M \<and> (\<forall>f \<in># M - {#e#}. EventKey_less (key e) (key f))"

lemma uid_fresh_empty [simp]: "uid_fresh e {#}"
  by (simp add: uid_fresh_def)

lemma uid_fresh_add [simp]:
  "uid_fresh e (add_mset f M) \<longleftrightarrow> ev_uid f \<noteq> ev_uid e \<and> uid_fresh e M"
  by (auto simp: uid_fresh_def)

lemma uid_fresh_mono: "uid_fresh e M \<Longrightarrow> N \<subseteq># M \<Longrightarrow> uid_fresh e N"
  by (auto simp: uid_fresh_def dest: mset_subset_eqD)

lemma uids_distinct_empty [simp]: "uids_distinct {#}"
  by (simp add: uids_distinct_def)

lemma uids_distinct_add:
  "uids_distinct (add_mset e M) \<longleftrightarrow> uid_fresh e M \<and> uids_distinct M"
proof
  assume d: "uids_distinct (add_mset e M)"
  then have f: "uid_fresh e M" by (force simp: uids_distinct_def)
  have "uid_fresh g (M - {#g#})" if g: "g \<in># M" for g
  proof -
    have "g \<noteq> e" using f g by (auto simp: uid_fresh_def)
    then show ?thesis using d g by (force simp: uids_distinct_def)
  qed
  then show "uid_fresh e M \<and> uids_distinct M" using f by (simp add: uids_distinct_def)
next
  assume "uid_fresh e M \<and> uids_distinct M"
  then have f: "uid_fresh e M" and d: "uids_distinct M" by auto
  show "uids_distinct (add_mset e M)"
    unfolding uids_distinct_def
  proof
    fix g assume "g \<in># add_mset e M"
    then consider "g = e" | "g \<in># M" "g \<noteq> e" by auto
    then show "uid_fresh g (add_mset e M - {#g#})"
    proof cases
      case 1
      then show ?thesis using f by simp
    next
      case 2
      then show ?thesis using f d by (auto simp: uids_distinct_def uid_fresh_def)
    qed
  qed
qed

lemma uids_distinct_diff: "uids_distinct M \<Longrightarrow> uids_distinct (M - {#e#})"
  by (metis insert_DiffM uids_distinct_add diff_single_trivial)

lemma uids_distinct_sub:
  assumes "uids_distinct M" "N \<subseteq># M"
  shows "uids_distinct N"
proof -
  have "uids_distinct (N + K) \<Longrightarrow> uids_distinct N" for K
    by (induction K) (auto simp: uids_distinct_add)
  then show ?thesis using assms by (metis subset_mset.le_iff_add)
qed

lemma least_is_next:
  assumes "uids_distinct M" "e \<in># M" "\<forall>f \<in># M. ev_ord e \<le> ev_ord f"
  shows "is_next e M"
  unfolding is_next_def EventKey_less_ord
proof (intro conjI ballI)
  fix f assume f: "f \<in># M - {#e#}"
  then have "ev_uid f \<noteq> ev_uid e" using assms(1,2) by (auto simp: uids_distinct_def uid_fresh_def)
  then show "ev_ord e < ev_ord f" using f assms(3) by (metis in_diffD ord_key_uid order_le_imp_less_or_eq)
qed (rule assms(2))

lemma is_next_unique:
  assumes "is_next e M" "is_next f M"
  shows "e = f"
proof (rule ccontr)
  assume "e \<noteq> f"
  then have "f \<in># M - {#e#}" "e \<in># M - {#f#}" using assms by (auto simp: is_next_def in_diff_count)
  then have "ev_ord e < ev_ord f" "ev_ord f < ev_ord e"
    using assms by (simp_all add: is_next_def EventKey_less_ord)
  then show False by (meson less_asym)
qed

text \<open>Taking events out, which every implementation does alike.\<close>

locale event_queue =
  fixes ops :: "'q scheduler_ops"
    and invar :: "'q \<Rightarrow> bool"
    and events :: "'q \<Rightarrow> Event multiset"
  assumes distinct_uids: "invar q \<Longrightarrow> uids_distinct (events q)"
    and IsEmpty_law: "invar q \<Longrightarrow> op_IsEmpty ops q \<longleftrightarrow> events q = {#}"
    and PeekNext_law: "invar q \<Longrightarrow> events q \<noteq> {#} \<Longrightarrow>
          \<exists>e. op_PeekNext ops q = Some e \<and> is_next e (events q)"
    and RemoveNext_law: "invar q \<Longrightarrow> events q \<noteq> {#} \<Longrightarrow>
          \<exists>e q'. op_RemoveNext ops q = Some (e, q') \<and> invar q' \<and> is_next e (events q) \<and>
                 events q' = events q - {#e#}"
begin

lemma peek_is_removed:
  assumes "invar q" "op_RemoveNext ops q = Some (e, q')" "events q \<noteq> {#}"
  shows "op_PeekNext ops q = Some e"
  using PeekNext_law [OF assms(1,3)] RemoveNext_law [OF assms(1,3)] assms(2)
  by (auto dest: is_next_unique)

lemma RemoveNext_cases:
  assumes "invar q" "events q \<noteq> {#}"
  obtains e q' where "op_RemoveNext ops q = Some (e, q')" "invar q'" "is_next e (events q)"
    "events q = add_mset e (events q')"
proof -
  obtain e q' where *: "op_RemoveNext ops q = Some (e, q')" "invar q'" "is_next e (events q)"
      "events q' = events q - {#e#}"
    using RemoveNext_law [OF assms] by blast
  moreover have "events q = add_mset e (events q')" using * by (simp add: is_next_def)
  ultimately show ?thesis using that by blast
qed

lemma RemoveNext_elim:
  assumes "invar q" "op_RemoveNext ops q = Some (e, q')" "\<not> op_IsEmpty ops q"
  shows "invar q' \<and> is_next e (events q) \<and> events q = add_mset e (events q')"
  using RemoveNext_cases [OF assms(1)] assms IsEmpty_law by (metis Pair_inject option.inject)

lemma drain_append:
  assumes "invar q"
  shows "\<exists>es. drain ops q acc = Some (acc @ es) \<and> mset es = events q \<and>
           sorted_wrt (<) (map ev_ord es)"
  using assms
proof (induction "size (events q)" arbitrary: q acc)
  case 0
  then show ?case by (auto simp: drain.simps [of ops q] IsEmpty_law)
next
  case (Suc n)
  then have ne: "events q \<noteq> {#}" by auto
  obtain e q' where r: "op_RemoveNext ops q = Some (e, q')" "invar q'" "is_next e (events q)"
      "events q = add_mset e (events q')"
    using RemoveNext_cases [OF Suc.prems ne] .
  obtain es where es: "drain ops q' (acc @ [e]) = Some ((acc @ [e]) @ es)" "mset es = events q'"
      "sorted_wrt (<) (map ev_ord es)"
    using Suc.hyps(1) [OF _ r(2)] Suc.hyps(2) r(4) by fastforce
  have "\<forall>f \<in> set es. ev_ord e < ev_ord f"
    using r(3,4) es(2) by (metis EventKey_less_ord add_mset_remove_trivial is_next_def set_mset_mset)
  then have "sorted_wrt (<) (map ev_ord (e # es))" using es(3) by auto
  moreover have "drain ops q acc = Some (acc @ (e # es))"
    using r es ne Suc.prems by (simp add: drain.simps [of ops q] IsEmpty_law)
  ultimately show ?case using r(4) es(2) by (metis mset.simps(2))
qed

lemma drain_sorted:
  assumes "invar q"
  obtains es where "drain ops q [] = Some es" "mset es = events q" "sorted_wrt (<) (map ev_ord es)"
  using drain_append [OF assms, of "[]"] by auto

end

text \<open>Schedulers that take any event with a fresh id, and those that also delete events from the
  middle of the list.\<close>

locale scheduler = event_queue +
  assumes Insert_law: "invar q \<Longrightarrow> uid_fresh e (events q) \<Longrightarrow>
          invar (op_Insert ops e q) \<and> events (op_Insert ops e q) = add_mset e (events q)"

locale removing_scheduler = scheduler +
  assumes Remove_law: "invar q \<Longrightarrow> e \<in># events q \<Longrightarrow>
          \<exists>q'. op_Remove ops e q = Some q' \<and> invar q' \<and> events q' = events q - {#e#}"
begin

lemma remove_undoes_insert:
  assumes "invar q" "uid_fresh e (events q)"
  shows "\<exists>q'. op_Remove ops e (op_Insert ops e q) = Some q' \<and> invar q' \<and> events q' = events q"
  using Insert_law [OF assms] Remove_law by fastforce

end

text \<open>
  Schedulers that keep a clock, as a simulation has it: they take events within a limit that are not
  before the last event removed. A scheduler without such a clock is one of these.
\<close>

locale timed_scheduler = event_queue ops invar events
  for ops :: "'q scheduler_ops" and invar :: "'q \<Rightarrow> bool" and events :: "'q \<Rightarrow> Event multiset" +
  fixes now :: "'q \<Rightarrow> uint64" and limit :: "Event \<Rightarrow> bool"
  assumes timed_Insert_law: "invar q \<Longrightarrow> uid_fresh e (events q) \<Longrightarrow> limit e \<Longrightarrow> now q \<le> m_ts (key e) \<Longrightarrow>
          invar (op_Insert ops e q) \<and> events (op_Insert ops e q) = add_mset e (events q) \<and>
          now (op_Insert ops e q) \<le> now q"
    and timed_RemoveNext_law: "invar q \<Longrightarrow> events q \<noteq> {#} \<Longrightarrow> op_RemoveNext ops q = Some (e, q') \<Longrightarrow>
          now q' \<le> m_ts (key e)"
    and timed_Remove_law: "invar q \<Longrightarrow> e \<in># events q \<Longrightarrow>
          \<exists>q'. op_Remove ops e q = Some q' \<and> invar q' \<and> events q' = events q - {#e#} \<and> now q' \<le> now q"

sublocale removing_scheduler \<subseteq> timed: timed_scheduler ops invar events "\<lambda>_. 0" "\<lambda>_. True"
  using Insert_law Remove_law by unfold_locales auto

text \<open>A sequence of calls that change a scheduler, with the events it hands out.\<close>

datatype sched_call = Call_Insert Event | Call_RemoveNext | Call_Remove Event

fun run_calls :: "'q scheduler_ops \<Rightarrow> sched_call list \<Rightarrow> 'q \<Rightarrow> (Event list \<times> 'q) option" where
  "run_calls ops [] q = Some ([], q)"
| "run_calls ops (Call_Insert e # cs) q = run_calls ops cs (op_Insert ops e q)"
| "run_calls ops (Call_RemoveNext # cs) q =
     (case op_RemoveNext ops q of
        None \<Rightarrow> None
      | Some (e, q') \<Rightarrow> map_option (\<lambda>(out, r). (e # out, r)) (run_calls ops cs q'))"
| "run_calls ops (Call_Remove e # cs) q =
     (case op_Remove ops e q of None \<Rightarrow> None | Some q' \<Rightarrow> run_calls ops cs q')"

text \<open>Two implementations side by side.\<close>

locale scheduler_pair = s: scheduler ops invar events + t: scheduler ops' invar' events'
  for ops :: "'q scheduler_ops" and invar events
    and ops' :: "'r scheduler_ops" and invar' events'
begin

lemma same_drain:
  assumes "invar q" "invar' r" "events q = events' r"
  shows "drain ops q [] = drain ops' r []"
proof -
  obtain es where "drain ops q [] = Some es" "mset es = events q" "sorted_wrt (<) (map ev_ord es)"
    using s.drain_sorted [OF assms(1)] .
  moreover obtain es' where "drain ops' r [] = Some es'" "mset es' = events' r"
      "sorted_wrt (<) (map ev_ord es')"
    using t.drain_sorted [OF assms(2)] .
  ultimately show ?thesis using sorted_wrt_mset_unique [of ev_ord es es'] assms(3) by simp
qed

lemma move_events_keeps:
  assumes "invar q" "invar' r" "uids_distinct (events q + events' r)"
  shows "\<exists>r'. move_events ops ops' q r = Some r' \<and> invar' r' \<and> events' r' = events q + events' r"
  using assms
proof (induction "size (events q)" arbitrary: q r)
  case 0
  then show ?case by (auto simp: move_events.simps [of ops ops' q] s.IsEmpty_law)
next
  case (Suc n)
  then have ne: "events q \<noteq> {#}" by auto
  obtain e q' where r: "op_RemoveNext ops q = Some (e, q')" "invar q'"
      "events q = add_mset e (events q')"
    using s.RemoveNext_cases [OF Suc.prems(1) ne] .
  have u: "uid_fresh e (events q' + events' r)" "uids_distinct (events q' + events' r)"
    using Suc.prems(3) by (simp_all add: r(3) uids_distinct_add)
  have ins: "invar' (op_Insert ops' e r)" "events' (op_Insert ops' e r) = add_mset e (events' r)"
    using t.Insert_law [OF Suc.prems(2)] uid_fresh_mono [OF u(1)] by auto
  have "uids_distinct (events q' + events' (op_Insert ops' e r))"
    using u by (simp add: ins uids_distinct_add)
  then obtain r' where "move_events ops ops' q' (op_Insert ops' e r) = Some r'" "invar' r'"
      "events' r' = events q' + events' (op_Insert ops' e r)"
    using Suc.hyps(1) [OF _ r(2) ins(1)] Suc.hyps(2) r(3) by auto
  then show ?case
    using r ne Suc.prems(1) by (simp add: move_events.simps [of ops ops' q] s.IsEmpty_law ins)
qed

end

end
