(* ===== verification/Int64x64.thy ===== *)
theory Int64x64
  imports Prelude
begin

text \<open>
  The Q64.64 fixed-point numbers of \<open>src/src/core/model/int64x64-128.h\<close> and \<open>int64x64-128.cc\<close>. A number is
  the \<^typ>\<open>int\<close> in its \<open>_v\<close>; where the code works on \<open>uint128_t\<close> a natural number is reduced modulo
  \<open>2 ^ 128\<close> wherever it can leave the width. The code aborts when a product leaves 128 bits, and the
  theorems bound their operands. \<open>double\<close> is \<^typ>\<open>real\<close>.
\<close>

subsection \<open>Conversions\<close>

definition int64x64_of_double :: "real \<Rightarrow> int" where
  "int64x64_of_double value =
     (let negative = value < 0;
          v = (if negative then - value else value);
          fhi = \<lfloor>v\<rfloor>;
          flo = (v - of_int fhi) * 2 ^ 64 + 1 / 2;
          hi = (if flo \<ge> 2 ^ 64 then fhi + 1 else fhi);
          lo = \<lfloor>flo\<rfloor> mod 2 ^ 64;
          r = hi * 2 ^ 64 + lo
      in if negative then - r else r)"

definition int64x64_of_int :: "int \<Rightarrow> int" where
  "int64x64_of_int v = v * 2 ^ 64"

definition int64x64_GetDouble :: "int \<Rightarrow> real" where
  "int64x64_GetDouble v =
     (let negative = v < 0;
          value = (if negative then - v else v);
          fhi = real_of_int (value div 2 ^ 64);
          flo = real_of_int (value mod 2 ^ 64) / 2 ^ 64;
          retval = fhi + flo
      in if negative then - retval else retval)"

definition int64x64_GetHigh :: "int \<Rightarrow> int" where
  "int64x64_GetHigh v = v div 2 ^ 64"

definition int64x64_GetInt :: "int \<Rightarrow> int" where
  "int64x64_GetInt v =
     (let negative = v < 0;
          value = (if negative then - v else v);
          retval = value div 2 ^ 64
      in if negative then - retval else retval)"

definition int64x64_Round :: "int \<Rightarrow> int" where
  "int64x64_Round v =
     (let negative = v < 0;
          value = (if negative then - v else v) + 2 ^ 63;
          retval = value div 2 ^ 64
      in if negative then - retval else retval)"

subsection \<open>Multiplication\<close>

definition int64x64_Umul :: "int \<Rightarrow> int \<Rightarrow> int" where
  "int64x64_Umul a b =
     (let aL = a mod 2 ^ 64; bL = b mod 2 ^ 64;
          aH = a div 2 ^ 64 mod 2 ^ 64; bH = b div 2 ^ 64 mod 2 ^ 64;
          loPart = aL * bL;
          midPart = aL * bH + aH * bL;
          hiPart = aH * bH;
          result = loPart div 2 ^ 64 + midPart mod 2 ^ 64;
          res1 = midPart div 2 ^ 64 + hiPart mod 2 ^ 64
      in result + res1 * 2 ^ 64)"

definition int64x64_Mul :: "int \<Rightarrow> int \<Rightarrow> int" where
  "int64x64_Mul v p =
     (let negative = (v < 0) \<noteq> (p < 0);
          result = int64x64_Umul (if v < 0 then - v else v) (if p < 0 then - p else p)
      in if negative then - result else result)"

definition int64x64_UmulByInvert :: "nat \<Rightarrow> nat \<Rightarrow> nat" where
  "int64x64_UmulByInvert a b =
     (let ah = a div 2 ^ 64; bh = b div 2 ^ 64;
          al = a mod 2 ^ 64; bl = b mod 2 ^ 64;
          hi = ah * bh mod 2 ^ 128;
          mid = (ah * bl + al * bh) mod 2 ^ 128 div 2 ^ 64
      in (hi + mid) mod 2 ^ 128)"

definition int64x64_MulByInvert :: "int \<Rightarrow> nat \<Rightarrow> int" where
  "int64x64_MulByInvert v o' =
     (let negResult = v < 0;
          a = nat (if negResult then - v else v);
          result = int (int64x64_UmulByInvert a o')
      in if negResult then - result else result)"

subsection \<open>Division\<close>

text \<open>
  \<open>Udiv\<close> takes the integer quotient and then up to 64 digits of the fraction, as many per round as fit
  into the upper bits of the remainder. Its loops, in the order of the code: trailing zeros of the divisor,
  leading zeros of the remainder, zero bits of the divisor, rounds.
\<close>

function udiv_trailing :: "nat \<Rightarrow> nat \<Rightarrow> nat \<times> nat" where
  "udiv_trailing shift den =
     (if shift < 64 \<and> even den then udiv_trailing (shift + 1) (den div 2) else (shift, den))"
  by auto
termination by (relation "measure (\<lambda>(shift, den). 64 - shift)") auto

function udiv_leading :: "nat \<Rightarrow> nat \<Rightarrow> nat \<Rightarrow> nat \<times> nat" where
  "udiv_leading digis shift rem =
     (if digis + shift < 64 \<and> rem < 2 ^ 127 then udiv_leading digis (shift + 1) (rem * 2) else (shift, rem))"
  by auto
termination by (relation "measure (\<lambda>(digis, shift, rem). 64 - shift)") auto

function udiv_cast_off :: "nat \<Rightarrow> nat \<Rightarrow> nat \<Rightarrow> nat \<Rightarrow> nat \<times> nat" where
  "udiv_cast_off digis shift rem den =
     (if digis + shift < 64 \<and> (even den \<or> rem < den) then udiv_cast_off digis (shift + 1) rem (den div 2)
      else (shift, den))"
  by auto
termination by (relation "measure (\<lambda>(digis, shift, rem, den). 64 - shift)") auto

declare udiv_trailing.simps [simp del] udiv_leading.simps [simp del] udiv_cast_off.simps [simp del]

partial_function (option) udiv_rounds :: "nat \<Rightarrow> nat \<Rightarrow> nat \<Rightarrow> nat \<Rightarrow> nat \<Rightarrow> (nat \<times> nat) option" where
  "udiv_rounds digis shift rem den result =
     (if digis < 64 \<and> rem \<noteq> 0
      then let sr = udiv_leading digis shift rem;
               sd = udiv_cast_off digis (fst sr) (snd sr) den;
               quo = snd sr div snd sd
           in udiv_rounds (digis + fst sd) 0 (snd sr mod snd sd) (snd sd)
                ((result * 2 ^ fst sd + quo) mod 2 ^ 128)
      else Some (digis, result))"

text \<open>\<^const>\<open>None\<close> for a division by zero.\<close>

definition int64x64_Udiv :: "nat \<Rightarrow> nat \<Rightarrow> nat option" where
  "int64x64_Udiv a b =
     (if b = 0 then None
      else let rem = a mod b; sd = udiv_trailing 0 b in
        map_option (\<lambda>(digis, result). if digis < 64 then result * 2 ^ (64 - digis) mod 2 ^ 128 else result)
          (udiv_rounds 0 (fst sd) rem (snd sd) (a div b)))"

definition int64x64_Div :: "int \<Rightarrow> int \<Rightarrow> int option" where
  "int64x64_Div v p =
     (let negative = (v < 0) \<noteq> (p < 0)
      in map_option (\<lambda>result. if negative then - int result else int result)
           (int64x64_Udiv (nat \<bar>v\<bar>) (nat \<bar>p\<bar>)))"

text \<open>The inverse of an integer above 1, as a fraction of \<open>2 ^ 128\<close>.\<close>

definition int64x64_Invert :: "nat \<Rightarrow> nat option" where
  "int64x64_Invert v =
     map_option (\<lambda>result.
         if int64x64_GetHigh (int64x64_MulByInvert (int64x64_of_int (int v)) result) \<noteq> 1 then result + 1 else result)
       (int64x64_Udiv (2 ^ 64) v)"

subsection \<open>Division is exact\<close>

text \<open>
  After \<open>digis\<close> digits of the quotient of \<open>a\<close> by \<open>b\<close> the remainder is \<open>R\<close>; the code keeps it as \<open>rem\<close> over
  \<open>den\<close>, a divisor of \<open>b\<close>, with \<open>shift\<close> digits still owed.
\<close>

definition udiv_state :: "nat \<Rightarrow> nat \<Rightarrow> nat \<Rightarrow> nat \<Rightarrow> nat \<Rightarrow> nat \<Rightarrow> nat \<Rightarrow> bool" where
  "udiv_state a b digis shift rem den result \<longleftrightarrow>
     (\<exists>r R. a * 2 ^ digis = r * b + R \<and> R < b \<and> rem * b = R * 2 ^ shift * den \<and> den dvd b \<and> result = r mod 2 ^ 128)"

lemma udiv_state_round:
  assumes "udiv_state a b digis shift rem den result" "0 < b"
  shows "udiv_state a b (digis + shift) 0 (rem mod den) den ((result * 2 ^ shift + rem div den) mod 2 ^ 128)"
proof -
  obtain r R where s: "a * 2 ^ digis = r * b + R" "R < b" "rem * b = R * 2 ^ shift * den" "den dvd b" "result = r mod 2 ^ 128"
    using assms(1) by (auto simp: udiv_state_def)
  obtain c where c: "b = den * c" using s(4) by (elim dvdE)
  have pos: "0 < den" "0 < c" using assms(2) c by auto
  have R: "R * 2 ^ shift = rem * c"
    using s(3) pos(1) by (simp add: c)
  let ?R = "rem mod den * c"
  have digits: "R * 2 ^ shift = rem div den * b + ?R"
    unfolding R c by (metis add_mult_distrib div_mult_mod_eq mult.assoc mult.commute)
  then have "a * 2 ^ (digis + shift) = (r * 2 ^ shift + rem div den) * b + ?R"
  proof -
    have "a * 2 ^ (digis + shift) = (r * b + R) * 2 ^ shift" using s(1) by (simp only: power_add flip: mult.assoc)
    also have "\<dots> = r * 2 ^ shift * b + R * 2 ^ shift" by (simp only: add_mult_distrib mult_ac)
    finally show ?thesis by (simp only: digits add_mult_distrib add.assoc)
  qed
  moreover have "?R < b" using pos by (simp add: c)
  moreover have "(rem mod den) * b = ?R * 2 ^ 0 * den" by (simp add: c)
  moreover have "(result * 2 ^ shift + rem div den) mod 2 ^ 128 = (r * 2 ^ shift + rem div den) mod 2 ^ 128"
    unfolding s(5) by (metis mod_add_left_eq mod_mult_left_eq)
  ultimately show ?thesis using s(4) unfolding udiv_state_def by blast
qed

lemma udiv_trailing_ok:
  assumes "shift \<le> 64"
  shows "\<exists>s d. udiv_trailing shift den = (s, d) \<and> shift \<le> s \<and> s \<le> 64 \<and> d * 2 ^ (s - shift) = den"
  using assms
proof (induction shift den rule: udiv_trailing.induct)
  case (1 shift den)
  show ?case
  proof (cases "shift < 64 \<and> even den")
    case True
    then obtain s d where s: "udiv_trailing (shift + 1) (den div 2) = (s, d)" "shift + 1 \<le> s" "s \<le> 64"
        "d * 2 ^ (s - (shift + 1)) = den div 2"
      using 1 by auto
    have "s - shift = Suc (s - (shift + 1))" using s(2) by simp
    then have "d * 2 ^ (s - shift) = 2 * (d * 2 ^ (s - (shift + 1)))" by (simp only: power_Suc mult.left_commute)
    also have "\<dots> = den" using s(4) True by (simp only: even_two_times_div_two)
    finally have "d * 2 ^ (s - shift) = den" .
    then show ?thesis using s True by (simp add: udiv_trailing.simps [of shift])
  next
    case False
    then show ?thesis using 1(2) by (auto simp: udiv_trailing.simps [of shift])
  qed
qed

lemma udiv_leading_ok:
  assumes "digis + shift \<le> 64" "rem < 2 ^ 128"
  shows "\<exists>k. udiv_leading digis shift rem = (shift + k, rem * 2 ^ k) \<and> digis + shift + k \<le> 64 \<and>
    rem * 2 ^ k < 2 ^ 128 \<and> (digis + shift + k = 64 \<or> 2 ^ 127 \<le> rem * 2 ^ k)"
  using assms
proof (induction digis shift rem rule: udiv_leading.induct)
  case (1 digis shift rem)
  show ?case
  proof (cases "digis + shift < 64 \<and> rem < 2 ^ 127")
    case True
    then obtain k where k: "udiv_leading digis (shift + 1) (rem * 2) = (shift + 1 + k, rem * 2 * 2 ^ k)"
        "digis + (shift + 1) + k \<le> 64" "rem * 2 * 2 ^ k < 2 ^ 128"
        "digis + (shift + 1) + k = 64 \<or> 2 ^ 127 \<le> rem * 2 * 2 ^ k"
      using 1(1) by auto
    then show ?thesis using True
      by (intro exI [of _ "Suc k"]) (simp add: udiv_leading.simps [of digis shift])
  next
    case False
    then show ?thesis using 1(2,3)
      by (intro exI [of _ 0]) (auto simp: udiv_leading.simps [of digis shift])
  qed
qed

lemma udiv_cast_off_ok:
  assumes "digis + shift \<le> 64" "0 < den" "den < 2 ^ 127" "digis + shift = 64 \<or> 2 ^ 127 \<le> rem"
  shows "\<exists>k d. udiv_cast_off digis shift rem den = (shift + k, d) \<and> digis + shift + k \<le> 64 \<and> d * 2 ^ k = den"
  using assms
proof (induction digis shift rem den rule: udiv_cast_off.induct)
  case (1 digis shift rem den)
  show ?case
  proof (cases "digis + shift < 64 \<and> (even den \<or> rem < den)")
    case True
    then have even: "even den" "2 ^ 127 \<le> rem" using 1(4,5) by auto
    then have "0 < den div 2" "den div 2 < 2 ^ 127" using 1(3,4) by auto
    then obtain k d where k: "udiv_cast_off digis (shift + 1) rem (den div 2) = (shift + 1 + k, d)"
        "digis + (shift + 1) + k \<le> 64" "d * 2 ^ k = den div 2"
      using 1(1) True even(2) by auto
    have "d * 2 ^ Suc k = 2 * (d * 2 ^ k)" by simp
    also have "\<dots> = den" using k(3) even(1) by (simp only: even_two_times_div_two)
    finally have "d * 2 ^ Suc k = den" .
    then show ?thesis using k True
      by (intro exI [of _ "Suc k"] exI [of _ d]) (simp add: udiv_cast_off.simps [of digis shift])
  next
    case False
    then show ?thesis using 1(2)
      by (intro exI [of _ 0] exI [of _ den]) (auto simp: udiv_cast_off.simps [of digis shift])
  qed
qed

lemma udiv_rounds_ok:
  assumes "udiv_state a b digis shift rem den result" "0 < b" "b < 2 ^ 127" "rem < 2 ^ 127"
    and "digis + shift \<le> 64" "0 < shift \<or> rem < den"
  shows "\<exists>d res. udiv_rounds digis shift rem den result = Some (d, res) \<and>
    (if d < 64 then res * 2 ^ (64 - d) mod 2 ^ 128 else res) = a * 2 ^ 64 div b mod 2 ^ 128"
  using assms(1,4-)
proof (induction "64 - digis" arbitrary: digis shift rem den result rule: less_induct)
  case less
  obtain r R where s: "a * 2 ^ digis = r * b + R" "R < b" "rem * b = R * 2 ^ shift * den" "den dvd b" "result = r mod 2 ^ 128"
    using less.prems(1) by (auto simp: udiv_state_def)
  have den: "0 < den" "den < 2 ^ 127" using s(4) assms(2,3) by (auto dest: dvd_imp_le intro: gr0I)
  show ?case
  proof (cases "digis < 64 \<and> rem \<noteq> 0")
    case True
    obtain k where k: "udiv_leading digis shift rem = (shift + k, rem * 2 ^ k)" "digis + (shift + k) \<le> 64"
        "rem * 2 ^ k < 2 ^ 128" "digis + (shift + k) = 64 \<or> 2 ^ 127 \<le> rem * 2 ^ k"
      using udiv_leading_ok [OF less.prems(3), of rem] less.prems(2) by (auto simp: add.assoc)
    obtain l d where l: "udiv_cast_off digis (shift + k) (rem * 2 ^ k) den = (shift + k + l, d)"
        "digis + (shift + k) + l \<le> 64" "d * 2 ^ l = den"
      using udiv_cast_off_ok [OF k(2) den k(4)] by blast
    have "0 < shift + k"
    proof (rule ccontr)
      assume z: "\<not> 0 < shift + k"
      then have "rem < den" "digis = 64 \<or> 2 ^ 127 \<le> rem" using less.prems(4) k(4) by auto
      then show False using True den(2) by auto
    qed
    moreover have "udiv_state a b digis (shift + k + l) (rem * 2 ^ k) d result"
    proof -
      have "rem * 2 ^ k * b = R * 2 ^ shift * den * 2 ^ k" using s(3) by (metis mult.assoc mult.commute)
      then have "rem * 2 ^ k * b = R * 2 ^ (shift + k + l) * d" by (simp only: power_add mult_ac flip: l(3))
      moreover have "d dvd b" using s(4) by (metis l(3) dvd_mult_left)
      ultimately show ?thesis using s(1,2,5) unfolding udiv_state_def by blast
    qed
    note round = udiv_state_round [OF this assms(2)]
    have d: "0 < d" "d \<le> den" using den(1) l(3) by (auto intro: gr0I)
    then have m: "rem * 2 ^ k mod d < 2 ^ 127" "rem * 2 ^ k mod d < d"
      using den(2) by (simp_all add: mod_less_divisor [THEN less_trans])
    have unfold: "udiv_rounds digis shift rem den result = udiv_rounds (digis + (shift + k + l)) 0 (rem * 2 ^ k mod d) d
        ((result * 2 ^ (shift + k + l) + rem * 2 ^ k div d) mod 2 ^ 128)"
      using True by (subst udiv_rounds.simps) (simp add: k(1) l(1) Let_def)
    show ?thesis
      unfolding unfold by (rule less.hyps [OF _ round m(1)]) (use m(2) True l(2) \<open>0 < shift + k\<close> in auto)
  next
    case False
    then have res: "udiv_rounds digis shift rem den result = Some (digis, result)" by (subst udiv_rounds.simps) (auto simp del: One_nat_def)
    show ?thesis
    proof (cases "digis < 64")
      case True
      then have "R = 0" using False s(3) den(1) by simp
      then have "a * 2 ^ digis * 2 ^ (64 - digis) = r * 2 ^ (64 - digis) * b" using s(1) by simp
      moreover have "a * 2 ^ digis * 2 ^ (64 - digis) = a * 2 ^ 64"
        using True by (simp add: mult.assoc flip: power_add)
      ultimately have "a * 2 ^ 64 div b = r * 2 ^ (64 - digis)" using assms(2) by simp
      then show ?thesis using res True unfolding s(5) by (simp add: mod_mult_left_eq)
    next
      case f: False
      then have "digis = 64" using less.prems(3) by simp
      then have "a * 2 ^ 64 div b = r" using s(1,2) by (simp add: div_mult_self4)
      then show ?thesis using res f s(5) by simp
    qed
  qed
qed

lemma Udiv_exact:
  assumes "0 < b" "b < 2 ^ 127" "a < 2 ^ 128"
  shows "int64x64_Udiv a b = Some (a * 2 ^ 64 div b mod 2 ^ 128)"
proof -
  obtain s d where t: "udiv_trailing 0 b = (s, d)" "s \<le> 64" "d * 2 ^ s = b"
    using udiv_trailing_ok [of 0 b] by auto
  have d: "d dvd b" by (metis t(3) dvd_triv_left)
  have quot: "a div b = a div b mod 2 ^ 128" using order_le_less_trans [OF div_le_dividend assms(3)] by simp
  have "a mod b * b = a mod b * 2 ^ s * d" by (simp add: mult_ac flip: t(3))
  then have "udiv_state a b 0 s (a mod b) d (a div b)"
    unfolding udiv_state_def
    using assms(1) d quot mod_less_divisor [of b a] div_mult_mod_eq [of a b] by (metis mult_1_right power_0)
  moreover have "0 < s \<or> a mod b < d" using t(3) assms(1) by (cases s) auto
  moreover have "a mod b < 2 ^ 127" using assms(1,2) by (meson mod_less_divisor less_trans)
  ultimately obtain e res where "udiv_rounds 0 s (a mod b) d (a div b) = Some (e, res)"
      "(if e < 64 then res * 2 ^ (64 - e) mod 2 ^ 128 else res) = a * 2 ^ 64 div b mod 2 ^ 128"
    using udiv_rounds_ok [of a b 0 s "a mod b" d "a div b"] assms(1,2) t(2) by auto
  then show ?thesis using assms(1) by (simp add: int64x64_Udiv_def t(1) Let_def)
qed

text \<open>The quotient of two integers.\<close>

lemma Div_integers:
  assumes "x < 2 ^ 63" "0 < y" "y < 2 ^ 63"
  shows "int64x64_Div (int64x64_of_int (int x)) (int64x64_of_int (int y)) = Some (int (x * 2 ^ 64 div y))"
proof -
  have nat: "nat \<bar>int64x64_of_int (int n)\<bar> = n * 2 ^ 64" for n
    by (simp add: int64x64_of_int_def nat_mult_distrib abs_mult)
  have "x * 2 ^ 64 * 2 ^ 64 div (y * 2 ^ 64) = x * 2 ^ 64 div y" by (rule div_mult_mult2) simp
  moreover have "x * 2 ^ 64 < 2 ^ 128" using assms(1) by simp
  then have "x * 2 ^ 64 div y < 2 ^ 128" by (rule order_le_less_trans [OF div_le_dividend])
  moreover have "int64x64_Udiv (x * 2 ^ 64) (y * 2 ^ 64) = Some (x * 2 ^ 64 * 2 ^ 64 div (y * 2 ^ 64) mod 2 ^ 128)"
    using assms by (intro Udiv_exact) simp_all
  ultimately have "int64x64_Udiv (x * 2 ^ 64) (y * 2 ^ 64) = Some (x * 2 ^ 64 div y)" by simp
  moreover have "\<not> int64x64_of_int (int n) < 0" for n by (simp add: int64x64_of_int_def)
  ultimately show ?thesis by (simp add: int64x64_Div_def nat)
qed

text \<open>the long division of \<open>int64x64_t::Udiv\<close>, with its skipped and cast-off bits, loses nothing: for a divisor
  that is not zero, the quotient of two Q64.64 numbers is the exact quotient cut off towards zero at the last
  digit of the format, whenever it fits; the division by zero has no result.
\<close>
theorem Div_truncates:
  assumes "\<bar>v\<bar> \<le> 2 ^ 127" "\<bar>p\<bar> < 2 ^ 127" "p \<noteq> 0 \<longrightarrow> \<bar>v\<bar> * 2 ^ 64 div \<bar>p\<bar> < 2 ^ 127"
  shows "int64x64_Div v p = (if p = 0 then None else Some (sgn v * sgn p * (\<bar>v\<bar> * 2 ^ 64 div \<bar>p\<bar>)))"
proof (cases "p = 0")
  case True
  then show ?thesis by (simp add: int64x64_Div_def int64x64_Udiv_def)
next
  case False
  let ?q = "nat \<bar>v\<bar> * 2 ^ 64 div nat \<bar>p\<bar>"
  have q: "int ?q = \<bar>v\<bar> * 2 ^ 64 div \<bar>p\<bar>" by (simp add: zdiv_int)
  then have "int ?q < 2 ^ 127" using assms(3) False by simp
  then have "?q < 2 ^ 127" by simp
  then have "?q mod 2 ^ 128 = ?q" by simp
  moreover have "int64x64_Udiv (nat \<bar>v\<bar>) (nat \<bar>p\<bar>) = Some (?q mod 2 ^ 128)"
    using assms False by (intro Udiv_exact) (simp_all add: nat_less_iff)
  ultimately have "int64x64_Udiv (nat \<bar>v\<bar>) (nat \<bar>p\<bar>) = Some ?q" by simp
  then show ?thesis using False q by (auto simp: int64x64_Div_def sgn_if)
qed

theorem Div_truncates_witness:
  "int64x64_Div (- 3 * 2 ^ 64) (2 ^ 65) = Some (- 27670116110564327424)"
  using Div_truncates [of "- 3 * 2 ^ 64" "2 ^ 65"] by simp

subsection \<open>Multiplication by an inverse\<close>

lemma UmulByInvert_int:
  assumes "m < 2 ^ 64" "m * q < 2 ^ 192"
  shows "int64x64_UmulByInvert (m * 2 ^ 64) q = m * q div 2 ^ 64"
proof -
  let ?h = "q div 2 ^ 64" and ?l = "q mod 2 ^ 64"
  have "m * q = (m * ?h) * 2 ^ 64 + m * ?l"
    by (metis add_mult_distrib2 div_mult_mod_eq mult.assoc)
  then have sum: "m * q div 2 ^ 64 = m * ?h + m * ?l div 2 ^ 64" by simp
  have "m * q div 2 ^ 64 < 2 ^ 128" using assms(2) by (intro less_mult_imp_div_less) (simp flip: power_add)
  then have bounds: "m * ?h < 2 ^ 128" "m * ?h + m * ?l div 2 ^ 64 < 2 ^ 128" using sum by linarith+
  have "m * ?l < 2 ^ 64 * 2 ^ 64" using assms(1) by (intro mult_strict_mono) simp_all
  then have "m * ?l mod 2 ^ 128 = m * ?l" by simp
  then have "int64x64_UmulByInvert (m * 2 ^ 64) q = m * ?h + m * ?l div 2 ^ 64"
    using bounds by (simp add: int64x64_UmulByInvert_def Let_def)
  then show ?thesis using sum by simp
qed

lemma MulByInvert_int:
  assumes "\<bar>m\<bar> < 2 ^ 64" "nat \<bar>m\<bar> * q < 2 ^ 192"
  shows "int64x64_MulByInvert (int64x64_of_int m) q = sgn m * int (nat \<bar>m\<bar> * q div 2 ^ 64)"
proof -
  have eq: "nat \<bar>m * 2 ^ 64\<bar> = nat \<bar>m\<bar> * 2 ^ 64" by (simp add: abs_mult nat_mult_distrib)
  have "nat \<bar>m\<bar> < 2 ^ 64" using assms(1) by (simp add: nat_less_iff)
  note u = UmulByInvert_int [OF this assms(2)]
  have "int64x64_MulByInvert (int64x64_of_int m) q =
      (if m < 0 then - int (int64x64_UmulByInvert (nat \<bar>m * 2 ^ 64\<bar>) q) else int (int64x64_UmulByInvert (nat \<bar>m * 2 ^ 64\<bar>) q))"
    by (simp add: int64x64_MulByInvert_def int64x64_of_int_def Let_def mult_less_0_iff abs_if)
  then show ?thesis unfolding eq u by (auto simp: sgn_if)
qed

text \<open>\<open>Invert\<close> rounds up, so that the product of a number and its inverse is not below 1.\<close>

lemma Invert_exact:
  assumes "1 < v" "v < 2 ^ 63"
  shows "int64x64_Invert v = Some (if v dvd 2 ^ 128 then 2 ^ 128 div v else 2 ^ 128 div v + 1)"
proof -
  let ?q = "2 ^ 128 div v :: nat"
  have "?q < 2 ^ 128" using assms(1) by (intro div_less_dividend) simp_all
  moreover have "int64x64_Udiv (2 ^ 64) v = Some (2 ^ 64 * 2 ^ 64 div v mod 2 ^ 128)"
    using assms by (intro Udiv_exact) simp_all
  ultimately have div: "int64x64_Udiv (2 ^ 64) v = Some ?q" by simp
  have le: "v * ?q \<le> 2 ^ 128" by simp
  have "(2 :: nat) ^ 128 < 2 ^ 192" by (rule power_strict_increasing) simp_all
  then have "nat \<bar>int v\<bar> * ?q < 2 ^ 192" using le by (simp only: abs_of_nat nat_int)
  then have "int64x64_MulByInvert (int64x64_of_int (int v)) ?q = int (v * ?q div 2 ^ 64)"
    using MulByInvert_int [of "int v" ?q] assms by simp
  then have "int64x64_GetHigh (int64x64_MulByInvert (int64x64_of_int (int v)) ?q) = int (v * ?q div 2 ^ 64 div 2 ^ 64)"
    by (simp add: int64x64_GetHigh_def zdiv_int)
  also have "v * ?q div 2 ^ 64 div 2 ^ 64 = v * ?q div 2 ^ 128" by (simp only: div_mult2_eq [symmetric] power_add [symmetric]) simp
  also have "\<dots> = (if v dvd 2 ^ 128 then 1 else 0)"
  proof (cases "v dvd 2 ^ 128")
    case False
    then have "v * ?q < 2 ^ 128" using le by (metis dvd_triv_left order_le_imp_less_or_eq)
    then show ?thesis using False by simp
  qed simp
  finally show ?thesis unfolding int64x64_Invert_def div by (simp only: option.map) simp
qed

lemma GetDouble_eq: "int64x64_GetDouble v = real_of_int v / 2 ^ 64"
proof -
  have parts: "real_of_int (w div 2 ^ 64) + real_of_int (w mod 2 ^ 64) / 2 ^ 64 = real_of_int w / 2 ^ 64" for w :: int
  proof -
    have "real_of_int w = real_of_int (w div 2 ^ 64 * 2 ^ 64 + w mod 2 ^ 64)" by (simp only: div_mult_mod_eq)
    then have "real_of_int w = real_of_int (w div 2 ^ 64) * 2 ^ 64 + real_of_int (w mod 2 ^ 64)"
      by (simp only: of_int_add of_int_mult of_int_power of_int_numeral)
    then show ?thesis by (simp add: add_divide_distrib)
  qed
  show ?thesis
  proof (cases "v < 0")
    case True
    then show ?thesis unfolding int64x64_GetDouble_def Let_def by (simp only: if_True parts of_int_minus)
  next
    case False
    then show ?thesis unfolding int64x64_GetDouble_def Let_def by (simp only: if_False parts)
  qed
qed

end
