(* ===== verification/Ns_Time.thy ===== *)
theory Ns_Time
  imports Int64x64
begin

text \<open>
  Simulation time, after \<open>src/src/core/model/nstime.h\<close> and \<open>time.cc\<close>. A \<open>Time\<close> is a signed 64-bit number of
  the resolution unit, which is nanoseconds unless the program changes it; every conversion goes through
  the table that \<open>SetResolution\<close> fills and the Q64.64 numbers of \<^theory_text>\<open>Int64x64\<close>. \<open>double\<close> is
  \<^typ>\<open>real\<close>: the rounding of floating-point arithmetic is not modelled, the rounding the code does
  itself (to Q64.64, then to whole units) is.
\<close>

subsection \<open>Units\<close>

datatype time_unit = U_Y | U_D | U_H | U_MIN | U_S | U_MS | U_US | U_NS | U_PS | U_FS

definition UNIT_POWER :: "time_unit \<Rightarrow> int" where
  "UNIT_POWER u = (case u of U_Y \<Rightarrow> 17 | U_D \<Rightarrow> 17 | U_H \<Rightarrow> 17 | U_MIN \<Rightarrow> 16 | U_S \<Rightarrow> 15 | U_MS \<Rightarrow> 12 | U_US \<Rightarrow> 9 | U_NS \<Rightarrow> 6
     | U_PS \<Rightarrow> 3 | U_FS \<Rightarrow> 0)"

definition UNIT_COEFF :: "time_unit \<Rightarrow> int" where
  "UNIT_COEFF u = (case u of U_Y \<Rightarrow> 315360 | U_D \<Rightarrow> 864 | U_H \<Rightarrow> 36 | U_MIN \<Rightarrow> 6 | U_S \<Rightarrow> 1 | U_MS \<Rightarrow> 1 | U_US \<Rightarrow> 1 | U_NS \<Rightarrow> 1
     | U_PS \<Rightarrow> 1 | U_FS \<Rightarrow> 1)"

text \<open>How to convert between a unit and the current one.\<close>

record Information =
  toMul :: bool
  fromMul :: bool
  info_factor :: int
  timeTo :: nat
  timeFrom :: nat

text \<open>
  The body of the loop of \<open>SetResolution\<close>; \<^const>\<open>None\<close> marks an invalid entry. \<open>realFactor\<close> is the
  quotient \<open>num / den\<close>. A \<open>timeTo\<close> or \<open>timeFrom\<close> is the \<open>_v\<close> of a Q64.64 number.
\<close>

definition SetResolution_info :: "time_unit \<Rightarrow> time_unit \<Rightarrow> Information option" where
  "SetResolution_info unit i =
     (let shift = UNIT_POWER i - UNIT_POWER unit;
          quotient = (if UNIT_COEFF i > UNIT_COEFF unit then UNIT_COEFF i div UNIT_COEFF unit
                      else if UNIT_COEFF i < UNIT_COEFF unit then UNIT_COEFF unit div UNIT_COEFF i else 1);
          factor = 10 ^ nat \<bar>shift\<bar> * quotient;
          num = (if shift \<ge> 0 then 10 ^ nat shift else 1) * UNIT_COEFF i;
          den = (if shift \<ge> 0 then 1 else 10 ^ nat (- shift)) * UNIT_COEFF unit
      in if factor > 2 ^ 63 - 1 then None
         else if shift = 0 \<and> quotient = 1
         then Some \<lparr>toMul = True, fromMul = True, info_factor = factor, timeTo = 2 ^ 64, timeFrom = 2 ^ 64\<rparr>
         else if num > den
         then Some \<lparr>toMul = False, fromMul = True, info_factor = factor, timeTo = the (int64x64_Invert (nat factor)),
                timeFrom = nat (int64x64_of_int factor)\<rparr>
         else Some \<lparr>toMul = True, fromMul = False, info_factor = factor, timeTo = nat (int64x64_of_int factor),
                timeFrom = the (int64x64_Invert (nat factor))\<rparr>)"

text \<open>The entries at the default resolution; all of them are valid.\<close>

definition PeekInformation :: "time_unit \<Rightarrow> Information" where
  "PeekInformation u = the (SetResolution_info U_NS u)"

subsection \<open>Conversions\<close>

definition Time_of_int64x64 :: "int \<Rightarrow> int64" where
  "Time_of_int64x64 v = word_of_int (int64x64_Round v)"

definition Time_From :: "int \<Rightarrow> time_unit \<Rightarrow> int64" where
  "Time_From value u =
     (let info = PeekInformation u
      in Time_of_int64x64 (if fromMul info then int64x64_Mul value (int (timeFrom info))
                           else int64x64_MulByInvert value (timeFrom info)))"

definition Time_FromDouble :: "real \<Rightarrow> time_unit \<Rightarrow> int64" where
  "Time_FromDouble value u = Time_From (int64x64_of_double value) u"

definition Time_FromInteger :: "uint64 \<Rightarrow> time_unit \<Rightarrow> int64" where
  "Time_FromInteger value u =
     (let info = PeekInformation u
      in if fromMul info then value * word_of_int (info_factor info) else value div word_of_int (info_factor info))"

definition Time_To :: "int64 \<Rightarrow> time_unit \<Rightarrow> int" where
  "Time_To t u =
     (let info = PeekInformation u; retval = int64x64_of_int (sint t)
      in if toMul info then int64x64_Mul retval (int (timeTo info)) else int64x64_MulByInvert retval (timeTo info))"

definition Time_ToDouble :: "int64 \<Rightarrow> time_unit \<Rightarrow> real" where
  "Time_ToDouble t u = int64x64_GetDouble (Time_To t u)"

definition Time_ToInteger :: "int64 \<Rightarrow> time_unit \<Rightarrow> int64" where
  "Time_ToInteger t u =
     (let info = PeekInformation u
      in if toMul info then t * word_of_int (info_factor info)
         else word_of_int (sgn (sint t) * (\<bar>sint t\<bar> div info_factor info)))"

definition Seconds :: "real \<Rightarrow> int64" where
  "Seconds value = Time_FromDouble value U_S"

definition Seconds_Q :: "int \<Rightarrow> int64" where
  "Seconds_Q value = Time_From value U_S"

definition MilliSeconds :: "uint64 \<Rightarrow> int64" where
  "MilliSeconds value = Time_FromInteger value U_MS"

definition MicroSeconds :: "uint64 \<Rightarrow> int64" where
  "MicroSeconds value = Time_FromInteger value U_US"

definition NanoSeconds :: "uint64 \<Rightarrow> int64" where
  "NanoSeconds value = Time_FromInteger value U_NS"

definition GetSeconds :: "int64 \<Rightarrow> real" where
  "GetSeconds t = Time_ToDouble t U_S"

definition GetMilliSeconds :: "int64 \<Rightarrow> int64" where
  "GetMilliSeconds t = Time_ToInteger t U_MS"

definition Time_IsPositive :: "int64 \<Rightarrow> bool" where
  "Time_IsPositive t \<longleftrightarrow> sint t \<ge> 0"

subsection \<open>The table at the default resolution\<close>

lemma PeekInformation_mul:
  "PeekInformation U_NS = \<lparr>toMul = True, fromMul = True, info_factor = 1, timeTo = 2 ^ 64, timeFrom = 2 ^ 64\<rparr>"
  "fromMul (PeekInformation U_S)" "timeFrom (PeekInformation U_S) = 10 ^ 9 * 2 ^ 64" "info_factor (PeekInformation U_S) = 10 ^ 9"
  "\<not> toMul (PeekInformation U_S)"
  "fromMul (PeekInformation U_MS)" "info_factor (PeekInformation U_MS) = 10 ^ 6" "\<not> toMul (PeekInformation U_MS)"
  "fromMul (PeekInformation U_US)" "info_factor (PeekInformation U_US) = 10 ^ 3" "\<not> toMul (PeekInformation U_US)"
  by (simp_all add: PeekInformation_def SetResolution_info_def UNIT_POWER_def UNIT_COEFF_def int64x64_of_int_def Let_def)

definition inv_1e9 :: nat where
  "inv_1e9 = 2 ^ 128 div 10 ^ 9 + 1"

lemma timeTo_S: "timeTo (PeekInformation U_S) = inv_1e9"
proof -
  have "\<not> (10 :: nat) ^ 9 dvd 2 ^ 128" by simp
  moreover have "timeTo (PeekInformation U_S) = the (int64x64_Invert (10 ^ 9))"
    by (simp add: PeekInformation_def SetResolution_info_def UNIT_POWER_def UNIT_COEFF_def int64x64_of_int_def Let_def)
  ultimately show ?thesis using Invert_exact [of "10 ^ 9"] by (simp add: inv_1e9_def)
qed

lemma Seconds_eq: "Seconds value = word_of_int (int64x64_Round (int64x64_Mul (int64x64_of_double value) (10 ^ 9 * 2 ^ 64)))"
  by (simp add: Seconds_def Time_FromDouble_def Time_From_def Time_of_int64x64_def PeekInformation_mul Let_def)

subsection \<open>Accuracy of the conversion\<close>

lemma of_double_nonneg_eq:
  assumes "0 \<le> x"
  shows "int64x64_of_double x = \<lfloor>x * 2 ^ 64 + 1 / 2\<rfloor>"
proof -
  let ?n = "\<lfloor>x\<rfloor>" and ?f = "(x - of_int \<lfloor>x\<rfloor>) * 2 ^ 64 + 1 / 2"
  have shift: "\<lfloor>x * 2 ^ 64 + 1 / 2\<rfloor> = ?n * 2 ^ 64 + \<lfloor>?f\<rfloor>"
  proof -
    have "x * 2 ^ 64 + 1 / 2 = of_int (?n * 2 ^ 64) + ?f" by (simp add: algebra_simps)
    then show ?thesis by (metis floor_add_int add.commute)
  qed
  have f: "0 \<le> ?f" "?f < 2 ^ 64 + 1"
    by (simp_all, linarith+)
  show ?thesis
  proof (cases "?f \<ge> 2 ^ 64")
    case True
    have "\<lfloor>?f\<rfloor> = 2 ^ 64" by (rule floor_unique) (use True f in simp_all)
    with True show ?thesis using assms shift by (simp add: int64x64_of_double_def Let_def algebra_simps)
  next
    case False
    have "0 \<le> \<lfloor>?f\<rfloor>" "\<lfloor>?f\<rfloor> < 2 ^ 64" using f(1) False by (simp_all add: floor_less_iff)
    with False show ?thesis using assms shift by (simp add: int64x64_of_double_def Let_def)
  qed
qed

lemma Umul_by_int:
  assumes "0 \<le> a" "0 \<le> k" "k < 2 ^ 64" "a div 2 ^ 64 * k < 2 ^ 64" "a < 2 ^ 128"
  shows "int64x64_Umul a (k * 2 ^ 64) = a * k"
proof -
  have aH: "a div 2 ^ 64 mod 2 ^ 64 = a div 2 ^ 64" using assms by simp
  have hi: "a div 2 ^ 64 * k mod 2 ^ 64 = a div 2 ^ 64 * k" using assms by simp
  let ?mid = "a mod 2 ^ 64 * k"
  have "int64x64_Umul a (k * 2 ^ 64) =
      ?mid mod 2 ^ 64 + (?mid div 2 ^ 64 + a div 2 ^ 64 * k) * 2 ^ 64"
    using assms aH hi by (simp add: int64x64_Umul_def Let_def)
  also have "\<dots> = ?mid + a div 2 ^ 64 * k * 2 ^ 64"
    by (simp only: distrib_right add.assoc [symmetric] mod_div_mult_eq)
  also have "\<dots> = (a mod 2 ^ 64 + a div 2 ^ 64 * 2 ^ 64) * k"
    by (simp only: ring_distribs mult_ac)
  also have "a mod 2 ^ 64 + a div 2 ^ 64 * 2 ^ 64 = a" by (rule mod_div_mult_eq)
  finally show ?thesis .
qed

definition ns_of :: "real \<Rightarrow> int" where
  "ns_of d = (\<lfloor>d * 2 ^ 64 + 1 / 2\<rfloor> * 10 ^ 9 + 2 ^ 63) div 2 ^ 64"

lemma Seconds_ns_of:
  assumes "0 \<le> d" "d < 2 ^ 32"
  shows "Seconds d = word_of_int (ns_of d)"
proof -
  let ?a = "\<lfloor>d * 2 ^ 64 + 1 / 2\<rfloor>"
  have a: "0 \<le> ?a" using assms(1) by simp
  have le: "?a \<le> 2 ^ 96" using assms(2) by (simp add: floor_le_iff)
  have "?a div 2 ^ 64 \<le> 2 ^ 96 div 2 ^ 64" using le by (rule zdiv_mono1) simp
  then have "?a div 2 ^ 64 * 10 ^ 9 < 2 ^ 64" by simp
  then have "int64x64_Umul ?a (10 ^ 9 * 2 ^ 64) = ?a * 10 ^ 9"
    using Umul_by_int [of ?a "10 ^ 9"] a le by simp
  then show ?thesis
    using a assms(1)
    by (simp add: Seconds_eq of_double_nonneg_eq int64x64_Mul_def
        int64x64_of_int_def int64x64_Round_def Let_def ns_of_def)
qed

lemma ns_of_bounds:
  assumes "0 \<le> d" "d < 2 ^ 32"
  shows "0 \<le> ns_of d" "ns_of d < 2 ^ 63"
    "\<bar>of_int (ns_of d) - d * 10 ^ 9\<bar> \<le> 1 / 2 + 10 ^ 9 / 2 ^ 65"
proof -
  let ?a = "\<lfloor>d * 2 ^ 64 + 1 / 2\<rfloor>"
  let ?n = "?a * 10 ^ 9 + 2 ^ 63"
  have a: "of_int ?a \<le> d * 2 ^ 64 + 1 / 2" "d * 2 ^ 64 - 1 / 2 < of_int ?a" "0 \<le> ?a"
    using assms(1) by (linarith, linarith, simp)
  have q: "real_of_int (ns_of d) \<le> of_int ?n / 2 ^ 64" "of_int ?n / 2 ^ 64 - 1 < real_of_int (ns_of d)"
    using floor_divide_of_int_eq [of ?n "2 ^ 64", where 'a = real]
    by (simp_all add: ns_of_def) linarith+
  have n: "real_of_int ?n / 2 ^ 64 = of_int ?a * 10 ^ 9 / 2 ^ 64 + 1 / 2"
    by (simp add: field_simps)
  have up: "real_of_int (ns_of d) \<le> d * 10 ^ 9 + 10 ^ 9 / 2 ^ 65 + 1 / 2"
    using q(1) a(1) unfolding n by (simp add: field_simps)
  have low: "d * 10 ^ 9 - 10 ^ 9 / 2 ^ 65 - 1 / 2 \<le> real_of_int (ns_of d)"
    using q(2) a(2) unfolding n by (simp add: field_simps)
  show "0 \<le> ns_of d" unfolding ns_of_def using a(3)
    by (intro pos_imp_zdiv_nonneg_iff [THEN iffD2]) simp_all
  have "d * 10 ^ 9 < 2 ^ 62" using assms(2) by simp
  then have "real_of_int (ns_of d) < of_int (2 ^ 63)" using up by simp
  then show "ns_of d < 2 ^ 63" by (simp only: of_int_less_iff)
  show "\<bar>of_int (ns_of d) - d * 10 ^ 9\<bar> \<le> 1 / 2 + 10 ^ 9 / 2 ^ 65" using up low by linarith
qed

lemma sint_Seconds:
  assumes "0 \<le> d" "d < 2 ^ 32"
  shows "sint (Seconds d) = ns_of d"
proof -
  have "- (2 ^ 63) \<le> ns_of d" "ns_of d < 2 ^ 63" using ns_of_bounds(1,2) [OF assms] by auto
  then show ?thesis
    unfolding Seconds_ns_of [OF assms] by (simp add: sint_sbintrunc' signed_take_bit_int_eq_self)
qed

lemma ns_of_nat: "ns_of (of_nat n) = int n * 10 ^ 9"
proof -
  have "\<lfloor>real n * 2 ^ 64 + 1 / 2\<rfloor> = int n * 2 ^ 64"
    by (rule floor_unique) simp_all
  then have "ns_of (of_nat n) = (2 ^ 63 + (int n * 10 ^ 9) * 2 ^ 64) div 2 ^ 64"
    by (simp add: ns_of_def algebra_simps)
  also have "\<dots> = int n * 10 ^ 9 + 2 ^ 63 div 2 ^ 64" by (rule div_mult_self1) simp
  finally show ?thesis by simp
qed

lemma Seconds_nonneg: "0 \<le> d \<Longrightarrow> d < 2 ^ 32 \<Longrightarrow> Time_IsPositive (Seconds d)"
  by (simp add: Time_IsPositive_def sint_Seconds ns_of_bounds)

subsection \<open>Seconds of a time\<close>

lemma GetSeconds_eq:
  "GetSeconds t = of_int (sgn (sint t) * int (nat \<bar>sint t\<bar> * inv_1e9 div 2 ^ 64)) / 2 ^ 64"
proof -
  have m: "\<bar>sint t\<bar> < 2 ^ 64" using sint_lt [of t] sint_ge [of t] by simp
  have "nat \<bar>sint t\<bar> * inv_1e9 < 2 ^ 64 * 2 ^ 128"
    using m by (intro mult_strict_mono) (simp_all add: nat_less_iff inv_1e9_def)
  then have "int64x64_MulByInvert (int64x64_of_int (sint t)) inv_1e9 = sgn (sint t) * int (nat \<bar>sint t\<bar> * inv_1e9 div 2 ^ 64)"
    using MulByInvert_int [OF m] by (simp add: power_add [symmetric])
  then show ?thesis
    by (simp add: GetSeconds_def Time_ToDouble_def Time_To_def PeekInformation_mul timeTo_S GetDouble_eq Let_def)
qed

text \<open>Seconds as a number of 64-bit fractions: strictly increasing in the time, and close to it.\<close>

definition sec_frac :: "int \<Rightarrow> int" where
  "sec_frac n = sgn n * int (nat \<bar>n\<bar> * inv_1e9 div 2 ^ 64)"

lemma inv_1e9_bounds: "2 ^ 128 < 10 ^ 9 * inv_1e9" "10 ^ 9 * inv_1e9 \<le> 2 ^ 128 + 10 ^ 9" "2 ^ 64 \<le> inv_1e9"
  by (simp_all add: inv_1e9_def)

lemma frac_step: "a < b \<Longrightarrow> a * inv_1e9 div 2 ^ 64 < b * inv_1e9 div 2 ^ 64"
proof -
  assume "a < b"
  then have "Suc a * inv_1e9 \<le> b * inv_1e9" by (intro mult_le_mono1) simp
  moreover have "a * inv_1e9 + 2 ^ 64 \<le> Suc a * inv_1e9" using inv_1e9_bounds(3) by simp
  ultimately have "(a * inv_1e9 + 2 ^ 64) div 2 ^ 64 \<le> b * inv_1e9 div 2 ^ 64" by (intro div_le_mono) (rule order.trans)
  then show ?thesis by simp
qed

lemma sec_frac_less: "a < b \<Longrightarrow> sec_frac a < sec_frac b"
proof -
  assume less: "a < b"
  have pos: "0 < nat \<bar>n\<bar> * inv_1e9 div 2 ^ 64" if "n \<noteq> 0" for n :: int
    using frac_step [of 0 "nat \<bar>n\<bar>"] that by simp
  consider "0 \<le> a" | "a < 0" "0 \<le> b" | "b < 0" using less by linarith
  then show ?thesis
  proof cases
    case 1
    then have "nat a * inv_1e9 div 2 ^ 64 < nat b * inv_1e9 div 2 ^ 64" using less by (intro frac_step) simp
    then show ?thesis using 1 less by (simp add: sec_frac_def sgn_if)
  next
    case 2
    then show ?thesis using pos [of a] by (simp add: sec_frac_def sgn_if)
  next
    case 3
    then have "nat (- b) * inv_1e9 div 2 ^ 64 < nat (- a) * inv_1e9 div 2 ^ 64" using less by (intro frac_step) simp
    then show ?thesis using 3 less by (simp add: sec_frac_def sgn_if)
  qed
qed

lemma GetSeconds_less_iff [simp]: "GetSeconds t < GetSeconds t' \<longleftrightarrow> sint t < sint t'"
proof -
  have eq: "GetSeconds t = of_int (sec_frac (sint t)) / 2 ^ 64" for t by (simp only: GetSeconds_eq sec_frac_def)
  have "GetSeconds t < GetSeconds t' \<longleftrightarrow> sec_frac (sint t) < sec_frac (sint t')"
    unfolding eq by (simp add: divide_less_cancel)
  also have "\<dots> \<longleftrightarrow> sint t < sint t'" by (metis sec_frac_less linorder_neqE less_asym)
  finally show ?thesis .
qed

lemma GetSeconds_inject [simp]: "GetSeconds t = GetSeconds t' \<longleftrightarrow> t = t'"
  by (metis GetSeconds_less_iff less_irrefl linorder_neqE signed_word_eqI)

text \<open>The value is the exact one, up to one part in \<open>2 ^ 64\<close>.\<close>

lemma sec_frac_accuracy:
  assumes "\<bar>n\<bar> \<le> 2 ^ 63"
  shows "\<bar>of_int (sec_frac n) / 2 ^ 64 - real_of_int n / 10 ^ 9\<bar> \<le> 1 / 2 ^ 64"
proof -
  define m where "m = nat \<bar>n\<bar>"
  have m: "m \<le> 2 ^ 63" using assms by (simp add: m_def nat_le_iff)
  define g where "g = m * inv_1e9 div 2 ^ 64"
  have g: "g * 2 ^ 64 \<le> m * inv_1e9" "m * inv_1e9 < g * 2 ^ 64 + 2 ^ 64"
    unfolding g_def by (simp, metis div_mult_mod_eq mod_less_divisor add_strict_left_mono zero_less_numeral zero_less_power)
  have up: "m * (10 ^ 9 * inv_1e9) \<le> m * (2 ^ 128 + 10 ^ 9)" and low: "m * 2 ^ 128 \<le> m * (10 ^ 9 * inv_1e9)"
    using inv_1e9_bounds(1,2) by (intro mult_le_mono2; simp)+
  have "10 ^ 9 * (g * 2 ^ 64) \<le> 10 ^ 9 * (m * inv_1e9)" by (rule mult_le_mono2 [OF g(1)])
  also have "\<dots> \<le> m * 2 ^ 128 + m * 10 ^ 9"
    using up by (simp only: mult.left_commute [of "10 ^ 9"] add_mult_distrib2)
  also have "\<dots> \<le> m * 2 ^ 128 + 2 ^ 63 * 10 ^ 9" using m by simp
  finally have a: "10 ^ 9 * g * 2 ^ 64 \<le> m * 2 ^ 128 + 2 ^ 63 * 10 ^ 9" by (simp only: mult.assoc)
  have "10 ^ 9 * (m * inv_1e9) < 10 ^ 9 * (g * 2 ^ 64 + 2 ^ 64)" using g(2) by simp
  then have "m * 2 ^ 128 < 10 ^ 9 * (g * 2 ^ 64 + 2 ^ 64)"
    using low unfolding mult.left_commute [of m] by (rule order_le_less_trans [rotated])
  then have b: "m * 2 ^ 128 < 10 ^ 9 * g * 2 ^ 64 + 10 ^ 9 * 2 ^ 64" by (simp only: add_mult_distrib2 mult.assoc)
  have "\<bar>real g / 2 ^ 64 - real m / 10 ^ 9\<bar> \<le> 1 / 2 ^ 64"
  proof -
    have "real (10 ^ 9 * g * 2 ^ 64) \<le> real (m * 2 ^ 128 + 2 ^ 63 * 10 ^ 9)" using a by (simp only: of_nat_le_iff)
    moreover have "real (m * 2 ^ 128) < real (10 ^ 9 * g * 2 ^ 64 + 10 ^ 9 * 2 ^ 64)" using b by (simp only: of_nat_less_iff)
    ultimately show ?thesis by (simp add: abs_le_iff field_simps)
  qed
  moreover have "of_int (sec_frac n) / 2 ^ 64 - real_of_int n / 10 ^ 9 = sgn (of_int n) * (real g / 2 ^ 64 - real m / 10 ^ 9)"
    by (simp add: sec_frac_def g_def m_def sgn_if abs_if)
  ultimately show ?thesis by (simp add: abs_mult abs_sgn_eq)
qed

lemma GetSeconds_accuracy: "\<bar>GetSeconds t - of_int (sint t) / 10 ^ 9\<bar> \<le> 1 / 2 ^ 64"
  using sec_frac_accuracy [of "sint t"] sint_lt [of t] sint_ge [of t] unfolding GetSeconds_eq sec_frac_def by simp

lemma GetSeconds_Seconds_nat:
  assumes "n < 2 ^ 32"
  shows "GetSeconds (Seconds (of_nat n)) = of_nat n"
proof -
  have s: "sint (Seconds (of_nat n)) = int n * 10 ^ 9"
    using sint_Seconds [of "of_nat n"] ns_of_nat [of n] assms by simp
  obtain d where d: "10 ^ 9 * inv_1e9 = 2 ^ 128 + d" "d \<le> 10 ^ 9"
    using inv_1e9_bounds(1,2) by (metis le_add_diff_inverse less_imp_le nat_add_left_cancel_le)
  have "n * d \<le> 2 ^ 32 * 10 ^ 9" using assms d(2) by (intro mult_le_mono) simp_all
  then have small: "n * d < 2 ^ 64" by simp
  have "n * 10 ^ 9 * inv_1e9 = n * d + (n * 2 ^ 64) * 2 ^ 64"
    using d(1) by (simp add: mult.assoc distrib_left)
  then have "n * 10 ^ 9 * inv_1e9 div 2 ^ 64 = n * 2 ^ 64" using small by (simp only: div_mult_self1) simp
  moreover have "nat \<bar>int n * 10 ^ 9\<bar> = n * 10 ^ 9" by (simp add: nat_mult_distrib)
  ultimately have frac: "nat \<bar>int n * 10 ^ 9\<bar> * inv_1e9 div 2 ^ 64 = n * 2 ^ 64" by (simp only:)
  show ?thesis unfolding GetSeconds_eq s frac by (cases "n = 0") (simp_all add: sgn_mult)
qed

end
