(* ===== verification/Simulator.thy ===== *)
theory Simulator
  imports Scheduler Ns_Time
begin

text \<open>
  \<open>DefaultSimulatorImpl\<close> (\<open>src/src/core/model/default-simulator-impl.cc\<close>) with the
  event objects and identifiers it hands out (\<open>event-impl.cc\<close>, \<open>event-id.cc\<close>). The
  simulator is generic in the scheduler (a record of operations, the C++ vtable) and in what an
  event does (the handler). Event objects live in a store indexed by address, because
  \<open>Cancel\<close> reaches an event through the pointer kept in an \<open>EventId\<close> while the same
  event sits in the queue. A simulation that uses the simulator extends its state record.
  A failing \<open>NS_ASSERT\<close> ends the program: it is recorded in \<open>sim_fault\<close>, which stops the
  run. The reference counts of event objects are not modelled.
\<close>

subsection \<open>Events, identifiers, state\<close>

datatype 'e closure = SimulatorStop | Call 'e

record 'e EventImpl =
  closure :: "'e closure"
  m_cancel :: bool

definition EventImpl_new :: "'e closure \<Rightarrow> 'e EventImpl" where
  "EventImpl_new c = \<lparr>closure = c, m_cancel = False\<rparr>"

record EventId =
  id_impl :: impl_ptr
  id_ts :: uint64
  id_context :: uint32
  id_uid :: uint32

definition EventId_null :: EventId where
  "EventId_null = \<lparr>id_impl = 0, id_ts = 0, id_context = 0, id_uid = 0\<rparr>"

record EventWithContext =
  ewc_context :: uint32
  ewc_timestamp :: uint64
  ewc_event :: impl_ptr

datatype sim_fault = NegativeDelay | TimeWentBackwards | QueueUnderflow | DanglingImpl
  | NoSuchEvent | LostEvents

definition UID_INVALID :: uint32 where "UID_INVALID = 0"
definition UID_DESTROY :: uint32 where "UID_DESTROY = 2"
definition UID_VALID :: uint32 where "UID_VALID = 4"
definition NO_CONTEXT :: uint32 where "NO_CONTEXT = 0xffffffff"

record ('q, 'e) simulator =
  m_eventsWithContext :: "EventWithContext list"
  m_eventsWithContextEmpty :: bool
  m_destroyEvents :: "EventId list"
  m_stop :: bool
  sim_events :: 'q
  sim_uid :: uint32
  m_currentUid :: uint32
  m_currentTs :: uint64
  m_currentContext :: uint32
  m_eventCount :: uint64
  m_unscheduledEvents :: int
  impls :: "impl_ptr \<Rightarrow> 'e EventImpl option"
  next_impl :: nat
  fault :: "sim_fault option"

definition DefaultSimulatorImpl_init :: "'q \<Rightarrow> ('q, 'e) simulator" where
  "DefaultSimulatorImpl_init q =
     \<lparr>m_eventsWithContext = [], m_eventsWithContextEmpty = True, m_destroyEvents = [],
      m_stop = False, sim_events = q, sim_uid = UID_VALID, m_currentUid = UID_INVALID,
      m_currentTs = 0, m_currentContext = NO_CONTEXT, m_eventCount = 0,
      m_unscheduledEvents = 0, impls = Map.empty, next_impl = 1, fault = None\<rparr>"

definition raise_fault :: "sim_fault \<Rightarrow> ('q, 'e, 'z) simulator_scheme \<Rightarrow> ('q, 'e, 'z) simulator_scheme" where
  "raise_fault f s = (case fault s of None \<Rightarrow> s\<lparr>fault := Some f\<rparr> | Some _ \<Rightarrow> s)"

text \<open>\<open>MakeEvent\<close>: a new event object for a callback.\<close>

definition MakeEvent :: "'e closure \<Rightarrow> ('q, 'e, 'z) simulator_scheme \<Rightarrow> ('q, 'e, 'z) simulator_scheme" where
  "MakeEvent c s = s\<lparr>impls := (impls s)(next_impl s \<mapsto> EventImpl_new c), next_impl := Suc (next_impl s)\<rparr>"

definition EventImpl_IsCancelled :: "impl_ptr \<Rightarrow> ('q, 'e, 'z) simulator_scheme \<Rightarrow> bool" where
  "EventImpl_IsCancelled p s = (case impls s p of Some i \<Rightarrow> m_cancel i | None \<Rightarrow> False)"

definition EventImpl_Cancel :: "impl_ptr \<Rightarrow> ('q, 'e, 'z) simulator_scheme \<Rightarrow> ('q, 'e, 'z) simulator_scheme" where
  "EventImpl_Cancel p s =
     (case impls s p of
        Some i \<Rightarrow> s\<lparr>impls := (impls s)(p \<mapsto> i\<lparr>m_cancel := True\<rparr>)\<rparr>
      | None \<Rightarrow> s)"

type_synonym ('q, 'e, 'z) handler = "'e \<Rightarrow> ('q, 'e, 'z) simulator_scheme \<Rightarrow> ('q, 'e, 'z) simulator_scheme"

definition Simulator_Stop :: "('q, 'e, 'z) simulator_scheme \<Rightarrow> ('q, 'e, 'z) simulator_scheme" where
  "Simulator_Stop s = s\<lparr>m_stop := True\<rparr>"

definition Notify :: "('q, 'e, 'z) handler \<Rightarrow> 'e closure \<Rightarrow> ('q, 'e, 'z) simulator_scheme \<Rightarrow> ('q, 'e, 'z) simulator_scheme" where
  "Notify h c s = (case c of SimulatorStop \<Rightarrow> Simulator_Stop s | Call e \<Rightarrow> h e s)"

definition EventImpl_Invoke :: "('q, 'e, 'z) handler \<Rightarrow> impl_ptr \<Rightarrow> ('q, 'e, 'z) simulator_scheme \<Rightarrow> ('q, 'e, 'z) simulator_scheme" where
  "EventImpl_Invoke h p s =
     (case impls s p of
        None \<Rightarrow> raise_fault DanglingImpl s
      | Some i \<Rightarrow> (if \<not> m_cancel i then Notify h (closure i) s else s))"

subsection \<open>Scheduling\<close>

definition insert_event :: "'q scheduler_ops \<Rightarrow> uint64 \<Rightarrow> uint32 \<Rightarrow> impl_ptr \<Rightarrow>
    ('q, 'e, 'z) simulator_scheme \<Rightarrow> ('q, 'e, 'z) simulator_scheme" where
  "insert_event V ts ctx event s =
     s\<lparr>sim_uid := sim_uid s + 1,
       m_unscheduledEvents := m_unscheduledEvents s + 1,
       sim_events := op_Insert V \<lparr>impl = event,
                     key = \<lparr>m_ts = ts, m_uid = sim_uid s, m_context = ctx\<rparr>\<rparr> (sim_events s)\<rparr>"

definition DSI_Now :: "('q, 'e, 'z) simulator_scheme \<Rightarrow> int64" where
  "DSI_Now s = m_currentTs s"

definition DSI_Schedule :: "'q scheduler_ops \<Rightarrow> int64 \<Rightarrow> impl_ptr \<Rightarrow> ('q, 'e, 'z) simulator_scheme \<Rightarrow>
    EventId \<times> ('q, 'e, 'z) simulator_scheme" where
  "DSI_Schedule V delay event s =
     (if \<not> Time_IsPositive delay then (EventId_null, raise_fault NegativeDelay s)
      else let tAbsolute = delay + m_currentTs s
           in (\<lparr>id_impl = event, id_ts = tAbsolute, id_context = m_currentContext s,
                id_uid = sim_uid s\<rparr>,
               insert_event V tAbsolute (m_currentContext s) event s))"

text \<open>From the main thread the event is queued at once; another thread leaves it in the list
  that \<open>ProcessEventsWithContext\<close> empties.\<close>

definition DSI_ScheduleWithContext :: "'q scheduler_ops \<Rightarrow> bool \<Rightarrow> uint32 \<Rightarrow> int64 \<Rightarrow> impl_ptr \<Rightarrow>
    ('q, 'e, 'z) simulator_scheme \<Rightarrow> ('q, 'e, 'z) simulator_scheme" where
  "DSI_ScheduleWithContext V onMainThread context delay event s =
     (if onMainThread then insert_event V (delay + m_currentTs s) context event s
      else s\<lparr>m_eventsWithContext := m_eventsWithContext s @
               [\<lparr>ewc_context = context, ewc_timestamp = delay, ewc_event = event\<rparr>],
             m_eventsWithContextEmpty := False\<rparr>)"

definition DSI_ScheduleNow :: "'q scheduler_ops \<Rightarrow> impl_ptr \<Rightarrow> ('q, 'e, 'z) simulator_scheme \<Rightarrow>
    EventId \<times> ('q, 'e, 'z) simulator_scheme" where
  "DSI_ScheduleNow V event s = DSI_Schedule V 0 event s"

definition DSI_ScheduleDestroy :: "impl_ptr \<Rightarrow> ('q, 'e, 'z) simulator_scheme \<Rightarrow>
    EventId \<times> ('q, 'e, 'z) simulator_scheme" where
  "DSI_ScheduleDestroy event s =
     (let i = \<lparr>id_impl = event, id_ts = m_currentTs s, id_context = 0xffffffff, id_uid = UID_DESTROY\<rparr>
      in (i, s\<lparr>m_destroyEvents := m_destroyEvents s @ [i], sim_uid := sim_uid s + 1\<rparr>))"

definition DSI_Stop_delay :: "'q scheduler_ops \<Rightarrow> int64 \<Rightarrow> ('q, 'e, 'z) simulator_scheme \<Rightarrow>
    ('q, 'e, 'z) simulator_scheme" where
  "DSI_Stop_delay V delay s = snd (DSI_Schedule V delay (next_impl s) (MakeEvent SimulatorStop s))"

text \<open>\<open>Simulator::Schedule (delay, &f, args)\<close>: a new event object, then its scheduling.\<close>

definition Simulator_Schedule :: "'q scheduler_ops \<Rightarrow> int64 \<Rightarrow> 'e \<Rightarrow> ('q, 'e, 'z) simulator_scheme \<Rightarrow>
    ('q, 'e, 'z) simulator_scheme" where
  "Simulator_Schedule V delay e s = snd (DSI_Schedule V delay (next_impl s) (MakeEvent (Call e) s))"

subsection \<open>Cancelling and removing\<close>

definition DSI_IsExpired :: "EventId \<Rightarrow> ('q, 'e, 'z) simulator_scheme \<Rightarrow> bool" where
  "DSI_IsExpired i s =
     (if id_uid i = UID_DESTROY
      then (if id_impl i = 0 \<or> EventImpl_IsCancelled (id_impl i) s then True
            else i \<notin> set (m_destroyEvents s))
      else id_impl i = 0 \<or> id_ts i < m_currentTs s \<or>
           (id_ts i = m_currentTs s \<and> id_uid i \<le> m_currentUid s) \<or>
           EventImpl_IsCancelled (id_impl i) s)"

definition DSI_Cancel :: "EventId \<Rightarrow> ('q, 'e, 'z) simulator_scheme \<Rightarrow> ('q, 'e, 'z) simulator_scheme" where
  "DSI_Cancel i s = (if \<not> DSI_IsExpired i s then EventImpl_Cancel (id_impl i) s else s)"

definition DSI_Remove :: "'q scheduler_ops \<Rightarrow> EventId \<Rightarrow> ('q, 'e, 'z) simulator_scheme \<Rightarrow>
    ('q, 'e, 'z) simulator_scheme" where
  "DSI_Remove V i s =
     (if id_uid i = UID_DESTROY then s\<lparr>m_destroyEvents := remove1 i (m_destroyEvents s)\<rparr>
      else if DSI_IsExpired i s then s
      else (case op_Remove V \<lparr>impl = id_impl i, key = \<lparr>m_ts = id_ts i, m_uid = id_uid i,
                               m_context = id_context i\<rparr>\<rparr> (sim_events s) of
              None \<Rightarrow> raise_fault NoSuchEvent s
            | Some q \<Rightarrow> (EventImpl_Cancel (id_impl i) (s\<lparr>sim_events := q\<rparr>))
                         \<lparr>m_unscheduledEvents := m_unscheduledEvents s - 1\<rparr>))"

definition DSI_GetDelayLeft :: "EventId \<Rightarrow> ('q, 'e, 'z) simulator_scheme \<Rightarrow> int64" where
  "DSI_GetDelayLeft i s = (if DSI_IsExpired i s then 0 else id_ts i - m_currentTs s)"

subsection \<open>Running\<close>

definition DSI_ProcessEventsWithContext :: "'q scheduler_ops \<Rightarrow> ('q, 'e, 'z) simulator_scheme \<Rightarrow>
    ('q, 'e, 'z) simulator_scheme" where
  "DSI_ProcessEventsWithContext V s =
     (if m_eventsWithContextEmpty s then s
      else foldl (\<lambda>s ev. insert_event V (m_currentTs s + ewc_timestamp ev) (ewc_context ev) (ewc_event ev) s)
             (s\<lparr>m_eventsWithContext := [], m_eventsWithContextEmpty := True\<rparr>)
             (m_eventsWithContext s))"

definition start_event :: "Event \<Rightarrow> 'q \<Rightarrow> ('q, 'e, 'z) simulator_scheme \<Rightarrow> ('q, 'e, 'z) simulator_scheme" where
  "start_event next q s =
     s\<lparr>sim_events := q,
       m_unscheduledEvents := m_unscheduledEvents s - 1,
       m_eventCount := m_eventCount s + 1,
       m_currentTs := m_ts (key next),
       m_currentContext := m_context (key next),
       m_currentUid := m_uid (key next)\<rparr>"

definition DSI_ProcessOneEvent :: "'q scheduler_ops \<Rightarrow> ('q, 'e, 'z) handler \<Rightarrow>
    ('q, 'e, 'z) simulator_scheme \<Rightarrow> ('q, 'e, 'z) simulator_scheme" where
  "DSI_ProcessOneEvent V h s =
     (case op_RemoveNext V (sim_events s) of
        None \<Rightarrow> raise_fault QueueUnderflow s
      | Some (next, q) \<Rightarrow>
          (if \<not> m_ts (key next) \<ge> m_currentTs s then raise_fault TimeWentBackwards s
           else DSI_ProcessEventsWithContext V (EventImpl_Invoke h (impl next) (start_event next q s))))"

definition DSI_IsFinished :: "'q scheduler_ops \<Rightarrow> ('q, 'e, 'z) simulator_scheme \<Rightarrow> bool" where
  "DSI_IsFinished V s \<longleftrightarrow> op_IsEmpty V (sim_events s) \<or> m_stop s"

partial_function (option) DSI_Run_loop :: "'q scheduler_ops \<Rightarrow> ('q, 'e, 'z) handler \<Rightarrow>
    ('q, 'e, 'z) simulator_scheme \<Rightarrow> ('q, 'e, 'z) simulator_scheme option" where
  "DSI_Run_loop V h s =
     (if \<not> op_IsEmpty V (sim_events s) \<and> \<not> m_stop s \<and> fault s = None
      then DSI_Run_loop V h (DSI_ProcessOneEvent V h s)
      else Some s)"

definition DSI_Run :: "'q scheduler_ops \<Rightarrow> ('q, 'e, 'z) handler \<Rightarrow>
    ('q, 'e, 'z) simulator_scheme \<Rightarrow> ('q, 'e, 'z) simulator_scheme option" where
  "DSI_Run V h s =
     map_option (\<lambda>s'. if op_IsEmpty V (sim_events s') \<and> m_unscheduledEvents s' \<noteq> 0
                       then raise_fault LostEvents s' else s')
       (DSI_Run_loop V h ((DSI_ProcessEventsWithContext V s)\<lparr>m_stop := False\<rparr>))"

text \<open>\<open>SetScheduler\<close>: every event of the old scheduler, if there is one, moves to the new.\<close>

definition DSI_SetScheduler :: "'q scheduler_ops \<Rightarrow> 'r scheduler_ops \<Rightarrow> 'q option \<Rightarrow> 'r \<Rightarrow> 'r option" where
  "DSI_SetScheduler V V' old new =
     (case old of None \<Rightarrow> Some new | Some q \<Rightarrow> move_events V V' q new)"

partial_function (option) DSI_Destroy :: "('q, 'e, 'z) handler \<Rightarrow> ('q, 'e, 'z) simulator_scheme \<Rightarrow>
    ('q, 'e, 'z) simulator_scheme option" where
  "DSI_Destroy h s =
     (case m_destroyEvents s of
        [] \<Rightarrow> Some s
      | i # rest \<Rightarrow>
          DSI_Destroy h
            (if \<not> EventImpl_IsCancelled (id_impl i) (s\<lparr>m_destroyEvents := rest\<rparr>)
             then EventImpl_Invoke h (id_impl i) (s\<lparr>m_destroyEvents := rest\<rparr>)
             else s\<lparr>m_destroyEvents := rest\<rparr>))"

subsection \<open>The invariant of the simulator\<close>

definition event_ok :: "('q, 'e, 'z) simulator_scheme \<Rightarrow> Event \<Rightarrow> bool" where
  "event_ok s e \<longleftrightarrow> UID_VALID \<le> ev_uid e \<and> ev_uid e < sim_uid s \<and> m_currentTs s \<le> m_ts (key e) \<and>
     0 < impl e \<and> impls s (impl e) \<noteq> None"

definition sim_inv :: "('q \<Rightarrow> bool) \<Rightarrow> ('q \<Rightarrow> Event multiset) \<Rightarrow> ('q, 'e, 'z) simulator_scheme \<Rightarrow> bool" where
  "sim_inv invar events s \<longleftrightarrow>
     invar (sim_events s) \<and> UID_VALID \<le> sim_uid s \<and> m_currentUid s < sim_uid s \<and>
     m_unscheduledEvents s = int (size (events (sim_events s))) \<and>
     (\<forall>e \<in># events (sim_events s). event_ok s e) \<and>
     0 < next_impl s \<and> (\<forall>p. impls s p \<noteq> None \<longrightarrow> p < next_impl s)"

definition pending :: "('q \<Rightarrow> Event multiset) \<Rightarrow> ('q, 'e, 'z) simulator_scheme \<Rightarrow> 'e closure multiset" where
  "pending events s = image_mset (\<lambda>e. closure (the (impls s (impl e)))) (events (sim_events s))"

text \<open>One more unique id is left, and the time stamp does not wrap.\<close>

definition room_for :: "int64 \<Rightarrow> ('q, 'e, 'z) simulator_scheme \<Rightarrow> bool" where
  "room_for delay s \<longleftrightarrow> sim_uid s + 1 \<noteq> 0 \<and> uint delay + uint (m_currentTs s) < 2 ^ 64"

lemma uid_succ_less: "w + 1 \<noteq> 0 \<Longrightarrow> w < w + 1" for w :: uint32
  using unatSuc [of w] by (simp add: word_less_nat_alt add.commute)

lemma ts_no_wrap: "uint d + uint t < 2 ^ 64 \<Longrightarrow> t \<le> d + t" for d t :: uint64
  using no_olen_add [of t d] by (simp add: add.commute)

lemma raise_fault_simps [simp]:
  "sim_events (raise_fault f s) = sim_events s"
  "impls (raise_fault f s) = impls s"
  "m_currentTs (raise_fault f s) = m_currentTs s"
  "fault (raise_fault f s) \<noteq> None"
  by (auto simp: raise_fault_def split: option.split)

context scheduler
begin

lemma sim_inv_event: "sim_inv invar events s \<Longrightarrow> e \<in># events (sim_events s) \<Longrightarrow> event_ok s e"
  by (simp add: sim_inv_def)

lemma MakeEvent_inv:
  assumes "sim_inv invar events s"
  shows "sim_inv invar events (MakeEvent c s)" "pending events (MakeEvent c s) = pending events s"
proof -
  have "\<forall>e \<in># events (sim_events s). impl e \<noteq> next_impl s"
    using assms by (force simp: sim_inv_def event_ok_def)
  then show "pending events (MakeEvent c s) = pending events s"
    by (auto simp: pending_def MakeEvent_def intro!: image_mset_cong)
  show "sim_inv invar events (MakeEvent c s)"
    using assms by (auto simp: sim_inv_def event_ok_def MakeEvent_def less_Suc_eq)
qed

lemma insert_event_inv:
  assumes inv: "sim_inv invar events s" and p: "0 < p" "impls s p \<noteq> None"
    and ts: "m_currentTs s \<le> ts" and uid: "sim_uid s + 1 \<noteq> 0"
  shows "sim_inv invar events (insert_event ops ts ctx p s)"
    "events (sim_events (insert_event ops ts ctx p s)) =
       add_mset \<lparr>impl = p, key = \<lparr>m_ts = ts, m_uid = sim_uid s, m_context = ctx\<rparr>\<rparr> (events (sim_events s))"
proof -
  let ?e = "\<lparr>impl = p, key = \<lparr>m_ts = ts, m_uid = sim_uid s, m_context = ctx\<rparr>\<rparr>"
  have less: "sim_uid s < sim_uid s + 1" using uid by (rule uid_succ_less)
  have "uid_fresh ?e (events (sim_events s))"
    using inv by (auto simp: uid_fresh_def sim_inv_def event_ok_def)
  then have ins: "invar (op_Insert ops ?e (sim_events s))"
      "events (op_Insert ops ?e (sim_events s)) = add_mset ?e (events (sim_events s))"
    using Insert_law inv by (simp_all add: sim_inv_def)
  show "events (sim_events (insert_event ops ts ctx p s)) = add_mset ?e (events (sim_events s))"
    by (simp add: insert_event_def ins)
  show "sim_inv invar events (insert_event ops ts ctx p s)"
    using inv ins p ts less
    by (auto simp: sim_inv_def insert_event_def event_ok_def intro: less_trans)
qed

lemma Schedule_closure_inv:
  assumes inv: "sim_inv invar events s" and d: "Time_IsPositive d" and room: "room_for d s"
  shows "sim_inv invar events (snd (DSI_Schedule ops d (next_impl s) (MakeEvent c s)))"
    "pending events (snd (DSI_Schedule ops d (next_impl s) (MakeEvent c s))) = add_mset c (pending events s)"
proof -
  let ?s = "MakeEvent c s"
  have m: "sim_inv invar events ?s" "pending events ?s = pending events s"
    using MakeEvent_inv [OF inv] by auto
  have p: "0 < next_impl s" "impls ?s (next_impl s) = Some (EventImpl_new c)"
    using inv by (auto simp: sim_inv_def MakeEvent_def)
  have r: "m_currentTs ?s \<le> d + m_currentTs s" "sim_uid ?s + 1 \<noteq> 0"
    using room ts_no_wrap by (auto simp: room_for_def MakeEvent_def)
  have eq: "snd (DSI_Schedule ops d (next_impl s) (MakeEvent c s)) =
      insert_event ops (d + m_currentTs s) (m_currentContext s) (next_impl s) ?s"
    using d by (simp add: DSI_Schedule_def Let_def MakeEvent_def)
  have ins: "sim_inv invar events (snd (DSI_Schedule ops d (next_impl s) (MakeEvent c s)))"
      "events (sim_events (snd (DSI_Schedule ops d (next_impl s) (MakeEvent c s)))) =
         add_mset \<lparr>impl = next_impl s, key = \<lparr>m_ts = d + m_currentTs s, m_uid = sim_uid ?s,
           m_context = m_currentContext s\<rparr>\<rparr> (events (sim_events ?s))"
    unfolding eq using insert_event_inv [OF m(1) p(1) _ r] p(2) by auto
  show "sim_inv invar events (snd (DSI_Schedule ops d (next_impl s) (MakeEvent c s)))" by (rule ins(1))
  have im: "impls (snd (DSI_Schedule ops d (next_impl s) (MakeEvent c s))) = impls ?s" by (simp add: eq insert_event_def)
  show "pending events (snd (DSI_Schedule ops d (next_impl s) (MakeEvent c s))) = add_mset c (pending events s)"
    using p(2) m(2) by (simp add: pending_def ins(2) im EventImpl_new_def)
qed

lemma Simulator_Schedule_inv:
  assumes "sim_inv invar events s" "Time_IsPositive d" "room_for d s"
  shows "sim_inv invar events (Simulator_Schedule ops d e s)"
    "pending events (Simulator_Schedule ops d e s) = add_mset (Call e) (pending events s)"
  using Schedule_closure_inv [OF assms] by (simp_all add: Simulator_Schedule_def)

lemma start_event_inv:
  assumes inv: "sim_inv invar events s" and ne: "events (sim_events s) \<noteq> {#}"
  obtains n q where "op_RemoveNext ops (sim_events s) = Some (n, q)"
    "is_next n (events (sim_events s))" "events (sim_events s) = add_mset n (events q)"
    "sim_inv invar events (start_event n q s)" "event_ok s n"
    "impls s (impl n) \<noteq> None" "m_currentTs s \<le> m_ts (key n)"
    "pending events s = add_mset (closure (the (impls s (impl n)))) (pending events (start_event n q s))"
proof -
  have "invar (sim_events s)" using inv by (simp add: sim_inv_def)
  then obtain n q where r: "op_RemoveNext ops (sim_events s) = Some (n, q)" "invar q"
      "is_next n (events (sim_events s))" "events (sim_events s) = add_mset n (events q)"
    using RemoveNext_cases ne by metis
  have ok: "event_ok s n" using sim_inv_event [OF inv] r(4) by simp
  have later: "m_ts (key n) \<le> m_ts (key f)" if "f \<in># events q" for f
    using r(3,4) that by (fastforce simp: is_next_def EventKey_less_def split: if_splits)
  have "sim_inv invar events (start_event n q s)"
    using inv r(2,4) ok later by (auto simp: sim_inv_def start_event_def event_ok_def)
  then show ?thesis
    using that r ok by (simp add: event_ok_def pending_def start_event_def)
qed

end

text \<open>A handler that keeps the invariant, does not move the clock and raises no fault.\<close>

locale simulator_run = scheduler ops invar events
  for ops :: "'q scheduler_ops" and invar and events +
  fixes h :: "('q, 'e, 'z) handler"
    and ok :: "'e \<Rightarrow> ('q, 'e, 'z) simulator_scheme \<Rightarrow> bool"
  assumes handler_inv: "sim_inv invar events s \<Longrightarrow> ok e s \<Longrightarrow> sim_inv invar events (h e s)"
    and handler_clock: "sim_inv invar events s \<Longrightarrow> ok e s \<Longrightarrow> m_currentTs (h e s) = m_currentTs s"
    and handler_fault: "sim_inv invar events s \<Longrightarrow> ok e s \<Longrightarrow> fault (h e s) = fault s"
    and handler_context: "sim_inv invar events s \<Longrightarrow> ok e s \<Longrightarrow>
          m_eventsWithContextEmpty (h e s) = m_eventsWithContextEmpty s"
begin

definition next_ok :: "('q, 'e, 'z) simulator_scheme \<Rightarrow> bool" where
  "next_ok s \<longleftrightarrow> (\<forall>n q i e. op_RemoveNext ops (sim_events s) = Some (n, q) \<and>
      impls s (impl n) = Some i \<and> closure i = Call e \<longrightarrow> ok e (start_event n q s))"

lemma Invoke_keeps:
  assumes "sim_inv invar events s" "impls s p = Some i" "\<And>e. closure i = Call e \<Longrightarrow> ok e s"
  shows "sim_inv invar events (EventImpl_Invoke h p s) \<and> fault (EventImpl_Invoke h p s) = fault s \<and>
    m_currentTs (EventImpl_Invoke h p s) = m_currentTs s \<and>
    m_eventsWithContextEmpty (EventImpl_Invoke h p s) = m_eventsWithContextEmpty s"
proof (cases "closure i")
  case SimulatorStop
  have "sim_inv invar events (s\<lparr>m_stop := True\<rparr>)"
    using assms(1) by (simp add: sim_inv_def event_ok_def)
  then show ?thesis
    using assms SimulatorStop by (simp add: EventImpl_Invoke_def Notify_def Simulator_Stop_def)
next
  case (Call e)
  then show ?thesis
    using assms handler_inv handler_fault handler_clock handler_context
    by (simp add: EventImpl_Invoke_def Notify_def)
qed

lemma ProcessOneEvent_keeps:
  assumes inv: "sim_inv invar events s" and ctx: "m_eventsWithContextEmpty s"
    and ne: "\<not> op_IsEmpty ops (sim_events s)" and flt: "fault s = None" and ok: "next_ok s"
  shows "sim_inv invar events (DSI_ProcessOneEvent ops h s) \<and>
    m_eventsWithContextEmpty (DSI_ProcessOneEvent ops h s) \<and>
    fault (DSI_ProcessOneEvent ops h s) = None \<and>
    m_currentTs s \<le> m_currentTs (DSI_ProcessOneEvent ops h s)"
proof -
  have "events (sim_events s) \<noteq> {#}" using ne inv IsEmpty_law by (simp add: sim_inv_def)
  then obtain n q where r: "op_RemoveNext ops (sim_events s) = Some (n, q)"
      "sim_inv invar events (start_event n q s)" "impls s (impl n) \<noteq> None"
      "m_currentTs s \<le> m_ts (key n)"
    using start_event_inv [OF inv] by metis
  then obtain i where i: "impls s (impl n) = Some i" by auto
  let ?t = "EventImpl_Invoke h (impl n) (start_event n q s)"
  have "impls (start_event n q s) (impl n) = Some i" using i by (simp add: start_event_def)
  moreover have "\<And>e. closure i = Call e \<Longrightarrow> ok e (start_event n q s)"
    using ok r(1) i by (simp add: next_ok_def)
  ultimately have t: "sim_inv invar events ?t" "fault ?t = None" "m_currentTs ?t = m_ts (key n)"
      "m_eventsWithContextEmpty ?t"
    using Invoke_keeps [OF r(2)] flt ctx by (simp_all add: start_event_def)
  then have "DSI_ProcessOneEvent ops h s = ?t"
    using r(1,4) by (simp add: DSI_ProcessOneEvent_def DSI_ProcessEventsWithContext_def)
  then show ?thesis using t r(4) by simp
qed

end

end
