(* ===== verification/List_Scheduler.thy ===== *)
theory List_Scheduler
  imports Simulator
begin

text \<open>
  \<open>ListScheduler\<close> (\<open>src/src/core/model/list-scheduler.cc\<close>): a \<open>std::list\<close> of events
  kept in key order by insertion. An implementation of the scheduler contract, removal included.
\<close>

type_synonym list_queue = "Event list"

fun ListScheduler_Insert :: "Event \<Rightarrow> list_queue \<Rightarrow> list_queue" where
  "ListScheduler_Insert ev [] = [ev]"
| "ListScheduler_Insert ev (i # is) =
     (if EventKey_less (key ev) (key i) then ev # i # is
      else i # ListScheduler_Insert ev is)"

definition ListScheduler_IsEmpty :: "list_queue \<Rightarrow> bool" where
  "ListScheduler_IsEmpty m_events \<longleftrightarrow> m_events = []"

definition ListScheduler_PeekNext :: "list_queue \<Rightarrow> Event option" where
  "ListScheduler_PeekNext m_events = (case m_events of [] \<Rightarrow> None | e # _ \<Rightarrow> Some e)"

definition ListScheduler_RemoveNext :: "list_queue \<Rightarrow> (Event \<times> list_queue) option" where
  "ListScheduler_RemoveNext m_events =
     (case m_events of [] \<Rightarrow> None | e # rest \<Rightarrow> Some (e, rest))"

text \<open>The first event with the uid goes; \<open>NS_ASSERT\<close> compares the implementations.\<close>

fun ListScheduler_Remove :: "Event \<Rightarrow> list_queue \<Rightarrow> list_queue option" where
  "ListScheduler_Remove ev [] = None"
| "ListScheduler_Remove ev (i # is) =
     (if m_uid (key i) = m_uid (key ev)
      then (if impl ev = impl i then Some is else None)
      else map_option (Cons i) (ListScheduler_Remove ev is))"

definition list_ops :: "list_queue scheduler_ops" where
  "list_ops = \<lparr>op_Insert = ListScheduler_Insert, op_IsEmpty = ListScheduler_IsEmpty,
     op_PeekNext = ListScheduler_PeekNext, op_RemoveNext = ListScheduler_RemoveNext,
     op_Remove = ListScheduler_Remove\<rparr>"

definition list_invar :: "list_queue \<Rightarrow> bool" where
  "list_invar q \<longleftrightarrow> sorted_wrt (<) (map ev_ord q) \<and> uids_distinct (mset q)"

lemma mset_ListScheduler_Insert: "mset (ListScheduler_Insert e q) = add_mset e (mset q)"
  by (induction q) auto

lemma sorted_ListScheduler_Insert:
  assumes "sorted_wrt (<) (map ev_ord q)" "uid_fresh e (mset q)"
  shows "sorted_wrt (<) (map ev_ord (ListScheduler_Insert e q))"
  using assms
proof (induction q)
  case Nil
  then show ?case by simp
next
  case (Cons i q)
  have ne: "ev_ord e \<noteq> ev_ord i" using Cons.prems(2) by (auto dest: ord_key_uid)
  have set: "set (ListScheduler_Insert e q) = insert e (set q)"
    by (metis mset_ListScheduler_Insert set_mset_add_mset_insert set_mset_mset)
  show ?case
  proof (cases "ev_ord e < ev_ord i")
    case True
    then show ?thesis
      using Cons.prems(1) by (auto simp: EventKey_less_ord intro: less_trans)
  next
    case False
    then have "ev_ord i < ev_ord e" using ne by (meson linorder_neqE)
    then show ?thesis using Cons False set by (simp add: EventKey_less_ord)
  qed
qed

lemma ListScheduler_Remove_Some:
  assumes "e \<in> set q" "uids_distinct (mset q)"
  shows "ListScheduler_Remove e q = Some (remove1 e q)"
  using assms
proof (induction q)
  case Nil
  then show ?case by simp
next
  case (Cons i q)
  then show ?case by (auto simp: uids_distinct_add uid_fresh_def)
qed

lemma sorted_remove1: "sorted_wrt P (map f q) \<Longrightarrow> sorted_wrt P (map f (remove1 e q))"
  by (induction q) (auto dest: notin_set_remove1)

lemma list_head_is_next:
  "sorted_wrt (<) (map ev_ord (e # q)) \<Longrightarrow> is_next e (mset (e # q))"
  by (simp add: is_next_def EventKey_less_ord)

interpretation list_sched: removing_scheduler list_ops list_invar mset
proof unfold_locales
  fix q :: list_queue and e :: Event
  assume inv: "list_invar q"
  show "uids_distinct (mset q)" using inv by (simp add: list_invar_def)
  show "op_IsEmpty list_ops q = (mset q = {#})"
    by (simp add: list_ops_def ListScheduler_IsEmpty_def)
  show "uid_fresh e (mset q) \<Longrightarrow> list_invar (op_Insert list_ops e q) \<and>
      mset (op_Insert list_ops e q) = add_mset e (mset q)"
    using inv by (simp add: list_ops_def list_invar_def mset_ListScheduler_Insert
        sorted_ListScheduler_Insert uids_distinct_add)
  show "mset q \<noteq> {#} \<Longrightarrow> \<exists>e. op_PeekNext list_ops q = Some e \<and> is_next e (mset q)"
    using inv list_head_is_next
    by (auto simp: list_ops_def list_invar_def ListScheduler_PeekNext_def split: list.split)
  show "mset q \<noteq> {#} \<Longrightarrow> \<exists>e q'. op_RemoveNext list_ops q = Some (e, q') \<and> list_invar q' \<and>
      is_next e (mset q) \<and> mset q' = mset q - {#e#}"
    using inv list_head_is_next
    by (cases q) (auto simp: list_ops_def list_invar_def ListScheduler_RemoveNext_def
        uids_distinct_add)
  show "e \<in># mset q \<Longrightarrow> \<exists>q'. op_Remove list_ops e q = Some q' \<and> list_invar q' \<and>
      mset q' = mset q - {#e#}"
    using inv by (simp add: list_ops_def list_invar_def ListScheduler_Remove_Some sorted_remove1
        uids_distinct_diff)
qed

subsection \<open>Any scheduler against the list\<close>

text \<open>
  Calls a simulation may make, on a scheduler that holds the events of a sorted list: new events are
  within the limit, not before the last one removed and have a fresh id; the events removed are there.
\<close>

fun calls_ok :: "(Event \<Rightarrow> bool) \<Rightarrow> uint64 \<Rightarrow> list_queue \<Rightarrow> sched_call list \<Rightarrow> bool" where
  "calls_ok limit t l [] \<longleftrightarrow> True"
| "calls_ok limit t l (Call_Insert e # cs) \<longleftrightarrow>
     limit e \<and> t \<le> m_ts (key e) \<and> uid_fresh e (mset l) \<and> calls_ok limit t (ListScheduler_Insert e l) cs"
| "calls_ok limit t l (Call_RemoveNext # cs) \<longleftrightarrow>
     l \<noteq> [] \<and> calls_ok limit (m_ts (key (hd l))) (tl l) cs"
| "calls_ok limit t l (Call_Remove e # cs) \<longleftrightarrow> e \<in> set l \<and> calls_ok limit t (remove1 e l) cs"

lemma calls_ok_unlimited: "calls_ok limit t l cs \<Longrightarrow> calls_ok (\<lambda>_. True) t l cs"
  by (induction limit t l cs rule: calls_ok.induct) auto

context timed_scheduler
begin

lemma calls_as_on_list:
  assumes "calls_ok limit t l cs" "invar q" "list_invar l" "events q = mset l" "now q \<le> t"
  shows "\<exists>out q' l'. run_calls ops cs q = Some (out, q') \<and> run_calls list_ops cs l = Some (out, l') \<and>
    invar q' \<and> events q' = mset l'"
  using assms
proof (induction cs arbitrary: t l q)
  case (Cons c cs)
  show ?case
  proof (cases c)
    case (Call_Insert e)
    have ok: "limit e" "t \<le> m_ts (key e)" "uid_fresh e (mset l)" "calls_ok limit t (ListScheduler_Insert e l) cs"
      using Cons.prems(1) Call_Insert by simp_all
    have q: "invar (op_Insert ops e q)" "events (op_Insert ops e q) = add_mset e (events q)" "now (op_Insert ops e q) \<le> t"
      using timed_Insert_law [OF Cons.prems(2) _ ok(1) order.trans [OF Cons.prems(5) ok(2)]] ok(3) Cons.prems(4,5)
      by (auto intro: order.trans)
    moreover have "list_invar (ListScheduler_Insert e l)"
      using list_sched.Insert_law [OF Cons.prems(3) ok(3)] by (simp add: list_ops_def)
    ultimately show ?thesis
      using Cons.IH [OF ok(4)] Cons.prems(4) by (simp add: Call_Insert list_ops_def mset_ListScheduler_Insert)
  next
    case Call_RemoveNext
    then obtain e l' where l: "l = e # l'" "calls_ok limit (m_ts (key e)) l' cs"
      using Cons.prems(1) by (cases l) auto
    then have ne: "events q \<noteq> {#}" using Cons.prems(4) by simp
    obtain f q' where r: "op_RemoveNext ops q = Some (f, q')" "invar q'" "is_next f (events q)"
        "events q = add_mset f (events q')"
      using RemoveNext_cases [OF Cons.prems(2) ne] .
    have "is_next e (events q)" using list_head_is_next Cons.prems(3,4) l(1) by (simp add: list_invar_def)
    then have f: "f = e" using is_next_unique r(3) by blast
    have "list_invar l'" using Cons.prems(3) l(1) by (simp add: list_invar_def uids_distinct_add)
    moreover have "now q' \<le> m_ts (key e)" using timed_RemoveNext_law [OF Cons.prems(2) ne r(1)] f by simp
    ultimately obtain out q'' l'' where "run_calls ops cs q' = Some (out, q'')" "run_calls list_ops cs l' = Some (out, l'')"
        "invar q''" "events q'' = mset l''"
      using Cons.IH [OF l(2) r(2)] r(4) Cons.prems(4) l(1) f by auto
    then show ?thesis using r(1) f l(1)
      by (simp add: Call_RemoveNext list_ops_def ListScheduler_RemoveNext_def)
  next
    case (Call_Remove e)
    have ok: "e \<in> set l" "calls_ok limit t (remove1 e l) cs" using Cons.prems(1) Call_Remove by simp_all
    obtain q' where r: "op_Remove ops e q = Some q'" "invar q'" "events q' = events q - {#e#}" "now q' \<le> now q"
      using timed_Remove_law [OF Cons.prems(2), of e] ok(1) Cons.prems(4) by auto
    have "ListScheduler_Remove e l = Some (remove1 e l)" "list_invar (remove1 e l)"
      using Cons.prems(3) ok(1) by (simp_all add: list_invar_def ListScheduler_Remove_Some sorted_remove1 uids_distinct_diff)
    then show ?thesis
      using Cons.IH [OF ok(2) r(2)] r Cons.prems(4,5) by (simp add: Call_Remove list_ops_def)
  qed
qed simp

end

end
