(* ===== verification/Map_Scheduler.thy ===== *)
theory Map_Scheduler
  imports List_Scheduler
begin

text \<open>
  \<open>MapScheduler\<close> (\<open>src/src/core/model/map-scheduler.cc\<close>), the scheduler the simulator
  creates by default: a \<open>std::map\<close> from event keys to implementations. The map is the list
  of its entries in key order; two keys are the same entry when neither is below the other.
\<close>

type_synonym map_queue = "(EventKey \<times> impl_ptr) list"

text \<open>\<open>std::map::insert\<close> does not overwrite: an equivalent key leaves the map as it is.\<close>

fun MapScheduler_Insert :: "Event \<Rightarrow> map_queue \<Rightarrow> map_queue" where
  "MapScheduler_Insert ev [] = [(key ev, impl ev)]"
| "MapScheduler_Insert ev ((k, p) # m) =
     (if EventKey_less (key ev) k then (key ev, impl ev) # (k, p) # m
      else if EventKey_less k (key ev) then (k, p) # MapScheduler_Insert ev m
      else (k, p) # m)"

definition MapScheduler_IsEmpty :: "map_queue \<Rightarrow> bool" where
  "MapScheduler_IsEmpty m_list \<longleftrightarrow> m_list = []"

definition MapScheduler_PeekNext :: "map_queue \<Rightarrow> Event option" where
  "MapScheduler_PeekNext m_list =
     (case m_list of [] \<Rightarrow> None | (k, p) # _ \<Rightarrow> Some \<lparr>impl = p, key = k\<rparr>)"

definition MapScheduler_RemoveNext :: "map_queue \<Rightarrow> (Event \<times> map_queue) option" where
  "MapScheduler_RemoveNext m_list =
     (case m_list of [] \<Rightarrow> None | (k, p) # rest \<Rightarrow> Some (\<lparr>impl = p, key = k\<rparr>, rest))"

text \<open>\<open>find\<close> by key, the assertion on the implementation, \<open>erase\<close>.\<close>

fun MapScheduler_Remove :: "Event \<Rightarrow> map_queue \<Rightarrow> map_queue option" where
  "MapScheduler_Remove ev [] = None"
| "MapScheduler_Remove ev ((k, p) # m) =
     (if EventKey_less k (key ev) then map_option (Cons (k, p)) (MapScheduler_Remove ev m)
      else if EventKey_less (key ev) k then None
      else if p = impl ev then Some m else None)"

definition map_ops :: "map_queue scheduler_ops" where
  "map_ops = \<lparr>op_Insert = MapScheduler_Insert, op_IsEmpty = MapScheduler_IsEmpty,
     op_PeekNext = MapScheduler_PeekNext, op_RemoveNext = MapScheduler_RemoveNext,
     op_Remove = MapScheduler_Remove\<rparr>"

definition entry_event :: "EventKey \<times> impl_ptr \<Rightarrow> Event" where
  "entry_event kp = \<lparr>impl = snd kp, key = fst kp\<rparr>"

definition map_events :: "map_queue \<Rightarrow> Event multiset" where
  "map_events m = mset (map entry_event m)"

definition map_invar :: "map_queue \<Rightarrow> bool" where
  "map_invar m \<longleftrightarrow> sorted_wrt (<) (map (\<lambda>kp. ord_key (fst kp)) m) \<and> uids_distinct (map_events m)"

lemma map_events_simps [simp]:
  "map_events [] = {#}"
  "map_events ((k, p) # m) = add_mset \<lparr>impl = p, key = k\<rparr> (map_events m)"
  by (simp_all add: map_events_def entry_event_def)

lemma event_eta: "\<lparr>impl = impl e, key = key e\<rparr> = e" for e :: Event
  by simp

lemma map_events_key: "(k, p) \<in> set m \<Longrightarrow> \<lparr>impl = p, key = k\<rparr> \<in># map_events m"
  by (force simp: map_events_def entry_event_def)

lemma fresh_not_key:
  assumes "uid_fresh e (map_events m)" "kp \<in> set m"
  shows "ord_key (fst kp) \<noteq> ev_ord e"
proof
  assume eq: "ord_key (fst kp) = ev_ord e"
  obtain k p where kp: "kp = (k, p)" by force
  with assms map_events_key have "ev_uid \<lparr>impl = p, key = k\<rparr> \<noteq> ev_uid e"
    by (fastforce simp: uid_fresh_def)
  then show False using eq kp by (auto dest: ord_key_uid)
qed

lemma map_Insert_events:
  "uid_fresh e (map_events m) \<Longrightarrow> map_events (MapScheduler_Insert e m) = add_mset e (map_events m)"
proof (induction m)
  case Nil
  then show ?case by simp
next
  case (Cons kp m)
  obtain k p where kp: "kp = (k, p)" by force
  have "ord_key k \<noteq> ev_ord e" using fresh_not_key [OF Cons.prems, of kp] kp by simp
  then have "EventKey_less k (key e) \<or> EventKey_less (key e) k"
    by (simp add: EventKey_less_ord) (meson linorder_neqE)
  then show ?case using Cons by (auto simp: kp)
qed

lemma map_Insert_set: "set (MapScheduler_Insert e m) \<subseteq> insert (key e, impl e) (set m)"
  by (induction m) (auto split: if_splits)

lemma map_Insert_sorted:
  "sorted_wrt (<) (map (\<lambda>kp. ord_key (fst kp)) m) \<Longrightarrow>
   sorted_wrt (<) (map (\<lambda>kp. ord_key (fst kp)) (MapScheduler_Insert e m))"
proof (induction m)
  case Nil
  then show ?case by simp
next
  case (Cons kp m)
  obtain k p where kp: "kp = (k, p)" by force
  show ?case
  proof (cases "EventKey_less (key e) k")
    case True
    then show ?thesis
      using Cons.prems by (auto simp: kp EventKey_less_ord intro: less_trans)
  next
    case False
    have "\<forall>x \<in> set (MapScheduler_Insert e m). EventKey_less k (key e) \<longrightarrow> ord_key k < ord_key (fst x)"
      using map_Insert_set [of e m] Cons.prems by (auto simp: kp EventKey_less_ord)
    then show ?thesis using Cons False by (auto simp: kp)
  qed
qed

lemma map_head_is_next:
  assumes "sorted_wrt (<) (map (\<lambda>kp. ord_key (fst kp)) ((k, p) # m))"
  shows "is_next \<lparr>impl = p, key = k\<rparr> (map_events ((k, p) # m))"
  using assms by (auto simp: is_next_def EventKey_less_ord map_events_def entry_event_def)

lemma map_Remove_Some:
  assumes "map_invar m" "e \<in># map_events m"
  shows "\<exists>m'. MapScheduler_Remove e m = Some m' \<and> map_events m' = map_events m - {#e#} \<and>
           map_invar m' \<and> set m' \<subseteq> set m"
  using assms
proof (induction m)
  case Nil
  then show ?case by simp
next
  case (Cons kp m)
  obtain k p where kp: "kp = (k, p)" by force
  have inv: "map_invar m" using Cons.prems(1) by (simp add: map_invar_def kp uids_distinct_add)
  have above: "\<forall>x \<in> set m. ord_key k < ord_key (fst x)"
    using Cons.prems(1) by (simp add: map_invar_def kp)
  consider (here) "e = \<lparr>impl = p, key = k\<rparr>" | (later) "e \<in># map_events m"
    using Cons.prems(2) by (auto simp: kp)
  then show ?case
  proof cases
    case here
    then show ?thesis using inv by (auto simp: kp EventKey_less_ord)
  next
    case later
    then have "ord_key k < ev_ord e" using above by (auto simp: map_events_def entry_event_def)
    moreover obtain m' where m': "MapScheduler_Remove e m = Some m'"
        "map_events m' = map_events m - {#e#}" "map_invar m'" "set m' \<subseteq> set m"
      using Cons.IH [OF inv later] by blast
    ultimately have "MapScheduler_Remove e (kp # m) = Some (kp # m')"
      by (simp add: kp EventKey_less_ord)
    moreover have ev: "map_events (kp # m') = map_events (kp # m) - {#e#}"
      using m'(2) later by (simp add: kp insert_DiffM2 multiset_eq_iff)
    moreover have "map_invar (kp # m')"
      using m' above Cons.prems(1) ev uids_distinct_diff by (auto simp: map_invar_def kp)
    ultimately show ?thesis using m'(4) by auto
  qed
qed

interpretation map_sched: removing_scheduler map_ops map_invar map_events
proof unfold_locales
  fix q :: map_queue and e :: Event
  assume inv: "map_invar q"
  show "uids_distinct (map_events q)" using inv by (simp add: map_invar_def)
  show "op_IsEmpty map_ops q = (map_events q = {#})"
    by (simp add: map_ops_def MapScheduler_IsEmpty_def map_events_def)
  show "uid_fresh e (map_events q) \<Longrightarrow> map_invar (op_Insert map_ops e q) \<and>
      map_events (op_Insert map_ops e q) = add_mset e (map_events q)"
    using inv by (simp add: map_ops_def map_invar_def map_Insert_events map_Insert_sorted
        uids_distinct_add)
  show "map_events q \<noteq> {#} \<Longrightarrow> \<exists>e. op_PeekNext map_ops q = Some e \<and> is_next e (map_events q)"
    using inv map_head_is_next
    by (cases q) (auto simp: map_ops_def map_invar_def MapScheduler_PeekNext_def)
  show "map_events q \<noteq> {#} \<Longrightarrow> \<exists>e q'. op_RemoveNext map_ops q = Some (e, q') \<and> map_invar q' \<and>
      is_next e (map_events q) \<and> map_events q' = map_events q - {#e#}"
    using inv map_head_is_next
    by (cases q) (auto simp: map_ops_def map_invar_def MapScheduler_RemoveNext_def
        uids_distinct_add)
  show "e \<in># map_events q \<Longrightarrow> \<exists>q'. op_Remove map_ops e q = Some q' \<and> map_invar q' \<and>
      map_events q' = map_events q - {#e#}"
    using map_Remove_Some [OF inv] by (auto simp: map_ops_def)
qed

end
