(* ===== verification/Heap_Scheduler.thy ===== *)
theory Heap_Scheduler
  imports Simulator
begin

text \<open>
  \<open>HeapScheduler\<close> (\<open>src/src/core/model/heap-scheduler.cc\<close>): a binary heap in a
  vector whose element 0 is unused. Insertion and removal of the next event keep the heap order
  and so meet the scheduler contract; removal of an arbitrary event moves the last element into
  the hole and only sifts it down, which is not enough (the root theory shows the consequence).
  \<open>TopDown\<close> is a loop without an obvious bound (started at index 0 it does not end), so it
  is a partial function, and that it ends from index 1 on is proved.
\<close>

type_synonym heap_queue = "Event list"

definition HeapScheduler_init :: heap_queue where
  "HeapScheduler_init = [\<lparr>impl = 0, key = \<lparr>m_ts = 0, m_uid = 0, m_context = 0\<rparr>\<rparr>]"

definition Parent :: "nat \<Rightarrow> nat" where
  "Parent i = i div 2"

definition Sibling :: "nat \<Rightarrow> nat" where
  "Sibling i = i + 1"

definition LeftChild :: "nat \<Rightarrow> nat" where
  "LeftChild i = i * 2"

definition RightChild :: "nat \<Rightarrow> nat" where
  "RightChild i = i * 2 + 1"

definition Root :: nat where
  "Root = 1"

definition IsRoot :: "nat \<Rightarrow> bool" where
  "IsRoot i \<longleftrightarrow> i = Root"

definition Last :: "heap_queue \<Rightarrow> nat" where
  "Last m_heap = length m_heap - 1"

definition IsBottom :: "heap_queue \<Rightarrow> nat \<Rightarrow> bool" where
  "IsBottom m_heap i \<longleftrightarrow> i \<ge> length m_heap"

definition Exch :: "nat \<Rightarrow> nat \<Rightarrow> heap_queue \<Rightarrow> heap_queue" where
  "Exch a b m_heap = m_heap[a := m_heap ! b, b := m_heap ! a]"

definition IsLessStrictly :: "heap_queue \<Rightarrow> nat \<Rightarrow> nat \<Rightarrow> bool" where
  "IsLessStrictly m_heap a b = Event_less (m_heap ! a) (m_heap ! b)"

definition Smallest :: "heap_queue \<Rightarrow> nat \<Rightarrow> nat \<Rightarrow> nat" where
  "Smallest m_heap a b = (if IsLessStrictly m_heap a b then a else b)"

definition HeapScheduler_IsEmpty :: "heap_queue \<Rightarrow> bool" where
  "HeapScheduler_IsEmpty m_heap \<longleftrightarrow> length m_heap = 1"

lemmas heap_index_defs = Parent_def LeftChild_def RightChild_def Root_def IsRoot_def Last_def
  IsBottom_def Smallest_def

lemma IsLessStrictly_ord: "IsLessStrictly h a b \<longleftrightarrow> ev_ord (h ! a) < ev_ord (h ! b)"
  by (simp add: IsLessStrictly_def Event_less_ord)

function BottomUp_from :: "nat \<Rightarrow> heap_queue \<Rightarrow> heap_queue" where
  "BottomUp_from index m_heap =
     (if \<not> IsRoot index \<and> IsLessStrictly m_heap index (Parent index)
      then BottomUp_from (Parent index) (Exch index (Parent index) m_heap)
      else m_heap)"
  by pat_completeness auto
termination
proof (relation "measure fst")
  fix index :: nat and h :: heap_queue
  assume a: "\<not> IsRoot index \<and> IsLessStrictly h index (Parent index)"
  have "index \<noteq> 0" using a by (cases index) (auto simp: IsLessStrictly_ord Parent_def)
  then show "((Parent index, Exch index (Parent index) h), index, h) \<in> measure fst"
    by (simp add: Parent_def)
qed simp

declare BottomUp_from.simps [simp del]

definition BottomUp :: "heap_queue \<Rightarrow> heap_queue" where
  "BottomUp m_heap = BottomUp_from (Last m_heap) m_heap"

partial_function (option) TopDown :: "nat \<Rightarrow> heap_queue \<Rightarrow> heap_queue option" where
  "TopDown index m_heap =
     (if \<not> IsBottom m_heap (RightChild index)
      then (if IsLessStrictly m_heap index (Smallest m_heap (LeftChild index) (RightChild index))
            then Some m_heap
            else TopDown (Smallest m_heap (LeftChild index) (RightChild index))
                   (Exch index (Smallest m_heap (LeftChild index) (RightChild index)) m_heap))
      else if IsBottom m_heap index then Some m_heap
      else if IsBottom m_heap (LeftChild index) then Some m_heap
      else if IsLessStrictly m_heap index (LeftChild index) then Some m_heap
      else Some (Exch index (LeftChild index) m_heap))"

definition HeapScheduler_Insert :: "Event \<Rightarrow> heap_queue \<Rightarrow> heap_queue" where
  "HeapScheduler_Insert ev m_heap = BottomUp (m_heap @ [ev])"

definition HeapScheduler_PeekNext :: "heap_queue \<Rightarrow> Event option" where
  "HeapScheduler_PeekNext m_heap =
     (if Root < length m_heap then Some (m_heap ! Root) else None)"

definition HeapScheduler_RemoveNext :: "heap_queue \<Rightarrow> (Event \<times> heap_queue) option" where
  "HeapScheduler_RemoveNext m_heap =
     (if Root < length m_heap
      then map_option (Pair (m_heap ! Root)) (TopDown Root (butlast (Exch Root (Last m_heap) m_heap)))
      else None)"

fun heap_find_uid :: "uint32 \<Rightarrow> nat \<Rightarrow> Event list \<Rightarrow> nat option" where
  "heap_find_uid uid i [] = None"
| "heap_find_uid uid i (e # es) =
     (if uid = m_uid (key e) then Some i else heap_find_uid uid (Suc i) es)"

definition HeapScheduler_Remove :: "Event \<Rightarrow> heap_queue \<Rightarrow> heap_queue option" where
  "HeapScheduler_Remove ev m_heap =
     (case heap_find_uid (m_uid (key ev)) 1 (tl m_heap) of
        None \<Rightarrow> None
      | Some i \<Rightarrow>
          (if impl (m_heap ! i) = impl ev
           then TopDown i (butlast (Exch i (Last m_heap) m_heap))
           else None))"

definition heap_ops :: "heap_queue scheduler_ops" where
  "heap_ops = \<lparr>op_Insert = HeapScheduler_Insert, op_IsEmpty = HeapScheduler_IsEmpty,
     op_PeekNext = HeapScheduler_PeekNext, op_RemoveNext = HeapScheduler_RemoveNext,
     op_Remove = HeapScheduler_Remove\<rparr>"

subsection \<open>The heap order, and the heap order except at one index\<close>

definition is_heap :: "heap_queue \<Rightarrow> bool" where
  "is_heap h \<longleftrightarrow> h \<noteq> [] \<and>
     (\<forall>j. 2 \<le> j \<and> j < length h \<longrightarrow> ev_ord (h ! (j div 2)) \<le> ev_ord (h ! j))"

definition heap_but_up :: "heap_queue \<Rightarrow> nat \<Rightarrow> bool" where
  "heap_but_up h i \<longleftrightarrow>
     (\<forall>j. 2 \<le> j \<and> j < length h \<and> j \<noteq> i \<longrightarrow> ev_ord (h ! (j div 2)) \<le> ev_ord (h ! j)) \<and>
     (\<forall>j. 2 \<le> i \<and> j < length h \<and> j div 2 = i \<longrightarrow> ev_ord (h ! (i div 2)) \<le> ev_ord (h ! j))"

definition heap_but_down :: "heap_queue \<Rightarrow> nat \<Rightarrow> bool" where
  "heap_but_down h i \<longleftrightarrow>
     (\<forall>j. 2 \<le> j \<and> j < length h \<and> j div 2 \<noteq> i \<longrightarrow> ev_ord (h ! (j div 2)) \<le> ev_ord (h ! j)) \<and>
     (\<forall>j. 2 \<le> i \<and> j < length h \<and> j div 2 = i \<longrightarrow> ev_ord (h ! (i div 2)) \<le> ev_ord (h ! j))"

lemma length_Exch [simp]: "length (Exch a b h) = length h"
  by (simp add: Exch_def)

lemma Exch_Nil_iff [simp]: "Exch a b h = [] \<longleftrightarrow> h = []"
  by (simp add: Exch_def)

lemma Exch_nth:
  "a < length h \<Longrightarrow> b < length h \<Longrightarrow> j < length h \<Longrightarrow>
   Exch a b h ! j = (if j = b then h ! a else if j = a then h ! b else h ! j)"
  by (auto simp: Exch_def nth_list_update)

lemma mset_Exch: "a < length h \<Longrightarrow> b < length h \<Longrightarrow> mset (Exch a b h) = mset h"
  unfolding Exch_def by (rule mset_swap)

lemma Exch_nth_0: "0 < a \<Longrightarrow> 0 < b \<Longrightarrow> Exch a b h ! 0 = h ! 0"
  by (simp add: Exch_def)

lemma BottomUp_step:
  assumes i: "i < length h" "2 \<le> i" and ok: "heap_but_up h i" and pi: "p = i div 2"
    and lt: "ev_ord (h ! i) < ev_ord (h ! p)"
  shows "heap_but_up (Exch i p h) p"
proof -
  have p: "p < length h" "p < i" "1 \<le> p" using i by (auto simp: pi)
  have ex: "\<And>j. j < length h \<Longrightarrow>
      Exch i p h ! j = (if j = p then h ! i else if j = i then h ! p else h ! j)"
    using Exch_nth [OF i(1) p(1)] .
  have edge: "ev_ord (h ! (j div 2)) \<le> ev_ord (h ! j)"
    if "2 \<le> j" "j < length h" "j \<noteq> i" for j
    using ok that by (simp add: heap_but_up_def)
  have grand: "ev_ord (h ! p) \<le> ev_ord (h ! j)" if "j < length h" "j div 2 = i" for j
    using ok i that by (simp add: heap_but_up_def pi)
  have "ev_ord (Exch i p h ! k) \<le> ev_ord (Exch i p h ! j)"
    if j: "2 \<le> j" "j < length h" "j \<noteq> p" and k: "k = j div 2" for j k
  proof -
    have kl: "k < length h" using j(2) k by linarith
    have jk: "j \<noteq> i \<Longrightarrow> ev_ord (h ! k) \<le> ev_ord (h ! j)" using edge [OF j(1,2)] k by simp
    consider "j = i" | "j \<noteq> i" "k = i" | "j \<noteq> i" "k = p" | "j \<noteq> i" "k \<noteq> i" "k \<noteq> p"
      by blast
    then show ?thesis
    proof cases
      case 1
      then have "k = p" by (simp add: k pi)
      then show ?thesis using 1 ex [OF kl] ex [OF j(2)] lt p by simp
    next
      case 2
      then have "ev_ord (h ! p) \<le> ev_ord (h ! j)" using grand [OF j(2)] k by simp
      then show ?thesis using 2 ex [OF kl] ex [OF j(2)] j(3) p by simp
    next
      case 3
      then have "ev_ord (h ! i) \<le> ev_ord (h ! j)" using jk lt by simp
      then show ?thesis using 3 ex [OF kl] ex [OF j(2)] j(3) p by simp
    next
      case 4
      then show ?thesis using ex [OF kl] ex [OF j(2)] jk j(3) by simp
    qed
  qed
  moreover have "ev_ord (Exch i p h ! q) \<le> ev_ord (Exch i p h ! j)"
    if j: "2 \<le> p" "j < length h" "j div 2 = p" and q: "q = p div 2" for j q
  proof -
    have ql: "q < length h" "q \<noteq> p" "q \<noteq> i" using p j(1) q by auto
    have up: "ev_ord (h ! q) \<le> ev_ord (h ! p)" using edge [of p] j(1) p q by simp
    have jp: "j \<noteq> p" "2 \<le> j" using j by auto
    show ?thesis
    proof (cases "j = i")
      case True
      then show ?thesis using up ex [OF ql(1)] ex [OF j(2)] ql p by simp
    next
      case False
      then have "ev_ord (h ! p) \<le> ev_ord (h ! j)" using edge [OF jp(2) j(2)] j(3) by simp
      then show ?thesis using up False ex [OF ql(1)] ex [OF j(2)] ql jp by simp
    qed
  qed
  ultimately show ?thesis by (simp add: heap_but_up_def)
qed

lemma BottomUp_from_correct:
  assumes "1 \<le> i" "i < length h" "heap_but_up h i"
  shows "is_heap (BottomUp_from i h) \<and> mset (BottomUp_from i h) = mset h \<and>
         length (BottomUp_from i h) = length h \<and> BottomUp_from i h ! 0 = h ! 0"
  using assms
proof (induction i h rule: BottomUp_from.induct)
  case (1 i h)
  show ?case
  proof (cases "\<not> IsRoot i \<and> IsLessStrictly h i (Parent i)")
    case True
    then have i2: "2 \<le> i" and lt: "ev_ord (h ! i) < ev_ord (h ! (i div 2))"
      using "1.prems"(1) by (auto simp: heap_index_defs IsLessStrictly_ord)
    have p: "1 \<le> i div 2" "i div 2 < length h" using i2 "1.prems"(2) by auto
    have "heap_but_up (Exch i (i div 2) h) (i div 2)"
      using BottomUp_step "1.prems" i2 lt by blast
    then show ?thesis
      using "1.IH" [OF True] True p "1.prems"(1,2) BottomUp_from.simps [of i h]
      by (simp add: Parent_def mset_Exch Exch_nth_0)
  next
    case False
    have "is_heap h"
      unfolding is_heap_def
    proof (intro conjI allI impI)
      show "h \<noteq> []" using "1.prems"(2) by auto
      fix j assume j: "2 \<le> j \<and> j < length h"
      show "ev_ord (h ! (j div 2)) \<le> ev_ord (h ! j)"
      proof (cases "j = i")
        case True
        then show ?thesis
          using False j by (auto simp: heap_index_defs IsLessStrictly_ord linorder_not_less)
      next
        case False
        then show ?thesis using "1.prems"(3) j by (simp add: heap_but_up_def)
      qed
    qed
    then show ?thesis using False BottomUp_from.simps [of i h] by auto
  qed
qed

lemma TopDown_step:
  assumes i: "1 \<le> i" "c div 2 = i" "c < length h"
    and least: "\<And>j. j < length h \<Longrightarrow> j div 2 = i \<Longrightarrow> ev_ord (h ! c) \<le> ev_ord (h ! j)"
    and le: "ev_ord (h ! c) \<le> ev_ord (h ! i)" and ok: "heap_but_down h i"
  shows "heap_but_down (Exch i c h) c"
proof -
  have il: "i < length h" "i < c" "2 \<le> c" using i by auto
  have ex: "\<And>j. j < length h \<Longrightarrow>
      Exch i c h ! j = (if j = c then h ! i else if j = i then h ! c else h ! j)"
    using Exch_nth [OF il(1) i(3)] .
  have edge: "ev_ord (h ! (j div 2)) \<le> ev_ord (h ! j)"
    if "2 \<le> j" "j < length h" "j div 2 \<noteq> i" for j
    using ok that by (simp add: heap_but_down_def)
  have "ev_ord (Exch i c h ! (j div 2)) \<le> ev_ord (Exch i c h ! j)"
    if j: "2 \<le> j" "j < length h" "j div 2 \<noteq> c" for j
  proof -
    have jd: "j div 2 < length h" using j(2) by auto
    consider "j = i" | "j = c" | "j \<noteq> i" "j \<noteq> c" "j div 2 = i" | "j \<noteq> i" "j \<noteq> c" "j div 2 \<noteq> i"
      by blast
    then show ?thesis
    proof cases
      case 1
      then have "j div 2 \<noteq> i" "2 \<le> i" using j il by auto
      moreover have "ev_ord (h ! (i div 2)) \<le> ev_ord (h ! c)"
        using ok \<open>2 \<le> i\<close> i by (simp add: heap_but_down_def)
      ultimately show ?thesis using ex [OF jd] ex [OF j(2)] 1 il j(3) by auto
    next
      case 2
      then show ?thesis using ex [OF jd] ex [OF j(2)] le i il by auto
    next
      case 3
      then show ?thesis using ex [OF jd] ex [OF j(2)] least [OF j(2)] j(3) by auto
    next
      case 4
      then show ?thesis using ex [OF jd] ex [OF j(2)] edge [OF j(1,2)] j(3) by auto
    qed
  qed
  moreover have "ev_ord (Exch i c h ! (c div 2)) \<le> ev_ord (Exch i c h ! j)"
    if j: "j < length h" "j div 2 = c" for j
  proof -
    have "j div 2 \<noteq> i" "j \<noteq> c" "j \<noteq> i" "2 \<le> j" using j il by auto
    then show ?thesis using edge [of j] j ex [OF j(1)] ex [OF il(1)] i il by auto
  qed
  ultimately show ?thesis by (simp add: heap_but_down_def)
qed

lemma TopDown_correct:
  assumes "1 \<le> i" "h \<noteq> []" "heap_but_down h i"
  shows "\<exists>h'. TopDown i h = Some h' \<and> is_heap h' \<and> mset h' = mset h \<and>
           length h' = length h \<and> h' ! 0 = h ! 0"
  using assms
proof (induction "length h - i" arbitrary: i h rule: less_induct)
  case less
  let ?l = "LeftChild i" and ?r = "RightChild i"
  define c where "c = Smallest h ?l ?r"
  have kids: "j = ?l \<or> j = ?r" if "j div 2 = i" for j
    using that by (auto simp: heap_index_defs)
  have stop: "is_heap h" if "\<And>j. j < length h \<Longrightarrow> j div 2 = i \<Longrightarrow> ev_ord (h ! i) \<le> ev_ord (h ! j)"
    using that less.prems(2,3) by (auto simp: is_heap_def heap_but_down_def)
  show ?case
  proof (cases "IsBottom h ?r")
    case False
    then have cl: "c < length h" "c div 2 = i" "i < c"
      using less.prems(1) by (auto simp: c_def heap_index_defs)
    have least: "ev_ord (h ! c) \<le> ev_ord (h ! j)" if "j div 2 = i" for j
      using kids [OF that] by (auto simp: c_def Smallest_def IsLessStrictly_ord)
    show ?thesis
    proof (cases "IsLessStrictly h i c")
      case True
      then have "is_heap h"
        using stop least by (meson IsLessStrictly_ord less_imp_le order.trans)
      then show ?thesis using False True by (simp add: TopDown.simps [of i h] c_def)
    next
      case ge: False
      then have le: "ev_ord (h ! c) \<le> ev_ord (h ! i)" by (simp add: IsLessStrictly_ord not_less)
      have il: "i < length h" using cl by linarith
      have down: "heap_but_down (Exch i c h) c"
        using TopDown_step [OF less.prems(1) cl(2,1) least le less.prems(3)] .
      have small: "length (Exch i c h) - c < length h - i" "1 \<le> c" using cl il by auto
      have ne: "Exch i c h \<noteq> []" using less.prems(2) by simp
      obtain h' where "TopDown c (Exch i c h) = Some h'" "is_heap h'"
          "mset h' = mset (Exch i c h)" "length h' = length h" "h' ! 0 = Exch i c h ! 0"
        using less.hyps [OF small ne down] by auto
      then show ?thesis
        using False ge cl il less.prems(1)
        by (simp add: TopDown.simps [of i h] mset_Exch Exch_nth_0 flip: c_def)
    qed
  next
    case bottom: True
    have only: "j = ?l" if "j < length h" "j div 2 = i" for j
      using kids [OF that(2)] that(1) bottom by (auto simp: IsBottom_def)
    show ?thesis
    proof (cases "IsBottom h ?l \<or> IsLessStrictly h i ?l")
      case True
      then have "is_heap h"
        using stop only by (fastforce simp: IsBottom_def IsLessStrictly_ord)
      then show ?thesis using True bottom by (auto simp: TopDown.simps [of i h])
    next
      case False
      then have l: "?l < length h" "?l div 2 = i" "i < ?l" "i < length h"
        using less.prems(1) by (auto simp: heap_index_defs)
      have le: "ev_ord (h ! ?l) \<le> ev_ord (h ! i)"
        using False by (simp add: IsLessStrictly_ord not_less)
      have least: "ev_ord (h ! ?l) \<le> ev_ord (h ! j)" if "j < length h" "j div 2 = i" for j
        unfolding only [OF that] ..
      have down: "heap_but_down (Exch i ?l h) ?l"
        by (rule TopDown_step [OF less.prems(1) l(2,1) least le less.prems(3)])
      have "is_heap (Exch i ?l h)"
        unfolding is_heap_def
      proof (intro conjI allI impI)
        show "Exch i ?l h \<noteq> []" using less.prems(2) by simp
        fix j assume j: "2 \<le> j \<and> j < length (Exch i ?l h)"
        have "j div 2 \<noteq> ?l" using j bottom less.prems(1) by (auto simp: heap_index_defs)
        then show "ev_ord (Exch i ?l h ! (j div 2)) \<le> ev_ord (Exch i ?l h ! j)"
          using down j by (simp add: heap_but_down_def)
      qed
      moreover have "TopDown i h = Some (Exch i ?l h)"
        using False bottom l(4) by (simp add: TopDown.simps [of i h] IsBottom_def)
      ultimately show ?thesis using l less.prems(1) by (simp add: mset_Exch Exch_nth_0)
    qed
  qed
qed

lemma heap_root_least:
  assumes "is_heap h" "1 \<le> j" "j < length h"
  shows "ev_ord (h ! 1) \<le> ev_ord (h ! j)"
  using assms(2,3)
proof (induction j rule: less_induct)
  case (less j)
  show ?case
  proof (cases "j = 1")
    case False
    then have "ev_ord (h ! 1) \<le> ev_ord (h ! (j div 2))" using less by simp
    also have "\<dots> \<le> ev_ord (h ! j)" using assms(1) less.prems False by (simp add: is_heap_def)
    finally show ?thesis .
  qed simp
qed

subsection \<open>The contract\<close>

definition heap_events :: "heap_queue \<Rightarrow> Event multiset" where
  "heap_events h = mset (tl h)"

definition heap_invar :: "heap_queue \<Rightarrow> bool" where
  "heap_invar h \<longleftrightarrow> is_heap h \<and> uids_distinct (heap_events h)"

lemma heap_events_eq:
  assumes "mset h = mset h'" "h ! 0 = h' ! 0" "h \<noteq> []" "h' \<noteq> []"
  shows "heap_events h = heap_events h'"
  using assms by (cases h; cases h') (auto simp: heap_events_def)

lemma heap_but_up_append: "is_heap h \<Longrightarrow> heap_but_up (h @ [e]) (length h)"
  unfolding heap_but_up_def is_heap_def by (auto simp: nth_append)

lemma HeapScheduler_Insert_correct:
  assumes "is_heap h"
  shows "is_heap (HeapScheduler_Insert e h) \<and>
         heap_events (HeapScheduler_Insert e h) = add_mset e (heap_events h)"
proof -
  have ne: "h \<noteq> []" and n: "1 \<le> length h" using assms by (auto simp: is_heap_def Suc_le_eq)
  let ?h = "HeapScheduler_Insert e h"
  have c: "is_heap ?h \<and> mset ?h = mset (h @ [e]) \<and> length ?h = length (h @ [e]) \<and>
      ?h ! 0 = (h @ [e]) ! 0"
    using BottomUp_from_correct [OF n _ heap_but_up_append [OF assms]]
    by (simp add: HeapScheduler_Insert_def BottomUp_def Last_def)
  then have "heap_events ?h = heap_events (h @ [e])"
    by (intro heap_events_eq) (auto simp: is_heap_def)
  then show ?thesis using c ne by (simp add: heap_events_def)
qed

lemma butlast_Exch_last:
  assumes "1 \<le> i" "i < length h"
  shows "heap_events (butlast (Exch i (Last h) h)) = heap_events h - {#h ! i#}"
proof -
  obtain d t where h: "h = d # t" using assms(2) by (cases h) auto
  then obtain ys l where t: "t = ys @ [l]" using assms by (cases t rule: rev_cases) auto
  show ?thesis
  proof (cases "i = Last h")
    case True
    then show ?thesis by (simp add: h t Exch_def heap_events_def Last_def nth_append)
  next
    case False
    then obtain k where i: "i = Suc k" and k: "k < length ys"
      using assms by (cases i) (auto simp: h t Last_def)
    have "mset (ys[k := l]) = add_mset l (mset ys) - {#ys ! k#}" by (simp add: k mset_update)
    moreover have "butlast (Exch i (Last h) h) = d # ys[k := l]"
      using k by (simp add: h t i Exch_def Last_def nth_append list_update_append)
    moreover have "h ! i = ys ! k" using k by (simp add: h t i nth_append)
    ultimately show ?thesis by (simp add: h t heap_events_def)
  qed
qed

lemma heap_but_down_root:
  assumes "is_heap h" "1 < length h"
  shows "heap_but_down (butlast (Exch Root (Last h) h)) 1"
  using assms by (auto simp: heap_but_down_def is_heap_def nth_butlast Exch_nth Root_def Last_def)

lemma HeapScheduler_RemoveNext_correct:
  assumes "is_heap h" "1 < length h"
  shows "\<exists>h'. HeapScheduler_RemoveNext h = Some (h ! 1, h') \<and> is_heap h' \<and>
           heap_events h' = heap_events h - {#h ! 1#}"
proof -
  let ?b = "butlast (Exch Root (Last h) h)"
  have "length ?b = length h - 1" by simp
  then have b: "?b \<noteq> []" using assms(2) by (cases ?b) auto
  obtain h' where h': "TopDown 1 ?b = Some h'" "is_heap h'" "mset h' = mset ?b"
      "length h' = length ?b" "h' ! 0 = ?b ! 0"
    using TopDown_correct [OF _ b heap_but_down_root [OF assms]] by auto
  have "heap_events h' = heap_events ?b"
    using h' b by (intro heap_events_eq) (auto simp: is_heap_def)
  also have "\<dots> = heap_events h - {#h ! 1#}"
    using butlast_Exch_last [of 1 h] assms(2) by (simp add: Root_def)
  finally show ?thesis
    using h' assms(2) by (simp add: HeapScheduler_RemoveNext_def Root_def)
qed

lemma heap_root_is_next:
  assumes "heap_invar h" "1 < length h"
  shows "is_next (h ! 1) (heap_events h)"
proof -
  obtain d r es where h: "h = d # r # es" using assms(2) by (cases h; cases "tl h") auto
  have "EventKey_less (key r) (key f)" if f: "f \<in> set es" for f
  proof -
    have "f \<in> set (tl h)" using f by (simp add: h)
    then obtain j where j: "1 \<le> j" "j < length h" "f = h ! j"
      by (force simp: h in_set_conv_nth)
    then have "ev_ord r \<le> ev_ord f" using heap_root_least assms(1) by (fastforce simp: heap_invar_def h)
    moreover have "ev_uid f \<noteq> ev_uid r"
      using assms(1) f by (simp add: heap_invar_def heap_events_def h uids_distinct_add uid_fresh_def)
    ultimately show ?thesis by (metis EventKey_less_ord ord_key_uid order_le_less)
  qed
  then show ?thesis by (simp add: is_next_def heap_events_def h)
qed

interpretation heap_sched: scheduler heap_ops heap_invar heap_events
proof unfold_locales
  fix q :: heap_queue and e :: Event
  assume inv: "heap_invar q"
  then have hp: "is_heap q" and u: "uids_distinct (heap_events q)" by (auto simp: heap_invar_def)
  have len: "heap_events q \<noteq> {#} \<longleftrightarrow> 1 < length q"
    using hp by (cases q; cases "tl q") (auto simp: heap_events_def is_heap_def)
  show "uids_distinct (heap_events q)" by (rule u)
  show "op_IsEmpty heap_ops q = (heap_events q = {#})"
    using hp by (cases q) (auto simp: heap_ops_def HeapScheduler_IsEmpty_def heap_events_def is_heap_def)
  show "uid_fresh e (heap_events q) \<Longrightarrow> heap_invar (op_Insert heap_ops e q) \<and>
      heap_events (op_Insert heap_ops e q) = add_mset e (heap_events q)"
    using HeapScheduler_Insert_correct [OF hp] u
    by (simp add: heap_ops_def heap_invar_def uids_distinct_add)
  show "heap_events q \<noteq> {#} \<Longrightarrow> \<exists>e. op_PeekNext heap_ops q = Some e \<and> is_next e (heap_events q)"
    using heap_root_is_next [OF inv] len
    by (simp add: heap_ops_def HeapScheduler_PeekNext_def Root_def)
  show "heap_events q \<noteq> {#} \<Longrightarrow> \<exists>e q'. op_RemoveNext heap_ops q = Some (e, q') \<and> heap_invar q' \<and>
      is_next e (heap_events q) \<and> heap_events q' = heap_events q - {#e#}"
    using HeapScheduler_RemoveNext_correct [OF hp] heap_root_is_next [OF inv] len u
    by (fastforce simp: heap_ops_def heap_invar_def uids_distinct_diff)
qed

lemma heap_invar_init: "heap_invar HeapScheduler_init" "heap_events HeapScheduler_init = {#}"
  by (simp_all add: heap_invar_def is_heap_def heap_events_def HeapScheduler_init_def)

end
