(* ===== verification/Event_Properties.thy ===== *)
theory Event_Properties
  imports List_Scheduler Map_Scheduler Heap_Scheduler
begin

text \<open>
  The properties of the event core: the three schedulers hand out the same events in the same
  order, events can be moved between them and taken back, the simulator keeps its invariant when it
  schedules, removes and runs events, and times survive the fixed-point conversion.
\<close>

subsection \<open>Filling a scheduler\<close>

context scheduler
begin

lemma insert_all:
  assumes "invar q" "uids_distinct (events q + mset es)"
  shows "invar (foldl (\<lambda>q e. op_Insert ops e q) q es) \<and>
    events (foldl (\<lambda>q e. op_Insert ops e q) q es) = events q + mset es"
  using assms
proof (induction es arbitrary: q)
  case (Cons e es)
  have "uid_fresh e (events q + mset es)" using Cons.prems(2) by (simp add: uids_distinct_add)
  then have "uid_fresh e (events q)" by (rule uid_fresh_mono) simp
  with Insert_law [OF Cons.prems(1)] have ins: "invar (op_Insert ops e q)"
      "events (op_Insert ops e q) = add_mset e (events q)" by auto
  then show ?case using Cons.IH [OF ins(1)] Cons.prems(2) by simp
qed simp

lemma fill_and_drain:
  assumes "invar q" "events q = {#}" "uids_distinct (mset es)"
  obtains out where "drain ops (foldl (\<lambda>q e. op_Insert ops e q) q es) [] = Some out"
    "mset out = mset es" "sorted_wrt (<) (map ev_ord out)"
  using drain_sorted [of "foldl (\<lambda>q e. op_Insert ops e q) q es"] insert_all [OF assms(1), of es] assms(2,3)
  by auto

end

abbreviation fill :: "'q scheduler_ops \<Rightarrow> 'q \<Rightarrow> Event list \<Rightarrow> 'q" where
  "fill ops q es \<equiv> foldl (\<lambda>q e. op_Insert ops e q) q es"

lemma empty_queues:
  "list_invar []" "map_invar []" "heap_invar HeapScheduler_init"
  "map_events [] = {#}" "heap_events HeapScheduler_init = {#}"
  by (simp_all add: list_invar_def map_invar_def heap_invar_init)

text \<open>The events of the examples: five events, two of them at the same time.\<close>

definition ev :: "uint64 \<Rightarrow> uint32 \<Rightarrow> Event" where
  "ev t u = \<lparr>impl = unat u, key = \<lparr>m_ts = t, m_uid = u, m_context = 0\<rparr>\<rparr>"

lemma ev_simps [simp]: "ev_ord (ev t u) = (t, u)" "ev_uid (ev t u) = u" "m_ts (key (ev t u)) = t"
  "m_uid (key (ev t u)) = u" "impl (ev t u) = unat u"
  by (simp_all add: ev_def ord_key_def)

interpretation map_heap: scheduler_pair map_ops map_invar map_events heap_ops heap_invar heap_events ..

interpretation list_map: scheduler_pair list_ops list_invar mset map_ops map_invar map_events ..

subsection \<open>Order\<close>

text \<open>C6: The schedulers of the simulation core are interchangeable. Whatever events with distinct
  ids are inserted, in whatever order, the list, the map and the heap scheduler hand them all out
  again, in one and the same order: by time stamp, and by id (the order of scheduling) where time
  stamps agree.\<close>
theorem schedulers_agree:
  assumes "uids_distinct (mset es)"
  shows "\<exists>out. drain list_ops (fill list_ops [] es) [] = Some out \<and>
    drain map_ops (fill map_ops [] es) [] = Some out \<and>
    drain heap_ops (fill heap_ops HeapScheduler_init es) [] = Some out \<and>
    mset out = mset es \<and> sorted_wrt (\<lambda>a b. EventKey_less (key a) (key b)) out"
proof -
  obtain l where l: "drain list_ops (fill list_ops [] es) [] = Some l" "mset l = mset es"
      "sorted_wrt (<) (map ev_ord l)"
    by (rule list_sched.fill_and_drain [OF empty_queues(1) _ assms]) simp
  obtain m where m: "drain map_ops (fill map_ops [] es) [] = Some m" "mset m = mset es"
      "sorted_wrt (<) (map ev_ord m)"
    by (rule map_sched.fill_and_drain [OF empty_queues(2,4) assms])
  obtain h where h: "drain heap_ops (fill heap_ops HeapScheduler_init es) [] = Some h" "mset h = mset es"
      "sorted_wrt (<) (map ev_ord h)"
    by (rule heap_sched.fill_and_drain [OF empty_queues(3,5) assms])
  have "m = l" "h = l" using sorted_wrt_mset_unique [of ev_ord] l m h by auto
  then show ?thesis using l m h by (auto simp: sorted_wrt_map EventKey_less_ord)
qed

lemma schedulers_agree_witness:
  "\<exists>out. drain heap_ops (fill heap_ops HeapScheduler_init [ev 7 4, ev 3 5, ev 3 6]) [] = Some out \<and>
    mset out = {#ev 7 4, ev 3 5, ev 3 6#}"
  using schedulers_agree [of "[ev 7 4, ev 3 5, ev 3 6]"]
  by (auto simp: uids_distinct_add)

text \<open>Replacing the scheduler of a simulation (\<open>SetScheduler\<close>) loses, adds and reorders
  nothing: the new heap scheduler holds exactly the events of the old map scheduler and hands them
  out in the order the old one would have.\<close>
theorem SetScheduler_keeps_events:
  assumes "map_invar m"
  shows "\<exists>h. DSI_SetScheduler map_ops heap_ops (Some m) HeapScheduler_init = Some h \<and> heap_invar h \<and>
    heap_events h = map_events m \<and> drain heap_ops h [] = drain map_ops m []"
proof -
  have "uids_distinct (map_events m + heap_events HeapScheduler_init)"
    using assms by (simp add: empty_queues map_invar_def)
  then obtain h where h: "move_events map_ops heap_ops m HeapScheduler_init = Some h" "heap_invar h"
      "heap_events h = map_events m"
    using map_heap.move_events_keeps [OF assms empty_queues(3)] by (auto simp: empty_queues)
  then show ?thesis using map_heap.same_drain [OF assms h(2)] by (simp add: DSI_SetScheduler_def)
qed

lemma SetScheduler_keeps_events_witness:
  "\<exists>h. DSI_SetScheduler map_ops heap_ops (Some [(key (ev 3 5), 5), (key (ev 7 4), 4)]) HeapScheduler_init = Some h \<and>
    heap_events h = {#ev 3 5, ev 7 4#}"
  using SetScheduler_keeps_events [of "[(key (ev 3 5), 5), (key (ev 7 4), 4)]"]
  by (auto simp: map_invar_def map_events_def entry_event_def uids_distinct_add ord_key_def ev_def)

text \<open>\<open>HeapScheduler::RemoveNext\<close> takes out an event that is before every other one, and
  leaves a heap of the others.\<close>
theorem heap_RemoveNext_least:
  assumes "heap_invar h" "heap_events h \<noteq> {#}"
  shows "\<exists>h'. HeapScheduler_RemoveNext h = Some (h ! 1, h') \<and> heap_invar h' \<and>
    heap_events h = add_mset (h ! 1) (heap_events h') \<and>
    (\<forall>f. f \<in># heap_events h' \<longrightarrow> EventKey_less (key (h ! 1)) (key f))"
proof -
  obtain e h' where r: "HeapScheduler_RemoveNext h = Some (e, h')" "heap_invar h'"
      "is_next e (heap_events h)" "heap_events h = add_mset e (heap_events h')"
    by (rule heap_sched.RemoveNext_cases [OF assms]) (simp add: heap_ops_def)
  moreover have "e = h ! 1"
    using r(1) by (auto simp: HeapScheduler_RemoveNext_def Root_def split: if_splits option.splits)
  ultimately show ?thesis by (auto simp: is_next_def)
qed

lemma heap_example:
  "heap_invar (HeapScheduler_init @ [ev 3 5, ev 7 4])" "heap_events (HeapScheduler_init @ [ev 3 5, ev 7 4]) = {#ev 3 5, ev 7 4#}"
proof -
  have "(j :: nat) = 2" if "2 \<le> j \<and> j < 3" for j using that by auto
  then show "heap_invar (HeapScheduler_init @ [ev 3 5, ev 7 4])"
    by (auto simp: heap_invar_def is_heap_def HeapScheduler_init_def heap_events_def uids_distinct_add)
qed (simp add: heap_events_def HeapScheduler_init_def)

subsection \<open>The heap\<close>

lemma TopDown_total:
  assumes "1 \<le> i"
  shows "\<exists>h'. TopDown i h = Some h' \<and> mset h' = mset h \<and> length h' = length h"
  using assms
proof (induction "length h - i" arbitrary: i h rule: less_induct)
  case less
  let ?l = "LeftChild i" and ?r = "RightChild i"
  let ?c = "Smallest h ?l ?r"
  show ?case
  proof (cases "\<not> IsBottom h ?r \<and> \<not> IsLessStrictly h i ?c")
    case True
    then have c: "i < ?c" "?c < length h" using less.prems by (auto simp: heap_index_defs)
    then have il: "i < length h" by linarith
    have "length (Exch i ?c h) - ?c < length h - i" "1 \<le> ?c" using c il by auto
    from less.hyps [OF this] show ?thesis
      using True c il by (auto simp: TopDown.simps [of i h] mset_Exch)
  next
    case False
    then show ?thesis
      using less.prems by (auto simp: TopDown.simps [of i h] mset_Exch IsBottom_def LeftChild_def)
  qed
qed

definition heap_of :: "Event list \<Rightarrow> heap_queue" where
  "heap_of es = HeapScheduler_init @ es"

declare TopDown.simps [code] drain.simps [code]

text \<open>The sift-down loop of the heap scheduler ends. Started at an index of the heap (1 or
  more) of any vector, in heap order or not, it returns, with the same events in the vector.\<close>
theorem TopDown_ends:
  assumes "1 \<le> i"
  shows "\<exists>h'. TopDown i h = Some h' \<and> mset h' = mset h \<and> length h' = length h"
  using TopDown_total [OF assms] .

lemma TopDown_ends_witness:
  "\<exists>h'. TopDown Root (HeapScheduler_init @ [ev 9 5, ev 7 4, ev 3 6]) = Some h' \<and> length h' = 4"
  using TopDown_ends [of Root "HeapScheduler_init @ [ev 9 5, ev 7 4, ev 3 6]"]
  by (auto simp: Root_def HeapScheduler_init_def)

text \<open>C35: \<open>HeapScheduler::Remove\<close> can break the heap, because it only sifts the event it moves
  into the hole down and never up: there is a valid heap with an event in it whose removal leaves a
  vector that hands out a later event before an earlier one (here event 4 before event 3).\<close>
theorem heap_Remove_breaks_order:
  "\<exists>h e h' out. heap_invar h \<and> e \<in># heap_events h \<and> HeapScheduler_Remove e h = Some h' \<and>
     drain heap_ops h' [] = Some out \<and> \<not> sorted_wrt (\<lambda>a b. EventKey_less (key a) (key b)) out"
proof -
  let ?h = "heap_of [ev 1 1, ev 4 4, ev 2 2, ev 7 7, ev 6 6, ev 5 5, ev 3 3]" and
    ?h' = "heap_of [ev 1 1, ev 4 4, ev 2 2, ev 3 3, ev 6 6, ev 5 5]"
  have "j = 2 \<or> j = 3 \<or> j = 4 \<or> j = 5 \<or> j = 6 \<or> j = 7" if "2 \<le> j \<and> j < 8" for j :: nat
    using that by presburger
  then have "heap_invar ?h"
    by (force simp: heap_invar_def is_heap_def heap_events_def heap_of_def HeapScheduler_init_def
        uids_distinct_add)
  moreover have "ev 7 7 \<in># heap_events ?h" by (simp add: heap_events_def heap_of_def HeapScheduler_init_def)
  moreover have "HeapScheduler_Remove (ev 7 7) ?h = Some ?h'" by code_simp
  moreover have "drain heap_ops ?h' [] = Some [ev 1 1, ev 2 2, ev 4 4, ev 3 3, ev 5 5, ev 6 6]"
    by code_simp
  ultimately show ?thesis by (force simp: EventKey_less_ord)
qed

lemma heap_find_uid_nth:
  assumes "k < length es" "m_uid (key (es ! k)) = u" "\<forall>j < k. m_uid (key (es ! j)) \<noteq> u"
  shows "heap_find_uid u i es = Some (i + k)"
  using assms
proof (induction es arbitrary: i k)
  case (Cons e es)
  show ?case
  proof (cases k)
    case 0
    then show ?thesis using Cons.prems by simp
  next
    case (Suc n)
    then have "m_uid (key e) \<noteq> u" "\<forall>j < n. m_uid (key (es ! j)) \<noteq> u"
      using Cons.prems(3) by (force, force)
    then show ?thesis using Cons.IH [of n "Suc i"] Cons.prems Suc by auto
  qed
qed simp

lemma uids_distinct_nth:
  assumes "uids_distinct (mset es)" "j < k" "k < length es"
  shows "ev_uid (es ! j) \<noteq> ev_uid (es ! k)"
  using assms
proof (induction es arbitrary: j k)
  case (Cons e es)
  have d: "\<forall>f \<in> set es. ev_uid f \<noteq> ev_uid e" "uids_distinct (mset es)"
    using Cons.prems(1) by (auto simp: uids_distinct_add uid_fresh_def)
  obtain n where k: "k = Suc n" "n < length es" using Cons.prems(2,3) by (cases k) auto
  show ?case
  proof (cases j)
    case 0
    then show ?thesis using d(1) k nth_mem [of n es] by force
  next
    case (Suc l)
    then show ?thesis using Cons.IH [OF d(2), of l n] Cons.prems k by simp
  qed
qed simp

lemma heap_find_own_uid:
  assumes "uids_distinct (heap_events h)" "1 \<le> i" "i < length h"
  shows "heap_find_uid (ev_uid (h ! i)) 1 (tl h) = Some i"
proof -
  obtain d es where h: "h = d # es" using assms(3) by (cases h) auto
  have "\<forall>j < i - 1. ev_uid (es ! j) \<noteq> ev_uid (es ! (i - 1))"
    using uids_distinct_nth [of es] assms by (simp add: h heap_events_def)
  then show ?thesis
    using heap_find_uid_nth [of "i - 1" es "ev_uid (h ! i)" 1] assms(2,3) by (simp add: h nth_Cons')
qed

lemma heap_but_down_hole:
  assumes h: "is_heap h" "1 \<le> i" "i < length h"
    and ok: "i = 1 \<or> ev_ord (h ! (i div 2)) \<le> ev_ord (last h)"
  shows "heap_but_down (butlast (Exch i (Last h) h)) i"
proof -
  have ne: "h \<noteq> []" using h(3) by auto
  have b: "butlast (Exch i (Last h) h) ! j = (if j = i then last h else h ! j)" if "j < length h - 1" for j
    using that h(3) ne by (simp add: nth_butlast Exch_nth Last_def last_conv_nth)
  have edge: "ev_ord (h ! (j div 2)) \<le> ev_ord (h ! j)" if "2 \<le> j" "j < length h" for j
    using h(1) that by (simp add: is_heap_def)
  have up: "ev_ord (h ! (i div 2)) \<le> ev_ord (h ! j)" if "2 \<le> i" "j < length h" "j div 2 = i" for j
    using edge [of i] edge [of j] that h(3) by (simp add: order.trans)
  have small: "j div 2 < length h - 1" if "j < length h - 1" for j using that by linarith
  show ?thesis
    unfolding heap_but_down_def
    using b edge up ok small h(2) by (auto dest: order.strict_implies_order)
qed

text \<open>Where the event moved into the hole is not before the parent of the hole, removal is right:
  exactly the event goes, and a heap is left.\<close>
theorem heap_Remove_correct:
  assumes "heap_invar h" "1 \<le> i" "i < length h"
    and "i = 1 \<or> ev_ord (h ! Parent i) \<le> ev_ord (last h)"
  shows "\<exists>h'. HeapScheduler_Remove (h ! i) h = Some h' \<and> heap_invar h' \<and>
    heap_events h' = heap_events h - {#h ! i#}"
proof -
  let ?b = "butlast (Exch i (Last h) h)"
  have hp: "is_heap h" and u: "uids_distinct (heap_events h)" using assms(1) by (auto simp: heap_invar_def)
  have "heap_but_down ?b i" using heap_but_down_hole [OF hp assms(2,3)] assms(4) by (simp add: Parent_def)
  moreover have "length ?b = length h - 1" by simp
  then have b: "?b \<noteq> []" using assms(2,3) by (cases ?b) auto
  ultimately obtain h' where h': "TopDown i ?b = Some h'" "is_heap h'" "mset h' = mset ?b" "h' ! 0 = ?b ! 0"
    using TopDown_correct [OF assms(2)] by blast
  have "heap_events h' = heap_events ?b"
    using h' b by (intro heap_events_eq) (auto simp: is_heap_def)
  then have "heap_events h' = heap_events h - {#h ! i#}" using butlast_Exch_last [OF assms(2,3)] by simp
  then show ?thesis
    using h' u heap_find_own_uid [OF u assms(2,3)]
    by (simp add: HeapScheduler_Remove_def heap_invar_def uids_distinct_diff)
qed

lemma heap_Remove_correct_witness:
  "\<exists>h'. HeapScheduler_Remove (ev 7 4) (HeapScheduler_init @ [ev 3 5, ev 7 4]) = Some h' \<and>
    heap_events h' = {#ev 3 5#}"
  using heap_Remove_correct [OF heap_example(1), of 2] unfolding heap_example(2)
  by (auto simp: HeapScheduler_init_def Parent_def)

subsection \<open>The map\<close>

lemma map_Remove_Insert:
  assumes "uid_fresh e (map_events m)"
  shows "MapScheduler_Remove e (MapScheduler_Insert e m) = Some m"
  using assms
proof (induction m)
  case (Cons kp m)
  obtain k p where kp: "kp = (k, p)" by force
  have "ord_key k \<noteq> ev_ord e" using fresh_not_key [OF Cons.prems, of kp] kp by simp
  then have "EventKey_less k (key e) \<longleftrightarrow> \<not> EventKey_less (key e) k"
    by (auto simp: EventKey_less_ord)
  then show ?case using Cons by (auto simp: kp EventKey_less_ord)
qed (simp add: EventKey_less_ord)

text \<open>On the default scheduler, removing an event right after its insertion restores the queue
  exactly, for an event whose id is new.\<close>
theorem map_Remove_undoes_Insert:
  "uid_fresh e (map_events m) \<Longrightarrow> MapScheduler_Remove e (MapScheduler_Insert e m) = Some m"
  by (rule map_Remove_Insert)

lemma map_Remove_undoes_Insert_witness:
  "MapScheduler_Remove (ev 5 9) (MapScheduler_Insert (ev 5 9) [(key (ev 3 5), 5), (key (ev 7 4), 4)]) =
    Some [(key (ev 3 5), 5), (key (ev 7 4), 4)]"
  by (rule map_Remove_undoes_Insert) (simp add: map_events_def entry_event_def)

subsection \<open>The simulator\<close>

text \<open>The examples: a simulator without handlers that has one event scheduled at time 7.\<close>

definition sim0 :: "(map_queue, nat) simulator" where
  "sim0 = DefaultSimulatorImpl_init []"

definition sim1 :: "(map_queue, nat) simulator" where
  "sim1 = Simulator_Schedule map_ops 7 1 sim0"

abbreviation map_inv :: "(map_queue, 'e, 'z) simulator_scheme \<Rightarrow> bool" where
  "map_inv \<equiv> sim_inv map_invar map_events"

abbreviation map_pending :: "(map_queue, 'e, 'z) simulator_scheme \<Rightarrow> 'e closure multiset" where
  "map_pending \<equiv> pending map_events"

lemma sim0_facts: "map_inv sim0" "map_pending sim0 = {#}" "room_for 7 sim0" "Time_IsPositive 7"
  by (simp_all add: sim0_def DefaultSimulatorImpl_init_def sim_inv_def pending_def empty_queues
      UID_VALID_def UID_INVALID_def room_for_def Time_IsPositive_def)

text \<open>\<open>Schedule\<close> with a delay that is not negative keeps the invariant of the simulator (the
  event list is in order with distinct ids, no event lies in the past, the count of unscheduled
  events is right, every event has its object) and adds exactly the scheduled call to what is
  pending, while an id is left and the time stamp does not wrap.\<close>
theorem Schedule_adds_event:
  assumes "map_inv s" "Time_IsPositive d" "room_for d s"
  shows "map_inv (Simulator_Schedule map_ops d e s) \<and>
    map_pending (Simulator_Schedule map_ops d e s) = add_mset (Call e) (map_pending s)"
  using map_sched.Simulator_Schedule_inv [OF assms] by auto

lemma Schedule_adds_event_witness: "map_inv sim1 \<and> map_pending sim1 = {#Call 1#}"
  using Schedule_adds_event [of sim0 7 1] by (simp add: sim0_facts sim1_def)

text \<open>A negative delay is refused: nothing is scheduled, and the program stops with the error.\<close>
theorem Schedule_negative:
  assumes "\<not> Time_IsPositive d" "fault s = None"
  shows "sim_events (Simulator_Schedule map_ops d e s) = sim_events s \<and>
    fault (Simulator_Schedule map_ops d e s) = Some NegativeDelay"
  using assms by (simp add: Simulator_Schedule_def DSI_Schedule_def raise_fault_def MakeEvent_def)

lemma Schedule_negative_witness:
  "fault (Simulator_Schedule map_ops (- 1) 0 sim0) = Some NegativeDelay"
  using Schedule_negative [of "- 1" sim0 0]
  by (simp add: Time_IsPositive_def sim0_def DefaultSimulatorImpl_init_def)

text \<open>\<open>Remove\<close> undoes \<open>Schedule\<close>: the event list, the pending calls and the count of
  unscheduled events are as before, without an error, and the invariant holds.\<close>
theorem Remove_undoes_Schedule:
  assumes "map_inv s" "Time_IsPositive d" "room_for d s"
    and "DSI_Schedule map_ops d (next_impl s) (MakeEvent c s) = (i, s')"
  shows "map_inv (DSI_Remove map_ops i s') \<and> sim_events (DSI_Remove map_ops i s') = sim_events s \<and>
    map_pending (DSI_Remove map_ops i s') = map_pending s \<and>
    m_unscheduledEvents (DSI_Remove map_ops i s') = m_unscheduledEvents s \<and>
    fault (DSI_Remove map_ops i s') = fault s"
proof -
  let ?e = "\<lparr>impl = next_impl s, key = \<lparr>m_ts = d + m_currentTs s, m_uid = sim_uid s,
      m_context = m_currentContext s\<rparr>\<rparr>"
  have i: "i = \<lparr>id_impl = next_impl s, id_ts = d + m_currentTs s, id_context = m_currentContext s,
      id_uid = sim_uid s\<rparr>"
    and s': "s' = insert_event map_ops (d + m_currentTs s) (m_currentContext s) (next_impl s) (MakeEvent c s)"
    using assms(2,4) by (auto simp: DSI_Schedule_def Let_def MakeEvent_def)
  have ts: "m_currentTs s \<le> d + m_currentTs s" using assms(3) by (simp add: room_for_def ts_no_wrap)
  have uid: "sim_uid s < sim_uid s + 1" using assms(3) by (intro uid_succ_less) (simp add: room_for_def)
  have inv: "4 \<le> sim_uid s" "m_currentUid s < sim_uid s" "0 < next_impl s"
    using assms(1) by (auto simp: sim_inv_def UID_VALID_def)
  have "sim_uid s \<noteq> 2" using inv(1) by auto
  then have live: "id_uid i \<noteq> UID_DESTROY" "\<not> DSI_IsExpired i s'"
    using inv ts by (auto simp: i s' DSI_IsExpired_def UID_DESTROY_def insert_event_def MakeEvent_def
        EventImpl_IsCancelled_def EventImpl_new_def)
  have "uid_fresh ?e (map_events (sim_events s))"
    using assms(1) by (auto simp: uid_fresh_def sim_inv_def event_ok_def)
  from map_Remove_Insert [OF this] have "op_Remove map_ops ?e (sim_events s') = Some (sim_events s)"
    by (simp add: s' map_ops_def insert_event_def MakeEvent_def)
  with live have r: "DSI_Remove map_ops i s' = (EventImpl_Cancel (next_impl s) (s'\<lparr>sim_events := sim_events s\<rparr>))
      \<lparr>m_unscheduledEvents := m_unscheduledEvents s' - 1\<rparr>"
    by (simp add: DSI_Remove_def i)
  have bound: "impls s p \<noteq> None \<Longrightarrow> p < next_impl s" for p using assms(1) unfolding sim_inv_def by blast
  have old: "impl e \<noteq> next_impl s" if "e \<in># map_events (sim_events s)" for e
    using map_sched.sim_inv_event [OF assms(1) that] bound [of "impl e"] unfolding event_ok_def by auto
  have "map_pending (DSI_Remove map_ops i s') = map_pending s"
    unfolding r using old by (auto simp: s' pending_def EventImpl_Cancel_def insert_event_def MakeEvent_def
        intro!: image_mset_cong)
  moreover have "map_inv (DSI_Remove map_ops i s')"
    unfolding r using assms(1) uid old
    by (auto simp: s' sim_inv_def event_ok_def EventImpl_Cancel_def insert_event_def MakeEvent_def
        less_Suc_eq intro: less_trans)
  ultimately show ?thesis unfolding r by (simp add: s' EventImpl_Cancel_def insert_event_def MakeEvent_def)
qed

lemma Remove_undoes_Schedule_witness:
  "\<exists>i s'. DSI_Schedule map_ops 7 (next_impl sim0) (MakeEvent (Call 1) sim0) = (i, s') \<and>
    map_pending (DSI_Remove map_ops i s') = {#}"
  using Remove_undoes_Schedule [OF sim0_facts(1,4,3)] sim0_facts(2) by (metis surj_pair)

text \<open>A cancelled event is not run: \<open>Cancel\<close> makes its id expired, and when the simulator
  comes to the event it only moves its clock and counters on.\<close>
theorem Cancel_prevents:
  assumes "\<not> DSI_IsExpired i s" "op_RemoveNext map_ops (sim_events s) = Some (n, q)" "impl n = id_impl i"
    and "impls s (id_impl i) \<noteq> None" "m_currentTs s \<le> m_ts (key n)"
  shows "DSI_IsExpired i (DSI_Cancel i s) \<and>
    DSI_ProcessOneEvent map_ops h (DSI_Cancel i s) =
      DSI_ProcessEventsWithContext map_ops (start_event n q (DSI_Cancel i s))"
proof -
  obtain x where x: "impls s (id_impl i) = Some x" using assms(4) by auto
  have c: "DSI_Cancel i s = s\<lparr>impls := (impls s)(id_impl i \<mapsto> x\<lparr>m_cancel := True\<rparr>)\<rparr>"
    using assms(1) x by (simp add: DSI_Cancel_def EventImpl_Cancel_def)
  then show ?thesis
    using assms(2,3,5)
    by (simp add: DSI_IsExpired_def EventImpl_IsCancelled_def DSI_ProcessOneEvent_def EventImpl_Invoke_def
        start_event_def)
qed

lemma Cancel_prevents_witness:
  "\<exists>i n q. op_RemoveNext map_ops (sim_events sim1) = Some (n, q) \<and> DSI_IsExpired i (DSI_Cancel i sim1)"
proof -
  let ?i = "\<lparr>id_impl = 1, id_ts = 7, id_context = NO_CONTEXT, id_uid = 4\<rparr>"
  let ?n = "\<lparr>impl = 1, key = \<lparr>m_ts = 7, m_uid = 4, m_context = NO_CONTEXT\<rparr>\<rparr>"
  have r: "op_RemoveNext map_ops (sim_events sim1) = Some (?n, [])" "impls sim1 1 \<noteq> None"
      "m_currentTs sim1 = 0" "\<not> DSI_IsExpired ?i sim1"
    using sim0_facts(4)
    by (simp_all add: sim1_def Simulator_Schedule_def DSI_Schedule_def MakeEvent_def insert_event_def Let_def
        sim0_def DefaultSimulatorImpl_init_def map_ops_def MapScheduler_RemoveNext_def UID_VALID_def
        DSI_IsExpired_def UID_DESTROY_def EventImpl_IsCancelled_def EventImpl_new_def)
  show ?thesis using Cancel_prevents [OF r(4,1)] r by auto
qed

text \<open>The simulator runs the least event: while the event list is not empty,
  \<open>ProcessOneEvent\<close> takes out an event before every other one, sets the clock to its time, which
  is not in the past, keeps the invariant, and calls the event; the assertion on the order of time
  never fails.\<close>
theorem ProcessOneEvent_least:
  assumes "map_inv s" "sim_events s \<noteq> []"
  shows "\<exists>n q. MapScheduler_RemoveNext (sim_events s) = Some (n, q) \<and> is_next n (map_events (sim_events s)) \<and>
    map_inv (start_event n q s) \<and> m_currentTs s \<le> m_ts (key n) \<and>
    m_currentTs (start_event n q s) = m_ts (key n) \<and>
    DSI_ProcessOneEvent map_ops h s =
      DSI_ProcessEventsWithContext map_ops (EventImpl_Invoke h (impl n) (start_event n q s))"
proof -
  have "map_events (sim_events s) \<noteq> {#}" using assms(2) by (simp add: map_events_def)
  then obtain n q where "op_RemoveNext map_ops (sim_events s) = Some (n, q)"
      "is_next n (map_events (sim_events s))" "map_inv (start_event n q s)" "m_currentTs s \<le> m_ts (key n)"
    using map_sched.start_event_inv [OF assms(1)] by metis
  then show ?thesis
    by (simp add: DSI_ProcessOneEvent_def map_ops_def) (simp add: start_event_def)
qed

lemma ProcessOneEvent_least_witness:
  "\<exists>n q. MapScheduler_RemoveNext (sim_events sim1) = Some (n, q) \<and> map_inv (start_event n q sim1)"
proof -
  have "map_inv sim1" using map_sched.Simulator_Schedule_inv [OF sim0_facts(1,4,3)] by (simp add: sim1_def)
  moreover have "sim_events sim1 \<noteq> []" using sim0_facts(4)
    by (simp add: sim1_def Simulator_Schedule_def DSI_Schedule_def MakeEvent_def insert_event_def Let_def
        sim0_def DefaultSimulatorImpl_init_def map_ops_def)
  ultimately show ?thesis using ProcessOneEvent_least [of sim1] by blast
qed

text \<open>The call an event makes.\<close>

definition call_of :: "('q, 'e, 'z) simulator_scheme \<Rightarrow> Event \<Rightarrow> 'e" where
  "call_of s e = (case closure (the (impls s (impl e))) of Call c \<Rightarrow> c | SimulatorStop \<Rightarrow> undefined)"

definition only_calls :: "(map_queue, 'e, 'z) simulator_scheme \<Rightarrow> bool" where
  "only_calls s \<longleftrightarrow> (\<forall>e \<in># map_events (sim_events s). \<exists>c. impls s (impl e) = Some (EventImpl_new (Call c)))"

lemma start_event_simps [simp]:
  "sim_events (start_event n q s) = q" "impls (start_event n q s) = impls s"
  "fault (start_event n q s) = fault s" "m_stop (start_event n q s) = m_stop s"
  "m_eventsWithContextEmpty (start_event n q s) = m_eventsWithContextEmpty s"
  "simulator.more (start_event n q s) = simulator.more s"
  by (simp_all add: start_event_def)

lemma run_all_calls:
  assumes "map_inv s" "fault s = None" "m_eventsWithContextEmpty s" "\<not> m_stop s" "only_calls s"
    and h: "\<And>e s. h e s = simulator.more_update (f e) s"
  shows "\<exists>s'. DSI_Run_loop map_ops h s = Some s' \<and> sim_events s' = [] \<and> fault s' = None \<and>
    m_unscheduledEvents s' = 0 \<and>
    simulator.more s' = fold (\<lambda>e. f (call_of s e)) (map entry_event (sim_events s)) (simulator.more s)"
  using assms(1-5)
proof (induction "sim_events s" arbitrary: s)
  case Nil
  have "op_IsEmpty map_ops (sim_events s)"
    by (simp add: map_ops_def MapScheduler_IsEmpty_def flip: Nil.hyps)
  then have "DSI_Run_loop map_ops h s = Some s" by (simp add: DSI_Run_loop.simps [of map_ops h s])
  then show ?case using Nil.prems by (simp add: sim_inv_def flip: Nil.hyps)
next
  case (Cons kp q)
  obtain k p where kp: "kp = (k, p)" by force
  let ?n = "\<lparr>impl = p, key = k\<rparr>"
  have r: "op_RemoveNext map_ops (sim_events s) = Some (?n, q)"
    using Cons.hyps(2) by (simp add: map_ops_def MapScheduler_RemoveNext_def kp flip: Cons.hyps(2))
  have ne: "map_events (sim_events s) \<noteq> {#}" by (simp add: kp flip: Cons.hyps(2))
  have st: "map_inv (start_event ?n q s)" "m_currentTs s \<le> m_ts k"
    using map_sched.start_event_inv [OF Cons.prems(1) ne] r by (metis Pair_inject option.inject Event.select_convs(2))+
  obtain c where c: "impls s p = Some (EventImpl_new (Call c))"
    using Cons.prems(5) by (auto simp: only_calls_def kp simp flip: Cons.hyps(2))
  let ?t = "simulator.more_update (f c) (start_event ?n q s)"
  have t: "DSI_ProcessOneEvent map_ops h s = ?t"
    using r st(2) c Cons.prems(3)
    by (simp add: DSI_ProcessOneEvent_def EventImpl_Invoke_def EventImpl_new_def Notify_def h
        DSI_ProcessEventsWithContext_def)
  have full: "\<not> op_IsEmpty map_ops (sim_events s)"
    by (simp add: map_ops_def MapScheduler_IsEmpty_def flip: Cons.hyps(2))
  have step: "DSI_Run_loop map_ops h s = DSI_Run_loop map_ops h ?t"
    using Cons.prems(2,4) t full by (simp add: DSI_Run_loop.simps [of map_ops h s])
  have "map_inv ?t" "only_calls ?t"
    using st(1) Cons.prems(5)
    by (simp_all add: sim_inv_def event_ok_def) (simp add: only_calls_def kp flip: Cons.hyps(2))
  from Cons.hyps(1) [OF _ this(1) _ _ _ this(2)] Cons.prems(2-4) obtain s' where
    s': "DSI_Run_loop map_ops h ?t = Some s'" "sim_events s' = []" "fault s' = None"
      "m_unscheduledEvents s' = 0"
      "simulator.more s' = fold (\<lambda>e. f (call_of ?t e)) (map entry_event q) (f c (simulator.more s))"
    by auto
  moreover have "call_of ?t = call_of s" by (simp add: call_of_def fun_eq_iff)
  moreover have "call_of s ?n = c" using c by (simp add: call_of_def EventImpl_new_def)
  ultimately show ?case by (simp add: step kp entry_event_def flip: Cons.hyps(2))
qed


text \<open>A simulation whose calls append their number to a log.\<close>

definition sim_log :: "(map_queue, nat, nat list) simulator_scheme" where
  "sim_log = Simulator_Schedule map_ops 3 2 (Simulator_Schedule map_ops 7 1
     (simulator.extend (DefaultSimulatorImpl_init []) []))"


subsection \<open>Time\<close>

text \<open>C40: \<open>Seconds (d)\<close> is d in whole nanoseconds: for 0 <= d < 2^32 the conversion through Q64.64
  fixed point is within half a nanosecond and 10^9 / 2^65 ns of the exact value, and fits the 64
  bits.\<close>
theorem Seconds_accuracy:
  assumes "0 \<le> d" "d < 2 ^ 32"
  shows "\<bar>of_int (sint (Seconds d)) - d * 10 ^ 9\<bar> \<le> 1 / 2 + 10 ^ 9 / 2 ^ 65 \<and> 0 \<le> sint (Seconds d)"
  using ns_of_bounds [OF assms] by (simp add: sint_Seconds [OF assms])

lemma Seconds_accuracy_witness: "\<bar>of_int (sint (Seconds (1 / 3))) - 10 ^ 9 / 3\<bar> \<le> (0.6 :: real)"
proof -
  have "\<bar>of_int (sint (Seconds (1 / 3))) - (1 / 3) * 10 ^ 9\<bar> \<le> (1 / 2 + 10 ^ 9 / 2 ^ 65 :: real)"
    using Seconds_accuracy [of "1 / 3"] by simp
  also have "\<dots> \<le> 0.6" by simp
  finally show ?thesis by simp
qed

text \<open>Whole seconds survive the conversion to nanoseconds and back exactly.\<close>
theorem Seconds_roundtrip:
  assumes "n < 2 ^ 32"
  shows "GetSeconds (Seconds (of_nat n)) = of_nat n"
  using assms by (rule GetSeconds_Seconds_nat)

text \<open>The four 64-bit products of \<open>Umul\<close>.\<close>

lemma Umul_parts:
  fixes aH aL bH bL :: int
  assumes "0 \<le> aL" "aL < 2 ^ 64" "0 \<le> bL" "bL < 2 ^ 64"
  shows "((aH * 2 ^ 64 + aL) * (bH * 2 ^ 64 + bL)) div 2 ^ 64 =
    aL * bL div 2 ^ 64 + (aL * bH + aH * bL) + aH * bH * 2 ^ 64"
proof -
  have "(aH * 2 ^ 64 + aL) * (bH * 2 ^ 64 + bL) =
      aL * bL + (aL * bH + aH * bL + aH * bH * 2 ^ 64) * 2 ^ 64" by (simp add: algebra_simps)
  then show ?thesis by (simp only: div_mult_self3) simp
qed

text \<open>The multiplication of Q64.64 numbers in four 64-bit parts with carries is the floor of the
  exact product, whenever the product fits: for operands below 2^128 whose integer parts have a
  product below 2^64 (where the code does not abort).\<close>
theorem Umul_is_product:
  assumes "0 \<le> a" "a < 2 ^ 128" "0 \<le> b" "b < 2 ^ 128" "(a div 2 ^ 64) * (b div 2 ^ 64) < 2 ^ 64"
  shows "int64x64_Umul a b = a * b div 2 ^ 64"
proof -
  let ?aL = "a mod 2 ^ 64" and ?bL = "b mod 2 ^ 64" and ?aH = "a div 2 ^ 64" and ?bH = "b div 2 ^ 64"
  have hi: "?aH mod 2 ^ 64 = ?aH" "?bH mod 2 ^ 64 = ?bH" "?aH * ?bH mod 2 ^ 64 = ?aH * ?bH"
    using assms by (simp_all add: pos_imp_zdiv_nonneg_iff)
  have "int64x64_Umul a b = ?aL * ?bL div 2 ^ 64 + (?aL * ?bH + ?aH * ?bL) mod 2 ^ 64 +
      ((?aL * ?bH + ?aH * ?bL) div 2 ^ 64 + ?aH * ?bH) * 2 ^ 64"
    by (simp only: int64x64_Umul_def Let_def hi)
  also have "\<dots> = ?aL * ?bL div 2 ^ 64 + (?aL * ?bH + ?aH * ?bL) + ?aH * ?bH * 2 ^ 64"
    by (simp only: distrib_right add.assoc mod_div_mult_eq) (simp add: add.left_commute)
  also have "\<dots> = ((?aH * 2 ^ 64 + ?aL) * (?bH * 2 ^ 64 + ?bL)) div 2 ^ 64"
    by (rule Umul_parts [symmetric]) simp_all
  finally show ?thesis by simp
qed

lemma Umul_is_product_witness: "int64x64_Umul (3 * 2 ^ 63) (5 * 2 ^ 63) = 15 * 2 ^ 62"
  using Umul_is_product [of "3 * 2 ^ 63" "5 * 2 ^ 63"] by simp

end
