(* ===== verification/Calendar_Scheduler.thy ===== *)
theory Calendar_Scheduler
  imports List_Scheduler
begin

text \<open>
  \<open>CalendarScheduler\<close> (\<open>src/src/core/model/calendar-scheduler.cc\<close>): a calendar queue. Time is cut
  into days of \<open>m_width\<close>; the events of a day lie in the bucket that is the day modulo the number of
  buckets, and the search for the next event starts at the day of the last one. Time stamps and widths
  are 64-bit words, which the search adds up without a check for overflow; the indices and the number of
  events are natural numbers (there are at most 32768 buckets). \<^const>\<open>None\<close> is a failed assertion.
\<close>

subsection \<open>The queue\<close>

record calendar_queue =
  m_buckets :: "Event list list"
  m_width :: uint64
  m_lastBucket :: nat
  m_bucketTop :: uint64
  m_lastPrio :: uint64
  m_qSize :: nat
  m_reverse :: bool

abbreviation m_nBuckets :: "calendar_queue \<Rightarrow> nat" where
  "m_nBuckets q \<equiv> length (m_buckets q)"

text \<open>The three functions that \<open>SetReverse\<close> chooses.\<close>

definition NextEvent :: "bool \<Rightarrow> Event list \<Rightarrow> Event" where
  "NextEvent reverse bucket = (if reverse then last bucket else hd bucket)"

definition Order :: "bool \<Rightarrow> EventKey \<Rightarrow> EventKey \<Rightarrow> bool" where
  "Order reverse a b = (if reverse then EventKey_greater a b else EventKey_less a b)"

definition Pop :: "bool \<Rightarrow> Event list \<Rightarrow> Event list" where
  "Pop reverse bucket = (if reverse then butlast bucket else tl bucket)"

definition Calendar_Init :: "nat \<Rightarrow> uint64 \<Rightarrow> uint64 \<Rightarrow> calendar_queue \<Rightarrow> calendar_queue" where
  "Calendar_Init nBuckets width startPrio q =
     q\<lparr>m_buckets := replicate nBuckets [], m_width := width, m_lastPrio := startPrio,
       m_lastBucket := unat (startPrio div width) mod nBuckets,
       m_bucketTop := (startPrio div width + 1) * width\<rparr>"

definition CalendarScheduler_init :: "bool \<Rightarrow> calendar_queue" where
  "CalendarScheduler_init reverse = Calendar_Init 2 1 0
     \<lparr>m_buckets = [], m_width = 0, m_lastBucket = 0, m_bucketTop = 0, m_lastPrio = 0, m_qSize = 0,
      m_reverse = reverse\<rparr>"

definition Hash :: "calendar_queue \<Rightarrow> uint64 \<Rightarrow> nat" where
  "Hash q ts = unat (ts div m_width q) mod m_nBuckets q"

fun bucket_insert :: "bool \<Rightarrow> Event \<Rightarrow> Event list \<Rightarrow> Event list" where
  "bucket_insert reverse ev [] = [ev]"
| "bucket_insert reverse ev (i # is) =
     (if Order reverse (key ev) (key i) then ev # i # is else i # bucket_insert reverse ev is)"

definition DoInsert :: "Event \<Rightarrow> calendar_queue \<Rightarrow> calendar_queue" where
  "DoInsert ev q =
     (let bucket = Hash q (m_ts (key ev))
      in q\<lparr>m_buckets := (m_buckets q)[bucket := bucket_insert (m_reverse q) ev (m_buckets q ! bucket)]\<rparr>)"

definition Calendar_IsEmpty :: "calendar_queue \<Rightarrow> bool" where
  "Calendar_IsEmpty q \<longleftrightarrow> m_qSize q = 0"

text \<open>
  The loop of \<open>PeekNext\<close> and \<open>DoRemoveNext\<close>: the buckets from the current one on, until an event
  of the day at hand is found (\<^const>\<open>Inl\<close>: bucket, end of the day, event) or all buckets have been seen
  (\<^const>\<open>Inr\<close>: the least event, if one is below \<open>minKey\<close>).
\<close>

partial_function (option) bucket_scan :: "calendar_queue \<Rightarrow> nat \<Rightarrow> uint64 \<Rightarrow> EventKey \<Rightarrow> (nat \<times> Event) option \<Rightarrow>
    (nat \<times> uint64 \<times> Event + (nat \<times> Event) option) option" where
  "bucket_scan q i bucketTop minKey minBucket =
     (let bucket = m_buckets q ! i; next = NextEvent (m_reverse q) bucket in
      if bucket \<noteq> [] \<and> m_ts (key next) < bucketTop then Some (Inl (i, bucketTop, next))
      else let less = (bucket \<noteq> [] \<and> EventKey_less (key next) minKey);
               minKey' = (if less then key next else minKey);
               minBucket' = (if less then Some (i, next) else minBucket);
               i' = (i + 1) mod m_nBuckets q
           in if i' = m_lastBucket q then Some (Inr minBucket')
              else bucket_scan q i' (bucketTop + m_width q) minKey' minBucket')"

definition Calendar_PeekNext :: "calendar_queue \<Rightarrow> Event option" where
  "Calendar_PeekNext q =
     (let minKey = \<lparr>m_ts = - 1, m_uid = - 1, m_context = 0\<rparr> in
      if Calendar_IsEmpty q then None
      else case bucket_scan q (m_lastBucket q) (m_bucketTop q) minKey None of
        None \<Rightarrow> None
      | Some (Inl (i, dayEnd, next)) \<Rightarrow> Some next
      | Some (Inr None) \<Rightarrow> Some \<lparr>impl = 0, key = minKey\<rparr>
      | Some (Inr (Some (i, next))) \<Rightarrow> Some next)"

definition DoRemoveNext :: "calendar_queue \<Rightarrow> (Event \<times> calendar_queue) option" where
  "DoRemoveNext q =
     (let pop = (\<lambda>i. (m_buckets q)[i := Pop (m_reverse q) (m_buckets q ! i)]) in
      case bucket_scan q (m_lastBucket q) (m_bucketTop q) \<lparr>m_ts = - 1, m_uid = 0, m_context = - 1\<rparr> None of
        None \<Rightarrow> None
      | Some (Inl (i, dayEnd, next)) \<Rightarrow>
          Some (next, q\<lparr>m_lastBucket := i, m_lastPrio := m_ts (key next), m_bucketTop := dayEnd, m_buckets := pop i\<rparr>)
      | Some (Inr None) \<Rightarrow> None
      | Some (Inr (Some (i, next))) \<Rightarrow>
          Some (next, q\<lparr>m_lastPrio := m_ts (key next), m_lastBucket := Hash q (m_ts (key next)),
            m_bucketTop := (m_ts (key next) div m_width q + 1) * m_width q, m_buckets := pop i\<rparr>))"

subsection \<open>Resizing\<close>

fun gather_samples :: "nat \<Rightarrow> calendar_queue \<Rightarrow> (Event list \<times> calendar_queue) option" where
  "gather_samples 0 q = Some ([], q)"
| "gather_samples (Suc n) q =
     (case DoRemoveNext q of
        None \<Rightarrow> None
      | Some (e, q') \<Rightarrow> (case gather_samples n q' of None \<Rightarrow> None | Some (es, q'') \<Rightarrow> Some (e # es, q'')))"

definition separations :: "Event list \<Rightarrow> uint64 list" where
  "separations es = map2 (\<lambda>cur next. m_ts (key next) - m_ts (key cur)) es (tl es)"

definition width_of_samples :: "Event list \<Rightarrow> uint64" where
  "width_of_samples samples =
     (let seps = separations samples;
          twiceAvg = sum_list seps div of_nat (length samples - 1) * 2;
          total = sum_list (filter (\<lambda>d. d \<le> twiceAvg) seps) * 3
      in max total 1)"

definition sample_count :: "nat \<Rightarrow> nat" where
  "sample_count qSize =
     (let n = (if qSize \<le> 5 then qSize else 5 + qSize div 10) in if n > 25 then 25 else n)"

definition CalculateNewWidth :: "calendar_queue \<Rightarrow> (uint64 \<times> calendar_queue) option" where
  "CalculateNewWidth q =
     (if m_qSize q < 2 then Some (1, q)
      else case gather_samples (sample_count (m_qSize q)) q of
        None \<Rightarrow> None
      | Some (samples, q1) \<Rightarrow>
          (let q2 = foldl (\<lambda>q e. DoInsert e q) q1 samples;
               q3 = q2\<lparr>m_lastBucket := m_lastBucket q, m_bucketTop := m_bucketTop q, m_lastPrio := m_lastPrio q\<rparr>
           in Some (width_of_samples samples, q3)))"

definition DoResize :: "nat \<Rightarrow> uint64 \<Rightarrow> calendar_queue \<Rightarrow> calendar_queue" where
  "DoResize newSize newWidth q =
     foldl (\<lambda>q e. DoInsert e q) (Calendar_Init newSize newWidth (m_lastPrio q) q) (concat (m_buckets q))"

definition Calendar_Resize :: "nat \<Rightarrow> calendar_queue \<Rightarrow> calendar_queue option" where
  "Calendar_Resize newSize q =
     (case CalculateNewWidth q of None \<Rightarrow> None | Some (newWidth, q') \<Rightarrow> Some (DoResize newSize newWidth q'))"

definition ResizeUp :: "calendar_queue \<Rightarrow> calendar_queue option" where
  "ResizeUp q =
     (if m_qSize q > m_nBuckets q * 2 \<and> m_nBuckets q < 32768 then Calendar_Resize (m_nBuckets q * 2) q else Some q)"

definition ResizeDown :: "calendar_queue \<Rightarrow> calendar_queue option" where
  "ResizeDown q =
     (if m_qSize q < m_nBuckets q div 2 then Calendar_Resize (m_nBuckets q div 2) q else Some q)"

definition Calendar_Insert :: "Event \<Rightarrow> calendar_queue \<Rightarrow> calendar_queue option" where
  "Calendar_Insert ev q = (let q1 = DoInsert ev q in ResizeUp (q1\<lparr>m_qSize := m_qSize q1 + 1\<rparr>))"

definition Calendar_RemoveNext :: "calendar_queue \<Rightarrow> (Event \<times> calendar_queue) option" where
  "Calendar_RemoveNext q =
     (if Calendar_IsEmpty q then None
      else case DoRemoveNext q of
        None \<Rightarrow> None
      | Some (ev, q1) \<Rightarrow> map_option (Pair ev) (ResizeDown (q1\<lparr>m_qSize := m_qSize q1 - 1\<rparr>)))"

text \<open>The first event with the uid in the bucket of the time stamp goes.\<close>

fun bucket_erase :: "Event \<Rightarrow> Event list \<Rightarrow> Event list option" where
  "bucket_erase ev [] = None"
| "bucket_erase ev (i # is) =
     (if m_uid (key i) = m_uid (key ev) then (if impl ev = impl i then Some is else None)
      else map_option (Cons i) (bucket_erase ev is))"

definition Calendar_Remove :: "Event \<Rightarrow> calendar_queue \<Rightarrow> calendar_queue option" where
  "Calendar_Remove ev q =
     (let bucket = Hash q (m_ts (key ev)) in
      if Calendar_IsEmpty q then None
      else case bucket_erase ev (m_buckets q ! bucket) of
        None \<Rightarrow> None
      | Some b \<Rightarrow> ResizeDown (q\<lparr>m_buckets := (m_buckets q)[bucket := b], m_qSize := m_qSize q - 1\<rparr>))"

subsection \<open>Buckets\<close>

definition bucket_ok :: "bool \<Rightarrow> Event list \<Rightarrow> bool" where
  "bucket_ok r b \<longleftrightarrow> sorted_wrt (\<lambda>x y. Order r (key x) (key y)) b"

lemma Order_ord: "Order r a b \<longleftrightarrow> (if r then ord_key b < ord_key a else ord_key a < ord_key b)"
  by (simp add: Order_def EventKey_less_ord EventKey_greater_ord)

lemma mset_bucket_insert: "mset (bucket_insert r e b) = add_mset e (mset b)"
  by (induction b) auto

lemma bucket_insert_ok:
  assumes "bucket_ok r b" "uid_fresh e (mset b)"
  shows "bucket_ok r (bucket_insert r e b)"
  using assms unfolding bucket_ok_def
proof (induction b)
  case (Cons i b)
  have ne: "ev_ord e \<noteq> ev_ord i" using Cons.prems(2) by (auto dest: ord_key_uid)
  have set: "set (bucket_insert r e b) = insert e (set b)"
    by (metis mset_bucket_insert set_mset_add_mset_insert set_mset_mset)
  show ?case
  proof (cases "Order r (key e) (key i)")
    case True
    then show ?thesis using Cons.prems(1) by (auto simp: Order_ord split: if_splits)
  next
    case False
    then have "Order r (key i) (key e)" using ne by (auto simp: Order_ord split: if_splits)
    then show ?thesis using Cons False set by simp
  qed
qed simp

lemma NextEvent_least:
  assumes "bucket_ok r b" "b \<noteq> []"
  shows "NextEvent r b \<in> set b \<and> (\<forall>f \<in> set b. f = NextEvent r b \<or> ev_ord (NextEvent r b) < ev_ord f)"
proof (cases r)
  case True
  obtain c e where "b = c @ [e]" using assms(2) by (cases b rule: rev_cases) auto
  then show ?thesis using assms(1) True by (auto simp: NextEvent_def bucket_ok_def sorted_wrt_append Order_ord)
next
  case False
  then show ?thesis using assms by (cases b) (auto simp: NextEvent_def bucket_ok_def Order_ord)
qed

lemma Pop_next:
  assumes "bucket_ok r b" "b \<noteq> []"
  shows "bucket_ok r (Pop r b) \<and> mset b = add_mset (NextEvent r b) (mset (Pop r b))"
proof (cases r)
  case True
  obtain c e where "b = c @ [e]" using assms(2) by (cases b rule: rev_cases) auto
  then show ?thesis using assms(1) True by (simp add: NextEvent_def Pop_def bucket_ok_def sorted_wrt_append)
next
  case False
  then show ?thesis using assms by (cases b) (auto simp: NextEvent_def Pop_def bucket_ok_def)
qed

lemma bucket_erase_own:
  assumes "bucket_ok r b" "uids_distinct (mset b)" "e \<in> set b"
  shows "\<exists>c. bucket_erase e b = Some c \<and> bucket_ok r c \<and> mset c = mset b - {#e#} \<and> set c \<subseteq> set b"
  using assms unfolding bucket_ok_def
proof (induction b)
  case (Cons i b)
  show ?case
  proof (cases "e = i")
    case False
    then have "e \<in> set b" "ev_uid i \<noteq> ev_uid e"
      using Cons.prems by (auto simp: uids_distinct_add uid_fresh_def)
    then show ?thesis using Cons False by (auto simp: uids_distinct_add subset_iff)
  qed (use Cons.prems in auto)
qed simp

lemma mset_concat_update:
  "i < length bs \<Longrightarrow> mset (concat (bs[i := b])) + mset (bs ! i) = mset (concat bs) + mset b"
proof (induction bs arbitrary: i)
  case (Cons a bs)
  then show ?case by (cases i) (auto simp: algebra_simps union_assoc)
qed simp

subsection \<open>The invariant\<close>

text \<open>
  An event belongs to the bucket of its day; the cursor stands at the day of the last event removed, and no
  event is before it. The end of a day is computed in 64 bits and may wrap around.
\<close>

definition day :: "calendar_queue \<Rightarrow> Event \<Rightarrow> nat" where
  "day q e = unat (m_ts (key e)) div unat (m_width q)"

definition lastDay :: "calendar_queue \<Rightarrow> nat" where
  "lastDay q = unat (m_lastPrio q) div unat (m_width q)"

definition cal_events :: "calendar_queue \<Rightarrow> Event multiset" where
  "cal_events q = mset (concat (m_buckets q))"

definition ts_below_max :: "Event \<Rightarrow> bool" where
  "ts_below_max e \<longleftrightarrow> m_ts (key e) < - 1"

definition buckets_ok :: "calendar_queue \<Rightarrow> bool" where
  "buckets_ok q \<longleftrightarrow> 0 < m_nBuckets q \<and> 0 < m_width q \<and>
     (\<forall>i < m_nBuckets q. bucket_ok (m_reverse q) (m_buckets q ! i) \<and>
        (\<forall>e \<in> set (m_buckets q ! i). day q e mod m_nBuckets q = i)) \<and>
     (\<forall>e \<in># cal_events q. ts_below_max e) \<and> uids_distinct (cal_events q)"

definition day_end :: "calendar_queue \<Rightarrow> nat \<Rightarrow> uint64" where
  "day_end q d = of_nat (d + 1) * m_width q"

definition cursor_ok :: "calendar_queue \<Rightarrow> bool" where
  "cursor_ok q \<longleftrightarrow> (\<forall>e \<in># cal_events q. m_lastPrio q \<le> m_ts (key e)) \<and>
     m_lastBucket q = lastDay q mod m_nBuckets q \<and> m_bucketTop q = day_end q (lastDay q)"

lemma Hash_day: "Hash q (m_ts (key e)) = day q e mod m_nBuckets q"
  by (simp add: Hash_def day_def unat_div_distrib)

lemma bucket_events: "i < m_nBuckets q \<Longrightarrow> e \<in> set (m_buckets q ! i) \<Longrightarrow> e \<in># cal_events q"
  by (auto simp: cal_events_def)

lemma event_bucket:
  assumes "buckets_ok q" "e \<in># cal_events q"
  shows "e \<in> set (m_buckets q ! (day q e mod m_nBuckets q))"
proof -
  obtain b where "b \<in> set (m_buckets q)" "e \<in> set b" using assms(2) by (auto simp: cal_events_def)
  then obtain i where "i < m_nBuckets q" "e \<in> set (m_buckets q ! i)" by (metis in_set_conv_nth)
  then show ?thesis using assms(1) unfolding buckets_ok_def by auto
qed

lemma bucket_sub: "i < m_nBuckets q \<Longrightarrow> mset (m_buckets q ! i) \<subseteq># cal_events q"
  by (simp add: cal_events_def mset_concat) (metis nth_mem sum_list_map_remove1 mset_map mset_subset_eq_add_left)

lemma DoInsert_ok:
  assumes "buckets_ok q" "uid_fresh e (cal_events q)" "ts_below_max e"
  shows "buckets_ok (DoInsert e q) \<and> cal_events (DoInsert e q) = add_mset e (cal_events q)"
proof -
  let ?h = "day q e mod m_nBuckets q" and ?q = "DoInsert e q"
  have h: "?h < m_nBuckets q" using assms(1) by (simp add: buckets_ok_def)
  have q: "?q = q\<lparr>m_buckets := (m_buckets q)[?h := bucket_insert (m_reverse q) e (m_buckets q ! ?h)]\<rparr>"
    by (simp add: DoInsert_def Hash_day Let_def)
  have ev: "cal_events ?q = add_mset e (cal_events q)"
    using mset_concat_update [OF h, of "bucket_insert (m_reverse q) e (m_buckets q ! ?h)"]
    by (simp add: q cal_events_def mset_bucket_insert)
  have "uid_fresh e (mset (m_buckets q ! ?h))" using assms(2) uid_fresh_mono [OF _ bucket_sub [OF h]] by blast
  then have b: "bucket_ok (m_reverse q) (bucket_insert (m_reverse q) e (m_buckets q ! ?h))"
    using assms(1) h bucket_insert_ok by (simp add: buckets_ok_def)
  have set: "set (bucket_insert (m_reverse q) e (m_buckets q ! ?h)) = insert e (set (m_buckets q ! ?h))"
    by (metis mset_bucket_insert set_mset_add_mset_insert set_mset_mset)
  have "day ?q = day q" by (rule ext) (simp add: day_def q)
  then show ?thesis
    using assms b set h ev unfolding buckets_ok_def
    by (auto simp: q nth_list_update uids_distinct_add)
qed

subsection \<open>The search\<close>

lemma ts_of_less: "ev_ord e \<le> ev_ord f \<Longrightarrow> unat (m_ts (key e)) \<le> unat (m_ts (key f))"
  by (auto simp: ord_key_def word_le_nat_alt word_less_nat_alt)

lemma day_of_less: "ev_ord e \<le> ev_ord f \<Longrightarrow> day q e \<le> day q f"
  unfolding day_def by (intro div_le_mono ts_of_less)

lemma lastDay_le:
  assumes "cursor_ok q" "e \<in># cal_events q"
  shows "lastDay q \<le> day q e"
  using assms unfolding cursor_ok_def lastDay_def day_def by (intro div_le_mono) (simp add: word_le_nat_alt)

lemma day_end_Suc: "day_end q d + m_width q = day_end q (d + 1)"
  by (simp add: day_end_def algebra_simps)

lemma day_end_nat: "day_end q d = of_nat ((d + 1) * unat (m_width q))"
  by (simp add: day_end_def distrib_right)

lemma day_end_le: "unat (day_end q d) \<le> (d + 1) * unat (m_width q)"
  unfolding day_end_nat by (simp only: unat_of_nat mod_less_eq_dividend)

lemma day_end_exact: "(d + 1) * unat (m_width q) < 2 ^ 64 \<Longrightarrow> unat (day_end q d) = (d + 1) * unat (m_width q)"
  unfolding day_end_nat by (simp only: unat_of_nat len_num1 len_bit0) (rule mod_less, simp)

lemma bucket_day:
  assumes "buckets_ok q" "cursor_ok q" "k < m_nBuckets q" "e \<in> set (m_buckets q ! ((lastDay q + k) mod m_nBuckets q))"
  shows "lastDay q + k \<le> day q e"
proof (rule ccontr)
  assume less: "\<not> lastDay q + k \<le> day q e"
  have i: "(lastDay q + k) mod m_nBuckets q < m_nBuckets q" using assms(1) by (simp add: buckets_ok_def)
  then have "day q e mod m_nBuckets q = (lastDay q + k) mod m_nBuckets q"
    using assms(1,4) unfolding buckets_ok_def by blast
  then have "m_nBuckets q dvd lastDay q + k - day q e" using less by (metis mod_eq_dvd_iff_nat nat_le_linear)
  moreover have "lastDay q \<le> day q e" using lastDay_le [OF assms(2)] bucket_events [OF i assms(4)] .
  ultimately show False using less assms(3) by (auto dest!: dvd_imp_le)
qed

lemma back_at_start:
  fixes d k n :: nat
  assumes "k < n"
  shows "((d + k) mod n + 1) mod n = (d + (k + 1)) mod n" "(d + (k + 1)) mod n = d mod n \<longleftrightarrow> k + 1 = n"
proof -
  show "((d + k) mod n + 1) mod n = (d + (k + 1)) mod n" by (simp add: mod_simps add.assoc)
  show "(d + (k + 1)) mod n = d mod n \<longleftrightarrow> k + 1 = n"
  proof
    assume "(d + (k + 1)) mod n = d mod n"
    then have "n dvd k + 1" by (metis add_diff_cancel_left' le_add1 mod_eq_dvd_iff_nat)
    then show "k + 1 = n" using assms by (auto dest: dvd_imp_le)
  qed simp
qed

lemma bucket_visited:
  assumes "lastDay q \<le> day q e" "0 < m_nBuckets q"
  shows "\<exists>m < m_nBuckets q. (lastDay q + m) mod m_nBuckets q = day q e mod m_nBuckets q"
  using assms by (intro exI [of _ "(day q e - lastDay q) mod m_nBuckets q"]) (simp add: mod_simps)

definition scan_result :: "calendar_queue \<Rightarrow> (nat \<times> uint64 \<times> Event + (nat \<times> Event) option) \<Rightarrow> bool" where
  "scan_result q r \<longleftrightarrow> (case r of
     Inl (i, t, e) \<Rightarrow> i < m_nBuckets q \<and> m_buckets q ! i \<noteq> [] \<and> e = NextEvent (m_reverse q) (m_buckets q ! i) \<and>
       (\<forall>f \<in># cal_events q. ev_ord e \<le> ev_ord f) \<and> i = day q e mod m_nBuckets q \<and> t = day_end q (day q e)
   | Inr None \<Rightarrow> cal_events q = {#}
   | Inr (Some (i, e)) \<Rightarrow> i < m_nBuckets q \<and> m_buckets q ! i \<noteq> [] \<and> e = NextEvent (m_reverse q) (m_buckets q ! i) \<and>
       (\<forall>f \<in># cal_events q. ev_ord e \<le> ev_ord f))"

text \<open>The least event among the buckets seen so far, starting from the key \<open>k0\<close> above all events.\<close>

definition seen_least :: "calendar_queue \<Rightarrow> EventKey \<Rightarrow> nat \<Rightarrow> EventKey \<Rightarrow> (nat \<times> Event) option \<Rightarrow> bool" where
  "seen_least q k0 k minKey m \<longleftrightarrow> (case m of
     None \<Rightarrow> minKey = k0 \<and> (\<forall>l < k. m_buckets q ! ((lastDay q + l) mod m_nBuckets q) = [])
   | Some (j, e) \<Rightarrow> minKey = key e \<and> j < m_nBuckets q \<and> m_buckets q ! j \<noteq> [] \<and>
       e = NextEvent (m_reverse q) (m_buckets q ! j) \<and>
       (\<forall>l < k. \<forall>f \<in> set (m_buckets q ! ((lastDay q + l) mod m_nBuckets q)). ev_ord e \<le> ev_ord f))"

lemma NextEvent_event:
  assumes "buckets_ok q" "i < m_nBuckets q" "m_buckets q ! i \<noteq> []"
  shows "NextEvent (m_reverse q) (m_buckets q ! i) \<in># cal_events q"
    "f \<in> set (m_buckets q ! i) \<Longrightarrow> ev_ord (NextEvent (m_reverse q) (m_buckets q ! i)) \<le> ev_ord f"
proof -
  have "bucket_ok (m_reverse q) (m_buckets q ! i)" using assms(1,2) by (simp add: buckets_ok_def)
  note n = NextEvent_least [OF this assms(3)]
  show "NextEvent (m_reverse q) (m_buckets q ! i) \<in># cal_events q" using n bucket_events [OF assms(2)] by blast
  show "f \<in> set (m_buckets q ! i) \<Longrightarrow> ev_ord (NextEvent (m_reverse q) (m_buckets q ! i)) \<le> ev_ord f"
    using n by (metis less_imp_le order_refl)
qed

lemma seen_least_step:
  assumes "buckets_ok q" "k < m_nBuckets q" "seen_least q k0 k minKey m"
    and "\<forall>e \<in># cal_events q. ev_ord e < ord_key k0"
    and "i = (lastDay q + k) mod m_nBuckets q" "b = m_buckets q ! i" "e = NextEvent (m_reverse q) b"
    and "lt \<longleftrightarrow> b \<noteq> [] \<and> EventKey_less (key e) minKey"
  shows "seen_least q k0 (k + 1) (if lt then key e else minKey) (if lt then Some (i, e) else m)"
proof -
  have i: "i < m_nBuckets q" using assms(1,5) by (simp add: buckets_ok_def)
  show ?thesis
  proof (cases "b = []")
    case True
    then show ?thesis using assms(3,5,6,8) by (cases m) (auto simp: seen_least_def All_less_Suc)
  next
    case False
    then have e: "e \<in># cal_events q" "\<forall>f \<in> set b. ev_ord e \<le> ev_ord f"
      using NextEvent_event [OF assms(1) i] assms(6,7) by auto
    show ?thesis
    proof (cases m)
      case None
      then have "lt" using assms(3,4,8) False e(1) by (simp add: seen_least_def EventKey_less_ord)
      then show ?thesis using assms(3,5,6,7) None False e(2) i by (simp add: seen_least_def All_less_Suc)
    next
      case (Some p)
      obtain j g where p: "p = (j, g)" by (cases p)
      have seen: "minKey = key g" "j < m_nBuckets q" "m_buckets q ! j \<noteq> []" "g = NextEvent (m_reverse q) (m_buckets q ! j)"
        "\<forall>l < k. \<forall>f \<in> set (m_buckets q ! ((lastDay q + l) mod m_nBuckets q)). ev_ord g \<le> ev_ord f"
        using assms(3) Some p by (auto simp: seen_least_def)
      show ?thesis
      proof (cases lt)
        case True
        then have "ev_ord e < ev_ord g" using assms(8) seen(1) by (simp add: EventKey_less_ord)
        then show ?thesis
          using True seen(5) e(2) i False assms(5-7) by (auto simp: seen_least_def All_less_Suc intro: order.trans less_imp_le)
      next
        case l: False
        then have "ev_ord g \<le> ev_ord e" using assms(8) False seen(1) by (simp add: EventKey_less_ord not_less)
        then show ?thesis
          using l seen e(2) assms(5,6) Some p by (auto simp: seen_least_def All_less_Suc intro: order.trans)
      qed
    qed
  qed
qed

lemma seen_all:
  assumes "seen_least q k0 k minKey m"
    and "\<And>f. f \<in># cal_events q \<Longrightarrow> \<exists>l < k. f \<in> set (m_buckets q ! ((lastDay q + l) mod m_nBuckets q))"
  shows "scan_result q (Inr m)"
proof (cases m)
  case None
  then have "f \<notin># cal_events q" for f
    using assms by (fastforce simp: seen_least_def)
  then show ?thesis using None by (simp add: scan_result_def multiset_nonemptyE) (meson multiset_nonemptyE)
next
  case (Some p)
  obtain j e where "p = (j, e)" by (cases p)
  then show ?thesis using assms Some by (fastforce simp: seen_least_def scan_result_def)
qed

lemma bucket_scan_result:
  assumes "buckets_ok q" "cursor_ok q" "\<forall>e \<in># cal_events q. ev_ord e < ord_key k0"
    and "k < m_nBuckets q" "i = (lastDay q + k) mod m_nBuckets q" "t = day_end q (lastDay q + k)"
    and "(\<forall>e \<in># cal_events q. lastDay q + k \<le> day q e) \<or> 2 ^ 64 \<le> (lastDay q + k) * unat (m_width q)"
    and "seen_least q k0 k minKey m"
  shows "\<exists>r. bucket_scan q i t minKey m = Some r \<and> scan_result q r"
  using assms(4-)
proof (induction "m_nBuckets q - k" arbitrary: k i t minKey m)
  case (Suc d)
  let ?n = "m_nBuckets q" and ?W = "unat (m_width q)"
  let ?b = "m_buckets q ! i" and ?e = "NextEvent (m_reverse q) (m_buckets q ! i)"
  have W: "0 < ?W" using assms(1) by (auto simp: buckets_ok_def unat_gt_0 word_neq_0_conv)
  have i: "i < ?n" using Suc.prems(1,2) by (metis mod_less_divisor gr0I not_less0)
  have in_i: "f \<in> set ?b" if "f \<in># cal_events q" "day q f = lastDay q + k" for f
    using event_bucket [OF assms(1) that(1)] that(2) Suc.prems(2) by simp
  show ?case
  proof (cases "?b \<noteq> [] \<and> m_ts (key ?e) < t")
    case True
    then have e: "?e \<in># cal_events q" "\<And>f. f \<in> set ?b \<Longrightarrow> ev_ord ?e \<le> ev_ord f"
      using NextEvent_event [OF assms(1) i] by auto
    have "unat (m_ts (key ?e)) < (lastDay q + k + 1) * ?W"
      using True Suc.prems(3) day_end_le [of q "lastDay q + k"] by (simp add: word_less_nat_alt)
    then have "day q ?e < lastDay q + k + 1" unfolding day_def by (simp add: W less_mult_imp_div_less)
    moreover have "?e \<in> set ?b" using NextEvent_least assms(1) i True by (auto simp: buckets_ok_def)
    then have ge: "lastDay q + k \<le> day q ?e" using bucket_day [OF assms(1,2) Suc.prems(1)] Suc.prems(2) by simp
    ultimately have day: "day q ?e = lastDay q + k" by simp
    have "(lastDay q + k) * ?W \<le> unat (m_ts (key ?e))"
      using day unfolding day_def by (metis div_times_less_eq_dividend)
    then have all: "\<forall>f \<in># cal_events q. lastDay q + k \<le> day q f"
      using Suc.prems(4) unsigned_less [of "m_ts (key ?e)", where ?'a = nat] by auto
    have "ev_ord ?e \<le> ev_ord f" if "f \<in># cal_events q" for f
    proof (rule ccontr)
      assume "\<not> ev_ord ?e \<le> ev_ord f"
      then have "ev_ord f \<le> ev_ord ?e" by simp
      then have "day q f = lastDay q + k" using day_of_less [of f ?e q] day all that by (metis le_antisym)
      then show False using in_i e(2) that \<open>\<not> ev_ord ?e \<le> ev_ord f\<close> by blast
    qed
    then have "scan_result q (Inl (i, t, ?e))"
      using True i day Suc.prems(2,3) by (simp add: scan_result_def)
    then show ?thesis using True by (simp add: bucket_scan.simps [of q i] Let_def)
  next
    case False
    define lt where "lt \<longleftrightarrow> ?b \<noteq> [] \<and> EventKey_less (key ?e) minKey"
    let ?k = "if lt then key ?e else minKey" and ?m = "if lt then Some (i, ?e) else m"
    have seen: "seen_least q k0 (k + 1) ?k ?m"
      using seen_least_step [OF assms(1) Suc.prems(1,5) assms(3) Suc.prems(2) refl refl lt_def] .
    have later: "(\<forall>f \<in># cal_events q. lastDay q + (k + 1) \<le> day q f) \<or> 2 ^ 64 \<le> (lastDay q + (k + 1)) * ?W"
    proof (rule disjCI)
      assume "\<not> 2 ^ 64 \<le> (lastDay q + (k + 1)) * ?W"
      then have fits: "(lastDay q + k + 1) * ?W < 2 ^ 64" by simp
      then have all: "\<forall>f \<in># cal_events q. lastDay q + k \<le> day q f" using Suc.prems(4) by (auto simp: algebra_simps)
      show "\<forall>f \<in># cal_events q. lastDay q + (k + 1) \<le> day q f"
      proof (rule ballI, rule ccontr)
        fix f assume f: "f \<in># cal_events q" "\<not> lastDay q + (k + 1) \<le> day q f"
        then have day: "day q f = lastDay q + k" using all by fastforce
        then have f_in: "f \<in> set ?b" using in_i f(1) by blast
        then have ne: "?b \<noteq> []" by auto
        note b = ne NextEvent_event(2) [OF assms(1) i ne f_in]
        have "unat (m_ts (key f)) < (day q f + 1) * ?W" unfolding day_def using W dividend_less_div_times by (simp add: algebra_simps)
        then have "unat (m_ts (key ?e)) < unat t"
          using ts_of_less [OF b(2)] day Suc.prems(3) day_end_exact [OF fits] by simp
        then show False using False b(1) by (simp add: word_less_nat_alt)
      qed
    qed
    have scan: "bucket_scan q i t minKey m = (if (i + 1) mod ?n = m_lastBucket q then Some (Inr ?m)
        else bucket_scan q ((i + 1) mod ?n) (t + m_width q) ?k ?m)"
      using False by (subst bucket_scan.simps) (auto simp: Let_def lt_def)
    have next_i: "(i + 1) mod ?n = (lastDay q + (k + 1)) mod ?n" "(i + 1) mod ?n = m_lastBucket q \<longleftrightarrow> k + 1 = ?n"
      using back_at_start [OF Suc.prems(1), of "lastDay q"] assms(2) Suc.prems(2) by (simp_all add: cursor_ok_def)
    show ?thesis
    proof (cases "k + 1 = ?n")
      case True
      have "\<exists>l < k + 1. f \<in> set (m_buckets q ! ((lastDay q + l) mod ?n))" if "f \<in># cal_events q" for f
        using bucket_visited [of q f] lastDay_le [OF assms(2) that] event_bucket [OF assms(1) that] True
        by (metis Suc.prems(1) gr_implies_not0 neq0_conv)
      then have "scan_result q (Inr ?m)"
        using seen by (intro seen_all)
      then show ?thesis using scan next_i(2) True by simp
    next
      case f: False
      then have "k + 1 < ?n" using Suc.prems(1) by linarith
      then show ?thesis
        using Suc.hyps(1) [OF _ _ next_i(1) _ later seen] scan next_i(2) f Suc.hyps(2) Suc.prems(3) day_end_Suc [of q "lastDay q + k"]
        by auto
    qed
  qed
qed simp

end
