(* ===== verification/Calendar_Correct.thy ===== *)
theory Calendar_Correct
  imports Calendar_Scheduler
begin

text \<open>
  The operations of the calendar queue keep its invariant, resizing included, and hand out the events
  in order, as long as no event is inserted before the last one removed.
\<close>

subsection \<open>Removing the first event\<close>

lemma day_end_word: "(m_ts (key e) div m_width q + 1) * m_width q = day_end q (day q e)"
  "(p div m_width q + 1) * m_width q = day_end q (unat p div unat (m_width q))"
  by (simp_all add: day_end_def day_def unat_div_distrib [symmetric] add.commute)

lemma pop_ok:
  assumes "buckets_ok q" "i < m_nBuckets q" "m_buckets q ! i \<noteq> []"
    and "q' = q\<lparr>m_buckets := (m_buckets q)[i := Pop (m_reverse q) (m_buckets q ! i)],
      m_lastBucket := lb, m_lastPrio := lp, m_bucketTop := bt\<rparr>"
  shows "buckets_ok q' \<and> cal_events q = add_mset (NextEvent (m_reverse q) (m_buckets q ! i)) (cal_events q')"
proof -
  let ?b = "m_buckets q ! i" and ?p = "Pop (m_reverse q) (m_buckets q ! i)"
  have "bucket_ok (m_reverse q) ?b" using assms(1,2) by (simp add: buckets_ok_def)
  note pop = Pop_next [OF this assms(3)]
  have ev: "cal_events q = add_mset (NextEvent (m_reverse q) ?b) (cal_events q')"
    using mset_concat_update [OF assms(2), of ?p] pop by (simp add: cal_events_def assms(4))
  have "set ?p \<subseteq> set ?b" using pop by (metis set_mset_add_mset_insert set_mset_mset subset_insertI)
  moreover have "day q' = day q" by (rule ext) (simp add: day_def assms(4))
  ultimately show ?thesis
    using assms(1,2) pop ev unfolding buckets_ok_def
    by (auto simp: assms(4) nth_list_update uids_distinct_add)
qed

definition same_layout :: "calendar_queue \<Rightarrow> calendar_queue \<Rightarrow> bool" where
  "same_layout q q' \<longleftrightarrow> m_nBuckets q' = m_nBuckets q \<and> m_width q' = m_width q \<and> m_reverse q' = m_reverse q \<and>
     m_qSize q' = m_qSize q"

lemma top_keys:
  assumes "buckets_ok q"
  shows "\<forall>e \<in># cal_events q. ev_ord e < ord_key \<lparr>m_ts = - 1, m_uid = u, m_context = c\<rparr>"
proof
  fix e assume "e \<in># cal_events q"
  then have "m_ts (key e) < - 1" using assms by (simp add: buckets_ok_def ts_below_max_def)
  then show "ev_ord e < ord_key \<lparr>m_ts = - 1, m_uid = u, m_context = c\<rparr>" by (simp add: ord_key_def)
qed

lemma scan_from_start:
  assumes "buckets_ok q" "cursor_ok q"
  shows "\<exists>r. bucket_scan q (m_lastBucket q) (m_bucketTop q) \<lparr>m_ts = - 1, m_uid = u, m_context = c\<rparr> None = Some r \<and>
    scan_result q r"
proof (rule bucket_scan_result [OF assms top_keys [OF assms(1)], where k = 0])
  show "0 < m_nBuckets q" using assms(1) by (simp add: buckets_ok_def)
  show "m_lastBucket q = (lastDay q + 0) mod m_nBuckets q" "m_bucketTop q = day_end q (lastDay q + 0)"
    using assms(2) by (simp_all add: cursor_ok_def)
  show "(\<forall>e \<in># cal_events q. lastDay q + 0 \<le> day q e) \<or> 2 ^ 64 \<le> (lastDay q + 0) * unat (m_width q)"
    using lastDay_le [OF assms(2)] by simp
qed (simp add: seen_least_def)

lemma DoRemoveNext_ok:
  assumes "buckets_ok q" "cursor_ok q" "cal_events q \<noteq> {#}"
  shows "\<exists>e q'. DoRemoveNext q = Some (e, q') \<and> buckets_ok q' \<and> cursor_ok q' \<and> is_next e (cal_events q) \<and>
    cal_events q = add_mset e (cal_events q') \<and> m_lastPrio q' = m_ts (key e) \<and> same_layout q q'"
proof -
  obtain r where r: "bucket_scan q (m_lastBucket q) (m_bucketTop q) \<lparr>m_ts = - 1, m_uid = 0, m_context = - 1\<rparr> None = Some r"
    "scan_result q r"
    using scan_from_start [OF assms(1,2)] by blast
  have "\<exists>i t e. i < m_nBuckets q \<and> m_buckets q ! i \<noteq> [] \<and> e = NextEvent (m_reverse q) (m_buckets q ! i) \<and>
      (\<forall>f \<in># cal_events q. ev_ord e \<le> ev_ord f) \<and> t = day_end q (day q e) \<and>
      DoRemoveNext q = Some (e, q\<lparr>m_buckets := (m_buckets q)[i := Pop (m_reverse q) (m_buckets q ! i)],
        m_lastBucket := day q e mod m_nBuckets q, m_lastPrio := m_ts (key e), m_bucketTop := t\<rparr>)"
  proof (cases r)
    case (Inl p)
    obtain i t e where p: "p = (i, t, e)" by (cases p)
    have "i < m_nBuckets q \<and> m_buckets q ! i \<noteq> [] \<and> e = NextEvent (m_reverse q) (m_buckets q ! i) \<and>
        (\<forall>f \<in># cal_events q. ev_ord e \<le> ev_ord f) \<and> t = day_end q (day q e)"
      and "day q e mod m_nBuckets q = i"
      using r(2) [unfolded Inl p scan_result_def sum.case prod.case] by (blast, metis)
    moreover have "DoRemoveNext q = Some (e, q\<lparr>m_buckets := (m_buckets q)[i := Pop (m_reverse q) (m_buckets q ! i)],
        m_lastBucket := i, m_lastPrio := m_ts (key e), m_bucketTop := t\<rparr>)"
      using r(1) unfolding Inl p by (simp add: DoRemoveNext_def)
    ultimately show ?thesis by metis
  next
    case (Inr m)
    then obtain i e where m: "m = Some (i, e)" using r(2) assms(3) by (cases m) (auto simp: scan_result_def)
    have res: "i < m_nBuckets q" "m_buckets q ! i \<noteq> []" "e = NextEvent (m_reverse q) (m_buckets q ! i)"
      "\<forall>f \<in># cal_events q. ev_ord e \<le> ev_ord f"
      using r(2) [unfolded Inr m scan_result_def sum.case option.case prod.case] by blast+
    have "DoRemoveNext q = Some (e, q\<lparr>m_buckets := (m_buckets q)[i := Pop (m_reverse q) (m_buckets q ! i)],
        m_lastBucket := day q e mod m_nBuckets q, m_lastPrio := m_ts (key e),
        m_bucketTop := (m_ts (key e) div m_width q + 1) * m_width q\<rparr>)"
      using r(1) unfolding Inr m by (simp add: DoRemoveNext_def Hash_day)
    then show ?thesis using res day_end_word(1) by blast
  qed
  then obtain i t e where res: "i < m_nBuckets q" "m_buckets q ! i \<noteq> []" "e = NextEvent (m_reverse q) (m_buckets q ! i)"
    "\<forall>f \<in># cal_events q. ev_ord e \<le> ev_ord f" "t = day_end q (day q e)"
    and rem: "DoRemoveNext q = Some (e, q\<lparr>m_buckets := (m_buckets q)[i := Pop (m_reverse q) (m_buckets q ! i)],
        m_lastBucket := day q e mod m_nBuckets q, m_lastPrio := m_ts (key e), m_bucketTop := t\<rparr>)" by blast
  define q' where "q' = q\<lparr>m_buckets := (m_buckets q)[i := Pop (m_reverse q) (m_buckets q ! i)],
        m_lastBucket := day q e mod m_nBuckets q, m_lastPrio := m_ts (key e), m_bucketTop := t\<rparr>"
  note pop = pop_ok [OF assms(1) res(1,2) q'_def, folded res(3)]
  have e: "e \<in># cal_events q" using NextEvent_event(1) [OF assms(1) res(1,2)] res(3) by simp
  have "m_ts (key e) \<le> m_ts (key f)" if "f \<in># cal_events q'" for f
    using res(4) pop that ts_of_less [of e f] by (simp add: word_le_nat_alt)
  then have "cursor_ok q'" using res(5) by (simp add: cursor_ok_def q'_def lastDay_def day_def day_end_def)
  moreover have "is_next e (cal_events q)"
    using least_is_next [OF _ e res(4)] assms(1) by (simp add: buckets_ok_def)
  ultimately show ?thesis
    using rem pop by (intro exI [of _ e] exI [of _ q']) (simp add: q'_def same_layout_def)
qed

subsection \<open>Resizing\<close>

lemma same_layout_trans: "same_layout p q \<Longrightarrow> same_layout q r \<Longrightarrow> same_layout p r"
  by (simp add: same_layout_def)

lemma DoInsert_frame [simp]:
  "m_nBuckets (DoInsert e q) = m_nBuckets q" "m_width (DoInsert e q) = m_width q" "m_reverse (DoInsert e q) = m_reverse q"
  "m_qSize (DoInsert e q) = m_qSize q" "m_lastPrio (DoInsert e q) = m_lastPrio q"
  "m_lastBucket (DoInsert e q) = m_lastBucket q" "m_bucketTop (DoInsert e q) = m_bucketTop q"
  by (simp_all add: DoInsert_def Let_def)

abbreviation insert_all :: "calendar_queue \<Rightarrow> Event list \<Rightarrow> calendar_queue" where
  "insert_all q es \<equiv> foldl (\<lambda>q e. DoInsert e q) q es"

lemma insert_all_frame [simp]:
  "m_nBuckets (insert_all q es) = m_nBuckets q" "m_width (insert_all q es) = m_width q"
  "m_reverse (insert_all q es) = m_reverse q" "m_qSize (insert_all q es) = m_qSize q"
  "m_lastPrio (insert_all q es) = m_lastPrio q" "m_lastBucket (insert_all q es) = m_lastBucket q"
  "m_bucketTop (insert_all q es) = m_bucketTop q"
  by (induction es arbitrary: q) auto

lemma insert_all_ok:
  assumes "buckets_ok q" "uids_distinct (mset es + cal_events q)" "\<forall>e \<in> set es. ts_below_max e"
  shows "buckets_ok (insert_all q es) \<and> cal_events (insert_all q es) = mset es + cal_events q"
  using assms
proof (induction es arbitrary: q)
  case (Cons e es)
  have fresh: "uid_fresh e (mset es + cal_events q)" "uids_distinct (mset es + cal_events q)"
    using Cons.prems(2) by (simp_all add: uids_distinct_add)
  then have "uid_fresh e (cal_events q)" using uid_fresh_mono by (metis mset_subset_eq_add_right)
  then have ins: "buckets_ok (DoInsert e q)" "cal_events (DoInsert e q) = add_mset e (cal_events q)"
    using DoInsert_ok Cons.prems(1,3) by auto
  then have "uids_distinct (mset es + cal_events (DoInsert e q))"
    using fresh by (simp add: uids_distinct_add)
  then show ?case using Cons.IH [OF ins(1)] Cons.prems(3) ins(2) by simp
qed simp

lemma gather_samples_ok:
  assumes "buckets_ok q" "cursor_ok q" "k \<le> size (cal_events q)"
  shows "\<exists>es q'. gather_samples k q = Some (es, q') \<and> buckets_ok q' \<and> cal_events q = mset es + cal_events q' \<and>
    length es = k \<and> same_layout q q'"
  using assms
proof (induction k arbitrary: q)
  case 0
  then show ?case by (simp add: same_layout_def)
next
  case (Suc k)
  then have "cal_events q \<noteq> {#}" by auto
  then obtain e q1 where r: "DoRemoveNext q = Some (e, q1)" "buckets_ok q1" "cursor_ok q1"
      "cal_events q = add_mset e (cal_events q1)" "m_lastPrio q1 = m_ts (key e)" "same_layout q q1"
    using DoRemoveNext_ok [OF Suc.prems(1,2)] by blast
  then obtain es q2 where g: "gather_samples k q1 = Some (es, q2)" "buckets_ok q2" "cal_events q1 = mset es + cal_events q2"
      "length es = k" "same_layout q1 q2"
    using Suc.IH [OF r(2,3)] Suc.prems(3) by auto
  then show ?case using r g same_layout_trans [OF r(6) g(5)] by auto
qed

lemma width_of_samples_ok: "0 < width_of_samples samples"
  by (simp add: width_of_samples_def Let_def less_max_iff_disj)

lemma cursor_frame [simp]:
  "buckets_ok (q\<lparr>m_lastBucket := a, m_bucketTop := b, m_lastPrio := c\<rparr>) \<longleftrightarrow> buckets_ok q"
  "cal_events (q\<lparr>m_lastBucket := a, m_bucketTop := b, m_lastPrio := c\<rparr>) = cal_events q"
  "buckets_ok (q\<lparr>m_qSize := n\<rparr>) \<longleftrightarrow> buckets_ok q"
  "cal_events (q\<lparr>m_qSize := n\<rparr>) = cal_events q" "cursor_ok (q\<lparr>m_qSize := n\<rparr>) \<longleftrightarrow> cursor_ok q"
  by (simp_all add: buckets_ok_def cal_events_def cursor_ok_def day_def lastDay_def day_end_def)

lemma sample_count_le: "2 \<le> n \<Longrightarrow> 0 < sample_count n \<and> sample_count n \<le> n"
  by (auto simp: sample_count_def Let_def)

lemma CalculateNewWidth_ok:
  assumes "buckets_ok q" "cursor_ok q" "m_qSize q = size (cal_events q)"
  shows "\<exists>w q'. CalculateNewWidth q = Some (w, q') \<and> buckets_ok q' \<and> cursor_ok q' \<and> cal_events q' = cal_events q \<and>
    same_layout q q' \<and> m_lastPrio q' = m_lastPrio q \<and> 0 < w"
proof (cases "m_qSize q < 2")
  case True
  then show ?thesis using assms by (simp add: CalculateNewWidth_def same_layout_def)
next
  case False
  let ?k = "sample_count (m_qSize q)"
  have k: "0 < ?k" "?k \<le> size (cal_events q)" using False sample_count_le assms(3) by auto
  obtain es q1 where g: "gather_samples ?k q = Some (es, q1)" "buckets_ok q1" "cal_events q = mset es + cal_events q1"
      "length es = ?k" "same_layout q q1"
    using gather_samples_ok [OF assms(1,2) k(2)] by blast
  have small: "\<forall>e \<in> set es. ts_below_max e" using assms(1) g(3) by (simp add: buckets_ok_def)
  have "uids_distinct (mset es + cal_events q1)" using assms(1) g(3) by (simp add: buckets_ok_def)
  then have put: "buckets_ok (insert_all q1 es)" "cal_events (insert_all q1 es) = cal_events q"
    using insert_all_ok [OF g(2) _ small] g(3) by auto
  define q3 where "q3 = (insert_all q1 es)\<lparr>m_lastBucket := m_lastBucket q, m_bucketTop := m_bucketTop q, m_lastPrio := m_lastPrio q\<rparr>"
  have "CalculateNewWidth q = Some (width_of_samples es, q3)"
    using False g(1) by (simp add: CalculateNewWidth_def q3_def Let_def)
  moreover have "buckets_ok q3" "cal_events q3 = cal_events q" "same_layout q q3" "m_lastPrio q3 = m_lastPrio q"
    using put g(5) by (simp_all add: q3_def same_layout_def)
  moreover from this have "cursor_ok q3"
    using assms(2) by (simp add: cursor_ok_def lastDay_def same_layout_def day_end_def) (simp add: q3_def)
  ultimately show ?thesis using width_of_samples_ok by blast
qed

lemma Calendar_Init_ok:
  assumes "0 < n" "0 < w"
  shows "buckets_ok (Calendar_Init n w p q) \<and> cursor_ok (Calendar_Init n w p q) \<and> cal_events (Calendar_Init n w p q) = {#}"
proof -
  have ev: "cal_events (Calendar_Init n w p q) = {#}"
    by (simp add: cal_events_def Calendar_Init_def)
  have "m_bucketTop (Calendar_Init n w p q) = day_end (Calendar_Init n w p q) (lastDay (Calendar_Init n w p q))"
    using day_end_word(2) [of p "Calendar_Init n w p q"] by (simp add: Calendar_Init_def lastDay_def)
  then show ?thesis
    using assms
    by (simp add: buckets_ok_def cursor_ok_def ev) (simp add: Calendar_Init_def lastDay_def bucket_ok_def unat_div_distrib)
qed

lemma DoResize_ok:
  assumes "buckets_ok q" "cursor_ok q" "0 < n" "0 < w"
  shows "buckets_ok (DoResize n w q) \<and> cursor_ok (DoResize n w q) \<and> cal_events (DoResize n w q) = cal_events q \<and>
    m_qSize (DoResize n w q) = m_qSize q \<and> m_lastPrio (DoResize n w q) = m_lastPrio q"
proof -
  let ?i = "Calendar_Init n w (m_lastPrio q) q" and ?es = "concat (m_buckets q)"
  note init = Calendar_Init_ok [OF assms(3,4), of "m_lastPrio q" q]
  have es: "uids_distinct (mset ?es)" "\<forall>e \<in> set ?es. ts_below_max e" "mset ?es = cal_events q"
    using assms(1) by (simp_all add: buckets_ok_def cal_events_def)
  then have ins: "buckets_ok (insert_all ?i ?es)" "cal_events (insert_all ?i ?es) = cal_events q"
    using insert_all_ok [of ?i ?es] init by auto
  moreover have "m_lastPrio ?i = m_lastPrio q" "m_qSize ?i = m_qSize q" by (simp_all add: Calendar_Init_def)
  moreover from this have "cursor_ok (insert_all ?i ?es)"
    using init ins(2) assms(2) by (simp add: cursor_ok_def lastDay_def day_end_def)
  ultimately show ?thesis by (simp add: DoResize_def)
qed

subsection \<open>The operations\<close>

definition cal_invar :: "calendar_queue \<Rightarrow> bool" where
  "cal_invar q \<longleftrightarrow> buckets_ok q \<and> cursor_ok q \<and> m_qSize q = size (cal_events q) \<and> m_nBuckets q \<le> 65534"

definition resized :: "calendar_queue \<Rightarrow> calendar_queue option \<Rightarrow> bool" where
  "resized q r \<longleftrightarrow> (\<exists>q'. r = Some q' \<and> cal_invar q' \<and> cal_events q' = cal_events q \<and> m_lastPrio q' = m_lastPrio q)"

lemma Calendar_Resize_ok:
  assumes "cal_invar q" "0 < n" "n \<le> 65534"
  shows "resized q (Calendar_Resize n q)"
proof -
  obtain w q1 where w: "CalculateNewWidth q = Some (w, q1)" "buckets_ok q1" "cursor_ok q1" "cal_events q1 = cal_events q"
      "same_layout q q1" "m_lastPrio q1 = m_lastPrio q" "0 < w"
    using CalculateNewWidth_ok assms(1) unfolding cal_invar_def by blast
  have "m_nBuckets (DoResize n w q1) = n" by (simp add: DoResize_def Calendar_Init_def)
  then show ?thesis
    using DoResize_ok [OF w(2,3) assms(2) w(7)] assms w(1,4,5,6)
    by (auto simp: Calendar_Resize_def cal_invar_def same_layout_def resized_def)
qed

lemma ResizeUp_ok: "cal_invar q \<Longrightarrow> resized q (ResizeUp q)"
  using Calendar_Resize_ok [of q "m_nBuckets q * 2"]
  by (auto simp: ResizeUp_def cal_invar_def buckets_ok_def resized_def)

lemma ResizeDown_ok: "cal_invar q \<Longrightarrow> resized q (ResizeDown q)"
  using Calendar_Resize_ok [of q "m_nBuckets q div 2"]
  by (auto simp: ResizeDown_def cal_invar_def buckets_ok_def resized_def)

lemma Calendar_Insert_ok:
  assumes "cal_invar q" "uid_fresh e (cal_events q)" "ts_below_max e" "m_lastPrio q \<le> m_ts (key e)"
  shows "\<exists>q'. Calendar_Insert e q = Some q' \<and> cal_invar q' \<and> cal_events q' = add_mset e (cal_events q) \<and>
    m_lastPrio q' = m_lastPrio q"
proof -
  let ?q = "(DoInsert e q)\<lparr>m_qSize := m_qSize q + 1\<rparr>"
  have ins: "buckets_ok (DoInsert e q)" "cal_events (DoInsert e q) = add_mset e (cal_events q)"
    using DoInsert_ok assms unfolding cal_invar_def by blast+
  then have "cursor_ok (DoInsert e q)"
    using assms(1,4) by (simp add: cal_invar_def cursor_ok_def lastDay_def day_end_def)
  then have "cal_invar ?q" using ins assms(1) by (simp add: cal_invar_def)
  then show ?thesis using ResizeUp_ok [of ?q] ins by (auto simp: Calendar_Insert_def Let_def resized_def)
qed

lemma Calendar_PeekNext_ok:
  assumes "cal_invar q" "cal_events q \<noteq> {#}"
  shows "\<exists>e. Calendar_PeekNext q = Some e \<and> is_next e (cal_events q)"
proof -
  have q: "buckets_ok q" "cursor_ok q" "\<not> Calendar_IsEmpty q"
    using assms by (auto simp: cal_invar_def Calendar_IsEmpty_def)
  obtain r where r: "bucket_scan q (m_lastBucket q) (m_bucketTop q) \<lparr>m_ts = - 1, m_uid = - 1, m_context = 0\<rparr> None = Some r"
    "scan_result q r"
    using scan_from_start [OF q(1,2)] by blast
  obtain e where "Calendar_PeekNext q = Some e" "e \<in># cal_events q" "\<forall>f \<in># cal_events q. ev_ord e \<le> ev_ord f"
  proof (cases r)
    case (Inl p)
    then obtain i t e where p: "r = Inl (i, t, e)" by (cases p) auto
    have "i < m_nBuckets q" "m_buckets q ! i \<noteq> []" "e = NextEvent (m_reverse q) (m_buckets q ! i)"
        "\<forall>f \<in># cal_events q. ev_ord e \<le> ev_ord f"
      using r(2) [unfolded p scan_result_def sum.case prod.case] by blast+
    then show ?thesis using that [of e] NextEvent_event(1) [OF q(1)] r(1) q(3) p by (simp add: Calendar_PeekNext_def)
  next
    case (Inr m)
    then obtain i e where p: "r = Inr (Some (i, e))" using r(2) assms(2) by (cases m) (auto simp: scan_result_def)
    have "i < m_nBuckets q" "m_buckets q ! i \<noteq> []" "e = NextEvent (m_reverse q) (m_buckets q ! i)"
        "\<forall>f \<in># cal_events q. ev_ord e \<le> ev_ord f"
      using r(2) [unfolded p scan_result_def sum.case option.case prod.case] by blast+
    then show ?thesis using that [of e] NextEvent_event(1) [OF q(1)] r(1) q(3) p by (simp add: Calendar_PeekNext_def)
  qed
  then show ?thesis using least_is_next q(1) by (auto simp: buckets_ok_def)
qed

lemma Calendar_RemoveNext_ok:
  assumes "cal_invar q" "cal_events q \<noteq> {#}"
  shows "\<exists>e q'. Calendar_RemoveNext q = Some (e, q') \<and> cal_invar q' \<and> is_next e (cal_events q) \<and>
    cal_events q' = cal_events q - {#e#} \<and> m_lastPrio q' = m_ts (key e)"
proof -
  have q: "buckets_ok q" "cursor_ok q" "\<not> Calendar_IsEmpty q"
    using assms by (auto simp: cal_invar_def Calendar_IsEmpty_def)
  obtain e q1 where r: "DoRemoveNext q = Some (e, q1)" "buckets_ok q1" "cursor_ok q1" "is_next e (cal_events q)"
      "cal_events q = add_mset e (cal_events q1)" "m_lastPrio q1 = m_ts (key e)" "same_layout q q1"
    using DoRemoveNext_ok [OF q(1,2) assms(2)] by blast
  let ?q = "q1\<lparr>m_qSize := m_qSize q1 - 1\<rparr>"
  have "cal_invar ?q" using r assms(1) by (simp add: cal_invar_def same_layout_def)
  then show ?thesis using ResizeDown_ok [of ?q] r q(3) by (auto simp: Calendar_RemoveNext_def resized_def)
qed

lemma Calendar_Remove_ok:
  assumes "cal_invar q" "e \<in># cal_events q"
  shows "\<exists>q'. Calendar_Remove e q = Some q' \<and> cal_invar q' \<and> cal_events q' = cal_events q - {#e#} \<and>
    m_lastPrio q' = m_lastPrio q"
proof -
  let ?h = "day q e mod m_nBuckets q"
  have q: "buckets_ok q" "cursor_ok q" "\<not> Calendar_IsEmpty q"
    using assms by (auto simp: cal_invar_def Calendar_IsEmpty_def)
  have h: "?h < m_nBuckets q" "bucket_ok (m_reverse q) (m_buckets q ! ?h)" using q(1) by (simp_all add: buckets_ok_def)
  have ue: "uids_distinct (cal_events q)" using q(1) by (simp add: buckets_ok_def)
  then have "uids_distinct (mset (m_buckets q ! ?h))"
    using h(1) uids_distinct_sub bucket_sub by blast
  then obtain c where c: "bucket_erase e (m_buckets q ! ?h) = Some c" "bucket_ok (m_reverse q) c"
      "mset c = mset (m_buckets q ! ?h) - {#e#}" "set c \<subseteq> set (m_buckets q ! ?h)"
    using bucket_erase_own [OF h(2) _ event_bucket [OF q(1) assms(2)]] by blast
  define q1 where "q1 = q\<lparr>m_buckets := (m_buckets q)[?h := c]\<rparr>"
  have "mset (m_buckets q ! ?h) = add_mset e (mset c)"
    using c(3) event_bucket [OF q(1) assms(2)] by simp
  then have ev: "cal_events q = add_mset e (cal_events q1)"
    using mset_concat_update [OF h(1), of c] by (simp add: q1_def cal_events_def)
  have "day q1 = day q" by (rule ext) (simp add: day_def q1_def)
  then have "buckets_ok q1" "cursor_ok q1"
    using q(1,2) ue ev c(2,4) h(1)
    by (auto simp: buckets_ok_def cursor_ok_def lastDay_def day_end_def q1_def nth_list_update uids_distinct_add)
  then have inv: "cal_invar (q1\<lparr>m_qSize := m_qSize q - 1\<rparr>)"
    using assms(1) ev by (simp add: cal_invar_def) (simp add: q1_def)
  have "Calendar_Remove e q = ResizeDown (q1\<lparr>m_qSize := m_qSize q - 1\<rparr>)"
    using q(3) c(1) by (simp add: Calendar_Remove_def Hash_day q1_def)
  then show ?thesis using ResizeDown_ok [OF inv] ev by (auto simp: resized_def q1_def)
qed

subsection \<open>The contract\<close>

text \<open>\<^const>\<open>None\<close> stands for a program that has failed an assertion.\<close>

definition calendar_ops :: "calendar_queue option scheduler_ops" where
  "calendar_ops = \<lparr>
     op_Insert = (\<lambda>e q. case q of None \<Rightarrow> None | Some c \<Rightarrow> Calendar_Insert e c),
     op_IsEmpty = (\<lambda>q. case q of None \<Rightarrow> False | Some c \<Rightarrow> Calendar_IsEmpty c),
     op_PeekNext = (\<lambda>q. case q of None \<Rightarrow> None | Some c \<Rightarrow> Calendar_PeekNext c),
     op_RemoveNext = (\<lambda>q. case q of None \<Rightarrow> None | Some c \<Rightarrow> map_option (\<lambda>(e, d). (e, Some d)) (Calendar_RemoveNext c)),
     op_Remove = (\<lambda>e q. case q of None \<Rightarrow> None | Some c \<Rightarrow> map_option Some (Calendar_Remove e c))\<rparr>"

definition calendar_invar :: "calendar_queue option \<Rightarrow> bool" where
  "calendar_invar q = (case q of None \<Rightarrow> False | Some c \<Rightarrow> cal_invar c)"

definition calendar_events :: "calendar_queue option \<Rightarrow> Event multiset" where
  "calendar_events q = (case q of None \<Rightarrow> {#} | Some c \<Rightarrow> cal_events c)"

definition calendar_now :: "calendar_queue option \<Rightarrow> uint64" where
  "calendar_now q = (case q of None \<Rightarrow> 0 | Some c \<Rightarrow> m_lastPrio c)"

lemmas calendar_defs = calendar_ops_def calendar_events_def calendar_now_def

lemma calendar_invarE: "calendar_invar q \<Longrightarrow> (\<And>c. q = Some c \<Longrightarrow> cal_invar c \<Longrightarrow> P) \<Longrightarrow> P"
  by (auto simp: calendar_invar_def split: option.splits)

lemma cal_invar_empty: "cal_invar c \<Longrightarrow> Calendar_IsEmpty c \<longleftrightarrow> cal_events c = {#}"
  by (simp add: cal_invar_def Calendar_IsEmpty_def)

interpretation calendar_sched: timed_scheduler calendar_ops calendar_invar calendar_events calendar_now ts_below_max
proof unfold_locales
  fix q r :: "calendar_queue option" and e :: Event
  assume inv: "calendar_invar q"
  then obtain c where c: "q = Some c" "cal_invar c" by (rule calendar_invarE)
  show "uids_distinct (calendar_events q)"
    using c by (simp add: calendar_events_def cal_invar_def buckets_ok_def)
  show "op_IsEmpty calendar_ops q = (calendar_events q = {#})"
    using cal_invar_empty c by (simp add: calendar_defs)
  show "calendar_events q \<noteq> {#} \<Longrightarrow> \<exists>e. op_PeekNext calendar_ops q = Some e \<and> is_next e (calendar_events q)"
    using Calendar_PeekNext_ok c by (simp add: calendar_defs)
  show "calendar_events q \<noteq> {#} \<Longrightarrow> \<exists>e q'. op_RemoveNext calendar_ops q = Some (e, q') \<and> calendar_invar q' \<and>
      is_next e (calendar_events q) \<and> calendar_events q' = calendar_events q - {#e#}"
    using Calendar_RemoveNext_ok c by (fastforce simp: calendar_defs calendar_invar_def)
  show "uid_fresh e (calendar_events q) \<Longrightarrow> ts_below_max e \<Longrightarrow> calendar_now q \<le> m_ts (key e) \<Longrightarrow>
      calendar_invar (op_Insert calendar_ops e q) \<and>
      calendar_events (op_Insert calendar_ops e q) = add_mset e (calendar_events q) \<and>
      calendar_now (op_Insert calendar_ops e q) \<le> calendar_now q"
    using Calendar_Insert_ok [of c e] c by (auto simp: calendar_defs calendar_invar_def)
  show "calendar_events q \<noteq> {#} \<Longrightarrow> op_RemoveNext calendar_ops q = Some (e, r) \<Longrightarrow> calendar_now r \<le> m_ts (key e)"
    using Calendar_RemoveNext_ok [of c] c by (auto simp: calendar_defs)
  show "e \<in># calendar_events q \<Longrightarrow> \<exists>q'. op_Remove calendar_ops e q = Some q' \<and> calendar_invar q' \<and>
      calendar_events q' = calendar_events q - {#e#} \<and> calendar_now q' \<le> calendar_now q"
    using Calendar_Remove_ok [of c e] c by (auto simp: calendar_defs calendar_invar_def)
qed

lemma calendar_init:
  "calendar_invar (Some (CalendarScheduler_init r))" "calendar_events (Some (CalendarScheduler_init r)) = {#}"
  "calendar_now (Some (CalendarScheduler_init r)) = 0"
proof -
  define q :: calendar_queue where
    "q = \<lparr>m_buckets = [], m_width = 0, m_lastBucket = 0, m_bucketTop = 0, m_lastPrio = 0, m_qSize = 0, m_reverse = r\<rparr>"
  have i: "CalendarScheduler_init r = Calendar_Init 2 1 0 q" by (simp add: CalendarScheduler_init_def q_def)
  have s: "m_nBuckets (Calendar_Init 2 1 0 q) = 2" "m_qSize (Calendar_Init 2 1 0 q) = 0"
    "m_lastPrio (Calendar_Init 2 1 0 q) = 0" by (simp_all add: Calendar_Init_def q_def)
  note ok = Calendar_Init_ok [of 2 1 0 q]
  show "calendar_events (Some (CalendarScheduler_init r)) = {#}" "calendar_now (Some (CalendarScheduler_init r)) = 0"
    using ok s by (simp_all add: i calendar_events_def calendar_now_def)
  show "calendar_invar (Some (CalendarScheduler_init r))"
    using ok s by (simp add: i calendar_invar_def cal_invar_def)
qed

end
