(* ===== verification/Priority_Queue_Scheduler.thy ===== *)
theory Priority_Queue_Scheduler
  imports List_Scheduler
begin

text \<open>
  \<open>PriorityQueueScheduler\<close> (\<open>src/src/core/model/priority-queue-scheduler.cc\<close>): a
  \<open>std::priority_queue\<close> with the comparison \<open>std::greater\<close>, so that its top is an event with no event
  before it. The model is the vector of the events up to the order the standard library keeps it in:
  a push adds an event, the top is the first of the least events, and \<open>remove\<close> erases the first event
  with the same id and rebuilds the heap.
\<close>

type_synonym priority_queue = "Event list"

fun pq_top :: "Event \<Rightarrow> Event list \<Rightarrow> Event" where
  "pq_top m [] = m"
| "pq_top m (e # es) = pq_top (if Event_greater m e then e else m) es"

fun pq_erase :: "Event \<Rightarrow> Event list \<Rightarrow> Event list" where
  "pq_erase ev [] = []"
| "pq_erase ev (i # is) = (if EventKey_eq (key i) (key ev) then is else i # pq_erase ev is)"

definition PriorityQueueScheduler_Insert :: "Event \<Rightarrow> priority_queue \<Rightarrow> priority_queue" where
  "PriorityQueueScheduler_Insert ev m_queue = m_queue @ [ev]"

definition PriorityQueueScheduler_IsEmpty :: "priority_queue \<Rightarrow> bool" where
  "PriorityQueueScheduler_IsEmpty m_queue \<longleftrightarrow> m_queue = []"

definition PriorityQueueScheduler_PeekNext :: "priority_queue \<Rightarrow> Event option" where
  "PriorityQueueScheduler_PeekNext m_queue = (case m_queue of [] \<Rightarrow> None | e # es \<Rightarrow> Some (pq_top e es))"

definition PriorityQueueScheduler_RemoveNext :: "priority_queue \<Rightarrow> (Event \<times> priority_queue) option" where
  "PriorityQueueScheduler_RemoveNext m_queue =
     (case PriorityQueueScheduler_PeekNext m_queue of None \<Rightarrow> None | Some ev \<Rightarrow> Some (ev, remove1 ev m_queue))"

text \<open>An event that is not in the queue is not an error: \<open>remove\<close> returns false, which \<open>Remove\<close> ignores.\<close>

definition EventPriorityQueue_remove :: "Event \<Rightarrow> priority_queue \<Rightarrow> bool \<times> priority_queue" where
  "EventPriorityQueue_remove ev c =
     (if \<exists>i \<in> set c. EventKey_eq (key i) (key ev) then (True, pq_erase ev c) else (False, c))"

definition PriorityQueueScheduler_Remove :: "Event \<Rightarrow> priority_queue \<Rightarrow> priority_queue option" where
  "PriorityQueueScheduler_Remove ev m_queue = Some (snd (EventPriorityQueue_remove ev m_queue))"

definition pq_ops :: "priority_queue scheduler_ops" where
  "pq_ops = \<lparr>op_Insert = PriorityQueueScheduler_Insert, op_IsEmpty = PriorityQueueScheduler_IsEmpty,
     op_PeekNext = PriorityQueueScheduler_PeekNext, op_RemoveNext = PriorityQueueScheduler_RemoveNext,
     op_Remove = PriorityQueueScheduler_Remove\<rparr>"

definition pq_invar :: "priority_queue \<Rightarrow> bool" where
  "pq_invar q \<longleftrightarrow> uids_distinct (mset q)"

lemma pq_top_least:
  "pq_top m es \<in> insert m (set es) \<and> (\<forall>f \<in> insert m (set es). ev_ord (pq_top m es) \<le> ev_ord f)"
proof (induction es arbitrary: m)
  case (Cons e es)
  let ?m = "if Event_greater m e then e else m"
  have "ev_ord ?m \<le> ev_ord m" "ev_ord ?m \<le> ev_ord e" by (auto simp: Event_greater_ord)
  then show ?case using Cons [of ?m] by (auto intro: order.trans)
qed simp

lemma pq_next:
  assumes "pq_invar q" "mset q \<noteq> {#}"
  obtains e where "PriorityQueueScheduler_PeekNext q = Some e" "is_next e (mset q)"
proof -
  obtain d es where q: "q = d # es" using assms(2) by (cases q) auto
  have "is_next (pq_top d es) (mset q)"
    using pq_top_least [of d es] assms(1) by (intro least_is_next) (auto simp: q pq_invar_def)
  then show ?thesis using that q by (simp add: PriorityQueueScheduler_PeekNext_def)
qed

lemma pq_erase_own:
  "e \<in> set q \<Longrightarrow> uids_distinct (mset q) \<Longrightarrow> pq_erase e q = remove1 e q"
  by (induction q) (auto simp: uids_distinct_add uid_fresh_def EventKey_eq_def)

interpretation pq_sched: removing_scheduler pq_ops pq_invar mset
proof unfold_locales
  fix q :: priority_queue and e :: Event
  assume inv: "pq_invar q"
  show "uids_distinct (mset q)" using inv by (simp add: pq_invar_def)
  show "op_IsEmpty pq_ops q = (mset q = {#})" by (simp add: pq_ops_def PriorityQueueScheduler_IsEmpty_def)
  show "uid_fresh e (mset q) \<Longrightarrow> pq_invar (op_Insert pq_ops e q) \<and> mset (op_Insert pq_ops e q) = add_mset e (mset q)"
    using inv by (simp add: pq_ops_def PriorityQueueScheduler_Insert_def pq_invar_def uids_distinct_add)
  show "mset q \<noteq> {#} \<Longrightarrow> \<exists>e. op_PeekNext pq_ops q = Some e \<and> is_next e (mset q)"
    using pq_next [OF inv] by (metis pq_ops_def scheduler_ops.select_convs(3))
  show "\<exists>e q'. op_RemoveNext pq_ops q = Some (e, q') \<and> pq_invar q' \<and> is_next e (mset q) \<and> mset q' = mset q - {#e#}"
    if ne: "mset q \<noteq> {#}"
  proof -
    obtain e where "PriorityQueueScheduler_PeekNext q = Some e" "is_next e (mset q)" using pq_next [OF inv ne] .
    then show ?thesis
      using inv by (simp add: pq_ops_def PriorityQueueScheduler_RemoveNext_def pq_invar_def uids_distinct_diff)
  qed
  show "e \<in># mset q \<Longrightarrow> \<exists>q'. op_Remove pq_ops e q = Some q' \<and> pq_invar q' \<and> mset q' = mset q - {#e#}"
    using inv pq_erase_own [of e q]
    by (auto simp: pq_ops_def PriorityQueueScheduler_Remove_def EventPriorityQueue_remove_def pq_invar_def
        EventKey_eq_def uids_distinct_diff)
qed

end
