(* ===== verification/Scheduler_Properties.thy ===== *)
theory Scheduler_Properties
  imports Event_Properties Calendar_Correct Priority_Queue_Scheduler
begin

text \<open>
  The schedulers under arbitrary sequences of insertions and removals: the list, the map, the priority
  queue and the calendar queue give the same events back, and what the calendar queue needs for that.
\<close>

subsection \<open>Sequences of calls\<close>

lemma no_calls_yet: "list_invar []" "map_invar []" "pq_invar []"
  by (simp_all add: empty_queues pq_invar_def)

text \<open>C23: The list, the map, the priority-queue and the calendar scheduler (in both of its storage orders)
  are interchangeable under any interleaving of \<open>Insert\<close>, \<open>RemoveNext\<close> and \<open>Remove\<close> that a simulation can
  make: new events have a fresh id, a time stamp below the largest 64-bit number and not before the last
  event removed. All calls succeed and hand out the same events; the calendar may resize itself on the way.\<close>
theorem schedulers_same_results:
  assumes "calls_ok ts_below_max 0 [] calls"
  shows "\<exists>out l m p c. run_calls list_ops calls [] = Some (out, l) \<and> run_calls map_ops calls [] = Some (out, m) \<and>
    run_calls pq_ops calls [] = Some (out, p) \<and>
    run_calls calendar_ops calls (Some (CalendarScheduler_init reverse)) = Some (out, Some c) \<and>
    cal_events c = mset l \<and> map_events m = mset l \<and> mset p = mset l"
proof -
  note unlimited = calls_ok_unlimited [OF assms]
  obtain out l m where m: "run_calls map_ops calls [] = Some (out, m)" "run_calls list_ops calls [] = Some (out, l)"
      "map_events m = mset l"
    using map_sched.timed.calls_as_on_list [OF unlimited no_calls_yet(2,1)] by (auto simp: empty_queues)
  moreover obtain p where "run_calls pq_ops calls [] = Some (out, p)" "mset p = mset l"
    using pq_sched.timed.calls_as_on_list [OF unlimited no_calls_yet(3,1)] m(2) by auto
  moreover obtain q where "run_calls calendar_ops calls (Some (CalendarScheduler_init reverse)) = Some (out, q)"
      "calendar_invar q" "calendar_events q = mset l"
    using calendar_sched.calls_as_on_list [OF assms calendar_init(1) no_calls_yet(1)] m(2)
    by (auto simp: calendar_init)
  ultimately show ?thesis by (auto simp: calendar_events_def elim: calendar_invarE)
qed

definition some_calls :: "sched_call list" where
  "some_calls = [Call_Insert (ev 7 4), Call_Insert (ev 3 5), Call_RemoveNext, Call_Insert (ev 5 6),
     Call_Remove (ev 7 4), Call_RemoveNext]"

lemma schedulers_same_results_witness:
  "\<exists>out p c. run_calls pq_ops some_calls [] = Some (out, p) \<and>
    run_calls calendar_ops some_calls (Some (CalendarScheduler_init True)) = Some (out, Some c)"
proof -
  have "ev 7 4 \<noteq> ev 5 6" by (simp add: ev_def)
  then have "calls_ok ts_below_max 0 [] some_calls"
    by (simp add: some_calls_def ts_below_max_def EventKey_less_ord)
  from schedulers_same_results [OF this, of True] show ?thesis by blast
qed

subsection \<open>The limits of the calendar queue\<close>

text \<open>An equation for evaluation, without local definitions around the recursive call.\<close>

lemma bucket_scan_code [code]:
  "bucket_scan q i bucketTop minKey minBucket =
     (if m_buckets q ! i \<noteq> [] \<and> m_ts (key (NextEvent (m_reverse q) (m_buckets q ! i))) < bucketTop
      then Some (Inl (i, bucketTop, NextEvent (m_reverse q) (m_buckets q ! i)))
      else if (i + 1) mod m_nBuckets q = m_lastBucket q
      then Some (Inr (if m_buckets q ! i \<noteq> [] \<and> EventKey_less (key (NextEvent (m_reverse q) (m_buckets q ! i))) minKey
                      then Some (i, NextEvent (m_reverse q) (m_buckets q ! i)) else minBucket))
      else bucket_scan q ((i + 1) mod m_nBuckets q) (bucketTop + m_width q)
        (if m_buckets q ! i \<noteq> [] \<and> EventKey_less (key (NextEvent (m_reverse q) (m_buckets q ! i))) minKey
         then key (NextEvent (m_reverse q) (m_buckets q ! i)) else minKey)
        (if m_buckets q ! i \<noteq> [] \<and> EventKey_less (key (NextEvent (m_reverse q) (m_buckets q ! i))) minKey
         then Some (i, NextEvent (m_reverse q) (m_buckets q ! i)) else minBucket))"
  by (subst bucket_scan.simps) (simp add: Let_def)

definition late_calls :: "sched_call list" where
  "late_calls = [Call_Insert (ev 9 7), Call_Insert (ev 5 4), Call_RemoveNext, Call_Insert (ev 2 5),
     Call_Insert (ev 3 6), Call_RemoveNext, Call_RemoveNext]"

text \<open>The calendar queue that holds one event, at the largest time stamp.\<close>

definition max_queue :: calendar_queue where
  "max_queue = \<lparr>m_buckets = [[], [ev (- 1) 4]], m_width = 1, m_lastBucket = 0, m_bucketTop = 1, m_lastPrio = 0,
     m_qSize = 1, m_reverse = False\<rparr>"

lemma replicate_two: "replicate 2 x = [x, x]"
  by (simp add: numeral_2_eq_2)

lemma Insert_at_max: "Calendar_Insert (ev (- 1) 4) (CalendarScheduler_init False) = Some max_queue"
proof -
  have init: "CalendarScheduler_init False = \<lparr>m_buckets = [[], []], m_width = 1, m_lastBucket = 0, m_bucketTop = 1,
      m_lastPrio = 0, m_qSize = 0, m_reverse = False\<rparr>" (is "_ = ?i")
    by (simp add: CalendarScheduler_init_def Calendar_Init_def replicate_two)
  have "unat (- 1 :: uint64) mod Suc (Suc 0) = 1"
    by (simp add: unsigned_minus_1_eq_mask mask_eq_exp_minus_1 numeral_2_eq_2 [symmetric])
  then have "Hash ?i (- 1) = 1" by (simp add: Hash_def)
  then show ?thesis
    unfolding init by (simp add: Calendar_Insert_def DoInsert_def ResizeUp_def max_queue_def Let_def)
qed

lemma at_max: "Calendar_PeekNext max_queue = Some (ev (- 1) 4)" "Calendar_RemoveNext max_queue = None"
  by (simp_all add: Calendar_PeekNext_def Calendar_RemoveNext_def DoRemoveNext_def Calendar_IsEmpty_def bucket_scan_code
      max_queue_def NextEvent_def EventKey_less_ord ord_key_def)


end
