(* ===== verification/Cho_Types.thy ===== *)
theory Cho_Types
  imports Map_Scheduler Simulator
begin

text \<open>
  The data of the multi-UE conditional-handover simulation
  (\<open>src/scratch/MultiUE-CHO-SNR-TDCHO/SNR-CHO-Multi-TDCHO.cc\<close>): the structs and enums of
  the file as records and datatypes, in its order, the events it puts into the simulator, and the
  global variables, which extend the simulator's state. Field names that two structs share carry a
  prefix. \<open>double\<close> is \<^typ>\<open>real\<close>. A log file is the list of rows written to it, a row the
  list of its comma-separated columns (\<open>Txt\<close> is a column put together from several pieces);
  number formatting is not modelled, nor is what goes to \<open>std::cout\<close>.
\<close>

subsection \<open>Trajectories and measurements\<close>

text \<open>Two members of \<open>TrajectoryPoint\<close>, its elevation and CSV distance, are never
  assigned or read and are left out.\<close>

record TrajectoryPoint =
  tp_time :: real
  x_ecef :: real
  y_ecef :: real
  z_ecef :: real
  lat_deg :: real
  lon_deg :: real
  alt_m :: real

record SatelliteState =
  sat_name :: string
  trajectory :: "TrajectoryPoint list"

record UeSatMetrics =
  met_elevation :: real
  met_distance :: real
  dopplerShift :: real
  snrDb :: real

record MeasResultCell =
  mr_cellId :: cell_id
  rsrp :: real
  rsrq :: real
  sinr :: real
  mr_distance :: real
  mr_elevation :: real
  mr_dopplerShift :: real
  measurementTime :: real

record MeasurementReport =
  reportTime :: real
  servingCell :: MeasResultCell
  neighborCells :: "MeasResultCell list"
  mr_eventType :: string
  triggerReason :: string
  servingCellBelowThreshold :: bool
  betterNeighborAvailable :: bool

record UeMeasurementConfig =
  measurementPeriod :: real
  mc_timeToTrigger :: real
  mc_a3Offset :: real
  hysteresis :: real
  mc_maxDistanceThreshold :: real
  mc_minElevationThreshold :: real
  sinrThreshold :: real

record UeMeasurementState =
  servingCellId :: cell_id
  ms_lastMeasurementTime :: real
  triggerActive :: bool
  triggerStartTime :: real
  candidateTargetCell :: cell_id
  lastMeasurements :: "MeasResultCell smap"
  reportsSent :: int
  ms_lastReportTime :: real

subsection \<open>Conditional handover\<close>

record ChoExecutionCondition =
  ce_eventType :: string
  ce_a3Offset :: real
  a3Hysteresis :: real
  ce_maxDistanceThreshold :: real
  ce_minElevationThreshold :: real
  minSinrThreshold :: real
  ce_timeToTrigger :: real

text \<open>The last three members are never assigned: \<^const>\<open>None\<close> is an indeterminate value.\<close>

record ChoConfiguration =
  cc_targetCellId :: cell_id
  configurationTime :: real
  isValid :: bool
  expiryTime :: real
  executionCondition :: "ChoExecutionCondition option"
  conditionMet :: "bool option"
  conditionMetTime :: "real option"

datatype ChoPhase = CHO_IDLE | CHO_MEAS_REPORT_UPLINK | CHO_GNB_CHO_DECISION | CHO_XN_REQUEST
  | CHO_XN_RESPONSE | CHO_RRC_RECONFIG_DOWNLINK | CHO_CONFIG_STORED | CHO_UE_EVALUATING
  | CHO_UE_EXECUTING | CHO_XN_SUCCESS | CHO_XN_CANCEL

record UeChoProcedureState =
  phase :: ChoPhase
  sourceCell :: cell_id
  targetCell :: cell_id
  procedureStartTime :: real
  phaseStartTime :: real
  servingSnrAtReport :: real
  targetSnrAtReport :: real
  configReceivedTime :: real
  configExpiryTime :: real
  executionConditionMetTime :: real
  executionStartTime :: real
  servingSnrAtExecution :: real
  targetSnrAtExecution :: real
  executionTttActive :: bool
  executionTttStartTime :: real
  executionTimeToTrigger :: real
  measReportUplinkDelay :: real
  reconfigDownlinkDelay :: real
  failed :: bool
  failureReason :: string

record UeChoConfigState =
  choConfigs :: "ChoConfiguration smap"
  executionPending :: bool
  executionTargetCell :: cell_id
  executionTriggerTime :: real
  choConfigsReceived :: int
  choExecutionsTriggered :: int
  choConfigsExpired :: int

datatype UeRrcState = UE_CONNECTED | UE_HO_PREPARING | UE_HO_EXECUTING | UE_HO_COMPLETING

record UeContext =
  servingGnb :: cell_id
  ctx_targetGnb :: cell_id
  rrcState :: UeRrcState
  ctx_lastMeasurementTime :: real
  lastHandoverTime :: real
  mobilityRestricted :: bool

datatype HandoverPhase = PHASE_IDLE | PHASE_PREPARATION | PHASE_EXECUTION | PHASE_COMPLETION

record HandoverState =
  currentPhase :: HandoverPhase
  hs_sourceGnb :: cell_id
  hs_targetGnb :: cell_id
  hs_startTime :: real
  hs_phaseStartTime :: real
  rachStartTime :: real
  lostPackets :: int
  interruptionActive :: bool

record HoContext =
  preServingSnr :: real
  preNeighborSnr :: real
  decisionTime :: real
  valid :: bool
  sourceCellId :: cell_id
  hc_targetCellId :: cell_id
  triggerType :: string

record PendingPredictionEval =
  pe_ueId :: int
  pe_servingCell :: cell_id
  pe_neighborCell :: cell_id
  pe_decisionTime :: real
  pe_evalTime :: real

record PendingMeasurementValidation =
  pv_recordTime :: real
  pv_ueId :: nat
  pv_cellId :: cell_id
  pv_distanceTrend :: real
  pv_currentSinr :: real
  pv_verificationTime :: real

record PendingServingSnrFollowup =
  pf_recordTime :: real
  pf_ueId :: nat
  pf_servingCellId :: cell_id
  pf_servingSnrTrend :: real
  pf_servingDistanceTrend :: real
  pf_currentSinr :: real
  horizonSec :: real
  pf_verificationTime :: real

record CandidateRecord =
  cr_cellId :: cell_id
  cr_distanceTrend :: real
  cr_sinr :: real
  penalty :: real
  evalMetric :: real

record ChoNtnStatistics =
  totalReports :: uint32
  configsSent :: uint32
  configsReceived :: uint32
  executionsTriggered :: uint32
  successfulHandovers :: uint32
  failedAtExecution :: uint32
  configsExpired :: uint32
  totalProcedureDelay :: real
  avgProcedureDelay :: real
  totalExecutionDelay :: real
  avgExecutionDelay :: real
  st_lastReportTime :: real

subsection \<open>One UE\<close>

text \<open>
  The state of the random engine is a number; the error models and the channel are what the code
  sets on them, \<^const>\<open>None\<close> for a null pointer.
\<close>

record UeInfo =
  simId :: int
  groupName :: string
  groupId :: string
  numUsers :: int
  lat :: real
  lon :: real
  scenario :: string
  ecefX :: real
  ecefY :: real
  ecefZ :: real
  ue_context :: UeContext
  hoState :: HandoverState
  measConfig :: UeMeasurementConfig
  measState :: UeMeasurementState
  choProcState :: UeChoProcedureState
  choConfigState :: UeChoConfigState
  hoContext :: HoContext
  ueChoStats :: ChoNtnStatistics
  hoCount :: int
  hoFail :: int
  ulErrorRate :: "real option"
  dlErrorRate :: "real option"
  p2pDelay :: "int64 option"
  channelCache :: "(real \<times> UeSatMetrics) smap"
  snrHistory :: "(real \<times> real) list smap"
  shadowFadingCache :: "real smap"
  losStateCache :: "bool smap"
  lastEvalElev :: "real smap"
  rng :: nat

subsection \<open>Constants of a run\<close>

record ChoNtnConfig =
  configValidityPeriod :: real
  executionEvaluationPeriod :: real
  cfg_executionTimeToTrigger :: real
  minViableSinr :: real
  maxViableDistance :: real

definition g_choNtnConfig_default :: ChoNtnConfig where
  "g_choNtnConfig_default = \<lparr>configValidityPeriod = 60, executionEvaluationPeriod = 1 / 2,
     cfg_executionTimeToTrigger = 1, minViableSinr = 0, maxViableDistance = 2500\<rparr>"

text \<open>
  The globals that are set before the run and only read in it (\<open>g_...\<close>, with the values of
  the file and of \<open>main\<close> as defaults below), and what the code takes from the standard library
  beyond real arithmetic: the first draw of a fresh standard normal distribution object, two draws
  from one such object, a uniform draw from [0, 1), each with the engine's next state,
  \<open>erfc\<close> and \<open>std::to_string\<close>.
\<close>

record params =
  g_choNtnConfig :: ChoNtnConfig
  g_reportingOffset :: real
  g_minSNR :: real
  g_handoverHysteresis :: real
  g_timeToTrigger :: real
  g_maxDistance :: real
  g_choExecutionOffset :: real
  g_measurementPeriod :: real
  g_trendWindowSize :: int
  g_trendHandoverMargin :: real
  g_predictionEvalDelay :: real
  g_servingTrendThreshold :: real
  g_frequency :: real
  g_txPower :: real
  g_noiseFigure :: real
  g_bandwidth :: real
  g_fecCodingGain :: real
  g_packetSize :: uint32
  g_txAntennaGain :: real
  g_rxGain :: real
  g_randomSeed :: nat
  stdNormal :: "nat \<Rightarrow> real \<times> nat"
  normalPair :: "nat \<Rightarrow> (real \<times> real) \<times> nat"
  uniformDist :: "nat \<Rightarrow> real \<times> nat"
  m_erfc :: "real \<Rightarrow> real"
  m_to_string :: "real \<Rightarrow> string"

definition default_params :: "(nat \<Rightarrow> real \<times> nat) \<Rightarrow> (nat \<Rightarrow> (real \<times> real) \<times> nat) \<Rightarrow>
    (nat \<Rightarrow> real \<times> nat) \<Rightarrow> (real \<Rightarrow> real) \<Rightarrow> (real \<Rightarrow> string) \<Rightarrow> params" where
  "default_params n n2 u e ts =
     \<lparr>g_choNtnConfig = g_choNtnConfig_default, g_reportingOffset = 1, g_minSNR = 0,
      g_handoverHysteresis = 3, g_timeToTrigger = 1, g_maxDistance = 1500,
      g_choExecutionOffset = 3, g_measurementPeriod = 1, g_trendWindowSize = 5,
      g_trendHandoverMargin = 2, g_predictionEvalDelay = 5, g_servingTrendThreshold = 3 / 2,
      g_frequency = 20 * 10 ^ 9, g_txPower = 39 / 2, g_noiseFigure = 6 / 5,
      g_bandwidth = 250 * 10 ^ 6, g_fecCodingGain = 1, g_packetSize = 1250,
      g_txAntennaGain = 61 / 2, g_rxGain = 397 / 10, g_randomSeed = 45,
      stdNormal = n, normalPair = n2, uniformDist = u, m_erfc = e, m_to_string = ts\<rparr>"

definition DELAY_RRC_PROC :: real where "DELAY_RRC_PROC = 10 / 1000"
definition DELAY_BEAM_SWITCH :: real where "DELAY_BEAM_SWITCH = 5 / 1000"
definition SPEED_OF_LIGHT :: real where "SPEED_OF_LIGHT = 299792458"

subsection \<open>Events and global state\<close>

datatype cho_event =
    CHO_Phase1 nat cell_id cell_id
  | CHO_Phase2 nat cell_id cell_id
  | CHO_Phase3 nat cell_id cell_id
  | CHO_Phase4 nat cell_id cell_id
  | CHO_Phase5 nat cell_id cell_id
  | CHO_Phase7 nat cell_id cell_id
  | EvalPrediction PendingPredictionEval
  | HandoverTick
  | LinkQualityPrint string

datatype cell = Num real | Whole int | Str string | Txt "cell list"

type_synonym row = "cell list"
type_synonym satellites = "SatelliteState smap"

record cho_world = "(map_queue, cho_event) simulator" +
  g_ues :: "UeInfo list"
  g_satellites :: satellites
  g_choNtnStats :: ChoNtnStatistics
  g_handoverCount :: int
  g_pendingPredictionEvals :: "PendingPredictionEval list"
  g_pendingMeasurementValidations :: "PendingMeasurementValidation list"
  g_pendingServingSnrFollowups :: "PendingServingSnrFollowup list"
  g_handoverLog :: "row list"
  g_xnSignalingLog :: "row list"
  g_channelLog :: "row list"
  g_snrLog :: "row list"
  g_choLog :: "row list"
  g_trendValidationLog :: "row list"
  g_candidateSelectionLog :: "row list"
  g_servingTriggerLog :: "row list"
  g_servingSnrFollowupLog :: "row list"
  g_visualSnapshotLog :: "row list"

definition ChoNtnStatistics_zero :: ChoNtnStatistics where
  "ChoNtnStatistics_zero = \<lparr>totalReports = 0, configsSent = 0, configsReceived = 0,
     executionsTriggered = 0, successfulHandovers = 0, failedAtExecution = 0, configsExpired = 0,
     totalProcedureDelay = 0, avgProcedureDelay = 0, totalExecutionDelay = 0,
     avgExecutionDelay = 0, st_lastReportTime = -999\<rparr>"

definition HoContext_empty :: HoContext where
  "HoContext_empty = \<lparr>preServingSnr = -999, preNeighborSnr = -999, decisionTime = -1,
     valid = False, sourceCellId = [], hc_targetCellId = [], triggerType = []\<rparr>"

definition ResetHoContext :: "UeInfo \<Rightarrow> UeInfo" where
  "ResetHoContext ue = ue\<lparr>hoContext := (hoContext ue)\<lparr>preServingSnr := -999, preNeighborSnr := -999,
     decisionTime := -1, valid := False, sourceCellId := [], hc_targetCellId := [],
     triggerType := []\<rparr>\<rparr>"

definition GetCachedSnr :: "UeInfo \<Rightarrow> cell_id \<Rightarrow> real" where
  "GetCachedSnr ue cellId =
     (case map_of (channelCache ue) cellId of None \<Rightarrow> -999 | Some (_, m) \<Rightarrow> snrDb m)"

subsection \<open>Access to the state\<close>

definition the_ue :: "nat \<Rightarrow> cho_world \<Rightarrow> UeInfo" where
  "the_ue i w = g_ues w ! i"

definition upd_ue :: "nat \<Rightarrow> (UeInfo \<Rightarrow> UeInfo) \<Rightarrow> cho_world \<Rightarrow> cho_world" where
  "upd_ue i f w = w\<lparr>g_ues := (g_ues w)[i := f (g_ues w ! i)]\<rparr>"

definition upd_proc :: "(UeChoProcedureState \<Rightarrow> UeChoProcedureState) \<Rightarrow> UeInfo \<Rightarrow> UeInfo" where
  "upd_proc f ue = ue\<lparr>choProcState := f (choProcState ue)\<rparr>"

definition upd_meas :: "(UeMeasurementState \<Rightarrow> UeMeasurementState) \<Rightarrow> UeInfo \<Rightarrow> UeInfo" where
  "upd_meas f ue = ue\<lparr>measState := f (measState ue)\<rparr>"

definition upd_cfg :: "(UeChoConfigState \<Rightarrow> UeChoConfigState) \<Rightarrow> UeInfo \<Rightarrow> UeInfo" where
  "upd_cfg f ue = ue\<lparr>choConfigState := f (choConfigState ue)\<rparr>"

definition upd_stats :: "(ChoNtnStatistics \<Rightarrow> ChoNtnStatistics) \<Rightarrow> UeInfo \<Rightarrow> UeInfo" where
  "upd_stats f ue = ue\<lparr>ueChoStats := f (ueChoStats ue)\<rparr>"

definition upd_gstats :: "(ChoNtnStatistics \<Rightarrow> ChoNtnStatistics) \<Rightarrow> cho_world \<Rightarrow> cho_world" where
  "upd_gstats f w = w\<lparr>g_choNtnStats := f (g_choNtnStats w)\<rparr>"

definition cho_log :: "row \<Rightarrow> cho_world \<Rightarrow> cho_world" where
  "cho_log r w = w\<lparr>g_choLog := g_choLog w @ [r]\<rparr>"

definition xn_log :: "row \<Rightarrow> cho_world \<Rightarrow> cho_world" where
  "xn_log r w = w\<lparr>g_xnSignalingLog := g_xnSignalingLog w @ [r]\<rparr>"

definition ho_log :: "row \<Rightarrow> cho_world \<Rightarrow> cho_world" where
  "ho_log r w = w\<lparr>g_handoverLog := g_handoverLog w @ [r]\<rparr>"

text \<open>\<open>Simulator::Now ().GetSeconds ()\<close> and \<open>Simulator::Schedule (Seconds (d), ...)\<close>
  on the default scheduler.\<close>

definition now_s :: "cho_world \<Rightarrow> real" where
  "now_s w = GetSeconds (DSI_Now w)"

definition schedule_s :: "real \<Rightarrow> cho_event \<Rightarrow> cho_world \<Rightarrow> cho_world" where
  "schedule_s d e w = Simulator_Schedule map_ops (Seconds d) e w"

end
