(* ===== verification/Cho_Geometry.thy ===== *)
theory Cho_Geometry
  imports Cho_Types
begin

text \<open>
  Orbits and tables of the handover simulation: positions on a sampled trajectory by linear
  interpolation, the delays of inter-satellite links, the elevation-indexed tables of 3GPP TR
  38.811 and their interpolation, and the choice of a table by scenario name.
\<close>

subsection \<open>Positions\<close>

text \<open>The index loop \<open>while (i < size - 1 && trajectory[i+1].time < simTime) i++\<close>.\<close>

function bracket_from :: "TrajectoryPoint list \<Rightarrow> real \<Rightarrow> nat \<Rightarrow> nat" where
  "bracket_from tr simTime i =
     (if i < length tr - 1 \<and> tp_time (tr ! (i + 1)) < simTime then bracket_from tr simTime (i + 1)
      else i)"
  by pat_completeness auto
termination
  by (relation "measure (\<lambda>(tr, t, i). length tr - i)") auto

declare bracket_from.simps [simp del]

definition GeographicToECEF :: "real \<Rightarrow> real \<Rightarrow> real \<Rightarrow> real \<times> real \<times> real" where
  "GeographicToECEF latD lonD altM =
     (let a = 6378137.0; e2 = 0.00669437999014;
          lat_rad = latD * pi / 180; lon_rad = lonD * pi / 180;
          N = a / sqrt (1 - e2 * sin lat_rad * sin lat_rad)
      in ((N + altM) * cos lat_rad * cos lon_rad,
          (N + altM) * cos lat_rad * sin lon_rad,
          (N * (1 - e2) + altM) * sin lat_rad))"

text \<open>\<open>InterpolatePosition\<close>: x, y, z, elevation, distance; the last two are always 0.\<close>

definition InterpolatePosition :: "satellites \<Rightarrow> string \<Rightarrow> real \<Rightarrow>
    real \<times> real \<times> real \<times> real \<times> real" where
  "InterpolatePosition sats satName simTime =
     (case map_of sats satName of
        None \<Rightarrow> (0, 0, 0, 0, 0)
      | Some sat \<Rightarrow>
          (let tr = trajectory sat in
           if tr = [] then (0, 0, 0, 0, 0)
           else if simTime \<le> tp_time (hd tr)
           then (x_ecef (hd tr), y_ecef (hd tr), z_ecef (hd tr), 0, 0)
           else if simTime \<ge> tp_time (last tr)
           then (x_ecef (last tr), y_ecef (last tr), z_ecef (last tr), 0, 0)
           else let i = bracket_from tr simTime 0;
                    p1 = tr ! i; p2 = tr ! (i + 1);
                    alpha = (simTime - tp_time p1) / (tp_time p2 - tp_time p1)
                in (x_ecef p1 + alpha * (x_ecef p2 - x_ecef p1),
                    y_ecef p1 + alpha * (y_ecef p2 - y_ecef p1),
                    z_ecef p1 + alpha * (z_ecef p2 - z_ecef p1), 0, 0)))"

text \<open>\<open>GetIslDelay\<close> and \<open>GetUuDelay\<close>: one-way propagation delays.\<close>

definition GetIslDelay :: "satellites \<Rightarrow> string \<Rightarrow> string \<Rightarrow> real \<Rightarrow> real" where
  "GetIslDelay sats sat1 sat2 simTime =
     (if sat1 = sat2 then 0
      else let (x1, y1, z1, el1, d1) = InterpolatePosition sats sat1 simTime;
               (x2, y2, z2, el2, d2) = InterpolatePosition sats sat2 simTime;
               dx = x1 - x2; dy = y1 - y2; dz = z1 - z2;
               dist = sqrt (dx * dx + dy * dy + dz * dz)
           in dist / SPEED_OF_LIGHT)"

definition GetUuDelay :: "satellites \<Rightarrow> string \<Rightarrow> real \<Rightarrow> real" where
  "GetUuDelay sats satellite simTime =
     (let (x, y, z, el, dist) = InterpolatePosition sats satellite simTime
      in dist / SPEED_OF_LIGHT)"

text \<open>The two loops of \<open>NormalizeLongitude\<close>.\<close>

partial_function (option) lon_down :: "real \<Rightarrow> real option" where
  "lon_down lonDeg = (if lonDeg > 180 then lon_down (lonDeg - 360) else Some lonDeg)"

partial_function (option) lon_up :: "real \<Rightarrow> real option" where
  "lon_up lonDeg = (if lonDeg < -180 then lon_up (lonDeg + 360) else Some lonDeg)"

definition NormalizeLongitude :: "real \<Rightarrow> real option" where
  "NormalizeLongitude lonDeg = (case lon_down lonDeg of None \<Rightarrow> None | Some l \<Rightarrow> lon_up l)"

definition InterpolateGeoPosition :: "satellites \<Rightarrow> string \<Rightarrow> real \<Rightarrow> (real \<times> real \<times> real) option" where
  "InterpolateGeoPosition sats satName simTime =
     (case map_of sats satName of
        None \<Rightarrow> Some (0, 0, 0)
      | Some sat \<Rightarrow>
          (let tr = trajectory sat in
           if tr = [] then Some (0, 0, 0)
           else if simTime \<le> tp_time (hd tr)
           then Some (lat_deg (hd tr), lon_deg (hd tr), alt_m (hd tr) / 1000)
           else if simTime \<ge> tp_time (last tr)
           then Some (lat_deg (last tr), lon_deg (last tr), alt_m (last tr) / 1000)
           else let i = bracket_from tr simTime 0;
                    p1 = tr ! i; p2 = tr ! (i + 1);
                    alpha = (simTime - tp_time p1) / (tp_time p2 - tp_time p1);
                    latDeg = lat_deg p1 + alpha * (lat_deg p2 - lat_deg p1);
                    (lon1, lon2) =
                      (if \<bar>lon_deg p2 - lon_deg p1\<bar> > 180
                       then (if lon_deg p2 > lon_deg p1 then (lon_deg p1 + 360, lon_deg p2)
                             else (lon_deg p1, lon_deg p2 + 360))
                       else (lon_deg p1, lon_deg p2));
                    altKm = (alt_m p1 + alpha * (alt_m p2 - alt_m p1)) / 1000
                in (case NormalizeLongitude (lon1 + alpha * (lon2 - lon1)) of
                      None \<Rightarrow> None
                    | Some lonDeg \<Rightarrow> Some (latDeg, lonDeg, altKm))))"

text \<open>Radial velocity, Doppler shift in Hz and in ppm, as seen from the ground station.\<close>

definition CalculateDoppler :: "satellites \<Rightarrow> real \<times> real \<times> real \<Rightarrow> string \<Rightarrow> real \<Rightarrow> real \<Rightarrow>
    real \<times> real \<times> real" where
  "CalculateDoppler sats ground satName simTime carrier_freq_hz =
     (let (g_groundX, g_groundY, g_groundZ) = ground;
          (x1, y1, z1, elev1, dist1) = InterpolatePosition sats satName simTime;
          dt = 1;
          (x2, y2, z2, elev2, dist2) = InterpolatePosition sats satName (simTime + dt);
          vx = (x2 - x1) / dt; vy = (y2 - y1) / dt; vz = (z2 - z1) / dt;
          dx = x1 - g_groundX; dy = y1 - g_groundY; dz = z1 - g_groundZ;
          distance = sqrt (dx * dx + dy * dy + dz * dz);
          los_x = dx / distance; los_y = dy / distance; los_z = dz / distance;
          radial_velocity = - (vx * los_x + vy * los_y + vz * los_z)
      in (radial_velocity, carrier_freq_hz * radial_velocity / SPEED_OF_LIGHT,
          (radial_velocity / SPEED_OF_LIGHT) * 10 ^ 6))"

subsection \<open>Elevation tables\<close>

type_synonym elev_table = "(int \<times> real) list"

text \<open>\<^const>\<open>None\<close> is the \<open>std::out_of_range\<close> of \<open>table.at\<close>.\<close>

definition Get3GPPParameter :: "elev_table \<Rightarrow> real \<Rightarrow> real option" where
  "Get3GPPParameter table elevation =
     (let elev_low = max 10 (min 90 (\<lfloor>elevation / 10\<rfloor> * 10));
          elev_high = max 10 (min 90 (\<lceil>elevation / 10\<rceil> * 10))
      in if elev_low = elev_high \<or> elevation \<le> 10 then map_of table elev_low
         else (case (map_of table elev_low, map_of table elev_high) of
                 (Some val_low, Some val_high) \<Rightarrow>
                   Some (val_low + (elevation - of_int elev_low) / of_int (elev_high - elev_low) *
                           (val_high - val_low))
               | _ \<Rightarrow> None))"

definition g_shadowFadingStd_Rural :: elev_table where
  "g_shadowFadingStd_Rural = [(10, 1.9), (20, 1.6), (30, 1.9), (40, 2.3), (50, 2.7), (60, 3.1),
     (70, 3.0), (80, 3.6), (90, 0.4)]"

definition g_shadowFadingStd_Suburban :: elev_table where
  "g_shadowFadingStd_Suburban = [(10, 1.9), (20, 1.6), (30, 1.9), (40, 2.3), (50, 2.7),
     (60, 3.1), (70, 3.0), (80, 3.6), (90, 0.4)]"

definition g_shadowFadingStd_Urban :: elev_table where
  "g_shadowFadingStd_Urban = [(10, 4.0), (20, 4.0), (30, 4.0), (40, 4.0), (50, 4.0), (60, 4.0),
     (70, 4.0), (80, 4.0), (90, 4.0)]"

definition g_shadowFadingStd_DenseUrban :: elev_table where
  "g_shadowFadingStd_DenseUrban = [(10, 2.9), (20, 2.4), (30, 2.7), (40, 2.4), (50, 2.4),
     (60, 2.7), (70, 2.6), (80, 2.8), (90, 0.6)]"

definition g_troposphericScintillation :: elev_table where
  "g_troposphericScintillation = [(10, 1.08), (20, 0.48), (30, 0.30), (40, 0.22), (50, 0.17),
     (60, 0.13), (70, 0.12), (80, 0.12), (90, 0.12)]"

definition g_clutterLoss_DenseUrban_NLOS :: elev_table where
  "g_clutterLoss_DenseUrban_NLOS = [(10, 44.3), (20, 39.9), (30, 37.5), (40, 35.8), (50, 34.6),
     (60, 33.8), (70, 33.3), (80, 33.0), (90, 32.9)]"

definition g_clutterLoss_Urban_NLOS :: elev_table where
  "g_clutterLoss_Urban_NLOS = [(10, 44.3), (20, 39.9), (30, 37.5), (40, 35.8), (50, 34.6),
     (60, 33.8), (70, 33.3), (80, 33.0), (90, 32.9)]"

definition g_clutterLoss_Rural_NLOS :: elev_table where
  "g_clutterLoss_Rural_NLOS = [(10, 29.5), (20, 24.6), (30, 21.9), (40, 20.0), (50, 18.7),
     (60, 17.8), (70, 17.2), (80, 16.9), (90, 16.8)]"

definition g_clutterLoss_Suburban_NLOS :: elev_table where
  "g_clutterLoss_Suburban_NLOS = [(10, 29.5), (20, 24.6), (30, 21.9), (40, 20.0), (50, 18.7),
     (60, 17.8), (70, 17.2), (80, 16.9), (90, 16.8)]"

definition g_shadowFadingStd_DenseUrban_NLOS :: elev_table where
  "g_shadowFadingStd_DenseUrban_NLOS = [(10, 17.1), (20, 17.1), (30, 15.6), (40, 14.6),
     (50, 14.2), (60, 12.6), (70, 12.1), (80, 12.3), (90, 12.3)]"

definition g_shadowFadingStd_Urban_NLOS :: elev_table where
  "g_shadowFadingStd_Urban_NLOS = [(10, 6.0), (20, 6.0), (30, 6.0), (40, 6.0), (50, 6.0),
     (60, 6.0), (70, 6.0), (80, 6.0), (90, 6.0)]"

definition g_shadowFadingStd_Rural_NLOS :: elev_table where
  "g_shadowFadingStd_Rural_NLOS = [(10, 10.7), (20, 10.0), (30, 11.2), (40, 11.6), (50, 11.8),
     (60, 10.8), (70, 10.8), (80, 10.8), (90, 10.8)]"

definition g_shadowFadingStd_Suburban_NLOS :: elev_table where
  "g_shadowFadingStd_Suburban_NLOS = [(10, 10.7), (20, 10.0), (30, 11.2), (40, 11.6), (50, 11.8),
     (60, 10.8), (70, 10.8), (80, 10.8), (90, 10.8)]"

definition g_ricianKDb_DenseUrban :: elev_table where
  "g_ricianKDb_DenseUrban = [(10, 6.1), (20, 13.7), (30, 12.9), (40, 10.3), (50, 9.2), (60, 8.4),
     (70, 8.0), (80, 7.4), (90, 7.6)]"

definition g_ricianKDb_Urban :: elev_table where
  "g_ricianKDb_Urban = [(10, 40.18), (20, 23.62), (30, 12.48), (40, 8.56), (50, 7.42),
     (60, 5.97), (70, 4.88), (80, 4.22), (90, 3.81)]"

definition g_ricianKDb_Suburban :: elev_table where
  "g_ricianKDb_Suburban = [(10, 8.9), (20, 14.0), (30, 11.3), (40, 9.0), (50, 7.5), (60, 6.6),
     (70, 5.9), (80, 5.5), (90, 5.4)]"

definition g_ricianKDb_Rural :: elev_table where
  "g_ricianKDb_Rural = [(10, 4.63), (20, 6.83), (30, 12.91), (40, 18.9), (50, 22.44),
     (60, 25.69), (70, 27.95), (80, 31.45), (90, 28.01)]"

subsection \<open>Scenario names\<close>

definition to_lower :: "char \<Rightarrow> char" where
  "to_lower c = (if CHR ''A'' \<le> c \<and> c \<le> CHR ''Z'' then char_of (of_char c + (32 :: nat)) else c)"

text \<open>\<open>s.find (pat) != npos\<close>.\<close>

fun str_contains :: "string \<Rightarrow> string \<Rightarrow> bool" where
  "str_contains [] pat = (pat = [])"
| "str_contains (c # s) pat = (take (length pat) (c # s) = pat \<or> str_contains s pat)"

definition scenario_select :: "string \<Rightarrow> 'a \<Rightarrow> 'a \<Rightarrow> 'a \<Rightarrow> 'a \<Rightarrow> 'a" where
  "scenario_select scen dense urban suburban rural =
     (let s = map to_lower scen in
      if str_contains s ''dense'' then dense
      else if str_contains s ''urban'' \<and> \<not> str_contains s ''suburban'' then urban
      else if str_contains s ''suburban'' then suburban
      else rural)"

definition GetShadowFadingTable :: "string \<Rightarrow> elev_table" where
  "GetShadowFadingTable s = scenario_select s g_shadowFadingStd_DenseUrban g_shadowFadingStd_Urban
     g_shadowFadingStd_Suburban g_shadowFadingStd_Rural"

definition GetShadowFadingTable_NLOS :: "string \<Rightarrow> elev_table" where
  "GetShadowFadingTable_NLOS s = scenario_select s g_shadowFadingStd_DenseUrban_NLOS
     g_shadowFadingStd_Urban_NLOS g_shadowFadingStd_Suburban_NLOS g_shadowFadingStd_Rural_NLOS"

definition GetClutterLossTable :: "string \<Rightarrow> elev_table" where
  "GetClutterLossTable s = scenario_select s g_clutterLoss_DenseUrban_NLOS
     g_clutterLoss_Urban_NLOS g_clutterLoss_Suburban_NLOS g_clutterLoss_Rural_NLOS"

definition GetRicianKFactorDb :: "string \<Rightarrow> real \<Rightarrow> real option" where
  "GetRicianKFactorDb s elevation = Get3GPPParameter
     (scenario_select s g_ricianKDb_DenseUrban g_ricianKDb_Urban g_ricianKDb_Suburban
       g_ricianKDb_Rural) elevation"

lemmas elev_table_defs =
  g_shadowFadingStd_Rural_def g_shadowFadingStd_Suburban_def g_shadowFadingStd_Urban_def g_shadowFadingStd_DenseUrban_def g_troposphericScintillation_def g_clutterLoss_DenseUrban_NLOS_def g_clutterLoss_Urban_NLOS_def g_clutterLoss_Rural_NLOS_def g_clutterLoss_Suburban_NLOS_def g_shadowFadingStd_DenseUrban_NLOS_def g_shadowFadingStd_Urban_NLOS_def g_shadowFadingStd_Rural_NLOS_def g_shadowFadingStd_Suburban_NLOS_def g_ricianKDb_DenseUrban_def g_ricianKDb_Urban_def g_ricianKDb_Suburban_def g_ricianKDb_Rural_def

subsection \<open>Interpolated positions\<close>

lemma bracket_from_bounds:
  assumes "i < length tr - 1" "tp_time (tr ! i) < t" "t \<le> tp_time (last tr)"
  shows "bracket_from tr t i < length tr - 1 \<and> i \<le> bracket_from tr t i \<and>
         tp_time (tr ! bracket_from tr t i) < t \<and> t \<le> tp_time (tr ! (bracket_from tr t i + 1))"
  using assms
proof (induction tr t i rule: bracket_from.induct)
  case (1 tr t i)
  have last: "last tr = tr ! (length tr - 1)" using "1.prems"(1) by (intro last_conv_nth) auto
  show ?case
  proof (cases "tp_time (tr ! (i + 1)) < t")
    case True
    have "i + 1 < length tr - 1"
    proof (rule ccontr)
      assume "\<not> i + 1 < length tr - 1"
      then have "i + 1 = length tr - 1" using "1.prems"(1) by linarith
      then show False using True "1.prems"(3) last by simp
    qed
    then show ?thesis
      using "1.IH" True "1.prems" bracket_from.simps [of tr t i] by auto
  next
    case False
    then show ?thesis using "1.prems" by (auto simp: bracket_from.simps [of tr t i])
  qed
qed

text \<open>Strictly inside a trajectory the position is a convex combination of two samples.\<close>

definition between :: "real \<Rightarrow> real \<Rightarrow> real \<Rightarrow> bool" where
  "between x a b \<longleftrightarrow> min a b \<le> x \<and> x \<le> max a b"

lemma convex_between:
  assumes "0 \<le> a" "a \<le> 1"
  shows "between (p + a * (q - p)) p q"
proof (cases "p \<le> q")
  case True
  have "a * (q - p) \<le> q - p" "0 \<le> a * (q - p)"
    using assms True by (simp_all add: mult_left_le_one_le)
  then show ?thesis using True unfolding between_def by linarith
next
  case False
  have "q - p \<le> a * (q - p)" "a * (q - p) \<le> 0"
    using mult_right_mono_neg [of a 1 "q - p"] assms False by (simp_all add: mult_le_0_iff)
  then show ?thesis using False unfolding between_def by linarith
qed

lemma InterpolatePosition_inside:
  assumes "map_of sats n = Some sat" "trajectory sat = tr" "tr \<noteq> []"
    and "tp_time (hd tr) < t" "t < tp_time (last tr)"
  obtains i a where "i + 1 < length tr" "0 < a" "a \<le> 1"
    "tp_time (tr ! i) < t" "t \<le> tp_time (tr ! (i + 1))"
    "InterpolatePosition sats n t =
       (x_ecef (tr ! i) + a * (x_ecef (tr ! (i + 1)) - x_ecef (tr ! i)),
        y_ecef (tr ! i) + a * (y_ecef (tr ! (i + 1)) - y_ecef (tr ! i)),
        z_ecef (tr ! i) + a * (z_ecef (tr ! (i + 1)) - z_ecef (tr ! i)), 0, 0)"
proof -
  define i where "i = bracket_from tr t 0"
  have "hd tr = tr ! 0" using assms(3) by (rule hd_conv_nth)
  moreover have "0 < length tr - 1"
    using assms(3-5) by (cases tr; cases "tl tr") auto
  ultimately have b: "i < length tr - 1" "tp_time (tr ! i) < t" "t \<le> tp_time (tr ! (i + 1))"
    using bracket_from_bounds [of 0 tr t] assms(4,5) by (simp_all add: i_def)
  show ?thesis
    by (rule that [of i "(t - tp_time (tr ! i)) / (tp_time (tr ! (i + 1)) - tp_time (tr ! i))"])
      (use assms b in \<open>auto simp: InterpolatePosition_def Let_def i_def\<close>)
qed

lemma GetIslDelay_nonneg: "0 \<le> GetIslDelay sats s1 s2 t"
  by (auto simp: GetIslDelay_def SPEED_OF_LIGHT_def Let_def split: prod.split)

lemma InterpolatePosition_no_distance:
  "InterpolatePosition sats n t = (x, y, z, el, d) \<Longrightarrow> el = 0 \<and> d = 0"
  by (auto simp: InterpolatePosition_def Let_def split: option.splits if_splits)

subsection \<open>Longitudes\<close>

lemma lon_down_result:
  assumes "x \<le> 180 + 360 * of_nat n"
  shows "\<exists>k. lon_down x = Some (x - 360 * of_nat k) \<and> x - 360 * of_nat k \<le> 180 \<and>
           (k = 0 \<or> -180 < x - 360 * of_nat k)"
  using assms
proof (induction n arbitrary: x)
  case 0
  then show ?case by (intro exI [of _ 0]) (simp add: lon_down.simps [of x])
next
  case (Suc n)
  show ?case
  proof (cases "x > 180")
    case False
    then show ?thesis by (intro exI [of _ 0]) (simp add: lon_down.simps [of x])
  next
    case True
    have "x - 360 \<le> 180 + 360 * of_nat n" using Suc.prems by (simp add: algebra_simps)
    from Suc.IH [OF this] obtain k where k: "lon_down (x - 360) = Some (x - 360 - 360 * of_nat k)"
        "x - 360 - 360 * of_nat k \<le> 180" "k = 0 \<or> -180 < x - 360 - 360 * of_nat k" by blast
    then show ?thesis
      using True by (intro exI [of _ "Suc k"]) (auto simp: lon_down.simps [of x] algebra_simps)
  qed
qed

lemma lon_up_result:
  assumes "- 180 - 360 * of_nat n \<le> x" "x \<le> 180"
  shows "\<exists>k. lon_up x = Some (x + 360 * of_nat k) \<and> -180 \<le> x + 360 * of_nat k \<and>
           x + 360 * of_nat k \<le> 180"
  using assms
proof (induction n arbitrary: x)
  case 0
  then show ?case by (intro exI [of _ 0]) (simp add: lon_up.simps [of x])
next
  case (Suc n)
  show ?case
  proof (cases "x < -180")
    case False
    then show ?thesis
      using Suc.prems by (intro exI [of _ 0]) (simp add: lon_up.simps [of x])
  next
    case True
    have "- 180 - 360 * of_nat n \<le> x + 360" "x + 360 \<le> 180"
      using Suc.prems True by (simp_all add: algebra_simps)
    from Suc.IH [OF this] obtain k where "lon_up (x + 360) = Some (x + 360 + 360 * of_nat k)"
        "-180 \<le> x + 360 + 360 * of_nat k" "x + 360 + 360 * of_nat k \<le> 180" by blast
    then show ?thesis
      using True by (intro exI [of _ "Suc k"]) (auto simp: lon_up.simps [of x] algebra_simps)
  qed
qed

lemma NormalizeLongitude_result:
  "\<exists>k::int. NormalizeLongitude x = Some (x + 360 * of_int k) \<and>
     -180 \<le> x + 360 * of_int k \<and> x + 360 * of_int k \<le> 180"
proof -
  obtain n :: nat where "(x - 180) / 360 \<le> of_nat n" using real_arch_simple by blast
  then have "x \<le> 180 + 360 * of_nat n" by (simp add: field_simps)
  from lon_down_result [OF this] obtain k where
    k: "lon_down x = Some (x - 360 * of_nat k)" "x - 360 * of_nat k \<le> 180" by blast
  obtain m :: nat where "(- 180 - (x - 360 * of_nat k)) / 360 \<le> of_nat m" using real_arch_simple by blast
  then have "- 180 - 360 * of_nat m \<le> x - 360 * of_nat k" by (simp add: field_simps)
  from lon_up_result [OF this k(2)] obtain j where
    "lon_up (x - 360 * of_nat k) = Some (x - 360 * of_nat k + 360 * of_nat j)"
    "-180 \<le> x - 360 * of_nat k + 360 * of_nat j" "x - 360 * of_nat k + 360 * of_nat j \<le> 180" by blast
  then show ?thesis
    using k(1) by (intro exI [of _ "int j - int k"])
      (simp add: NormalizeLongitude_def algebra_simps)
qed

subsection \<open>Table lookups\<close>

definition full_table :: "elev_table \<Rightarrow> bool" where
  "full_table t \<longleftrightarrow> map fst t = [10, 20, 30, 40, 50, 60, 70, 80, 90]"

lemma tables_full:
  "full_table g_troposphericScintillation"
  "full_table (GetShadowFadingTable s)" "full_table (GetShadowFadingTable_NLOS s)"
  "full_table (GetClutterLossTable s)"
  "full_table (scenario_select s g_ricianKDb_DenseUrban g_ricianKDb_Urban g_ricianKDb_Suburban
     g_ricianKDb_Rural)"
  by (auto simp: full_table_def elev_table_defs GetShadowFadingTable_def
      GetShadowFadingTable_NLOS_def GetClutterLossTable_def scenario_select_def Let_def)

lemma tens_between:
  fixes k :: int
  assumes "1 \<le> k" "k \<le> 9"
  shows "10 * k \<in> set [10, 20, 30, 40, 50, 60, 70, 80, 90]"
proof -
  have "k = 1 \<or> k = 2 \<or> k = 3 \<or> k = 4 \<or> k = 5 \<or> k = 6 \<or> k = 7 \<or> k = 8 \<or> k = 9"
    using assms by presburger
  then show ?thesis by auto
qed

lemma full_table_lookup:
  assumes "full_table t"
  obtains v where "map_of t (max 10 (min 90 (k * 10))) = Some v" "v \<in> snd ` set t"
proof -
  define m :: int where "m = max 1 (min 9 k)"
  have eq: "max 10 (min 90 (k * 10)) = 10 * m" by (auto simp: m_def max_def min_def)
  have "10 * m \<in> fst ` set t"
    using tens_between [of m] assms by (metis full_table_def list.set_map m_def max.cobounded1
        max_def min.cobounded1 one_le_numeral)
  then obtain v where "map_of t (10 * m) = Some v" by (metis map_of_eq_None_iff not_None_eq)
  then show ?thesis using that eq by (metis imageI map_of_SomeD snd_conv)
qed

lemma clamp_90:
  fixes k m :: int
  shows "max 10 (min 90 (k * 10)) = 90 \<Longrightarrow> k \<le> m \<Longrightarrow> max 10 (min 90 (m * 10)) = 90"
  by linarith

lemma Get3GPPParameter_in_range:
  assumes "full_table t"
  shows "\<exists>v. Get3GPPParameter t e = Some v \<and>
           (\<exists>a \<in> snd ` set t. \<exists>b \<in> snd ` set t. between v a b)"
proof -
  let ?lo = "max 10 (min 90 (\<lfloor>e / 10\<rfloor> * 10))" and ?hi = "max 10 (min 90 (\<lceil>e / 10\<rceil> * 10))"
  obtain a where a: "map_of t ?lo = Some a" "a \<in> snd ` set t" by (rule full_table_lookup [OF assms])
  obtain b where b: "map_of t ?hi = Some b" "b \<in> snd ` set t" by (rule full_table_lookup [OF assms])
  show ?thesis
  proof (cases "?lo = ?hi \<or> e \<le> 10")
    case True
    then show ?thesis using a by (force simp: Get3GPPParameter_def Let_def between_def)
  next
    case False
    have fc: "\<lfloor>e / 10\<rfloor> \<le> \<lceil>e / 10\<rceil>" by (rule floor_le_ceiling)
    then have lohi: "?lo \<le> ?hi" by (simp add: max_def min_def)
    have "\<lfloor>e / 10\<rfloor> \<ge> 1" using False by (simp add: le_floor_iff)
    then have "?lo = \<lfloor>e / 10\<rfloor> * 10 \<or> ?lo = 90" by (auto simp: max_def min_def)
    moreover have "?lo \<noteq> 90" using False clamp_90 [OF _ fc] by metis
    ultimately have lo: "of_int ?lo \<le> e"
      using of_int_floor_le [of "e / 10"] by (auto simp: field_simps)
    have "\<lceil>e / 10\<rceil> * 10 \<le> 90" if "\<lfloor>e / 10\<rfloor> < 9" using that ceiling_diff_floor_le_1 [of "e / 10"] by linarith
    moreover have "\<lfloor>e / 10\<rfloor> < 9"
      using \<open>?lo \<noteq> 90\<close> \<open>?lo = \<lfloor>e / 10\<rfloor> * 10 \<or> ?lo = 90\<close> by (auto simp: max_def min_def split: if_splits)
    ultimately have "?hi = \<lceil>e / 10\<rceil> * 10"
      using \<open>\<lfloor>e / 10\<rfloor> \<ge> 1\<close> fc by linarith
    then have hi: "e \<le> of_int ?hi" using le_of_int_ceiling [of "e / 10"] by linarith
    define q where "q = (e - of_int ?lo) / of_int (?hi - ?lo)"
    have "0 < real_of_int (?hi - ?lo)" using False lohi by linarith
    then have "0 \<le> q" "q \<le> 1" using lo hi by (simp_all add: q_def)
    then have "between (a + q * (b - a)) a b" by (rule convex_between)
    moreover have "Get3GPPParameter t e = Some (a + q * (b - a))"
      using False a(1) b(1) unfolding Get3GPPParameter_def Let_def q_def by (simp only: if_False simp_thms option.case prod.case)
    ultimately show ?thesis using a(2) b(2) by blast
  qed
qed

end
