(* ===== verification/Cho_Channel.thy ===== *)
theory Cho_Channel
  imports Cho_Geometry
begin

text \<open>
  The radio link of one UE to one satellite: the SNR history, the channel model with its
  per-satellite caches, the trends read from history and cache, and a measurement of a cell.
  Each function takes the UE it works on, the code's \<open>g_ues[ueId]\<close>, and returns it updated.
\<close>

subsection \<open>SNR history\<close>

text \<open>\<open>UpdateSnrHistory\<close>: \<open>history_add\<close> is its effect on the deque, with \<open>N\<close> for
  \<open>2 * g_trendWindowSize\<close>; a sample older than the last returns before the trimming.\<close>

definition history_add :: "nat \<Rightarrow> real \<Rightarrow> real \<Rightarrow> (real \<times> real) list \<Rightarrow> (real \<times> real) list" where
  "history_add N simTime snr history =
     (if history \<noteq> [] \<and> simTime < fst (last history) then history
      else let h = (if history \<noteq> [] \<and> \<bar>simTime - fst (last history)\<bar> < 1 / 10 ^ 9
                    then butlast history @ [(fst (last history), snr)]
                    else history @ [(simTime, snr)])
           in drop (length h - N) h)"

definition history_of :: "UeInfo \<Rightarrow> cell_id \<Rightarrow> (real \<times> real) list" where
  "history_of ue cellId = (case map_of (snrHistory ue) cellId of None \<Rightarrow> [] | Some h \<Rightarrow> h)"

definition UpdateSnrHistory :: "params \<Rightarrow> cell_id \<Rightarrow> real \<Rightarrow> real \<Rightarrow> UeInfo \<Rightarrow> UeInfo" where
  "UpdateSnrHistory P cellId simTime snr ue =
     (if g_trendWindowSize P \<le> 0 then ue
      else ue\<lparr>snrHistory := smap_set cellId
             (history_add (nat (2 * g_trendWindowSize P)) simTime snr (history_of ue cellId))
             (snrHistory ue)\<rparr>)"

subsection \<open>Line of sight\<close>

definition elevAngles :: "real list" where
  "elevAngles = [10, 20, 30, 40, 50, 60, 70, 80, 90]"

definition probTable :: "bool \<Rightarrow> real list" where
  "probTable isUrban =
     (if isUrban then [0.246, 0.386, 0.493, 0.613, 0.726, 0.805, 0.919, 0.968, 0.992]
      else [0.782, 0.869, 0.919, 0.929, 0.935, 0.940, 0.949, 0.952, 0.998])"

function elev_idx :: "real \<Rightarrow> nat \<Rightarrow> nat" where
  "elev_idx e idx =
     (if idx < length elevAngles - 1 \<and> elevAngles ! (idx + 1) \<le> e then elev_idx e (idx + 1) else idx)"
  by pat_completeness auto
termination
  by (relation "measure (\<lambda>(e, i). length elevAngles - i)") auto

declare elev_idx.simps [simp del]

definition plos_of :: "bool \<Rightarrow> real \<Rightarrow> real" where
  "plos_of isUrban elevation =
     (let clampedElev = max 10 (min 90 elevation); idx = elev_idx clampedElev 0; tab = probTable isUrban
      in if idx = length elevAngles - 1 then tab ! idx
         else let alpha = (clampedElev - elevAngles ! idx) / (elevAngles ! (idx + 1) - elevAngles ! idx)
              in tab ! idx + alpha * (tab ! (idx + 1) - tab ! idx))"

definition trim_lower :: "string \<Rightarrow> string" where
  "trim_lower s = map to_lower (if s \<noteq> [] \<and> last s = CHR 0x0D then butlast s else s)"

definition is_urban :: "string \<Rightarrow> bool" where
  "is_urban s \<longleftrightarrow> str_contains s ''urban'' \<and> \<not> str_contains s ''suburban''"

subsection \<open>The channel model\<close>

text \<open>
  \<open>UpdateSatelliteState\<close> in the parts its text has: the geometry, the draws that fill the two
  per-satellite caches, the losses, the SNR. \<open>table.at\<close> never throws on the tables of the file
  (\<open>Get3GPPParameter_in_range\<close>), so \<open>db\<close> takes the value.
\<close>

definition db :: "elev_table \<Rightarrow> real \<Rightarrow> real" where
  "db table elevation = the (Get3GPPParameter table elevation)"

definition metrics_default :: UeSatMetrics where
  "metrics_default = \<lparr>met_elevation = -90, met_distance = 10 ^ 9, dopplerShift = 0, snrDb = -999\<rparr>"

definition link_geometry :: "params \<Rightarrow> satellites \<Rightarrow> string \<Rightarrow> real \<Rightarrow> UeInfo \<Rightarrow> UeSatMetrics" where
  "link_geometry P sats satName simTime ue =
     (let (sat_x, sat_y, sat_z, e1, d1) = InterpolatePosition sats satName simTime;
          dx = sat_x - ecefX ue; dy = sat_y - ecefY ue; dz = sat_z - ecefZ ue;
          dist = sqrt (dx * dx + dy * dy + dz * dz);
          m = metrics_default\<lparr>met_distance := dist\<rparr>
      in if dist < 1 then m
         else let ue_r = sqrt (ecefX ue * ecefX ue + ecefY ue * ecefY ue + ecefZ ue * ecefZ ue);
                  dot_rn = dx * (ecefX ue / ue_r) + dy * (ecefY ue / ue_r) + dz * (ecefZ ue / ue_r);
                  dt = 1;
                  (sx2, sy2, sz2, e2, d2) = InterpolatePosition sats satName (simTime + dt);
                  vx = (sx2 - sat_x) / dt; vy = (sy2 - sat_y) / dt; vz = (sz2 - sat_z) / dt;
                  rx = (ecefX ue - sat_x) / dist; ry = (ecefY ue - sat_y) / dist;
                  rz = (ecefZ ue - sat_z) / dist;
                  v_radial = vx * rx + vy * ry + vz * rz
              in m\<lparr>met_elevation := arcsin (max (-1) (min 1 (dot_rn / dist))) * 180 / pi,
                   dopplerShift := g_frequency P * v_radial / SPEED_OF_LIGHT\<rparr>)"

definition draw_shadow :: "params \<Rightarrow> string \<Rightarrow> UeInfo \<Rightarrow> UeInfo" where
  "draw_shadow P satName ue =
     (case map_of (shadowFadingCache ue) satName of
        Some v \<Rightarrow> ue
      | None \<Rightarrow> let (v, r) = stdNormal P (rng ue)
                in ue\<lparr>shadowFadingCache := smap_set satName v (shadowFadingCache ue), rng := r\<rparr>)"

definition draw_los :: "params \<Rightarrow> string \<Rightarrow> real \<Rightarrow> real \<Rightarrow> UeInfo \<Rightarrow> UeInfo" where
  "draw_los P satName plos elevation ue =
     (case map_of (losStateCache ue) satName of
        Some v \<Rightarrow> ue
      | None \<Rightarrow> let (v, r) = uniformDist P (rng ue)
                in ue\<lparr>losStateCache := smap_set satName (v \<le> plos) (losStateCache ue), rng := r,
                      lastEvalElev := smap_set satName elevation (lastEvalElev ue)\<rparr>)"

definition los_name :: "bool \<Rightarrow> bool \<Rightarrow> string" where
  "los_name isUrban isLOS =
     (if isLOS then (if isUrban then ''Urban-LOS'' else ''Rural-LOS'')
      else (if isUrban then ''Urban-NLOS'' else ''Rural-NLOS''))"

definition rician_fading :: "real \<Rightarrow> real \<times> real \<Rightarrow> real" where
  "rician_fading kFactorDb g =
     (let K = 10 powr (kFactorDb / 10);
          sigma = sqrt (1 / (2 * (K + 1))); s = sqrt (K / (K + 1));
          x = sigma * fst g; y = sigma * snd g;
          r = sqrt ((s + x) ^ 2 + y ^ 2)
      in -20 * log 10 r)"

definition link_snr :: "params \<Rightarrow> UeSatMetrics \<Rightarrow> string \<Rightarrow> bool \<Rightarrow> real \<Rightarrow> real \<times> real \<Rightarrow> real" where
  "link_snr P m s isLOS sfFeature gauss =
     (let elevation = met_elevation m;
          frequencyGHz = g_frequency P / 10 ^ 9;
          fspl = 32.45 + 20 * log 10 frequencyGHz + 20 * log 10 (met_distance m);
          atmosLoss = 0.2;
          tropLoss = db g_troposphericScintillation elevation;
          clutterLoss = (if isLOS then 0 else db (GetClutterLossTable s) elevation);
          shadowStd = (if isLOS then db (GetShadowFadingTable s) elevation
                       else db (GetShadowFadingTable_NLOS s) elevation);
          shadowFading = sfFeature * shadowStd;
          ricianFading = rician_fading (the (GetRicianKFactorDb s elevation)) gauss;
          totalPathLoss = fspl + atmosLoss + tropLoss + clutterLoss + shadowFading + ricianFading;
          rxPower = g_txPower P + g_txAntennaGain P + g_rxGain P - totalPathLoss;
          noisePowerDbm = -174 + 10 * log 10 (g_bandwidth P) + g_noiseFigure P;
          residualDoppler = \<bar>dopplerShift m\<bar> * 0.01;
          frequencyOffsetRatio = residualDoppler / g_bandwidth P;
          dopplerSnrLoss = (if frequencyOffsetRatio > 0.001
                            then 10 * log 10 (1 + frequencyOffsetRatio * 100) else 0)
      in rxPower - noisePowerDbm + g_fecCodingGain P - dopplerSnrLoss)"

definition in_trajectory :: "satellites \<Rightarrow> string \<Rightarrow> real \<Rightarrow> bool" where
  "in_trajectory sats satName simTime =
     (case map_of sats satName of
        None \<Rightarrow> False
      | Some s \<Rightarrow> trajectory s \<noteq> [] \<and>
          \<not> (simTime < tp_time (hd (trajectory s)) \<or> simTime > tp_time (last (trajectory s))))"

definition UpdateSatelliteState :: "params \<Rightarrow> satellites \<Rightarrow> string \<Rightarrow> real \<Rightarrow> UeInfo \<Rightarrow>
    UeSatMetrics \<times> UeInfo" where
  "UpdateSatelliteState P sats satName simTime ue =
     (let discreteTime = of_int \<lfloor>simTime + 1 / 10 ^ 6\<rfloor>;
          fresh =
            (if \<not> in_trajectory sats satName simTime then (metrics_default, ue)
             else let m = link_geometry P sats satName simTime ue in
               if met_distance m < 1 then (m, ue)
               else let ue1 = draw_shadow P satName ue;
                        sfFeature = the (map_of (shadowFadingCache ue1) satName);
                        isUrban = is_urban (trim_lower (scenario ue));
                        ue2 = draw_los P satName (plos_of isUrban (met_elevation m)) (met_elevation m) ue1;
                        isLOS = the (map_of (losStateCache ue2) satName);
                        (gauss, r) = normalPair P (rng ue2);
                        m' = m\<lparr>snrDb := link_snr P m (los_name isUrban isLOS) isLOS sfFeature gauss\<rparr>;
                        ue3 = ue2\<lparr>rng := r, channelCache := smap_set satName (simTime, m') (channelCache ue2)\<rparr>
                    in (m', UpdateSnrHistory P satName simTime (snrDb m') ue3))
      in case map_of (channelCache ue) satName of
           Some (t, m) \<Rightarrow> if t = discreteTime then (m, ue) else fresh
         | None \<Rightarrow> fresh)"

subsection \<open>History and trends\<close>

text \<open>\<open>GetSnrAtTime\<close>: the first sample closest to the target, if it is within two seconds.\<close>

definition GetSnrAtTime :: "UeInfo \<Rightarrow> cell_id \<Rightarrow> real \<Rightarrow> real option" where
  "GetSnrAtTime ue cellId targetTime =
     (case history_of ue cellId of
        [] \<Rightarrow> None
      | (t0, s0) # rest \<Rightarrow>
          (let (closestSnr, minDiff) =
             foldl (\<lambda>(s, d) (t, snr). if \<bar>targetTime - t\<bar> < d then (snr, \<bar>targetTime - t\<bar>) else (s, d))
               (s0, \<bar>targetTime - t0\<bar>) ((t0, s0) # rest)
           in if minDiff \<le> 2 then Some closestSnr else None))"

definition snr_sum :: "(real \<times> real) list \<Rightarrow> real" where
  "snr_sum h = foldl (\<lambda>acc s. acc + snd s) 0 h"

definition GetSnrTrend :: "params \<Rightarrow> UeInfo \<Rightarrow> cell_id \<Rightarrow> real" where
  "GetSnrTrend P ue cellId =
     (let history = history_of ue cellId; W = nat (g_trendWindowSize P) in
      if map_of (snrHistory ue) cellId = None \<or> g_trendWindowSize P \<le> 0 \<or> length history < 2 * W
      then 0
      else let recentStart = length history - W; pastStart = recentStart - W;
               pastSum = snr_sum (take W (drop pastStart history));
               recentSum = snr_sum (drop recentStart history)
           in recentSum / of_int (g_trendWindowSize P) - pastSum / of_int (g_trendWindowSize P))"

text \<open>\<open>GetDistanceTrend\<close> asks the channel model for the previous instant, and so changes the
  UE.\<close>

definition GetDistanceTrend :: "params \<Rightarrow> satellites \<Rightarrow> cell_id \<Rightarrow> real \<Rightarrow> UeInfo \<Rightarrow> real \<times> UeInfo" where
  "GetDistanceTrend P sats cellId currentTime ue =
     (if currentTime < g_measurementPeriod P then (0, ue)
      else case map_of (channelCache ue) cellId of
             None \<Rightarrow> (0, ue)
           | Some (t, cur) \<Rightarrow>
               (let (prev, ue') = UpdateSatelliteState P sats cellId (currentTime - g_measurementPeriod P) ue
                in (met_distance cur - met_distance prev, ue')))"

subsection \<open>Measurement of a cell\<close>

definition UE_MeasureCell :: "params \<Rightarrow> UeInfo \<Rightarrow> cell_id \<Rightarrow> real \<Rightarrow> MeasResultCell" where
  "UE_MeasureCell P ue cellId simTime =
     (case map_of (channelCache ue) cellId of
        None \<Rightarrow> \<lparr>mr_cellId = cellId, rsrp = -150, rsrq = -30, sinr = -20, mr_distance = 10 ^ 9,
                 mr_elevation = -90, mr_dopplerShift = 0, measurementTime = simTime\<rparr>
      | Some (t, m) \<Rightarrow>
          (let noiseFloor = -174 + 10 * log 10 (g_bandwidth P) + g_noiseFigure P
           in \<lparr>mr_cellId = cellId, rsrp = noiseFloor + snrDb m, rsrq = snrDb m - 3, sinr = snrDb m,
               mr_distance = met_distance m, mr_elevation = met_elevation m,
               mr_dopplerShift = dopplerShift m, measurementTime = simTime\<rparr>))"

subsection \<open>What the channel model leaves alone\<close>

definition strip_radio :: "UeInfo \<Rightarrow> UeInfo" where
  "strip_radio ue = ue\<lparr>channelCache := [], snrHistory := [], shadowFadingCache := [],
     losStateCache := [], lastEvalElev := [], rng := 0\<rparr>"

lemma strip_radio_upd [simp]:
  "strip_radio (ue\<lparr>channelCache := c\<rparr>) = strip_radio ue"
  "strip_radio (ue\<lparr>snrHistory := h\<rparr>) = strip_radio ue"
  "strip_radio (ue\<lparr>shadowFadingCache := s\<rparr>) = strip_radio ue"
  "strip_radio (ue\<lparr>losStateCache := l\<rparr>) = strip_radio ue"
  "strip_radio (ue\<lparr>lastEvalElev := e\<rparr>) = strip_radio ue"
  "strip_radio (ue\<lparr>rng := r\<rparr>) = strip_radio ue"
  by (simp_all add: strip_radio_def)

lemma strip_radio_fields:
  "ue_context (strip_radio ue) = ue_context ue"
  "hoState (strip_radio ue) = hoState ue"
  "measConfig (strip_radio ue) = measConfig ue"
  "measState (strip_radio ue) = measState ue"
  "choProcState (strip_radio ue) = choProcState ue"
  "choConfigState (strip_radio ue) = choConfigState ue"
  "hoContext (strip_radio ue) = hoContext ue"
  "ueChoStats (strip_radio ue) = ueChoStats ue"
  "hoCount (strip_radio ue) = hoCount ue"
  "ulErrorRate (strip_radio ue) = ulErrorRate ue"
  "dlErrorRate (strip_radio ue) = dlErrorRate ue"
  "p2pDelay (strip_radio ue) = p2pDelay ue"
  "ecefX (strip_radio ue) = ecefX ue"
  "ecefY (strip_radio ue) = ecefY ue"
  "ecefZ (strip_radio ue) = ecefZ ue"
  "scenario (strip_radio ue) = scenario ue"
  "simId (strip_radio ue) = simId ue"
  by (simp_all add: strip_radio_def)

lemma strip_radio_eqD:
  assumes "strip_radio a = strip_radio b"
  shows "ue_context a = ue_context b"
    "hoState a = hoState b"
    "measConfig a = measConfig b"
    "measState a = measState b"
    "choProcState a = choProcState b"
    "choConfigState a = choConfigState b"
    "hoContext a = hoContext b"
    "ueChoStats a = ueChoStats b"
    "hoCount a = hoCount b"
    "ulErrorRate a = ulErrorRate b"
    "dlErrorRate a = dlErrorRate b"
    "p2pDelay a = p2pDelay b"
    "ecefX a = ecefX b"
    "ecefY a = ecefY b"
    "ecefZ a = ecefZ b"
    "scenario a = scenario b"
    "simId a = simId b"
  by (metis assms strip_radio_fields)+

lemma UpdateSnrHistory_frame [simp]:
  "strip_radio (UpdateSnrHistory P c t s ue) = strip_radio ue"
  "channelCache (UpdateSnrHistory P c t s ue) = channelCache ue"
  "losStateCache (UpdateSnrHistory P c t s ue) = losStateCache ue"
  "shadowFadingCache (UpdateSnrHistory P c t s ue) = shadowFadingCache ue"
  by (simp_all add: UpdateSnrHistory_def)

lemma draw_frame [simp]:
  "strip_radio (draw_shadow P n ue) = strip_radio ue" "strip_radio (draw_los P n p e ue) = strip_radio ue"
  "channelCache (draw_shadow P n ue) = channelCache ue" "channelCache (draw_los P n p e ue) = channelCache ue"
  "snrHistory (draw_shadow P n ue) = snrHistory ue" "snrHistory (draw_los P n p e ue) = snrHistory ue"
  "losStateCache (draw_shadow P n ue) = losStateCache ue"
  by (simp_all add: draw_shadow_def draw_los_def split: option.split prod.split)

lemma UpdateSatelliteState_frame [simp]:
  "strip_radio (snd (UpdateSatelliteState P sats n t ue)) = strip_radio ue"
  by (simp add: UpdateSatelliteState_def Let_def split: option.split prod.split)

lemma GetDistanceTrend_frame [simp]:
  "strip_radio (snd (GetDistanceTrend P sats n t ue)) = strip_radio ue"
  by (simp add: GetDistanceTrend_def Let_def case_prod_beta split: option.split)

subsection \<open>Facts of the channel model\<close>

definition hist_ok :: "nat \<Rightarrow> (real \<times> real) list \<Rightarrow> bool" where
  "hist_ok N h \<longleftrightarrow> length h \<le> N \<and> sorted_wrt (<) (map fst h)"

lemma history_add_ok:
  assumes "hist_ok N h"
  shows "hist_ok N (history_add N t s h)"
proof (cases "h = []")
  case True
  then show ?thesis by (cases N) (auto simp: hist_ok_def history_add_def)
next
  case False
  then obtain g l where h: "h = g @ [l]" by (metis append_butlast_last_id)
  have sorted: "sorted_wrt (<) (map fst (drop k x))" if "sorted_wrt (<) (map fst x)"
    for k and x :: "(real \<times> real) list" using that by (simp add: drop_map [symmetric] sorted_wrt_drop)
  have lens: "length (drop (length x - N) x) \<le> N" for x :: "(real \<times> real) list" by simp
  have g: "sorted_wrt (<) (map fst (g @ [l]))" "length (g @ [l]) \<le> N"
    using assms by (simp_all add: hist_ok_def h)
  have new: "sorted_wrt (<) (map fst ((g @ [l]) @ [(t, s)]))" if "fst l < t"
    using that g by (force simp: sorted_wrt_append)
  have same: "sorted_wrt (<) (map fst (g @ [(fst l, s)]))" using g by simp
  consider "t < fst l" | "\<not> t < fst l" "\<bar>t - fst l\<bar> < 1 / 10 ^ 9" | "fst l < t" "\<not> \<bar>t - fst l\<bar> < 1 / 10 ^ 9"
    by force
  then show ?thesis
  proof cases
    case 1
    then show ?thesis using assms by (simp add: history_add_def h)
  next
    case 2
    then have "history_add N t s h = drop (length (g @ [(fst l, s)]) - N) (g @ [(fst l, s)])"
      by (simp add: history_add_def h Let_def)
    then show ?thesis unfolding hist_ok_def using sorted [OF same] lens by metis
  next
    case 3
    then have "history_add N t s h = drop (length ((g @ [l]) @ [(t, s)]) - N) ((g @ [l]) @ [(t, s)])"
      by (simp add: history_add_def h Let_def)
    then show ?thesis unfolding hist_ok_def using sorted [OF new] 3(1) lens by metis
  qed
qed

lemma plos_of_bounds: "0.246 \<le> plos_of u e \<and> plos_of u e \<le> 0.998"
proof -
  define c where "c = max 10 (min 90 e)"
  define i where "i = elev_idx c 0"
  have step: "k \<le> 8 \<longrightarrow> elevAngles ! k \<le> c \<longrightarrow>
      (elev_idx c k \<le> 8 \<and> elevAngles ! elev_idx c k \<le> c \<and>
       (elev_idx c k < 8 \<longrightarrow> c \<le> elevAngles ! (elev_idx c k + 1)))" for k
  proof (induction c k rule: elev_idx.induct)
    case (1 c k)
    then show ?case by (auto simp: elev_idx.simps [of c k]) (auto simp: elevAngles_def)
  qed
  have "elevAngles ! 0 \<le> c" by (simp add: elevAngles_def c_def)
  with step [of 0] have i: "i \<le> 8" "elevAngles ! i \<le> c" "i < 8 \<Longrightarrow> c \<le> elevAngles ! (i + 1)"
    by (auto simp: i_def)
  have len: "length elevAngles = 9" by (simp add: elevAngles_def)
  have tab: "0.246 \<le> probTable u ! k \<and> probTable u ! k \<le> 0.998" if "k \<le> 8" for k
  proof -
    have "k \<in> {0,1,2,3,4,5,6,7,8}" using that by auto
    then show ?thesis by (auto simp: probTable_def)
  qed
  show ?thesis
  proof (cases "i = 8")
    case True
    then show ?thesis using tab [of 8] len by (simp add: plos_of_def c_def [symmetric] i_def [symmetric] Let_def)
  next
    case False
    define a where "a = (c - elevAngles ! i) / (elevAngles ! (i + 1) - elevAngles ! i)"
    have "elevAngles ! i < elevAngles ! (i + 1)"
    proof -
      have "i \<in> {0,1,2,3,4,5,6,7}" using i(1) False by auto
      then show ?thesis by (auto simp: elevAngles_def)
    qed
    then have "0 \<le> a" "a \<le> 1" using i False by (auto simp: a_def)
    from convex_between [OF this, of "probTable u ! i" "probTable u ! (i + 1)"]
    have "between (plos_of u e) (probTable u ! i) (probTable u ! (i + 1))"
      using False len by (simp add: plos_of_def c_def [symmetric] i_def [symmetric] Let_def a_def)
    then show ?thesis
      using tab [of i] tab [of "i + 1"] i(1) False unfolding between_def by linarith
  qed
qed

text \<open>The closest sample: what the fold of \<open>GetSnrAtTime\<close> computes.\<close>

lemma closest_fold:
  fixes T :: real
  assumes "foldl (\<lambda>(s, d) (t, snr). if \<bar>T - t\<bar> < d then (snr, \<bar>T - t\<bar>) else (s, d)) (s0, d0) h = (s, d)"
  shows "d \<le> d0 \<and> (\<forall>(t, snr) \<in> set h. d \<le> \<bar>T - t\<bar>) \<and>
         ((s, d) = (s0, d0) \<or> (\<exists>t. (t, s) \<in> set h \<and> d = \<bar>T - t\<bar>))"
  using assms
proof (induction h arbitrary: s0 d0)
  case (Cons x h)
  obtain t v where x: "x = (t, v)" by (cases x)
  show ?case
  proof (cases "\<bar>T - t\<bar> < d0")
    case True
    with Cons.prems x
    have "foldl (\<lambda>(s, d) (t, snr). if \<bar>T - t\<bar> < d then (snr, \<bar>T - t\<bar>) else (s, d)) (v, \<bar>T - t\<bar>) h = (s, d)"
      by simp
    from Cons.IH [OF this] have a: "d \<le> \<bar>T - t\<bar>" "\<forall>(t, snr) \<in> set h. d \<le> \<bar>T - t\<bar>"
      "s = v \<and> d = \<bar>T - t\<bar> \<or> (\<exists>t. (t, s) \<in> set h \<and> d = \<bar>T - t\<bar>)" by auto
    have "d \<le> d0" using a(1) True by linarith
    moreover have "\<forall>(t, snr) \<in> set (x # h). d \<le> \<bar>T - t\<bar>" using a(1,2) x by simp
    moreover have "\<exists>t. (t, s) \<in> set (x # h) \<and> d = \<bar>T - t\<bar>" using a(3) x by auto
    ultimately show ?thesis by blast
  next
    case False
    then show ?thesis using Cons.IH [of s0 d0] Cons.prems x by auto
  qed
qed simp

lemma GetSnrAtTime_SomeD:
  assumes "GetSnrAtTime ue c T = Some s"
  shows "\<exists>t. (t, s) \<in> set (history_of ue c) \<and> \<bar>T - t\<bar> \<le> 2 \<and>
             (\<forall>(t', s') \<in> set (history_of ue c). \<bar>T - t\<bar> \<le> \<bar>T - t'\<bar>)"
proof -
  obtain t0 s0 rest where h: "history_of ue c = (t0, s0) # rest"
    using assms by (auto simp: GetSnrAtTime_def split: list.splits)
  obtain s' d where f: "foldl (\<lambda>(s, d) (t, snr). if \<bar>T - t\<bar> < d then (snr, \<bar>T - t\<bar>) else (s, d))
      (s0, \<bar>T - t0\<bar>) ((t0, s0) # rest) = (s', d)" by fastforce
  have "s = s'" "d \<le> 2" using assms f by (auto simp: GetSnrAtTime_def h split: if_splits)
  with closest_fold [OF f] show ?thesis unfolding h by fastforce
qed

text \<open>A cached value of this instant is returned without touching the UE.\<close>

lemma UpdateSatelliteState_hit:
  assumes "map_of (channelCache ue) n = Some (of_int k, m)"
  shows "UpdateSatelliteState P sats n (of_int k) ue = (m, ue)"
proof -
  have "\<lfloor>real_of_int k + 1 / 10 ^ 6\<rfloor> = k" by (simp add: floor_eq_iff)
  then show ?thesis using assms by (simp add: UpdateSatelliteState_def)
qed

lemma UpdateSatelliteState_cases:
  assumes "UpdateSatelliteState P sats n t ue = (m, ue')"
  obtains (hit) "ue' = ue" "map_of (channelCache ue) n = Some (of_int \<lfloor>t + 1 / 10 ^ 6\<rfloor>, m)"
  | (out) "ue' = ue" "\<not> in_trajectory sats n t" "m = metrics_default"
  | (near) "ue' = ue" "m = link_geometry P sats n t ue" "met_distance m < 1"
  | (fresh) "map_of (channelCache ue') n = Some (t, m)" "in_trajectory sats n t"
      "\<not> met_distance (link_geometry P sats n t ue) < 1"
  using assms
  by (auto simp: UpdateSatelliteState_def Let_def split: option.splits if_splits prod.splits)

end
