(* ===== verification/Cho_Measurement.thy ===== *)
theory Cho_Measurement
  imports Cho_Channel
begin

text \<open>
  What a UE measures and reports: the measurements of all visible cells, the choice of the best
  neighbour, the A3-style decision with its dynamic margin, the time-to-trigger and the
  measurement report; the bookkeeping of the predictions and validations it leaves for later.
\<close>

subsection \<open>Measurements and conditions\<close>

text \<open>The last sample of a satellite that is loaded lies in the past.\<close>

definition trajectory_over :: "satellites \<Rightarrow> real \<Rightarrow> cell_id \<Rightarrow> bool" where
  "trajectory_over sats simTime cellId \<longleftrightarrow>
     (case map_of sats cellId of
        None \<Rightarrow> False
      | Some s \<Rightarrow> trajectory s \<noteq> [] \<and> simTime > tp_time (last (trajectory s)))"

definition detectable :: "satellites \<Rightarrow> real \<Rightarrow> cell_id \<Rightarrow> UeSatMetrics \<Rightarrow> bool" where
  "detectable sats simTime cellId m \<longleftrightarrow>
     \<not> met_elevation m < 0 \<and> \<not> trajectory_over sats simTime cellId \<and> \<not> snrDb m < -6"

definition UE_PerformMeasurements :: "params \<Rightarrow> satellites \<Rightarrow> UeInfo \<Rightarrow> real \<Rightarrow> MeasResultCell list" where
  "UE_PerformMeasurements P sats ue simTime =
     map (\<lambda>(cellId, t, m). UE_MeasureCell P ue cellId simTime)
       (filter (\<lambda>(cellId, t, m). detectable sats simTime cellId m) (channelCache ue))"

definition UE_EvaluateEventA3 :: "MeasResultCell \<Rightarrow> MeasResultCell \<Rightarrow> real \<Rightarrow> real \<Rightarrow> bool" where
  "UE_EvaluateEventA3 serving neighbor offset hyst \<longleftrightarrow> sinr neighbor - hyst > sinr serving + offset"

definition UE_EvaluateCHOPreparationCondition :: "MeasResultCell \<Rightarrow> MeasResultCell \<Rightarrow> real \<Rightarrow> bool" where
  "UE_EvaluateCHOPreparationCondition serving neighbor reportingOffset \<longleftrightarrow>
     sinr neighbor > sinr serving - reportingOffset"

definition UE_EvaluateNtnTriggers :: "nat \<Rightarrow> MeasResultCell \<Rightarrow> bool" where
  "UE_EvaluateNtnTriggers i serving = False"

subsection \<open>Predictions to evaluate later\<close>

definition same_prediction :: "PendingPredictionEval \<Rightarrow> PendingPredictionEval \<Rightarrow> bool" where
  "same_prediction p item \<longleftrightarrow> pe_ueId item = pe_ueId p \<and> pe_servingCell item = pe_servingCell p \<and>
     pe_neighborCell item = pe_neighborCell p \<and>
     \<bar>pe_decisionTime item - pe_decisionTime p\<bar> < 1 / 10 ^ 9"

text \<open>What follows the erasure in \<open>EvaluatePendingPrediction\<close> only prints to the console.\<close>

definition EvaluatePendingPrediction :: "PendingPredictionEval \<Rightarrow> cho_world \<Rightarrow> cho_world" where
  "EvaluatePendingPrediction p w =
     w\<lparr>g_pendingPredictionEvals := filter (\<lambda>item. \<not> same_prediction p item) (g_pendingPredictionEvals w)\<rparr>"

definition SchedulePendingPredictionEval :: "nat \<Rightarrow> cell_id \<Rightarrow> cell_id \<Rightarrow> real \<Rightarrow> real \<Rightarrow>
    cho_world \<Rightarrow> cho_world" where
  "SchedulePendingPredictionEval i serving neighbor decTime evTime w =
     (let p = \<lparr>pe_ueId = int i, pe_servingCell = serving, pe_neighborCell = neighbor,
               pe_decisionTime = decTime, pe_evalTime = evTime\<rparr>;
          w1 = w\<lparr>g_pendingPredictionEvals := g_pendingPredictionEvals w @ [p]\<rparr>
      in schedule_s (max 0 (evTime - now_s w1)) (EvalPrediction p) w1)"

subsection \<open>The best neighbour\<close>

record eval_scan =
  sc_ue :: UeInfo
  sc_validations :: "PendingMeasurementValidation list"
  sc_records :: "CandidateRecord list"
  sc_best :: "MeasResultCell option"
  sc_metric :: real

definition scan_neighbour :: "params \<Rightarrow> satellites \<Rightarrow> nat \<Rightarrow> real \<Rightarrow> cell_id \<Rightarrow> eval_scan \<Rightarrow>
    MeasResultCell \<Rightarrow> eval_scan" where
  "scan_neighbour P sats i simTime serving sc meas =
     (if mr_cellId meas = serving \<or> sinr meas < 3 then sc
      else let ue1 = upd_meas (\<lambda>ms. ms\<lparr>lastMeasurements :=
                        smap_set (mr_cellId meas) meas (lastMeasurements ms)\<rparr>) (sc_ue sc);
               (distTrend, ue2) = GetDistanceTrend P sats (mr_cellId meas) simTime ue1;
               v = \<lparr>pv_recordTime = simTime, pv_ueId = i, pv_cellId = mr_cellId meas,
                    pv_distanceTrend = distTrend, pv_currentSinr = sinr meas,
                    pv_verificationTime = simTime + 5\<rparr>;
               pen = (if distTrend > 0 then 2 else 0);
               metric = sinr meas - pen;
               c = \<lparr>cr_cellId = mr_cellId meas, cr_distanceTrend = distTrend, cr_sinr = sinr meas,
                    penalty = pen, evalMetric = metric\<rparr>;
               sc' = sc\<lparr>sc_ue := ue2, sc_validations := sc_validations sc @ [v],
                        sc_records := sc_records sc @ [c]\<rparr>
           in if metric > sc_metric sc then sc'\<lparr>sc_best := Some meas, sc_metric := metric\<rparr> else sc')"

definition scan_neighbours :: "params \<Rightarrow> satellites \<Rightarrow> nat \<Rightarrow> real \<Rightarrow> cell_id \<Rightarrow> UeInfo \<Rightarrow>
    MeasResultCell list \<Rightarrow> eval_scan" where
  "scan_neighbours P sats i simTime serving ue ms =
     foldl (scan_neighbour P sats i simTime serving)
       \<lparr>sc_ue = ue, sc_validations = [], sc_records = [], sc_best = None, sc_metric = -999\<rparr> ms"

definition candidate_row :: "nat \<Rightarrow> real \<Rightarrow> MeasResultCell option \<Rightarrow> CandidateRecord \<Rightarrow> row" where
  "candidate_row i simTime best c =
     [Num simTime, Whole (int i), Str (cr_cellId c), Num (cr_distanceTrend c), Num (cr_sinr c),
      Num (penalty c), Num (evalMetric c),
      Whole (case best of None \<Rightarrow> 0 | Some b \<Rightarrow> if cr_cellId c = mr_cellId b then 1 else 0)]"

subsection \<open>The decision\<close>

text \<open>\<open>g_snrLog\<close> gets lines of text here; a row holds the values such a line shows.\<close>

definition snr_log :: "row \<Rightarrow> cho_world \<Rightarrow> cho_world" where
  "snr_log r w = w\<lparr>g_snrLog := g_snrLog w @ [r]\<rparr>"

definition serving_followups :: "nat \<Rightarrow> real \<Rightarrow> MeasResultCell \<Rightarrow> real \<Rightarrow> real \<Rightarrow>
    PendingServingSnrFollowup list" where
  "serving_followups i simTime serving snrTrend distTrend =
     map (\<lambda>h. \<lparr>pf_recordTime = simTime, pf_ueId = i, pf_servingCellId = mr_cellId serving,
               pf_servingSnrTrend = snrTrend, pf_servingDistanceTrend = distTrend,
               pf_currentSinr = sinr serving, horizonSec = h, pf_verificationTime = simTime + h\<rparr>)
       [1, 3, 5]"

definition serving_trigger_row :: "nat \<Rightarrow> real \<Rightarrow> MeasResultCell \<Rightarrow> MeasResultCell \<Rightarrow> real \<Rightarrow> real \<Rightarrow>
    real \<Rightarrow> real \<Rightarrow> real \<Rightarrow> row" where
  "serving_trigger_row i simTime serving best sSnr sDist nSnr nDist margin =
     [Num simTime, Whole (int i), Str (mr_cellId serving), Str (mr_cellId best), Num sSnr, Num sDist,
      Whole (if sDist > 0 then 1 else 0), Num (sinr serving), Num (mr_distance serving), Num nSnr,
      Num nDist, Num (sinr best), Num (mr_distance best), Num margin]"

text \<open>The margin before the lower limit of 1 dB, and the margin used.\<close>

definition raw_margin :: "params \<Rightarrow> real \<Rightarrow> real" where
  "raw_margin P servingSnrTrend =
     (if servingSnrTrend < - g_servingTrendThreshold P then g_trendHandoverMargin P - 2
      else g_trendHandoverMargin P)"

definition dynamic_margin :: "params \<Rightarrow> real \<Rightarrow> real" where
  "dynamic_margin P servingSnrTrend = max 1 (raw_margin P servingSnrTrend)"

definition set_ue :: "nat \<Rightarrow> UeInfo \<Rightarrow> cho_world \<Rightarrow> cho_world" where
  "set_ue i ue w = upd_ue i (\<lambda>_. ue) w"

text \<open>A falling SNR of the serving cell is logged and followed up after 1, 3 and 5 seconds.\<close>

definition serving_trigger :: "params \<Rightarrow> nat \<Rightarrow> real \<Rightarrow> MeasResultCell \<Rightarrow> MeasResultCell \<Rightarrow> real \<Rightarrow> real \<Rightarrow>
    real \<Rightarrow> real \<Rightarrow> cho_world \<Rightarrow> cho_world" where
  "serving_trigger P i simTime serving best sSnr sDist nSnr nDist w =
     (if sSnr < - g_servingTrendThreshold P
      then w\<lparr>g_servingTriggerLog := g_servingTriggerLog w @
               [serving_trigger_row i simTime serving best sSnr sDist nSnr nDist (raw_margin P sSnr)],
             g_pendingServingSnrFollowups := g_pendingServingSnrFollowups w @
               serving_followups i simTime serving sSnr sDist\<rparr>
      else w)"

definition decide_a3 :: "params \<Rightarrow> nat \<Rightarrow> real \<Rightarrow> MeasResultCell \<Rightarrow> MeasResultCell \<Rightarrow> cho_world \<Rightarrow>
    bool \<times> cho_world" where
  "decide_a3 P i simTime serving best w =
     (let sats = g_satellites w;
          (servingDistTrend, ue1) = GetDistanceTrend P sats (mr_cellId serving) simTime (the_ue i w);
          (neighborDistTrend, ue2) = GetDistanceTrend P sats (mr_cellId best) simTime ue1;
          neighborSnrTrend = GetSnrTrend P ue2 (mr_cellId best);
          servingSnrTrend = GetSnrTrend P ue2 (mr_cellId serving);
          w1 = set_ue i ue2 w;
          w2 = serving_trigger P i simTime serving best servingSnrTrend servingDistTrend
                 neighborSnrTrend neighborDistTrend w1;
          margin = dynamic_margin P servingSnrTrend;
          a3Trigger = (sinr best > sinr serving + margin);
          w3 = SchedulePendingPredictionEval i (mr_cellId serving) (mr_cellId best) simTime
                 (simTime + g_predictionEvalDelay P) w2
      in if a3Trigger
         then (True, snr_log [Str ''HO TRIGGERED'', Str (mr_cellId best), Whole 1, Num margin,
                              Num servingSnrTrend, Num neighborSnrTrend]
                 (upd_ue i (\<lambda>ue. ue\<lparr>hoContext := \<lparr>preServingSnr = sinr serving,
                    preNeighborSnr = sinr best, decisionTime = simTime, valid = True,
                    sourceCellId = mr_cellId serving, hc_targetCellId = mr_cellId best,
                    triggerType = ''A3+prediction''\<rparr>\<rparr>) w3))
         else (False, w3))"

subsection \<open>Time to trigger and report\<close>

definition trigger_step :: "bool \<Rightarrow> bool \<Rightarrow> cell_id \<Rightarrow> real \<Rightarrow> real \<Rightarrow> UeMeasurementState \<Rightarrow>
    bool \<times> UeMeasurementState" where
  "trigger_step ntnTrigger a3 candidateCell simTime ttt ms =
     (if ntnTrigger \<or> a3 then
        if \<not> triggerActive ms
        then (False, ms\<lparr>triggerActive := True, triggerStartTime := simTime,
                        candidateTargetCell := candidateCell\<rparr>)
        else if \<not> ntnTrigger \<and> candidateCell \<noteq> candidateTargetCell ms
        then (False, ms\<lparr>triggerStartTime := simTime, candidateTargetCell := candidateCell\<rparr>)
        else if simTime - triggerStartTime ms \<ge> ttt
        then (True, ms\<lparr>reportsSent := reportsSent ms + 1, ms_lastReportTime := simTime,
                       triggerActive := False\<rparr>)
        else (False, ms)
      else (False, ms\<lparr>triggerActive := False, triggerStartTime := -1, candidateTargetCell := []\<rparr>))"

definition MeasResultCell_zero :: MeasResultCell where
  "MeasResultCell_zero = \<lparr>mr_cellId = [], rsrp = 0, rsrq = 0, sinr = 0, mr_distance = 0,
     mr_elevation = 0, mr_dopplerShift = 0, measurementTime = 0\<rparr>"

definition rlf_report :: "real \<Rightarrow> cell_id \<Rightarrow> MeasurementReport" where
  "rlf_report simTime serving =
     \<lparr>reportTime = simTime,
      servingCell = MeasResultCell_zero\<lparr>mr_cellId := serving, measurementTime := simTime, sinr := -999\<rparr>,
      neighborCells = [], mr_eventType = ''RLF'',
      triggerReason = ''Radio Link Failure - serving cell not detectable'',
      servingCellBelowThreshold = True, betterNeighborAvailable = False\<rparr>"

definition cho_report :: "real \<Rightarrow> bool \<Rightarrow> MeasResultCell \<Rightarrow> MeasResultCell option \<Rightarrow> MeasurementReport" where
  "cho_report simTime ntnTrigger serving best =
     \<lparr>reportTime = simTime, servingCell = serving,
      neighborCells = (case best of None \<Rightarrow> [] | Some b \<Rightarrow> [b]),
      mr_eventType = (if ntnTrigger then ''NTN_CRITICAL'' else ''CHO_PREP''),
      triggerReason = (if ntnTrigger then ''NTN distance threshold exceeded''
                       else ''CHO Phase-1 MR triggered''),
      servingCellBelowThreshold = ntnTrigger, betterNeighborAvailable = (best \<noteq> None)\<rparr>"

definition UE_EvaluateAndReport :: "params \<Rightarrow> nat \<Rightarrow> real \<Rightarrow> cho_world \<Rightarrow>
    MeasurementReport option \<times> cho_world" where
  "UE_EvaluateAndReport P i simTime w =
     (let ue = the_ue i w; sid = servingCellId (measState ue) in
      if sid = [] then (None, upd_ue i ResetHoContext w)
      else let measurements = UE_PerformMeasurements P (g_satellites w) ue simTime in
      case find (\<lambda>m. mr_cellId m = sid) measurements of
        None \<Rightarrow> (Some (rlf_report simTime sid), upd_ue i ResetHoContext w)
      | Some serving \<Rightarrow>
          (let w1 = upd_ue i (upd_meas (\<lambda>ms. ms\<lparr>lastMeasurements :=
                      smap_set sid serving (lastMeasurements ms)\<rparr>)) w;
               ntnTrigger = UE_EvaluateNtnTriggers i serving;
               w2 = snr_log [Str ''Serving'', Str sid, Num (sinr serving),
                             Num (GetSnrTrend P (the_ue i w1) sid)]
                      (snr_log [Str ''Trend Analysis'', Num simTime, Whole (int i)] w1);
               sc = scan_neighbours P (g_satellites w) i simTime sid (the_ue i w2) measurements;
               w3 = set_ue i (sc_ue sc) w2;
               w4 = w3\<lparr>g_pendingMeasurementValidations :=
                         g_pendingMeasurementValidations w3 @ sc_validations sc,
                       g_candidateSelectionLog := g_candidateSelectionLog w3 @
                         map (candidate_row i simTime (sc_best sc)) (sc_records sc)\<rparr>;
               (a3, w5) = (case sc_best sc of None \<Rightarrow> (False, w4)
                           | Some b \<Rightarrow> decide_a3 P i simTime serving b w4);
               w6 = (if \<not> a3 then upd_ue i ResetHoContext w5 else w5);
               candidateCell = (case sc_best sc of None \<Rightarrow> [] | Some b \<Rightarrow> mr_cellId b);
               (report, ms') = trigger_step ntnTrigger a3 candidateCell simTime
                                 (mc_timeToTrigger (measConfig (the_ue i w6))) (measState (the_ue i w6));
               w7 = upd_ue i (upd_meas (\<lambda>_. ms')) w6;
               w8 = (if \<not> (ntnTrigger \<or> a3) then upd_ue i ResetHoContext w7 else w7)
           in (if report then Some (cho_report simTime ntnTrigger serving (sc_best sc)) else None, w8)))"

subsection \<open>Liveness of a link, delay and error model\<close>

definition CHO_IsLinkViable :: "params \<Rightarrow> UeInfo \<Rightarrow> cell_id \<Rightarrow> bool" where
  "CHO_IsLinkViable P ue cellId =
     (case map_of (channelCache ue) cellId of
        None \<Rightarrow> False
      | Some (t, m) \<Rightarrow> \<not> snrDb m < minViableSinr (g_choNtnConfig P) \<and>
          \<not> met_distance m / 1000 > maxViableDistance (g_choNtnConfig P) \<and> \<not> met_elevation m < 0)"

definition GetUuDelayForUe :: "UeInfo \<Rightarrow> cell_id \<Rightarrow> real" where
  "GetUuDelayForUe ue satName =
     (case map_of (channelCache ue) satName of
        None \<Rightarrow> 0.010 | Some (t, m) \<Rightarrow> met_distance m / SPEED_OF_LIGHT)"

text \<open>The packet error rate of a link: a power of the bit success rate, kept in [0, 1].\<close>

definition packet_error_rate :: "params \<Rightarrow> real \<Rightarrow> real" where
  "packet_error_rate P snr =
     (let snrLinear = 10 powr (snr / 10);
          ber = 0.5 * m_erfc P (sqrt snrLinear);
          per = 1 - (1 - ber) ^ unat (g_packetSize P * 8);
          per1 = (if per < 0 then 0 else per)
      in if per1 > 1 then 1 else per1)"

definition ApplyUeErrorModelImmediately :: "params \<Rightarrow> UeInfo \<Rightarrow> UeInfo" where
  "ApplyUeErrorModelImmediately P ue =
     (let activeSat = servingGnb (ue_context ue) in
      if activeSat = [] then ue
      else case map_of (channelCache ue) activeSat of
        None \<Rightarrow> ue
      | Some (t, m) \<Rightarrow>
          (let per = (if interruptionActive (hoState ue) then 1 else packet_error_rate P (snrDb m))
           in ue\<lparr>ulErrorRate := map_option (\<lambda>_. per) (ulErrorRate ue),
                 dlErrorRate := map_option (\<lambda>_. per) (dlErrorRate ue)\<rparr>))"

end
