(* ===== verification/Cho_Procedure.thy ===== *)
theory Cho_Procedure
  imports Cho_Measurement
begin

text \<open>
  The conditional-handover procedure of one UE: the trigger by a measurement report, the phases
  that the simulator's events drive, the evaluation of the execution condition, success and
  failure. \<open>i\<close> is the code's \<open>ueId\<close>.
\<close>

subsection \<open>Helpers\<close>

definition both_stats :: "nat \<Rightarrow> (ChoNtnStatistics \<Rightarrow> ChoNtnStatistics) \<Rightarrow> cho_world \<Rightarrow> cho_world" where
  "both_stats i f w = upd_gstats f (upd_ue i (upd_stats f) w)"

definition phase_of :: "nat \<Rightarrow> cho_world \<Rightarrow> ChoPhase" where
  "phase_of i w = phase (choProcState (the_ue i w))"

definition enter_phase :: "nat \<Rightarrow> ChoPhase \<Rightarrow> real \<Rightarrow> cho_world \<Rightarrow> cho_world" where
  "enter_phase i ph t w = upd_ue i (upd_proc (\<lambda>c. c\<lparr>phase := ph, phaseStartTime := t\<rparr>)) w"

definition set_phase :: "nat \<Rightarrow> ChoPhase \<Rightarrow> cho_world \<Rightarrow> cho_world" where
  "set_phase i ph w = upd_ue i (upd_proc (\<lambda>c. c\<lparr>phase := ph\<rparr>)) w"

subsection \<open>Trigger and preparation\<close>

definition report_target :: "MeasurementReport \<Rightarrow> cell_id" where
  "report_target r = (case neighborCells r of [] \<Rightarrow> [] | n # ns \<Rightarrow> mr_cellId n)"

definition report_target_snr :: "MeasurementReport \<Rightarrow> real" where
  "report_target_snr r = (case neighborCells r of [] \<Rightarrow> -999 | n # ns \<Rightarrow> sinr n)"

definition CHO_TriggerProcedure :: "nat \<Rightarrow> MeasurementReport option \<Rightarrow> cho_world \<Rightarrow> cho_world" where
  "CHO_TriggerProcedure i report w =
     (case report of None \<Rightarrow> w | Some r \<Rightarrow>
      if phase_of i w \<noteq> CHO_IDLE then w
      else let t = now_s w; src = mr_cellId (servingCell r); tgt = report_target r;
               delay = GetUuDelayForUe (the_ue i w) src + DELAY_RRC_PROC;
               w1 = upd_ue i (upd_proc (\<lambda>c. c\<lparr>phase := CHO_MEAS_REPORT_UPLINK, sourceCell := src,
                      targetCell := tgt, procedureStartTime := t, phaseStartTime := t,
                      failed := False, failureReason := [], servingSnrAtReport := sinr (servingCell r),
                      targetSnrAtReport := report_target_snr r, measReportUplinkDelay := delay,
                      reconfigDownlinkDelay := delay\<rparr>)) w;
               w2 = both_stats i (\<lambda>s. s\<lparr>totalReports := totalReports s + 1, st_lastReportTime := t\<rparr>) w1;
               w3 = cho_log [Num t, Whole (int i), Str ''CHO_TRIGGERED'', Str src, Str tgt,
                      Num (sinr (servingCell r)), Num (report_target_snr r), Num (delay * 1000),
                      Str [], Str ''START''] w2;
               w4 = xn_log [Num t, Whole (int i), Str ''MEAS_REPORT_UPLINK'', Str ''UE'', Str src,
                      Str ''Uu'', Txt [Str ''MeasReport_delay='', Num (delay * 1000), Str ''ms'']] w3
           in schedule_s delay (CHO_Phase1 i src tgt) w4)"

definition CHO_Phase1_ReportArrived :: "nat \<Rightarrow> cell_id \<Rightarrow> cell_id \<Rightarrow> cho_world \<Rightarrow> cho_world" where
  "CHO_Phase1_ReportArrived i src tgt w =
     (if phase_of i w \<noteq> CHO_MEAS_REPORT_UPLINK then w
      else schedule_s 0.001 (CHO_Phase2 i src tgt) (enter_phase i CHO_GNB_CHO_DECISION (now_s w) w))"

definition CHO_Phase2_SendXnRequest :: "nat \<Rightarrow> cell_id \<Rightarrow> cell_id \<Rightarrow> cho_world \<Rightarrow> cho_world" where
  "CHO_Phase2_SendXnRequest i src tgt w =
     (if phase_of i w \<noteq> CHO_GNB_CHO_DECISION then w
      else let t = now_s w;
               w1 = enter_phase i CHO_XN_REQUEST t w;
               islDelay = GetIslDelay (g_satellites w) src tgt t;
               w2 = xn_log [Num t, Whole (int i), Str ''CHO_REQUEST'', Str src, Str tgt, Str ''Xn'',
                      Str ''CHO_indication=true'',
                      Txt [Str ''ISL_delay='', Num (islDelay * 1000), Str ''ms'']] w1
           in schedule_s (islDelay + 0.002) (CHO_Phase3 i src tgt) w2)"

definition CHO_Phase3_XnResponse :: "nat \<Rightarrow> cell_id \<Rightarrow> cell_id \<Rightarrow> cho_world \<Rightarrow> cho_world" where
  "CHO_Phase3_XnResponse i src tgt w =
     (if phase_of i w \<noteq> CHO_XN_REQUEST then w
      else let t = now_s w;
               w1 = enter_phase i CHO_XN_RESPONSE t w;
               islDelay = GetIslDelay (g_satellites w) tgt src t
           in schedule_s (islDelay + 0.001) (CHO_Phase4 i src tgt) w1)"

definition CHO_Phase4_SendRrcReconfig :: "nat \<Rightarrow> cell_id \<Rightarrow> cell_id \<Rightarrow> cho_world \<Rightarrow> cho_world" where
  "CHO_Phase4_SendRrcReconfig i src tgt w =
     (if phase_of i w \<noteq> CHO_XN_RESPONSE then w
      else let w1 = enter_phase i CHO_RRC_RECONFIG_DOWNLINK (now_s w) w;
               w2 = both_stats i (\<lambda>s. s\<lparr>configsSent := configsSent s + 1\<rparr>) w1
           in schedule_s (reconfigDownlinkDelay (choProcState (the_ue i w2))) (CHO_Phase5 i src tgt) w2)"

definition ChoConfiguration_stored :: "cell_id \<Rightarrow> real \<Rightarrow> real \<Rightarrow> ChoConfiguration" where
  "ChoConfiguration_stored tgt t expiry =
     \<lparr>cc_targetCellId = tgt, configurationTime = t, isValid = True, expiryTime = expiry,
      executionCondition = None, conditionMet = None, conditionMetTime = None\<rparr>"

definition CHO_Phase5_UeStoresConfig :: "params \<Rightarrow> nat \<Rightarrow> cell_id \<Rightarrow> cell_id \<Rightarrow> cho_world \<Rightarrow> cho_world" where
  "CHO_Phase5_UeStoresConfig P i src tgt w =
     (if phase_of i w \<noteq> CHO_RRC_RECONFIG_DOWNLINK then w
      else let t = now_s w; expiry = t + configValidityPeriod (g_choNtnConfig P);
               w1 = upd_ue i (upd_proc (\<lambda>c. c\<lparr>phase := CHO_CONFIG_STORED, phaseStartTime := t,
                      configReceivedTime := t, configExpiryTime := expiry\<rparr>)) w;
               w2 = both_stats i (\<lambda>s. s\<lparr>configsReceived := configsReceived s + 1\<rparr>) w1;
               ackUplinkDelay = GetUuDelayForUe (the_ue i w2) src;
               w3 = cho_log [Num t, Whole (int i), Str ''CONFIG_STORED'', Str src, Str tgt, Str [], Str [],
                      Str [], Str [], Str ''STORED_ACK''] w2;
               w4 = xn_log [Num (t + ackUplinkDelay), Whole (int i), Str ''RRC_RECONFIG_COMPLETE'',
                      Str ''UE'', Str src, Str ''Uu'', Str ''CHO_config_acknowledged''] w3;
               w5 = upd_ue i (upd_proc (\<lambda>c. c\<lparr>phase := CHO_UE_EVALUATING, executionTttActive := False,
                      executionTttStartTime := -1,
                      executionTimeToTrigger := cfg_executionTimeToTrigger (g_choNtnConfig P)\<rparr>)) w4;
               w6 = upd_ue i (upd_cfg (\<lambda>g. g\<lparr>choConfigs :=
                        smap_set tgt (ChoConfiguration_stored tgt t expiry) (choConfigs g),
                      choConfigsReceived := choConfigsReceived g + 1\<rparr>)) w5
           in xn_log [Num t, Whole (int i), Str ''CONDITIONAL_CONFIG_STORED'', Str ''UE'', Str src,
                Str ''Uu'', Txt [Str ''Config_valid_until='', Num expiry, Str ''s'']] w6)"

subsection \<open>Execution\<close>

definition snr_or :: "UeInfo \<Rightarrow> cell_id \<Rightarrow> real \<Rightarrow> real" where
  "snr_or ue c dflt = (case map_of (channelCache ue) c of None \<Rightarrow> dflt | Some (t, m) \<Rightarrow> snrDb m)"

definition execution_time :: "UeInfo \<Rightarrow> cell_id \<Rightarrow> cell_id \<Rightarrow> real" where
  "execution_time ue src tgt =
     (let uuDelaySource = GetUuDelayForUe ue src; uuDelayTarget = GetUuDelayForUe ue tgt;
          ueProcessing = DELAY_RRC_PROC + DELAY_BEAM_SWITCH;
          rachDuration = uuDelayTarget * 4 + 0.020
      in uuDelaySource + ueProcessing + rachDuration)"

definition CHO_Phase6_UeExecutes :: "params \<Rightarrow> nat \<Rightarrow> cell_id \<Rightarrow> cell_id \<Rightarrow> cho_world \<Rightarrow> cho_world" where
  "CHO_Phase6_UeExecutes P i src tgt w =
     (if phase_of i w \<noteq> CHO_UE_EVALUATING then w
      else let t = now_s w;
               w1 = upd_ue i (upd_cfg (\<lambda>g. g\<lparr>executionPending := True, executionTargetCell := tgt,
                      executionTriggerTime := t\<rparr>)) w;
               w2 = upd_ue i (\<lambda>ue. upd_proc (\<lambda>c. c\<lparr>phase := CHO_UE_EXECUTING, phaseStartTime := t,
                      executionStartTime := t,
                      servingSnrAtExecution := snr_or ue src (servingSnrAtExecution c),
                      targetSnrAtExecution := snr_or ue tgt (targetSnrAtExecution c)\<rparr>) ue) w1;
               w3 = both_stats i (\<lambda>s. s\<lparr>executionsTriggered := executionsTriggered s + 1\<rparr>) w2;
               total = execution_time (the_ue i w3) src tgt;
               c = choProcState (the_ue i w3);
               w4 = cho_log [Num t, Whole (int i), Str ''EXECUTION_TRIGGERED'', Str src, Str tgt,
                      Num (servingSnrAtExecution c), Num (targetSnrAtExecution c), Num (total * 1000),
                      Str [], Str ''AUTONOMOUS''] w3;
               w5 = xn_log [Num t, Whole (int i), Str ''CHO_AUTONOMOUS_EXECUTION'', Str ''UE'', Str tgt,
                      Str ''Uu'', Str ''UE_autonomous_trigger'',
                      Txt [Str ''exec_delay='', Num (total * 1000), Str ''ms'']] w4;
               w6 = upd_ue i (\<lambda>ue. ue\<lparr>hoState := (hoState ue)\<lparr>interruptionActive := True\<rparr>\<rparr>) w5;
               w7 = upd_ue i (ApplyUeErrorModelImmediately P) w6
           in schedule_s total (CHO_Phase7 i src tgt) w7)"

definition CHO_HandleFailure :: "nat \<Rightarrow> string \<Rightarrow> real \<Rightarrow> cho_world \<Rightarrow> cho_world" where
  "CHO_HandleFailure i reason failureTime w =
     (let c = choProcState (the_ue i w);
          totalDelay = failureTime - procedureStartTime c;
          w1 = cho_log [Num failureTime, Whole (int i), Str ''CHO_FAILURE'', Str (sourceCell c),
                 Str (targetCell c), Str [], Str [], Str [], Num (totalDelay * 1000), Str reason] w;
          w2 = ho_log [Num failureTime, Whole (int i), Str (sourceCell c), Str (targetCell c), Str [],
                 Str [], Txt [Str ''FAILURE_'', Str reason]] w1;
          w3 = upd_ue i (\<lambda>ue. ue\<lparr>hoFail := hoFail ue + 1,
                 hoState := (hoState ue)\<lparr>interruptionActive := False\<rparr>\<rparr>) w2;
          w4 = upd_ue i (upd_cfg (\<lambda>g. g\<lparr>choConfigs := []\<rparr>)) w3;
          w5 = upd_ue i ResetHoContext w4
      in upd_ue i (upd_proc (\<lambda>c. c\<lparr>phase := CHO_IDLE, failed := True, failureReason := reason\<rparr>)) w5)"

definition count_success :: "real \<Rightarrow> real \<Rightarrow> ChoNtnStatistics \<Rightarrow> ChoNtnStatistics" where
  "count_success procDelay execDelay s =
     (let n = successfulHandovers s + 1;
          p = totalProcedureDelay s + procDelay; e = totalExecutionDelay s + execDelay
      in s\<lparr>totalProcedureDelay := p, totalExecutionDelay := e, successfulHandovers := n,
           avgProcedureDelay := p / of_nat (unat n), avgExecutionDelay := e / of_nat (unat n)\<rparr>)"

text \<open>The state a successful execution leaves in the UE, in the order of the assignments. The loop
  over the other candidates (\<open>HANDOVER CANCEL\<close>) has an empty body.\<close>

definition complete_ue :: "params \<Rightarrow> cell_id \<Rightarrow> UeInfo \<Rightarrow> UeInfo" where
  "complete_ue P tgt ue =
     (let u1 = ue\<lparr>hoCount := hoCount ue + 1, ue_context := (ue_context ue)\<lparr>servingGnb := tgt\<rparr>\<rparr>;
          u2 = upd_meas (\<lambda>ms. ms\<lparr>servingCellId := tgt, triggerActive := False, triggerStartTime := -1,
                 candidateTargetCell := [], lastMeasurements := []\<rparr>) u1;
          u3 = upd_cfg (\<lambda>g. g\<lparr>executionPending := False, executionTargetCell := [], choConfigs := []\<rparr>) u2;
          u4 = u3\<lparr>hoState := (hoState u3)\<lparr>interruptionActive := False\<rparr>\<rparr>
      in ResetHoContext (ApplyUeErrorModelImmediately P u4))"

definition success_logs :: "nat \<Rightarrow> cell_id \<Rightarrow> cell_id \<Rightarrow> real \<Rightarrow> real \<Rightarrow> real \<Rightarrow> cho_world \<Rightarrow> cho_world" where
  "success_logs i src tgt t procDelay execDelay w =
     (let ue = the_ue i w; c = choProcState ue;
          servingSnr = snr_or ue src (-999); targetSnr = snr_or ue tgt (-999);
          dist_km = (\<lambda>cell. case map_of (channelCache ue) cell of
                      None \<Rightarrow> 0 | Some (_, m) \<Rightarrow> met_distance m / 1000);
          w1 = cho_log [Num t, Txt [Str ''CHO_SUCCESS_UE'', Whole (int i)], Str src, Str tgt,
                 Num servingSnr, Num targetSnr, Num (procDelay * 1000),
                 Num (targetSnr - servingSnrAtReport c), Str ''COMPLETE''] w;
          w2 = ho_log [Num t, Whole (int i), Str src, Str tgt, Num (servingSnrAtReport c),
                 Num targetSnr, Num 0, Num (dist_km src), Num (dist_km tgt)] w1
      in xn_log [Num t, Whole (int i), Str ''CHO_COMPLETE'', Str tgt, Str ''5GC-AMF'', Str ''NG'',
           Str ''Path_switched'', Txt [Str ''total_delay='', Num (procDelay * 1000), Str ''ms''],
           Txt [Str ''exec_delay='', Num (execDelay * 1000), Str ''ms''],
           Txt [Str ''UE='', Whole (int i)]] w2)"

definition CHO_Phase7_ExecutionComplete :: "params \<Rightarrow> nat \<Rightarrow> cell_id \<Rightarrow> cell_id \<Rightarrow> cho_world \<Rightarrow> cho_world" where
  "CHO_Phase7_ExecutionComplete P i src tgt w =
     (if phase_of i w \<noteq> CHO_UE_EXECUTING then w
      else let t = now_s w; ue = the_ue i w; targetSnr = snr_or ue tgt (-999) in
      if \<not> CHO_IsLinkViable P ue tgt
      then let reason = ''TARGET_NOT_VIABLE (SINR='' @ m_to_string P targetSnr @ '' dB)'';
               w1 = both_stats i (\<lambda>s. s\<lparr>failedAtExecution := failedAtExecution s + 1\<rparr>) w
           in CHO_HandleFailure i reason t w1
      else let c = choProcState ue;
               procDelay = t - configReceivedTime c; execDelay = t - executionStartTime c;
               w1 = both_stats i (count_success procDelay execDelay) w;
               w2 = set_phase i CHO_XN_CANCEL w1;
               islDelayToSource = GetIslDelay (g_satellites w) tgt src t;
               w3 = xn_log [Num t, Whole (int i), Str ''HANDOVER_SUCCESS'', Str tgt, Str src, Str ''Xn'',
                      Str ''CHO_execution_confirmed'',
                      Txt [Str ''ISL_delay='', Num (islDelayToSource * 1000), Str ''ms'']] w2;
               islDelayToTarget = GetIslDelay (g_satellites w) src tgt t;
               w4 = xn_log [Num (t + 0.002), Whole (int i), Str ''SN_STATUS_TRANSFER'', Str src, Str tgt,
                      Str ''Xn'', Str ''PDCP_SN_transfer'',
                      Txt [Str ''ISL_delay='', Num (islDelayToTarget * 1000), Str ''ms'']] w3;
               w5 = w4\<lparr>g_handoverCount := g_handoverCount w4 + 1\<rparr>;
               w6 = upd_ue i (complete_ue P tgt) w5;
               w7 = success_logs i src tgt t procDelay execDelay w6
           in upd_ue i (upd_proc (\<lambda>c. c\<lparr>phase := CHO_IDLE, failed := False\<rparr>)) w7)"

subsection \<open>The execution condition\<close>

definition execution_condition :: "params \<Rightarrow> real \<Rightarrow> real \<Rightarrow> bool" where
  "execution_condition P servingSinr targetSinr \<longleftrightarrow>
     targetSinr - servingSinr \<ge> g_choExecutionOffset P \<and> servingSinr > g_minSNR P"

definition CHO_CheckExecutionCondition :: "params \<Rightarrow> nat \<Rightarrow> real \<Rightarrow> cho_world \<Rightarrow> cho_world" where
  "CHO_CheckExecutionCondition P i currentTime w =
     (let ue = the_ue i w; c = choProcState ue in
      if phase c \<noteq> CHO_UE_EVALUATING then w
      else if currentTime > configExpiryTime c
      then let w1 = both_stats i (\<lambda>s. s\<lparr>configsExpired := configsExpired s + 1\<rparr>) w;
               w2 = set_phase i CHO_IDLE w1;
               w3 = upd_ue i (upd_cfg (\<lambda>g. g\<lparr>choConfigs := []\<rparr>)) w2
           in upd_ue i ResetHoContext w3
      else case (map_of (channelCache ue) (sourceCell c), map_of (channelCache ue) (targetCell c)) of
        (Some (t1, s), Some (t2, m)) \<Rightarrow>
          (if execution_condition P (snrDb s) (snrDb m)
           then if \<not> executionTttActive c
                then upd_ue i (upd_proc (\<lambda>c. c\<lparr>executionTttActive := True,
                       executionTttStartTime := currentTime\<rparr>)) w
                else if currentTime - executionTttStartTime c \<ge> executionTimeToTrigger c
                then CHO_Phase6_UeExecutes P i (sourceCell c) (targetCell c)
                       (upd_ue i (upd_proc (\<lambda>c. c\<lparr>executionTttActive := False\<rparr>)) w)
                else w
           else upd_ue i (upd_proc (\<lambda>c. c\<lparr>executionTttActive := False,
                  executionTttStartTime := -1\<rparr>)) w)
      | _ \<Rightarrow> w)"

end
