(* ===== verification/Cho_Control.thy ===== *)
theory Cho_Control
  imports Cho_Procedure
begin

text \<open>
  The periodic task of the simulation, \<open>CheckHandoverConditions\<close>, and what it runs: the channel
  of every UE, the error model and delay of its link, the verification of pending records, the
  handover check and the visualization snapshot; and the dispatch of the simulator's events.
\<close>

subsection \<open>Choosing a satellite\<close>

text \<open>The loop of \<open>SelectBestSatellite\<close> and of \<open>GetBestNeighborForVisualization\<close>: the first
  entry of largest SNR, over -999 dB, among those not skipped.\<close>

definition best_scan :: "(string \<Rightarrow> UeSatMetrics \<Rightarrow> bool) \<Rightarrow> string \<Rightarrow> (real \<times> UeSatMetrics) smap \<Rightarrow>
    string \<times> real" where
  "best_scan skip start cache =
     foldl (\<lambda>(best, snr) (n, t, m).
         if skip n m then (best, snr) else if snrDb m > snr then (n, snrDb m) else (best, snr))
       (start, -999) cache"

definition SelectBestSatellite :: "params \<Rightarrow> nat \<Rightarrow> string \<Rightarrow> cho_world \<Rightarrow> string" where
  "SelectBestSatellite P i currentSat w =
     (let ue = the_ue i w;
          currentSNR = snr_or ue currentSat (-999);
          skip = (\<lambda>n m. met_elevation m < 0 \<or> trajectory_over (g_satellites w) (now_s w) n);
          (bestSat, bestSNR) = best_scan skip currentSat (channelCache ue)
      in if bestSat \<noteq> currentSat \<and> bestSNR < currentSNR + g_choExecutionOffset P then currentSat
         else bestSat)"

definition GetBestNeighborForVisualization :: "nat \<Rightarrow> string \<Rightarrow> cho_world \<Rightarrow> string \<times> real" where
  "GetBestNeighborForVisualization i servingSat w =
     best_scan (\<lambda>n m. n = servingSat \<or> met_elevation m < 0 \<or>
                 trajectory_over (g_satellites w) (now_s w) n) [] (channelCache (the_ue i w))"

subsection \<open>Channel of all UEs\<close>

definition refresh_ue :: "params \<Rightarrow> satellites \<Rightarrow> real \<Rightarrow> UeInfo \<Rightarrow> UeInfo" where
  "refresh_ue P sats simTime ue =
     foldl (\<lambda>u (n, s). snd (UpdateSatelliteState P sats n simTime u)) ue sats"

definition initial_selection :: "params \<Rightarrow> nat \<Rightarrow> cho_world \<Rightarrow> cho_world" where
  "initial_selection P i w =
     (if servingGnb (ue_context (the_ue i w)) \<noteq> [] then w
      else let best = SelectBestSatellite P i [] w in
        if best = [] then w
        else upd_ue i (\<lambda>ue. upd_meas (\<lambda>ms. ms\<lparr>servingCellId := best\<rparr>)
               (ue\<lparr>ue_context := (ue_context ue)\<lparr>servingGnb := best\<rparr>\<rparr>)) w)"

definition update_link :: "params \<Rightarrow> nat \<Rightarrow> cho_world \<Rightarrow> cho_world" where
  "update_link P i w =
     (let ue = the_ue i w; simTime = now_s w; activeSat = servingGnb (ue_context ue) in
      if activeSat = [] then w
      else case map_of (channelCache ue) activeSat of
        None \<Rightarrow> w
      | Some (t, m) \<Rightarrow>
          (let snrLinear = 10 powr (snrDb m / 10);
               ber = 0.5 * m_erfc P (sqrt snrLinear);
               bitsPerPacket = g_packetSize P * 8;
               per0 = 1 - (1 - ber) ^ unat bitsPerPacket;
               per1 = max 0 (min 1 per0);
               per = (if interruptionActive (hoState ue) then 1 else per1);
               propDelay = met_distance m / SPEED_OF_LIGHT;
               w1 = upd_ue i (\<lambda>ue. ue\<lparr>ulErrorRate := map_option (\<lambda>_. per) (ulErrorRate ue),
                      dlErrorRate := map_option (\<lambda>_. per) (dlErrorRate ue),
                      p2pDelay := map_option (\<lambda>_. Seconds propDelay) (p2pDelay ue)\<rparr>) w
           in w1\<lparr>g_channelLog := g_channelLog w1 @
                   [[Num simTime, Whole (int i), Str activeSat, Num (met_distance m / 1000),
                     Num (met_elevation m), Num (snrDb m), Num (dopplerShift m / 1000)]],
                 g_snrLog := g_snrLog w1 @
                   [[Num simTime, Whole (int i), Str activeSat, Num (met_distance m / 1000),
                     Num (met_elevation m), Num (snrDb m), Num ber, Num (per * 100),
                     Whole (if interruptionActive (hoState ue) then 1 else 0)]]\<rparr>))"

definition UpdateChannelState :: "params \<Rightarrow> cho_world \<Rightarrow> cho_world" where
  "UpdateChannelState P w =
     foldl (\<lambda>w i. update_link P i (initial_selection P i w)) w [0..<length (g_ues w)]"

subsection \<open>Pending records\<close>

definition validation_rows :: "UeInfo list \<Rightarrow> PendingMeasurementValidation \<Rightarrow> row list" where
  "validation_rows ues v =
     (case GetSnrAtTime (ues ! pv_ueId v) (pv_cellId v) (pv_verificationTime v) of
        None \<Rightarrow> []
      | Some futureSinr \<Rightarrow>
          [[Num (pv_recordTime v), Whole (int (pv_ueId v)), Str (pv_cellId v), Num (pv_distanceTrend v),
            Num (pv_currentSinr v), Num futureSinr, Num (futureSinr - pv_currentSinr v)]])"

text \<open>The loop with \<open>erase\<close>: due records go to the log, the others stay.\<close>

fun verify_validations :: "real \<Rightarrow> UeInfo list \<Rightarrow> PendingMeasurementValidation list \<Rightarrow>
    row list \<times> PendingMeasurementValidation list" where
  "verify_validations simTime ues [] = ([], [])"
| "verify_validations simTime ues (v # vs) =
     (let (rows, rest) = verify_validations simTime ues vs in
      if simTime \<ge> pv_verificationTime v then (validation_rows ues v @ rows, rest)
      else (rows, v # rest))"

definition VerifyPendingMeasurements :: "cho_world \<Rightarrow> cho_world" where
  "VerifyPendingMeasurements w =
     (let (rows, rest) = verify_validations (now_s w) (g_ues w) (g_pendingMeasurementValidations w)
      in w\<lparr>g_trendValidationLog := g_trendValidationLog w @ rows,
           g_pendingMeasurementValidations := rest\<rparr>)"

definition followup_row :: "UeInfo list \<Rightarrow> PendingServingSnrFollowup \<Rightarrow> row" where
  "followup_row ues f =
     (let found = GetSnrAtTime (ues ! pf_ueId f) (pf_servingCellId f) (pf_verificationTime f);
          head = [Num (pf_recordTime f), Whole (int (pf_ueId f)), Str (pf_servingCellId f),
                  Num (pf_servingSnrTrend f), Num (pf_servingDistanceTrend f), Num (pf_currentSinr f),
                  Num (horizonSec f), Num (pf_verificationTime f)]
      in case found of
           None \<Rightarrow> head @ [Whole 0, Str ''NA'', Str ''NA'', Whole 0, Whole 0]
         | Some futureSinr \<Rightarrow>
             (let sinrDelta = futureSinr - pf_currentSinr f
              in head @ [Whole 1, Num futureSinr, Num sinrDelta, Whole (if sinrDelta < 0 then 1 else 0),
                         Whole (if sinrDelta \<le> -1 then 1 else 0)]))"

fun verify_followups :: "real \<Rightarrow> UeInfo list \<Rightarrow> PendingServingSnrFollowup list \<Rightarrow>
    row list \<times> PendingServingSnrFollowup list" where
  "verify_followups simTime ues [] = ([], [])"
| "verify_followups simTime ues (f # fs) =
     (let (rows, rest) = verify_followups simTime ues fs in
      if simTime \<ge> pf_verificationTime f then (followup_row ues f # rows, rest)
      else (rows, f # rest))"

definition VerifyPendingServingSnrFollowups :: "cho_world \<Rightarrow> cho_world" where
  "VerifyPendingServingSnrFollowups w =
     (let (rows, rest) = verify_followups (now_s w) (g_ues w) (g_pendingServingSnrFollowups w)
      in w\<lparr>g_servingSnrFollowupLog := g_servingSnrFollowupLog w @ rows,
           g_pendingServingSnrFollowups := rest\<rparr>)"

subsection \<open>Handover check and snapshot\<close>

definition CheckHandover :: "params \<Rightarrow> real \<Rightarrow> nat \<Rightarrow> cho_world \<Rightarrow> cho_world" where
  "CheckHandover P simTime i w =
     (let ue = the_ue i w in
      if phase (choProcState ue) \<noteq> CHO_IDLE
      then (if phase (choProcState ue) = CHO_UE_EVALUATING then CHO_CheckExecutionCondition P i simTime w
            else w)
      else if currentPhase (hoState ue) \<noteq> PHASE_IDLE then w
      else let activeSat = servingGnb (ue_context ue) in
      if activeSat = [] then w
      else let w1 = (if servingCellId (measState ue) = [] \<or> servingCellId (measState ue) \<noteq> activeSat
                     then upd_ue i (upd_meas (\<lambda>ms. ms\<lparr>servingCellId := activeSat,
                            ms_lastMeasurementTime := simTime, triggerActive := False,
                            triggerStartTime := -1, candidateTargetCell := []\<rparr>)) w
                     else w) in
      if simTime - ms_lastMeasurementTime (measState (the_ue i w1)) <
           measurementPeriod (measConfig (the_ue i w1)) then w1
      else let w2 = upd_ue i (upd_meas (\<lambda>ms. ms\<lparr>ms_lastMeasurementTime := simTime\<rparr>)) w1;
               (report, w3) = UE_EvaluateAndReport P i simTime w2
           in CHO_TriggerProcedure i report w3)"

definition geo_of :: "satellites \<Rightarrow> string \<Rightarrow> real \<Rightarrow> real \<times> real \<times> real" where
  "geo_of sats name simTime =
     (if name = [] then (0, 0, 0) else the (InterpolateGeoPosition sats name simTime))"

definition snapshot_row :: "real \<Rightarrow> cho_world \<Rightarrow> nat \<Rightarrow> row" where
  "snapshot_row simTime w i =
     (let ue = the_ue i w; servingSat = servingGnb (ue_context ue);
          (sLat, sLon, sAlt) = geo_of (g_satellites w) servingSat simTime;
          servingSnr = (if servingSat = [] then -999 else snr_or ue servingSat (-999));
          (bestSat, bestSnr) = GetBestNeighborForVisualization i servingSat w;
          (nLat, nLon, nAlt) = geo_of (g_satellites w) bestSat simTime
      in [Num simTime, Whole (int i), Num (lat ue), Num (lon ue), Str servingSat, Num sLat, Num sLon,
          Num sAlt, Num servingSnr, Str bestSat, Num nLat, Num nLon, Num nAlt, Num bestSnr,
          Whole (if phase (choProcState ue) \<noteq> CHO_IDLE then 1 else 0)])"

definition WriteVisualizationSnapshot :: "real \<Rightarrow> cho_world \<Rightarrow> cho_world" where
  "WriteVisualizationSnapshot simTime w =
     w\<lparr>g_visualSnapshotLog := g_visualSnapshotLog w @
        map (snapshot_row simTime w) [0..<length (g_ues w)]\<rparr>"

definition CheckHandoverConditions :: "params \<Rightarrow> cho_world \<Rightarrow> cho_world" where
  "CheckHandoverConditions P w =
     (let simTime = now_s w;
          w1 = w\<lparr>g_ues := map (refresh_ue P (g_satellites w) simTime) (g_ues w)\<rparr>;
          w2 = UpdateChannelState P w1;
          w3 = VerifyPendingMeasurements w2;
          w4 = VerifyPendingServingSnrFollowups w3;
          w5 = foldl (\<lambda>w i. CheckHandover P simTime i w) w4 [0..<length (g_ues w4)];
          w6 = WriteVisualizationSnapshot simTime w5
      in schedule_s 1 HandoverTick w6)"

text \<open>What each event of the queue calls; \<open>PrintLinkQuality\<close> only reads the flow monitor and
  prints.\<close>

fun cho_handler :: "params \<Rightarrow> cho_event \<Rightarrow> cho_world \<Rightarrow> cho_world" where
  "cho_handler P (CHO_Phase1 i s t) w = CHO_Phase1_ReportArrived i s t w"
| "cho_handler P (CHO_Phase2 i s t) w = CHO_Phase2_SendXnRequest i s t w"
| "cho_handler P (CHO_Phase3 i s t) w = CHO_Phase3_XnResponse i s t w"
| "cho_handler P (CHO_Phase4 i s t) w = CHO_Phase4_SendRrcReconfig i s t w"
| "cho_handler P (CHO_Phase5 i s t) w = CHO_Phase5_UeStoresConfig P i s t w"
| "cho_handler P (CHO_Phase7 i s t) w = CHO_Phase7_ExecutionComplete P i s t w"
| "cho_handler P (EvalPrediction p) w = EvaluatePendingPrediction p w"
| "cho_handler P HandoverTick w = CheckHandoverConditions P w"
| "cho_handler P (LinkQualityPrint c) w = w"

end
