(* ===== verification/Cho_Setup.thy ===== *)
theory Cho_Setup
  imports Cho_Control
begin

text \<open>
  Before the run: the CSV readers that fill \<open>g_satellites\<close> and \<open>g_ues\<close>, and the events and
  state the simulation starts from. A file is the list of its lines after the header. The number
  and date parsers of the standard library are arguments: \<open>absTime\<close> for \<open>strptime\<close> with
  \<open>timegm\<close>, \<open>stod\<close> and \<open>stoi\<close>, which throw where they are \<^const>\<open>None\<close>.
\<close>

text \<open>The loop \<open>while (std::getline (ss, field, ','))\<close>.\<close>

function split_fields :: "string \<Rightarrow> string list" where
  "split_fields [] = []"
| "split_fields (c # s) =
     takeWhile (\<lambda>x. x \<noteq> CHR '','') (c # s) #
     split_fields (drop 1 (dropWhile (\<lambda>x. x \<noteq> CHR '','') (c # s)))"
  by pat_completeness auto
termination
  by (relation "measure length") (auto simp: less_Suc_eq_le le_diff_conv intro: order.trans [OF length_dropWhile_le])

subsection \<open>Satellites\<close>

record SatelliteInfo =
  si_name :: string
  peakElevation :: real
  firstAppearanceTime :: real
  lastSeenTime :: real
  minDistance :: real
  visibilityCount :: int

definition see_satellite :: "string \<Rightarrow> real \<Rightarrow> real \<Rightarrow> real \<Rightarrow> SatelliteInfo smap \<Rightarrow> SatelliteInfo smap" where
  "see_satellite satName elev dst relTime infos =
     (case map_of infos satName of
        None \<Rightarrow> smap_set satName \<lparr>si_name = satName, peakElevation = elev, firstAppearanceTime = relTime,
                  lastSeenTime = relTime, minDistance = dst, visibilityCount = 1\<rparr> infos
      | Some info \<Rightarrow> smap_set satName
          (info\<lparr>peakElevation := (if elev > peakElevation info then elev else peakElevation info),
                minDistance := (if dst < minDistance info then dst else minDistance info),
                lastSeenTime := relTime, visibilityCount := visibilityCount info + 1\<rparr>) infos)"

fun discover_lines :: "(string \<Rightarrow> real) \<Rightarrow> (string \<Rightarrow> real option) \<Rightarrow> real \<Rightarrow> real \<Rightarrow>
    SatelliteInfo smap \<Rightarrow> string list \<Rightarrow> SatelliteInfo smap" where
  "discover_lines absTime stod simTime startTime infos [] = infos"
| "discover_lines absTime stod simTime startTime infos (line # rest) =
     (let fields = split_fields line in
      if length fields < 5 then discover_lines absTime stod simTime startTime infos rest
      else let t = absTime (fields ! 0);
               start = (if startTime < 0 then t else startTime);
               relativeTime = t - start
      in if relativeTime > simTime then infos
         else (case (stod (fields ! 2), stod (fields ! 3)) of
                 (Some elev, Some dst) \<Rightarrow> discover_lines absTime stod simTime start
                   (see_satellite (fields ! 1) elev dst relativeTime infos) rest
               | _ \<Rightarrow> discover_lines absTime stod simTime start infos rest))"

definition DiscoverSatellites :: "(string \<Rightarrow> real) \<Rightarrow> (string \<Rightarrow> real option) \<Rightarrow> string list option \<Rightarrow>
    real \<Rightarrow> real \<Rightarrow> string list" where
  "DiscoverSatellites absTime stod csvFile minElevation simTime =
     (case csvFile of None \<Rightarrow> []
      | Some ls \<Rightarrow> map (\<lambda>(n, info). si_name info)
          (filter (\<lambda>(n, info). peakElevation info \<ge> minElevation)
            (discover_lines absTime stod simTime (-1) [] ls)))"

definition trajectory_point :: "real \<Rightarrow> real \<Rightarrow> real \<Rightarrow> real \<Rightarrow> TrajectoryPoint" where
  "trajectory_point t sat_lat sat_lon sat_alt =
     (let (x, y, z) = GeographicToECEF sat_lat sat_lon sat_alt
      in \<lparr>tp_time = t, x_ecef = x, y_ecef = y, z_ecef = z, lat_deg = sat_lat, lon_deg = sat_lon,
          alt_m = sat_alt\<rparr>)"

fun trajectory_lines :: "(string \<Rightarrow> real) \<Rightarrow> (string \<Rightarrow> real option) \<Rightarrow> string \<Rightarrow> real \<Rightarrow>
    TrajectoryPoint list \<Rightarrow> string list \<Rightarrow> TrajectoryPoint list" where
  "trajectory_lines absTime stod satName startTime tr [] = tr"
| "trajectory_lines absTime stod satName startTime tr (line # rest) =
     (let fields = split_fields line in
      if length fields < 11 then trajectory_lines absTime stod satName startTime tr rest
      else let t = absTime (fields ! 0);
               start = (if startTime < 0 then t else startTime)
      in if fields ! 1 \<noteq> satName then trajectory_lines absTime stod satName start tr rest
         else (case (stod (fields ! 5), stod (fields ! 6), stod (fields ! 7)) of
                 (Some la, Some lo, Some al) \<Rightarrow> trajectory_lines absTime stod satName start
                   (tr @ [trajectory_point (t - start) la lo (al * 1000)]) rest
               | _ \<Rightarrow> trajectory_lines absTime stod satName start tr rest))"

definition LoadTrajectory :: "(string \<Rightarrow> real) \<Rightarrow> (string \<Rightarrow> real option) \<Rightarrow> string list option \<Rightarrow>
    string \<Rightarrow> satellites \<Rightarrow> bool \<times> satellites" where
  "LoadTrajectory absTime stod csvFile satName sats =
     (case csvFile of None \<Rightarrow> (False, sats)
      | Some ls \<Rightarrow>
          (let tr = trajectory_lines absTime stod satName (-1) [] ls in
           if tr = [] then (False, sats)
           else (True, smap_set satName \<lparr>sat_name = satName, trajectory = tr\<rparr> sats)))"

subsection \<open>UEs\<close>

definition UeInfo_init :: "params \<Rightarrow> nat \<Rightarrow> int \<Rightarrow> string \<Rightarrow> string \<Rightarrow> int \<Rightarrow> real \<Rightarrow> real \<Rightarrow> string \<Rightarrow> UeInfo" where
  "UeInfo_init P n sim name gid users la lo scen =
     (let (x, y, z) = GeographicToECEF la lo 0
      in \<lparr>simId = sim, groupName = name, groupId = gid, numUsers = users, lat = la, lon = lo,
          scenario = scen, ecefX = x, ecefY = y, ecefZ = z,
          ue_context = \<lparr>servingGnb = [], ctx_targetGnb = [], rrcState = UE_CONNECTED,
            ctx_lastMeasurementTime = 0, lastHandoverTime = 0, mobilityRestricted = False\<rparr>,
          hoState = \<lparr>currentPhase = PHASE_IDLE, hs_sourceGnb = [], hs_targetGnb = [], hs_startTime = 0,
            hs_phaseStartTime = 0, rachStartTime = 0, lostPackets = 0, interruptionActive = False\<rparr>,
          measConfig = \<lparr>measurementPeriod = 1, mc_timeToTrigger = g_timeToTrigger P, mc_a3Offset = 0,
            hysteresis = g_handoverHysteresis P, mc_maxDistanceThreshold = g_maxDistance P,
            mc_minElevationThreshold = 0, sinrThreshold = g_minSNR P\<rparr>,
          measState = \<lparr>servingCellId = [], ms_lastMeasurementTime = -1, triggerActive = False,
            triggerStartTime = -1, candidateTargetCell = [], lastMeasurements = [], reportsSent = 0,
            ms_lastReportTime = -1\<rparr>,
          choProcState = \<lparr>phase = CHO_IDLE, sourceCell = [], targetCell = [], procedureStartTime = 0,
            phaseStartTime = 0, servingSnrAtReport = 0, targetSnrAtReport = 0,
            configReceivedTime = -999, configExpiryTime = -999, executionConditionMetTime = -999,
            executionStartTime = -999, servingSnrAtExecution = 0, targetSnrAtExecution = 0,
            executionTttActive = False, executionTttStartTime = -1,
            executionTimeToTrigger = cfg_executionTimeToTrigger (g_choNtnConfig P),
            measReportUplinkDelay = 0, reconfigDownlinkDelay = 0, failed = False, failureReason = []\<rparr>,
          choConfigState = \<lparr>choConfigs = [], executionPending = False, executionTargetCell = [],
            executionTriggerTime = -1, choConfigsReceived = 0, choExecutionsTriggered = 0,
            choConfigsExpired = 0\<rparr>,
          hoContext = HoContext_empty, ueChoStats = ChoNtnStatistics_zero, hoCount = 0, hoFail = 0,
          ulErrorRate = None, dlErrorRate = None, p2pDelay = None, channelCache = [],
          snrHistory = [], shadowFadingCache = [], losStateCache = [], lastEvalElev = [],
          rng = g_randomSeed P + n\<rparr>)"

text \<open>\<^const>\<open>None\<close> is an exception of a number parser, which nothing catches.\<close>

fun LoadUeGroups_lines :: "params \<Rightarrow> (string \<Rightarrow> int option) \<Rightarrow> (string \<Rightarrow> real option) \<Rightarrow>
    UeInfo list \<Rightarrow> string list \<Rightarrow> UeInfo list option" where
  "LoadUeGroups_lines P stoi stod ues [] = Some ues"
| "LoadUeGroups_lines P stoi stod ues (line # rest) =
     (let fields = split_fields line in
      if length fields < 7 then LoadUeGroups_lines P stoi stod ues rest
      else (case (stoi (fields ! 0), stoi (fields ! 3), stod (fields ! 4), stod (fields ! 5)) of
              (Some sim, Some users, Some la, Some lo) \<Rightarrow>
                LoadUeGroups_lines P stoi stod
                  (ues @ [UeInfo_init P (length ues) sim (fields ! 1) (fields ! 2) users la lo (fields ! 6)])
                  rest
            | _ \<Rightarrow> None))"

subsection \<open>The start of the run\<close>

text \<open>
  \<open>main\<close> gives every UE its error models and its channel, whose attributes have the defaults 0,
  and then puts three events into the empty queue. The headers of the log files are not rows.
\<close>

definition with_devices :: "UeInfo \<Rightarrow> UeInfo" where
  "with_devices ue = ue\<lparr>ulErrorRate := Some 0, dlErrorRate := Some 0, p2pDelay := Some 0\<rparr>"

definition cho_world_init :: "satellites \<Rightarrow> UeInfo list \<Rightarrow> cho_world" where
  "cho_world_init sats ues =
     simulator.extend (DefaultSimulatorImpl_init [])
       \<lparr>g_ues = ues, g_satellites = sats, g_choNtnStats = ChoNtnStatistics_zero, g_handoverCount = 0,
        g_pendingPredictionEvals = [], g_pendingMeasurementValidations = [],
        g_pendingServingSnrFollowups = [], g_handoverLog = [], g_xnSignalingLog = [],
        g_channelLog = [], g_snrLog = [], g_choLog = [], g_trendValidationLog = [],
        g_candidateSelectionLog = [], g_servingTriggerLog = [], g_servingSnrFollowupLog = [],
        g_visualSnapshotLog = []\<rparr>"

definition cho_start :: "satellites \<Rightarrow> UeInfo list \<Rightarrow> real \<Rightarrow> cho_world" where
  "cho_start sats ues simTime =
     (let w1 = schedule_s 0 HandoverTick (cho_world_init sats (map with_devices ues));
          w2 = schedule_s 2 (LinkQualityPrint ''Initial'') w1
      in DSI_Stop_delay map_ops (Seconds simTime) w2)"

text \<open>The simulation, on the default scheduler.\<close>

definition cho_run :: "params \<Rightarrow> cho_world \<Rightarrow> cho_world option" where
  "cho_run P w = DSI_Run map_ops (cho_handler P) w"

end
