(* ===== verification/Cho_Frame.thy ===== *)
theory Cho_Frame
  imports Cho_Setup
begin

text \<open>
  What the operations of the handover simulation leave alone. The simulator's part of the state
  changes by scheduling only; the state of the radio link of a UE is separated from the state of
  its procedure; delays that the simulation schedules with are bounded, so that no schedule fails.
\<close>

subsection \<open>The simulator's part\<close>

text \<open>The simulation cancels no event.\<close>

definition sim_ok :: "cho_world \<Rightarrow> bool" where
  "sim_ok w \<longleftrightarrow> sim_inv map_invar map_events w \<and> fault w = None \<and> m_eventsWithContextEmpty w \<and>
     (\<forall>x \<in> ran (impls w). \<not> m_cancel x)"

definition evs :: "cho_world \<Rightarrow> cho_event closure multiset" where
  "evs w = pending map_events w"

definition same_sim :: "cho_world \<Rightarrow> cho_world \<Rightarrow> bool" where
  "same_sim w w' \<longleftrightarrow> simulator.truncate w' = simulator.truncate w"

lemma same_sim_refl [simp]: "same_sim w w"
  by (simp add: same_sim_def)

lemma same_sim_trans: "same_sim u v \<Longrightarrow> same_sim v w \<Longrightarrow> same_sim u w"
  by (simp add: same_sim_def)

lemma same_simD:
  assumes "same_sim w w'"
  shows "sim_events w' = sim_events w" "impls w' = impls w" "sim_uid w' = sim_uid w"
    "m_currentTs w' = m_currentTs w" "m_currentUid w' = m_currentUid w" "next_impl w' = next_impl w"
    "m_unscheduledEvents w' = m_unscheduledEvents w" "fault w' = fault w"
    "m_eventsWithContextEmpty w' = m_eventsWithContextEmpty w" "m_stop w' = m_stop w"
  using assms by (simp_all add: same_sim_def simulator.defs)

lemma same_sim_facts:
  assumes "same_sim w w'"
  shows "sim_ok w' = sim_ok w" "evs w' = evs w" "sim_uid w' = sim_uid w" "m_currentTs w' = m_currentTs w"
    "now_s w' = now_s w"
  by (simp_all add: sim_ok_def sim_inv_def event_ok_def evs_def pending_def now_s_def DSI_Now_def
      same_simD [OF assms])

lemma same_sim_basic [simp]:
  "same_sim w (upd_ue i f w)" "same_sim w (upd_gstats g w)" "same_sim w (cho_log r w)"
  "same_sim w (xn_log r w)" "same_sim w (ho_log r w)" "same_sim w (snr_log r w)"
  "same_sim w (set_ue i u w)" "same_sim w (both_stats i g w)" "same_sim w (enter_phase i ph t w)"
  "same_sim w (set_phase i ph w)" "same_sim w (success_logs i s c t p e w)"
  "same_sim w (CHO_HandleFailure i re t w)" "same_sim w (EvaluatePendingPrediction pe w)"
  by (simp_all add: same_sim_def upd_ue_def upd_gstats_def cho_log_def xn_log_def ho_log_def
      snr_log_def set_ue_def both_stats_def enter_phase_def set_phase_def success_logs_def
      CHO_HandleFailure_def EvaluatePendingPrediction_def Let_def simulator.defs)

lemma same_sim_step [simp]:
  "same_sim u (upd_ue i f w) \<longleftrightarrow> same_sim u w" "same_sim u (upd_gstats g w) \<longleftrightarrow> same_sim u w"
  "same_sim u (cho_log r w) \<longleftrightarrow> same_sim u w" "same_sim u (xn_log r w) \<longleftrightarrow> same_sim u w"
  "same_sim u (ho_log r w) \<longleftrightarrow> same_sim u w" "same_sim u (snr_log r w) \<longleftrightarrow> same_sim u w"
  "same_sim u (set_ue i x w) \<longleftrightarrow> same_sim u w" "same_sim u (both_stats i g w) \<longleftrightarrow> same_sim u w"
  "same_sim u (enter_phase i ph t w) \<longleftrightarrow> same_sim u w" "same_sim u (set_phase i ph w) \<longleftrightarrow> same_sim u w"
  "same_sim u (success_logs i s c t p e w) \<longleftrightarrow> same_sim u w"
  "same_sim u (CHO_HandleFailure i re t w) \<longleftrightarrow> same_sim u w"
  "same_sim u (w\<lparr>g_handoverCount := n\<rparr>) \<longleftrightarrow> same_sim u w"
  using same_sim_basic [of w] by (auto simp: same_sim_def simulator.defs)

text \<open>Events are left to give out ids to, and time is left before time stamps turn negative.\<close>

definition room :: "nat \<Rightarrow> cho_world \<Rightarrow> bool" where
  "room k w \<longleftrightarrow> unat (sim_uid w) + k < 2 ^ 32 \<and> uint (m_currentTs w) < 2 ^ 62"

lemma schedule_s_eq:
  assumes "0 \<le> d" "d < 2 ^ 32"
  shows "schedule_s d e w = insert_event map_ops (Seconds d + m_currentTs w) (m_currentContext w)
           (next_impl w) (MakeEvent (Call e) w)"
  using Seconds_nonneg [OF assms]
  by (simp add: schedule_s_def Simulator_Schedule_def DSI_Schedule_def Let_def MakeEvent_def)

lemma schedule_s_sim:
  assumes ok: "sim_ok w" and d: "0 \<le> d" "d < 2 ^ 32" and room: "room k w" "0 < k"
  shows "sim_ok (schedule_s d e w)" "evs (schedule_s d e w) = add_mset (Call e) (evs w)"
    "room (k - 1) (schedule_s d e w)" "now_s (schedule_s d e w) = now_s w"
    "m_currentTs (schedule_s d e w) = m_currentTs w"
proof -
  have pos: "Time_IsPositive (Seconds d)" using d by (rule Seconds_nonneg)
  have "uint (Seconds d) < 2 ^ 63"
    using ns_of_bounds(1,2) [OF d] unfolding Seconds_ns_of [OF d]
    by (simp add: uint_word_of_int take_bit_int_eq_self)
  then have "uint (Seconds d) + uint (m_currentTs w) < 2 ^ 64" using room by (simp add: room_def)
  moreover have uid: "unat (sim_uid w + 1) = unat (sim_uid w) + 1"
    using room unat_add_lem [of "sim_uid w" 1] by (simp add: room_def)
  then have "sim_uid w + 1 \<noteq> 0" by auto
  ultimately have "room_for (Seconds d) w" by (simp add: room_for_def)
  from map_sched.Simulator_Schedule_inv [OF _ pos this] ok
  have "sim_inv map_invar map_events (schedule_s d e w)"
    "evs (schedule_s d e w) = add_mset (Call e) (evs w)"
    by (simp_all add: sim_ok_def evs_def schedule_s_def)
  moreover have "\<forall>x \<in> ran (impls (schedule_s d e w)). \<not> m_cancel x"
    using ok by (auto simp: sim_ok_def schedule_s_eq [OF d] insert_event_def MakeEvent_def EventImpl_new_def
        ran_def)
  ultimately show "sim_ok (schedule_s d e w)" "evs (schedule_s d e w) = add_mset (Call e) (evs w)"
    using ok by (simp_all add: sim_ok_def schedule_s_eq [OF d] insert_event_def MakeEvent_def)
  show "m_currentTs (schedule_s d e w) = m_currentTs w"
    by (simp add: schedule_s_eq [OF d] insert_event_def MakeEvent_def)
  then show "now_s (schedule_s d e w) = now_s w" by (simp add: now_s_def DSI_Now_def)
  show "room (k - 1) (schedule_s d e w)"
    using room uid by (auto simp: room_def schedule_s_eq [OF d] insert_event_def MakeEvent_def)
qed

text \<open>The handover data is not the simulator's.\<close>

definition cho_data :: "cho_world \<Rightarrow> UeInfo list \<times> satellites \<times> ChoNtnStatistics \<times> int" where
  "cho_data w = (g_ues w, g_satellites w, g_choNtnStats w, g_handoverCount w)"

lemma schedule_s_data [simp]:
  "g_ues (schedule_s d e w) = g_ues w" "g_satellites (schedule_s d e w) = g_satellites w"
  "g_choNtnStats (schedule_s d e w) = g_choNtnStats w"
  "g_handoverCount (schedule_s d e w) = g_handoverCount w"
  by (simp_all add: schedule_s_def Simulator_Schedule_def DSI_Schedule_def Let_def MakeEvent_def
      insert_event_def raise_fault_def split: option.split)

lemma log_data [simp]:
  "g_ues (cho_log r w) = g_ues w" "g_ues (xn_log r w) = g_ues w" "g_ues (ho_log r w) = g_ues w"
  "g_ues (snr_log r w) = g_ues w" "g_ues (success_logs i s c t p e w) = g_ues w"
  "g_ues (upd_gstats f w) = g_ues w"
  "g_satellites (cho_log r w) = g_satellites w" "g_satellites (xn_log r w) = g_satellites w"
  "g_satellites (ho_log r w) = g_satellites w" "g_satellites (snr_log r w) = g_satellites w"
  "g_satellites (success_logs i s c t p e w) = g_satellites w"
  "g_satellites (upd_gstats f w) = g_satellites w" "g_satellites (upd_ue i g w) = g_satellites w"
  "g_choNtnStats (cho_log r w) = g_choNtnStats w" "g_choNtnStats (xn_log r w) = g_choNtnStats w"
  "g_choNtnStats (ho_log r w) = g_choNtnStats w" "g_choNtnStats (snr_log r w) = g_choNtnStats w"
  "g_choNtnStats (success_logs i s c t p e w) = g_choNtnStats w"
  "g_choNtnStats (upd_gstats f w) = f (g_choNtnStats w)" "g_choNtnStats (upd_ue i g w) = g_choNtnStats w"
  "g_handoverCount (cho_log r w) = g_handoverCount w" "g_handoverCount (xn_log r w) = g_handoverCount w"
  "g_handoverCount (ho_log r w) = g_handoverCount w" "g_handoverCount (snr_log r w) = g_handoverCount w"
  "g_handoverCount (success_logs i s c t p e w) = g_handoverCount w"
  "g_handoverCount (upd_gstats f w) = g_handoverCount w" "g_handoverCount (upd_ue i g w) = g_handoverCount w"
  by (simp_all add: cho_log_def xn_log_def ho_log_def snr_log_def success_logs_def upd_gstats_def
      upd_ue_def Let_def)

lemma upd_ue_ues [simp]: "g_ues (upd_ue i f w) = (g_ues w)[i := f (g_ues w ! i)]"
  by (simp add: upd_ue_def)

subsection \<open>Distances and delays\<close>

text \<open>All coordinates within a million kilometres of the centre of the Earth.\<close>

definition coord_ok :: "real \<Rightarrow> bool" where
  "coord_ok x \<longleftrightarrow> \<bar>x\<bar> \<le> 10 ^ 9"

definition sats_ok :: "satellites \<Rightarrow> bool" where
  "sats_ok sats \<longleftrightarrow> (\<forall>(n, s) \<in> set sats. \<forall>p \<in> set (trajectory s).
     coord_ok (x_ecef p) \<and> coord_ok (y_ecef p) \<and> coord_ok (z_ecef p))"

definition cache_ok :: "(real \<times> UeSatMetrics) smap \<Rightarrow> bool" where
  "cache_ok c \<longleftrightarrow> (\<forall>n t m. map_of c n = Some (t, m) \<longrightarrow> 1 \<le> met_distance m \<and> met_distance m \<le> 4 * 10 ^ 9)"

lemma coord_ok_between: "between x a b \<Longrightarrow> coord_ok a \<Longrightarrow> coord_ok b \<Longrightarrow> coord_ok x"
  by (auto simp: between_def coord_ok_def min_def max_def split: if_splits)

lemma InterpolatePosition_ok:
  assumes "sats_ok sats" "InterpolatePosition sats n t = (x, y, z, e, d)"
  shows "coord_ok x \<and> coord_ok y \<and> coord_ok z"
proof (cases "map_of sats n")
  case None
  then show ?thesis using assms(2) by (auto simp: InterpolatePosition_def coord_ok_def)
next
  case (Some s)
  let ?tr = "trajectory s"
  have ok: "coord_ok (x_ecef p) \<and> coord_ok (y_ecef p) \<and> coord_ok (z_ecef p)" if "p \<in> set ?tr" for p
    using assms(1) map_of_SomeD [OF Some] that by (auto simp: sats_ok_def)
  show ?thesis
  proof (cases "?tr = [] \<or> t \<le> tp_time (hd ?tr) \<or> t \<ge> tp_time (last ?tr)")
    case True
    then show ?thesis
      using assms(2) Some ok [of "hd ?tr"] ok [of "last ?tr"]
      by (auto simp: InterpolatePosition_def Let_def coord_ok_def split: if_splits)
  next
    case False
    then have ne: "?tr \<noteq> []" "tp_time (hd ?tr) < t" "t < tp_time (last ?tr)" by auto
    obtain i a where i: "i + 1 < length ?tr" "0 < a" "a \<le> 1"
        "InterpolatePosition sats n t =
           (x_ecef (?tr ! i) + a * (x_ecef (?tr ! (i + 1)) - x_ecef (?tr ! i)),
            y_ecef (?tr ! i) + a * (y_ecef (?tr ! (i + 1)) - y_ecef (?tr ! i)),
            z_ecef (?tr ! i) + a * (z_ecef (?tr ! (i + 1)) - z_ecef (?tr ! i)), 0, 0)"
      by (rule InterpolatePosition_inside [OF Some refl ne]) blast
    have "?tr ! i \<in> set ?tr" "?tr ! (i + 1) \<in> set ?tr" using i(1) by auto
    then show ?thesis
      using ok assms(2) i by (auto intro: coord_ok_between [OF convex_between])
  qed
qed

lemma norm3_bound:
  assumes "\<bar>a\<bar> \<le> 2 * 10 ^ 9" "\<bar>b\<bar> \<le> 2 * 10 ^ 9" "\<bar>c\<bar> \<le> 2 * 10 ^ 9"
  shows "sqrt (a * a + b * b + c * c) \<le> 4 * 10 ^ 9"
proof -
  have sq: "x * x \<le> 4 * 10 ^ 18" if "\<bar>x\<bar> \<le> 2 * 10 ^ 9" for x :: real
  proof -
    have "\<bar>x\<bar> * \<bar>x\<bar> \<le> (2 * 10 ^ 9) * (2 * 10 ^ 9)" using that by (intro mult_mono) simp_all
    then show ?thesis by simp
  qed
  have "a * a + b * b + c * c \<le> (4 * 10 ^ 9)\<^sup>2"
    using sq [OF assms(1)] sq [OF assms(2)] sq [OF assms(3)] by simp
  then show ?thesis by (simp add: real_le_lsqrt)
qed

lemma coord_diff: "coord_ok a \<Longrightarrow> coord_ok b \<Longrightarrow> \<bar>a - b\<bar> \<le> 2 * 10 ^ 9"
  by (simp add: coord_ok_def)

lemma GetIslDelay_bound:
  assumes "sats_ok sats"
  shows "0 \<le> GetIslDelay sats a b t \<and> GetIslDelay sats a b t \<le> 20"
proof -
  obtain x1 y1 z1 e1 d1 where p1: "InterpolatePosition sats a t = (x1, y1, z1, e1, d1)" by (metis surj_pair)
  obtain x2 y2 z2 e2 d2 where p2: "InterpolatePosition sats b t = (x2, y2, z2, e2, d2)" by (metis surj_pair)
  have "sqrt ((x1 - x2) * (x1 - x2) + (y1 - y2) * (y1 - y2) + (z1 - z2) * (z1 - z2)) \<le> 4 * 10 ^ 9"
    using InterpolatePosition_ok [OF assms p1] InterpolatePosition_ok [OF assms p2]
    by (intro norm3_bound coord_diff) auto
  then show ?thesis
    using GetIslDelay_nonneg [of sats a b t] by (simp add: GetIslDelay_def p1 p2 SPEED_OF_LIGHT_def Let_def)
qed

definition ecef_ok :: "UeInfo \<Rightarrow> bool" where
  "ecef_ok ue \<longleftrightarrow> coord_ok (ecefX ue) \<and> coord_ok (ecefY ue) \<and> coord_ok (ecefZ ue)"

lemma link_geometry_bound:
  assumes "sats_ok sats" "ecef_ok ue"
  shows "met_distance (link_geometry P sats n t ue) \<le> 4 * 10 ^ 9"
proof -
  obtain x1 y1 z1 e1 d1 where p1: "InterpolatePosition sats n t = (x1, y1, z1, e1, d1)" by (metis surj_pair)
  have "sqrt ((x1 - ecefX ue) * (x1 - ecefX ue) + (y1 - ecefY ue) * (y1 - ecefY ue) +
          (z1 - ecefZ ue) * (z1 - ecefZ ue)) \<le> 4 * 10 ^ 9"
    using InterpolatePosition_ok [OF assms(1) p1] assms(2)
    by (intro norm3_bound coord_diff) (auto simp: ecef_ok_def)
  then show ?thesis by (simp add: link_geometry_def p1 Let_def split: prod.split)
qed

lemma UpdateSatelliteState_cache:
  assumes "sats_ok sats" "ecef_ok ue" "cache_ok (channelCache ue)"
  shows "cache_ok (channelCache (snd (UpdateSatelliteState P sats n t ue)))"
proof -
  have "1 \<le> met_distance (link_geometry P sats n t ue) \<Longrightarrow>
    cache_ok (smap_set n (t, link_geometry P sats n t ue\<lparr>snrDb := x\<rparr>) (channelCache ue))" for x
    using assms(3) link_geometry_bound [OF assms(1,2), of P n t] by (simp add: cache_ok_def)
  then show ?thesis
    using assms(3)
    by (auto simp: UpdateSatelliteState_def Let_def split: option.split prod.split)
qed

lemma GetDistanceTrend_cache:
  assumes "sats_ok sats" "ecef_ok ue" "cache_ok (channelCache ue)"
  shows "cache_ok (channelCache (snd (GetDistanceTrend P sats n t ue)))"
  using UpdateSatelliteState_cache [OF assms] assms(3)
  by (simp add: GetDistanceTrend_def Let_def case_prod_beta split: option.split)

lemma GetUuDelayForUe_bound:
  "cache_ok (channelCache ue) \<Longrightarrow> 0 \<le> GetUuDelayForUe ue c \<and> GetUuDelayForUe ue c \<le> 20"
  by (force simp: GetUuDelayForUe_def cache_ok_def SPEED_OF_LIGHT_def split: option.split)

lemma execution_time_bound:
  assumes "cache_ok (channelCache ue)"
  shows "0 \<le> execution_time ue s t \<and> execution_time ue s t \<le> 200"
  using GetUuDelayForUe_bound [OF assms, of s] GetUuDelayForUe_bound [OF assms, of t]
  by (simp add: execution_time_def Let_def DELAY_RRC_PROC_def DELAY_BEAM_SWITCH_def)

end
