(* ===== verification/Cho_Invariant.thy ===== *)
theory Cho_Invariant
  imports Cho_Frame
begin

text \<open>
  The invariant of the handover simulation and its preservation by every operation: the accounting
  of the procedure in the statistics, what the phase of a UE says about its configurations, its
  interruption and its serving cell, the events of a UE in the queue, and the global statistics as
  sums over the UEs.
\<close>

subsection \<open>One UE\<close>

definition preparing :: "ChoPhase \<Rightarrow> bool" where
  "preparing ph \<longleftrightarrow> ph \<in> {CHO_MEAS_REPORT_UPLINK, CHO_GNB_CHO_DECISION, CHO_XN_REQUEST, CHO_XN_RESPONSE}"

definition has_config :: "ChoPhase \<Rightarrow> bool" where
  "has_config ph \<longleftrightarrow> ph = CHO_UE_EVALUATING \<or> ph = CHO_UE_EXECUTING"

definition resting :: "ChoPhase \<Rightarrow> bool" where
  "resting ph \<longleftrightarrow> ph = CHO_IDLE \<or> preparing ph \<or> ph = CHO_RRC_RECONFIG_DOWNLINK \<or> has_config ph"

lemmas phase_sets = preparing_def has_config_def resting_def

definition accounting :: "UeInfo \<Rightarrow> bool" where
  "accounting ue \<longleftrightarrow>
     (let s = ueChoStats ue; ph = phase (choProcState ue) in
      totalReports s = configsSent s + of_bool (preparing ph) \<and>
      configsSent s = configsReceived s + of_bool (ph = CHO_RRC_RECONFIG_DOWNLINK) \<and>
      configsReceived s =
        successfulHandovers s + failedAtExecution s + configsExpired s + of_bool (has_config ph) \<and>
      executionsTriggered s =
        successfulHandovers s + failedAtExecution s + of_bool (ph = CHO_UE_EXECUTING) \<and>
      successfulHandovers s = of_int (hoCount ue) \<and> failedAtExecution s = of_int (hoFail ue))"

definition phase_consistent :: "UeInfo \<Rightarrow> bool" where
  "phase_consistent ue \<longleftrightarrow>
     (let c = choProcState ue; ph = phase c; g = choConfigState ue in
      resting ph \<and>
      (interruptionActive (hoState ue) \<longleftrightarrow> ph = CHO_UE_EXECUTING) \<and>
      map fst (choConfigs g) = (if has_config ph then [targetCell c] else []) \<and>
      (ph = CHO_UE_EXECUTING \<longrightarrow> executionPending g \<and> executionTargetCell g = targetCell c) \<and>
      servingCellId (measState ue) = servingGnb (ue_context ue) \<and>
      (ph \<noteq> CHO_IDLE \<longrightarrow> sourceCell c = servingGnb (ue_context ue) \<and> sourceCell c \<noteq> []) \<and>
      (ph \<noteq> CHO_IDLE \<and> targetCell c \<noteq> [] \<longrightarrow> valid (hoContext ue) \<and>
         sourceCellId (hoContext ue) = sourceCell c \<and> hc_targetCellId (hoContext ue) = targetCell c))"

definition bounds_ok :: "UeInfo \<Rightarrow> bool" where
  "bounds_ok ue \<longleftrightarrow> ecef_ok ue \<and> cache_ok (channelCache ue) \<and>
     0 \<le> reconfigDownlinkDelay (choProcState ue) \<and> reconfigDownlinkDelay (choProcState ue) \<le> 30"

definition ue_ok :: "UeInfo \<Rightarrow> bool" where
  "ue_ok ue \<longleftrightarrow> accounting ue \<and> phase_consistent ue \<and> bounds_ok ue"

subsection \<open>Events\<close>

fun ev_ue :: "cho_event \<Rightarrow> nat option" where
  "ev_ue (CHO_Phase1 i s t) = Some i"
| "ev_ue (CHO_Phase2 i s t) = Some i"
| "ev_ue (CHO_Phase3 i s t) = Some i"
| "ev_ue (CHO_Phase4 i s t) = Some i"
| "ev_ue (CHO_Phase5 i s t) = Some i"
| "ev_ue (CHO_Phase7 i s t) = Some i"
| "ev_ue (EvalPrediction p) = None"
| "ev_ue HandoverTick = None"
| "ev_ue (LinkQualityPrint c) = None"

fun of_ue :: "nat \<Rightarrow> cho_event closure \<Rightarrow> bool" where
  "of_ue i SimulatorStop = False"
| "of_ue i (Call e) = (ev_ue e = Some i)"

text \<open>The event that will take a UE out of its phase.\<close>

definition next_event :: "nat \<Rightarrow> UeInfo \<Rightarrow> cho_event option" where
  "next_event i ue =
     (let c = choProcState ue; s = sourceCell c; t = targetCell c in
      case phase c of
        CHO_MEAS_REPORT_UPLINK \<Rightarrow> Some (CHO_Phase1 i s t)
      | CHO_GNB_CHO_DECISION \<Rightarrow> Some (CHO_Phase2 i s t)
      | CHO_XN_REQUEST \<Rightarrow> Some (CHO_Phase3 i s t)
      | CHO_XN_RESPONSE \<Rightarrow> Some (CHO_Phase4 i s t)
      | CHO_RRC_RECONFIG_DOWNLINK \<Rightarrow> Some (CHO_Phase5 i s t)
      | CHO_UE_EXECUTING \<Rightarrow> Some (CHO_Phase7 i s t)
      | _ \<Rightarrow> None)"

definition opt_mset :: "cho_event option \<Rightarrow> cho_event closure multiset" where
  "opt_mset x = (case x of None \<Rightarrow> {#} | Some e \<Rightarrow> {#Call e#})"

lemma opt_mset_simps [simp]: "opt_mset None = {#}" "opt_mset (Some e) = {#Call e#}"
  by (simp_all add: opt_mset_def)

definition events_match :: "cho_event closure multiset \<Rightarrow> UeInfo list \<Rightarrow> bool" where
  "events_match M ues \<longleftrightarrow>
     (\<forall>i < length ues. filter_mset (of_ue i) M = opt_mset (next_event i (ues ! i))) \<and>
     (\<forall>i. length ues \<le> i \<longrightarrow> filter_mset (of_ue i) M = {#})"

definition ticks :: "cho_event closure multiset \<Rightarrow> nat" where
  "ticks M = count M (Call HandoverTick)"

subsection \<open>Global statistics\<close>

definition sum_of :: "(ChoNtnStatistics \<Rightarrow> uint32) \<Rightarrow> UeInfo list \<Rightarrow> uint32" where
  "sum_of f ues = (\<Sum>ue \<leftarrow> ues. f (ueChoStats ue))"

definition stats_match :: "ChoNtnStatistics \<Rightarrow> UeInfo list \<Rightarrow> bool" where
  "stats_match g ues \<longleftrightarrow>
     totalReports g = sum_of totalReports ues \<and> configsSent g = sum_of configsSent ues \<and>
     configsReceived g = sum_of configsReceived ues \<and>
     executionsTriggered g = sum_of executionsTriggered ues \<and>
     successfulHandovers g = sum_of successfulHandovers ues \<and>
     failedAtExecution g = sum_of failedAtExecution ues \<and>
     configsExpired g = sum_of configsExpired ues"

text \<open>What the operations on one UE do to its statistics, they do to the global ones.\<close>

definition same_delta :: "ChoNtnStatistics \<Rightarrow> ChoNtnStatistics \<Rightarrow> ChoNtnStatistics \<Rightarrow>
    ChoNtnStatistics \<Rightarrow> bool" where
  "same_delta s s' g g' \<longleftrightarrow>
     totalReports g' = totalReports g - totalReports s + totalReports s' \<and>
     configsSent g' = configsSent g - configsSent s + configsSent s' \<and>
     configsReceived g' = configsReceived g - configsReceived s + configsReceived s' \<and>
     executionsTriggered g' = executionsTriggered g - executionsTriggered s + executionsTriggered s' \<and>
     successfulHandovers g' = successfulHandovers g - successfulHandovers s + successfulHandovers s' \<and>
     failedAtExecution g' = failedAtExecution g - failedAtExecution s + failedAtExecution s' \<and>
     configsExpired g' = configsExpired g - configsExpired s + configsExpired s'"

lemma same_delta_refl [simp]: "same_delta s s g g"
  by (simp add: same_delta_def)

lemma stats_match_update:
  assumes "stats_match g ues" "i < length ues" "same_delta (ueChoStats (ues ! i)) (ueChoStats u') g g'"
  shows "stats_match g' (ues[i := u'])"
proof -
  have "sum_of f (ues[i := u']) = sum_of f ues - f (ueChoStats (ues ! i)) + f (ueChoStats u')" for f
    unfolding sum_of_def using assms(2) by (rule sum_list_update_group)
  then show ?thesis using assms(1,3) by (simp add: stats_match_def same_delta_def)
qed

subsection \<open>The invariant\<close>

text \<open>\<open>M\<close> are the events still to be run: those in the queue and, while a handler runs, the
  event it handles.\<close>

definition cho_inv :: "cho_event closure multiset \<Rightarrow> cho_world \<Rightarrow> bool" where
  "cho_inv M w \<longleftrightarrow> sim_ok w \<and> sats_ok (g_satellites w) \<and> (\<forall>ue \<in> set (g_ues w). ue_ok ue) \<and>
     events_match M (g_ues w) \<and> stats_match (g_choNtnStats w) (g_ues w) \<and>
     g_handoverCount w = (\<Sum>ue \<leftarrow> g_ues w. hoCount ue)"

lemma cho_inv_ue: "cho_inv M w \<Longrightarrow> i < length (g_ues w) \<Longrightarrow> ue_ok (g_ues w ! i)"
  by (simp add: cho_inv_def)

lemma events_match_update:
  assumes "events_match M ues" "i < length ues"
    and "filter_mset (of_ue i) M' = opt_mset (next_event i u')"
    and "\<And>j. j \<noteq> i \<Longrightarrow> filter_mset (of_ue j) M' = filter_mset (of_ue j) M"
  shows "events_match M' (ues[i := u'])"
  using assms by (auto simp: events_match_def nth_list_update)

text \<open>A change of one UE, with the events and the statistics that go with it.\<close>

lemma cho_inv_update:
  assumes inv: "cho_inv M w" and i: "i < length (g_ues w)" and sim: "sim_ok w'"
    and ues: "g_ues w' = (g_ues w)[i := u']" and sats: "g_satellites w' = g_satellites w"
    and ok: "ue_ok u'"
    and stats: "same_delta (ueChoStats (g_ues w ! i)) (ueChoStats u') (g_choNtnStats w) (g_choNtnStats w')"
    and count: "g_handoverCount w' = g_handoverCount w - hoCount (g_ues w ! i) + hoCount u'"
    and ev: "filter_mset (of_ue i) M' = opt_mset (next_event i u')"
    and ev': "\<And>j. j \<noteq> i \<Longrightarrow> filter_mset (of_ue j) M' = filter_mset (of_ue j) M"
  shows "cho_inv M' w'"
proof -
  have "\<forall>ue \<in> set ((g_ues w)[i := u']). ue_ok ue"
    using inv ok set_update_subset_insert [of "g_ues w" i u'] by (auto simp: cho_inv_def)
  moreover have "events_match M' ((g_ues w)[i := u'])"
    using inv i ev ev' by (intro events_match_update) (auto simp: cho_inv_def)
  moreover have "stats_match (g_choNtnStats w') ((g_ues w)[i := u'])"
    using inv i stats by (intro stats_match_update) (auto simp: cho_inv_def)
  moreover have "(\<Sum>ue \<leftarrow> (g_ues w)[i := u']. hoCount ue) = g_handoverCount w'"
    using inv count sum_list_update_group [OF i, of hoCount u'] by (simp add: cho_inv_def)
  ultimately show ?thesis using inv sim by (simp add: cho_inv_def ues sats)
qed

text \<open>An event that is due is the one its UE waits for.\<close>

lemma due_event:
  assumes "events_match (add_mset (Call e) M) ues" "ev_ue e = Some i"
  shows "i < length ues \<and> next_event i (ues ! i) = Some e \<and> filter_mset (of_ue i) M = {#}"
proof (cases "i < length ues")
  case True
  then have "filter_mset (of_ue i) (add_mset (Call e) M) = opt_mset (next_event i (ues ! i))"
    using assms(1) unfolding events_match_def by blast
  then show ?thesis using assms(2) True by (cases "next_event i (ues ! i)") auto
next
  case False
  then have "filter_mset (of_ue i) (add_mset (Call e) M) = {#}"
    using assms(1) unfolding events_match_def by (simp add: not_less)
  then show ?thesis using assms(2) by simp
qed

lemma next_event_phase:
  assumes "next_event i ue = Some e"
  shows "e = CHO_Phase1 i' s t \<Longrightarrow> phase (choProcState ue) = CHO_MEAS_REPORT_UPLINK \<and> i' = i \<and>
           s = sourceCell (choProcState ue) \<and> t = targetCell (choProcState ue)"
    "e = CHO_Phase2 i' s t \<Longrightarrow> phase (choProcState ue) = CHO_GNB_CHO_DECISION \<and> i' = i \<and>
           s = sourceCell (choProcState ue) \<and> t = targetCell (choProcState ue)"
    "e = CHO_Phase3 i' s t \<Longrightarrow> phase (choProcState ue) = CHO_XN_REQUEST \<and> i' = i \<and>
           s = sourceCell (choProcState ue) \<and> t = targetCell (choProcState ue)"
    "e = CHO_Phase4 i' s t \<Longrightarrow> phase (choProcState ue) = CHO_XN_RESPONSE \<and> i' = i \<and>
           s = sourceCell (choProcState ue) \<and> t = targetCell (choProcState ue)"
    "e = CHO_Phase5 i' s t \<Longrightarrow> phase (choProcState ue) = CHO_RRC_RECONFIG_DOWNLINK \<and> i' = i \<and>
           s = sourceCell (choProcState ue) \<and> t = targetCell (choProcState ue)"
    "e = CHO_Phase7 i' s t \<Longrightarrow> phase (choProcState ue) = CHO_UE_EXECUTING \<and> i' = i \<and>
           s = sourceCell (choProcState ue) \<and> t = targetCell (choProcState ue)"
  using assms by (auto simp: next_event_def Let_def split: ChoPhase.splits)

subsection \<open>The error model\<close>

lemma ApplyUeErrorModelImmediately_form:
  obtains a b where "ApplyUeErrorModelImmediately P ue = ue\<lparr>ulErrorRate := a, dlErrorRate := b\<rparr>"
proof (cases "servingGnb (ue_context ue) = [] \<or> map_of (channelCache ue) (servingGnb (ue_context ue)) = None")
  case True
  then have "ApplyUeErrorModelImmediately P ue =
      ue\<lparr>ulErrorRate := ulErrorRate ue, dlErrorRate := dlErrorRate ue\<rparr>"
    by (cases "servingGnb (ue_context ue) = []") (simp_all add: ApplyUeErrorModelImmediately_def Let_def)
  then show ?thesis by (rule that)
next
  case False
  then obtain t m where "map_of (channelCache ue) (servingGnb (ue_context ue)) = Some (t, m)" by auto
  then show ?thesis using False that by (simp add: ApplyUeErrorModelImmediately_def Let_def)
qed

lemma error_rates_irrelevant:
  "ue_ok (ue\<lparr>ulErrorRate := a, dlErrorRate := b\<rparr>) = ue_ok ue"
  "next_event i (ue\<lparr>ulErrorRate := a, dlErrorRate := b\<rparr>) = next_event i ue"
  by (simp_all add: ue_ok_def accounting_def phase_consistent_def bounds_ok_def ecef_ok_def
      next_event_def Let_def)

lemma ApplyUeErrorModelImmediately_frame [simp]:
  "ue_ok (ApplyUeErrorModelImmediately P ue) = ue_ok ue"
  "next_event i (ApplyUeErrorModelImmediately P ue) = next_event i ue"
  "ueChoStats (ApplyUeErrorModelImmediately P ue) = ueChoStats ue"
  "hoCount (ApplyUeErrorModelImmediately P ue) = hoCount ue"
  "choProcState (ApplyUeErrorModelImmediately P ue) = choProcState ue"
  "channelCache (ApplyUeErrorModelImmediately P ue) = channelCache ue"
  by (rule ApplyUeErrorModelImmediately_form [of P ue]; simp add: error_rates_irrelevant)+

end
