(* ===== verification/Cho_Preserve.thy ===== *)
theory Cho_Preserve
  imports Cho_Invariant
begin

text \<open>
  Every operation of the handover procedure keeps the invariant; a phase event always meets the
  phase it was scheduled for, with the cells it was scheduled with.
\<close>

lemmas ue_ok_defs = ue_ok_def accounting_def phase_consistent_def bounds_ok_def ecef_ok_def

lemma of_bool_simps [simp]: "(of_bool True :: uint32) = 1" "(of_bool False :: uint32) = 0"
  by simp_all

text \<open>An operation on one UE that ends by scheduling the next event of the procedure.\<close>

lemma cho_inv_schedule:
  assumes inv: "cho_inv M w" and i: "i < length (g_ues w)" and room: "room k w" "0 < k"
    and sim: "same_sim w v" and d: "0 \<le> d" "d \<le> 300"
    and ues: "g_ues v = (g_ues w)[i := u']" and sats: "g_satellites v = g_satellites w"
    and ok: "ue_ok u'"
    and stats: "same_delta (ueChoStats (g_ues w ! i)) (ueChoStats u') (g_choNtnStats w) (g_choNtnStats v)"
    and count: "g_handoverCount v = g_handoverCount w - hoCount (g_ues w ! i) + hoCount u'"
    and none: "filter_mset (of_ue i) (evs w) = {#}"
    and others: "\<And>j. j \<noteq> i \<Longrightarrow> filter_mset (of_ue j) (evs w) = filter_mset (of_ue j) M"
    and e: "ev_ue e = Some i" "next_event i u' = Some e"
  shows "cho_inv (evs (schedule_s d e v)) (schedule_s d e v) \<and> room (k - 1) (schedule_s d e v) \<and>
    now_s (schedule_s d e v) = now_s w \<and> evs (schedule_s d e v) = add_mset (Call e) (evs w)"
proof -
  have "sim_ok v" "room k v"
    using inv sim room same_sim_facts [OF sim] by (simp_all add: cho_inv_def room_def)
  from schedule_s_sim [OF this(1) d(1) _ this(2) room(2), of e]
  have s: "sim_ok (schedule_s d e v)" "evs (schedule_s d e v) = add_mset (Call e) (evs w)"
      "room (k - 1) (schedule_s d e v)" "now_s (schedule_s d e v) = now_s w"
    using d(2) same_sim_facts [OF sim] by simp_all
  have "cho_inv (evs (schedule_s d e v)) (schedule_s d e v)"
    by (rule cho_inv_update [OF inv i s(1)])
      (use ues sats ok stats count none others e s(2) in auto)
  then show ?thesis using s by simp
qed

text \<open>An operation that schedules nothing.\<close>

lemma cho_inv_local:
  assumes inv: "cho_inv M w" and i: "i < length (g_ues w)" and sim: "same_sim w v"
    and ues: "g_ues v = (g_ues w)[i := u']" and sats: "g_satellites v = g_satellites w"
    and ok: "ue_ok u'"
    and stats: "same_delta (ueChoStats (g_ues w ! i)) (ueChoStats u') (g_choNtnStats w) (g_choNtnStats v)"
    and count: "g_handoverCount v = g_handoverCount w - hoCount (g_ues w ! i) + hoCount u'"
    and ev: "filter_mset (of_ue i) (evs w) = opt_mset (next_event i u')"
    and others: "\<And>j. j \<noteq> i \<Longrightarrow> filter_mset (of_ue j) (evs w) = filter_mset (of_ue j) M"
  shows "cho_inv (evs v) v"
proof -
  have "sim_ok v" "evs v = evs w" using inv same_sim_facts [OF sim] by (simp_all add: cho_inv_def)
  then show ?thesis
    by (intro cho_inv_update [OF inv i]) (use ues sats ok stats count ev others in auto)
qed

lemma filter_add_other:
  "ev_ue e = Some i \<Longrightarrow> j \<noteq> i \<Longrightarrow> filter_mset (of_ue j) (add_mset (Call e) M) = filter_mset (of_ue j) M"
  by simp

lemma cho_inv_due:
  assumes "cho_inv (add_mset (Call e) (evs w)) w" "ev_ue e = Some i"
  shows "i < length (g_ues w)" "next_event i (g_ues w ! i) = Some e"
    "filter_mset (of_ue i) (evs w) = {#}" "ue_ok (g_ues w ! i)"
  using due_event [of e "evs w" "g_ues w" i] assms cho_inv_ue by (auto simp: cho_inv_def)

text \<open>What a handler leaves: the invariant, the clock, and at most one new event, which is not the
  periodic one.\<close>

definition phase_result :: "cho_world \<Rightarrow> cho_world \<Rightarrow> bool" where
  "phase_result w v \<longleftrightarrow> cho_inv (evs v) v \<and> m_currentTs v = m_currentTs w \<and>
     (\<exists>e. e \<noteq> Some HandoverTick \<and> evs v = opt_mset e + evs w)"

lemma now_s_ts: "now_s v = now_s w \<Longrightarrow> m_currentTs v = m_currentTs w"
  by (simp add: now_s_def DSI_Now_def)

lemma scheduled_result:
  assumes "cho_inv (evs v) v \<and> room k v \<and> now_s v = now_s w \<and> evs v = add_mset (Call e) (evs w)"
    and "e \<noteq> HandoverTick"
  shows "phase_result w v"
proof -
  have "cho_inv (evs v) v" using assms(1) by blast
  moreover have "m_currentTs v = m_currentTs w" "evs v = opt_mset (Some e) + evs w"
    using assms(1) now_s_ts [of v w] by simp_all
  ultimately show ?thesis using assms(2) unfolding phase_result_def by blast
qed

lemma local_result: "cho_inv (evs v) v \<Longrightarrow> same_sim w v \<Longrightarrow> phase_result w v"
  using same_sim_facts(2,4) [of w v] unfolding phase_result_def
  by (intro conjI exI [of _ None]) simp_all

subsection \<open>Phases 1 to 5\<close>

lemma Phase1_inv:
  assumes inv: "cho_inv (add_mset (Call (CHO_Phase1 i s t)) (evs w)) w" and room: "room 1 w"
  shows "phase_result w (CHO_Phase1_ReportArrived i s t w)"
proof -
  note due = cho_inv_due [OF inv, of i, simplified]
  note ph = next_event_phase(1) [OF due(2) refl]
  let ?u = "g_ues w ! i"
  have eq: "CHO_Phase1_ReportArrived i s t w =
      schedule_s 0.001 (CHO_Phase2 i s t) (enter_phase i CHO_GNB_CHO_DECISION (now_s w) w)"
    using ph by (simp add: CHO_Phase1_ReportArrived_def phase_of_def the_ue_def)
  show ?thesis
    unfolding eq
    by (rule scheduled_result [OF cho_inv_schedule [OF inv due(1) room, of _ _
          "upd_proc (\<lambda>c. c\<lparr>phase := CHO_GNB_CHO_DECISION, phaseStartTime := now_s w\<rparr>) ?u"]])
      (use due ph in \<open>auto simp: enter_phase_def upd_proc_def ue_ok_defs phase_sets Let_def next_event_def\<close>)
qed

lemmas op_defs = enter_phase_def set_phase_def both_stats_def upd_proc_def upd_cfg_def upd_meas_def
  upd_stats_def the_ue_def ResetHoContext_def

lemmas inv_defs = ue_ok_defs phase_sets Let_def next_event_def same_delta_def

lemma Phase2_inv:
  assumes inv: "cho_inv (add_mset (Call (CHO_Phase2 i s t)) (evs w)) w" and room: "room 1 w"
  shows "phase_result w (CHO_Phase2_SendXnRequest i s t w)"
proof -
  note due = cho_inv_due [OF inv, of i, simplified]
  note ph = next_event_phase(2) [OF due(2) refl]
  let ?u = "g_ues w ! i" and ?d = "GetIslDelay (g_satellites w) s t (now_s w)"
  have d: "0 \<le> ?d" "?d \<le> 20" using inv GetIslDelay_bound by (auto simp: cho_inv_def)
  define v where "v = xn_log [Num (now_s w), Whole (int i), Str ''CHO_REQUEST'', Str s, Str t, Str ''Xn'',
      Str ''CHO_indication=true'', Txt [Str ''ISL_delay='', Num (?d * 1000), Str ''ms'']]
      (enter_phase i CHO_XN_REQUEST (now_s w) w)"
  have eq: "CHO_Phase2_SendXnRequest i s t w = schedule_s (?d + 0.002) (CHO_Phase3 i s t) v"
    using ph by (simp add: CHO_Phase2_SendXnRequest_def phase_of_def the_ue_def v_def Let_def)
  have sim: "same_sim w v" by (simp add: v_def)
  show ?thesis
    unfolding eq
    by (rule scheduled_result [OF cho_inv_schedule [OF inv due(1) room _ sim, of _
          "upd_proc (\<lambda>c. c\<lparr>phase := CHO_XN_REQUEST, phaseStartTime := now_s w\<rparr>) ?u"]])
      (use due ph d in \<open>auto simp: v_def op_defs inv_defs\<close>)
qed

lemma Phase3_inv:
  assumes inv: "cho_inv (add_mset (Call (CHO_Phase3 i s t)) (evs w)) w" and room: "room 1 w"
  shows "phase_result w (CHO_Phase3_XnResponse i s t w)"
proof -
  note due = cho_inv_due [OF inv, of i, simplified]
  note ph = next_event_phase(3) [OF due(2) refl]
  let ?u = "g_ues w ! i" and ?d = "GetIslDelay (g_satellites w) t s (now_s w)"
  have d: "0 \<le> ?d" "?d \<le> 20" using inv GetIslDelay_bound by (auto simp: cho_inv_def)
  have eq: "CHO_Phase3_XnResponse i s t w =
      schedule_s (?d + 0.001) (CHO_Phase4 i s t) (enter_phase i CHO_XN_RESPONSE (now_s w) w)"
    using ph by (simp add: CHO_Phase3_XnResponse_def phase_of_def the_ue_def Let_def)
  show ?thesis
    unfolding eq
    by (rule scheduled_result [OF cho_inv_schedule [OF inv due(1) room, of _ _
          "upd_proc (\<lambda>c. c\<lparr>phase := CHO_XN_RESPONSE, phaseStartTime := now_s w\<rparr>) ?u"]])
      (use due ph d in \<open>auto simp: op_defs inv_defs\<close>)
qed

lemma Phase4_inv:
  assumes inv: "cho_inv (add_mset (Call (CHO_Phase4 i s t)) (evs w)) w" and room: "room 1 w"
  shows "phase_result w (CHO_Phase4_SendRrcReconfig i s t w)"
proof -
  note due = cho_inv_due [OF inv, of i, simplified]
  note ph = next_event_phase(4) [OF due(2) refl]
  let ?u = "g_ues w ! i"
  have d: "0 \<le> reconfigDownlinkDelay (choProcState ?u)" "reconfigDownlinkDelay (choProcState ?u) \<le> 30"
    using due(4) by (auto simp: ue_ok_defs)
  define v where "v = both_stats i (\<lambda>s. s\<lparr>configsSent := configsSent s + 1\<rparr>)
      (enter_phase i CHO_RRC_RECONFIG_DOWNLINK (now_s w) w)"
  have eq: "CHO_Phase4_SendRrcReconfig i s t w =
      schedule_s (reconfigDownlinkDelay (choProcState ?u)) (CHO_Phase5 i s t) v"
    using ph due(1) by (simp add: CHO_Phase4_SendRrcReconfig_def phase_of_def v_def op_defs Let_def)
  have sim: "same_sim w v" by (simp add: v_def)
  show ?thesis
    unfolding eq
    by (rule scheduled_result [OF cho_inv_schedule [OF inv due(1) room _ sim, of _
          "upd_stats (\<lambda>s. s\<lparr>configsSent := configsSent s + 1\<rparr>)
            (upd_proc (\<lambda>c. c\<lparr>phase := CHO_RRC_RECONFIG_DOWNLINK, phaseStartTime := now_s w\<rparr>) ?u)"]])
      (use due ph d in \<open>auto simp: v_def op_defs inv_defs\<close>)
qed

lemma Phase5_inv:
  assumes inv: "cho_inv (add_mset (Call (CHO_Phase5 i s t)) (evs w)) w"
  shows "phase_result w (CHO_Phase5_UeStoresConfig P i s t w)"
proof -
  note due = cho_inv_due [OF inv, of i, simplified]
  note ph = next_event_phase(5) [OF due(2) refl]
  let ?u = "g_ues w ! i" and ?t = "now_s w"
  let ?ex = "?t + configValidityPeriod (g_choNtnConfig P)"
  let ?v = "CHO_Phase5_UeStoresConfig P i s t w"
  let ?u' = "upd_cfg (\<lambda>g. g\<lparr>choConfigs := smap_set t (ChoConfiguration_stored t ?t ?ex) (choConfigs g),
        choConfigsReceived := choConfigsReceived g + 1\<rparr>)
      (upd_proc (\<lambda>c. c\<lparr>phase := CHO_UE_EVALUATING, executionTttActive := False,
        executionTttStartTime := -1,
        executionTimeToTrigger := cfg_executionTimeToTrigger (g_choNtnConfig P)\<rparr>)
      (upd_stats (\<lambda>s. s\<lparr>configsReceived := configsReceived s + 1\<rparr>)
      (upd_proc (\<lambda>c. c\<lparr>phase := CHO_CONFIG_STORED, phaseStartTime := ?t, configReceivedTime := ?t,
        configExpiryTime := ?ex\<rparr>) ?u)))"
  have sim: "same_sim w ?v"
    by (simp add: CHO_Phase5_UeStoresConfig_def Let_def)
  have ues: "g_ues ?v = (g_ues w)[i := ?u']"
    using ph due(1) by (simp add: CHO_Phase5_UeStoresConfig_def phase_of_def op_defs Let_def)
  have rest: "g_satellites ?v = g_satellites w" "g_handoverCount ?v = g_handoverCount w"
      "g_choNtnStats ?v = (g_choNtnStats w)\<lparr>configsReceived := configsReceived (g_choNtnStats w) + 1\<rparr>"
    using ph by (simp_all add: CHO_Phase5_UeStoresConfig_def phase_of_def op_defs Let_def)
  have none: "choConfigs (choConfigState ?u) = []" using due(4) ph by (auto simp: inv_defs)
  show ?thesis
    by (rule local_result [OF cho_inv_local [OF inv due(1) sim ues rest(1)] sim])
      (use due ph rest none in \<open>auto simp: op_defs inv_defs\<close>)
qed


subsection \<open>Execution\<close>

lemma Phase6_inv:
  assumes inv: "cho_inv (evs w) w" and i: "i < length (g_ues w)" and room: "room k w" "0 < k"
    and ph: "phase (choProcState (g_ues w ! i)) = CHO_UE_EVALUATING"
    and st: "s = sourceCell (choProcState (g_ues w ! i))" "t = targetCell (choProcState (g_ues w ! i))"
  shows "cho_inv (evs (CHO_Phase6_UeExecutes P i s t w)) (CHO_Phase6_UeExecutes P i s t w) \<and>
    room (k - 1) (CHO_Phase6_UeExecutes P i s t w) \<and>
    now_s (CHO_Phase6_UeExecutes P i s t w) = now_s w \<and>
    evs (CHO_Phase6_UeExecutes P i s t w) = add_mset (Call (CHO_Phase7 i s t)) (evs w)"
proof -
  let ?u = "g_ues w ! i" and ?now = "now_s w"
  let ?mid = "((\<lambda>ue. ue\<lparr>hoState := (hoState ue)\<lparr>interruptionActive := True\<rparr>\<rparr>)
     (upd_stats (\<lambda>s. s\<lparr>executionsTriggered := executionsTriggered s + 1\<rparr>)
      ((\<lambda>ue. upd_proc (\<lambda>c. c\<lparr>phase := CHO_UE_EXECUTING, phaseStartTime := ?now, executionStartTime := ?now,
         servingSnrAtExecution := snr_or ue s (servingSnrAtExecution c),
         targetSnrAtExecution := snr_or ue t (targetSnrAtExecution c)\<rparr>) ue)
       (upd_cfg (\<lambda>g. g\<lparr>executionPending := True, executionTargetCell := t,
         executionTriggerTime := ?now\<rparr>) ?u))))"
  let ?u' = "ApplyUeErrorModelImmediately P ?mid"
  have ok: "ue_ok ?u" using inv i by (rule cho_inv_ue)
  then have "ue_ok ?mid" using ph st by (auto simp: op_defs inv_defs)
  then have ok': "ue_ok ?u'" by simp
  have none: "filter_mset (of_ue i) (evs w) = {#}"
    using inv i ph by (auto simp: cho_inv_def events_match_def next_event_def)
  have ph': "phase_of i w = CHO_UE_EVALUATING" using ph by (simp add: phase_of_def the_ue_def)
  have cache: "channelCache (the_ue i (both_stats i f (upd_ue i (\<lambda>ue. upd_proc (g ue) ue) (upd_ue i (upd_cfg h) w)))) =
      channelCache ?u" for f g h
    using i by (simp add: op_defs)
  have d: "0 \<le> execution_time x s t" "execution_time x s t \<le> 300" if "channelCache x = channelCache ?u" for x
    using execution_time_bound [of x s t] ok that by (auto simp: ue_ok_defs)
  show ?thesis
    unfolding CHO_Phase6_UeExecutes_def Let_def
    by (simp only: ph' not_True_eq_False if_False simp_thms,
        rule cho_inv_schedule [OF inv i room, of _ _ ?u'])
      (use i ok' none ph st d [OF cache] in
        \<open>simp_all add: op_defs same_delta_def next_event_def Let_def\<close>)
qed

lemma HandleFailure_inv:
  assumes inv: "cho_inv (add_mset (Call (CHO_Phase7 i s t)) (evs w)) w"
  shows "phase_result w
           (CHO_HandleFailure i r x (both_stats i (\<lambda>s. s\<lparr>failedAtExecution := failedAtExecution s + 1\<rparr>) w))"
    (is "phase_result w ?v")
proof -
  note due = cho_inv_due [OF inv, of i, simplified]
  note ph = next_event_phase(6) [OF due(2) refl]
  let ?u = "g_ues w ! i"
  let ?u' = "upd_proc (\<lambda>c. c\<lparr>phase := CHO_IDLE, failed := True, failureReason := r\<rparr>)
      (ResetHoContext (upd_cfg (\<lambda>g. g\<lparr>choConfigs := []\<rparr>)
      ((\<lambda>ue. ue\<lparr>hoFail := hoFail ue + 1, hoState := (hoState ue)\<lparr>interruptionActive := False\<rparr>\<rparr>)
      (upd_stats (\<lambda>s. s\<lparr>failedAtExecution := failedAtExecution s + 1\<rparr>) ?u))))"
  have ues: "g_ues ?v = (g_ues w)[i := ?u']"
    using due(1) by (simp add: CHO_HandleFailure_def op_defs Let_def)
  have rest: "g_satellites ?v = g_satellites w" "g_handoverCount ?v = g_handoverCount w"
      "g_choNtnStats ?v = (g_choNtnStats w)\<lparr>failedAtExecution := failedAtExecution (g_choNtnStats w) + 1\<rparr>"
    by (simp_all add: CHO_HandleFailure_def op_defs Let_def)
  show ?thesis
    by (rule local_result [OF cho_inv_local [OF inv due(1) _ ues rest(1)]])
      (use due ph rest in \<open>auto simp: op_defs inv_defs\<close>)
qed

lemma Phase7_inv:
  assumes inv: "cho_inv (add_mset (Call (CHO_Phase7 i s t)) (evs w)) w"
  shows "phase_result w (CHO_Phase7_ExecutionComplete P i s t w)"
proof (cases "CHO_IsLinkViable P (the_ue i w) t")
  case False
  note due = cho_inv_due [OF inv, of i, simplified]
  note ph = next_event_phase(6) [OF due(2) refl]
  have "phase_of i w = CHO_UE_EXECUTING" using ph by (simp add: phase_of_def the_ue_def)
  with False show ?thesis
    unfolding CHO_Phase7_ExecutionComplete_def Let_def
    by (simp only: if_True if_False simp_thms) (rule HandleFailure_inv [OF inv])
next
  case True
  note due = cho_inv_due [OF inv, of i, simplified]
  note ph = next_event_phase(6) [OF due(2) refl]
  let ?u = "g_ues w ! i" and ?v = "CHO_Phase7_ExecutionComplete P i s t w"
  let ?c = "choProcState ?u"
  let ?count = "count_success (now_s w - configReceivedTime ?c) (now_s w - executionStartTime ?c)"
  have ph': "phase_of i w = CHO_UE_EXECUTING" using ph by (simp add: phase_of_def the_ue_def)
  let ?mid = "upd_proc (\<lambda>c. c\<lparr>phase := CHO_XN_CANCEL\<rparr>) (upd_stats ?count ?u)"
  let ?mid1 = "upd_cfg (\<lambda>g. g\<lparr>executionPending := False, executionTargetCell := [], choConfigs := []\<rparr>)
      (upd_meas (\<lambda>ms. ms\<lparr>servingCellId := t, triggerActive := False, triggerStartTime := -1,
         candidateTargetCell := [], lastMeasurements := []\<rparr>)
       (?mid\<lparr>hoCount := hoCount ?mid + 1, ue_context := (ue_context ?mid)\<lparr>servingGnb := t\<rparr>\<rparr>))"
  let ?mid2 = "?mid1\<lparr>hoState := (hoState ?mid1)\<lparr>interruptionActive := False\<rparr>\<rparr>"
  have comp: "complete_ue P t ?mid = ResetHoContext (ApplyUeErrorModelImmediately P ?mid2)"
    by (simp only: complete_ue_def Let_def)
  obtain a b where ab: "ApplyUeErrorModelImmediately P ?mid2 = ?mid2\<lparr>ulErrorRate := a, dlErrorRate := b\<rparr>"
    by (rule ApplyUeErrorModelImmediately_form)
  let ?u' = "upd_proc (\<lambda>c. c\<lparr>phase := CHO_IDLE, failed := False\<rparr>) (complete_ue P t ?mid)"
  have form: "?u' = upd_proc (\<lambda>c. c\<lparr>phase := CHO_IDLE, failed := False\<rparr>)
      (ResetHoContext (?mid2\<lparr>ulErrorRate := a, dlErrorRate := b\<rparr>))"
    by (simp only: comp ab)
  have ok: "ue_ok ?u'"
    unfolding form using due(4) ph by (auto simp: op_defs inv_defs count_success_def)
  have st: "ueChoStats ?u' = ?count (ueChoStats ?u)" "hoCount ?u' = hoCount ?u + 1"
      "next_event i ?u' = None"
    unfolding form by (simp_all add: op_defs next_event_def)
  have sim: "same_sim w ?v" and ues: "g_ues ?v = (g_ues w)[i := ?u']"
    and rest: "g_satellites ?v = g_satellites w" "g_handoverCount ?v = g_handoverCount w + 1"
      "g_choNtnStats ?v = ?count (g_choNtnStats w)"
    unfolding CHO_Phase7_ExecutionComplete_def Let_def
    using ph' True due(1) by (simp_all add: both_stats_def set_phase_def the_ue_def)
  show ?thesis
    by (rule local_result [OF cho_inv_local [OF inv due(1) sim ues rest(1) ok] sim])
      (use due rest in \<open>simp_all add: st same_delta_def count_success_def Let_def\<close>)
qed

subsection \<open>The execution condition\<close>

lemma same_ev: "filter_mset (of_ue j) (evs w) = filter_mset (of_ue j) (evs w)" ..

lemma cho_inv_ev:
  "cho_inv (evs w) w \<Longrightarrow> i < length (g_ues w) \<Longrightarrow>
   filter_mset (of_ue i) (evs w) = opt_mset (next_event i (g_ues w ! i))"
  by (simp add: cho_inv_def events_match_def)

lemma tick_inv:
  assumes inv: "cho_inv (evs w) w" and i: "i < length (g_ues w)"
    and c: "next_event i (upd_proc f (g_ues w ! i)) = next_event i (g_ues w ! i)"
      "ue_ok (upd_proc f (g_ues w ! i))"
  shows "cho_inv (evs (upd_ue i (upd_proc f) w)) (upd_ue i (upd_proc f) w)"
  by (rule cho_inv_local [OF inv i, of _ "upd_proc f (g_ues w ! i)"])
    (use c cho_inv_ev [OF inv i] in \<open>simp_all add: upd_proc_def\<close>)

lemma next_event_cong:
  assumes "phase (choProcState u) = phase (choProcState v)"
    and "sourceCell (choProcState u) = sourceCell (choProcState v)"
    and "targetCell (choProcState u) = targetCell (choProcState v)"
  shows "next_event i u = next_event i v"
  unfolding next_event_def Let_def by (simp only: assms)

lemma if_cases4:
  "v = (if a then if b then p else if c then q else r else s) \<Longrightarrow> v = p \<or> v = q \<or> v = r \<or> v = s"
  by auto

lemma ttt_irrelevant:
  "ue_ok (upd_proc (\<lambda>c. c\<lparr>executionTttActive := A, executionTttStartTime := T\<rparr>) u) = ue_ok u"
  "ue_ok (upd_proc (\<lambda>c. c\<lparr>executionTttActive := A\<rparr>) u) = ue_ok u"
  "next_event i (upd_proc (\<lambda>c. c\<lparr>executionTttActive := A, executionTttStartTime := T\<rparr>) u) = next_event i u"
  "next_event i (upd_proc (\<lambda>c. c\<lparr>executionTttActive := A\<rparr>) u) = next_event i u"
  by (simp_all add: upd_proc_def ue_ok_defs Let_def) (rule next_event_cong; simp)+

lemma CheckExecutionCondition_inv:
  assumes inv: "cho_inv (evs w) w" and i: "i < length (g_ues w)" and room: "room k w" "0 < k"
  shows "cho_inv (evs (CHO_CheckExecutionCondition P i x w)) (CHO_CheckExecutionCondition P i x w) \<and>
    room (k - 1) (CHO_CheckExecutionCondition P i x w) \<and>
    now_s (CHO_CheckExecutionCondition P i x w) = now_s w \<and>
    (\<exists>e. e \<noteq> Some HandoverTick \<and> evs (CHO_CheckExecutionCondition P i x w) = opt_mset e + evs w)"
    (is "cho_inv (evs ?v) ?v \<and> _")
proof -
  let ?u = "g_ues w ! i" and ?c = "choProcState (g_ues w ! i)"
  have quiet: ?thesis if "same_sim w ?v" "cho_inv (evs ?v) ?v"
    using that room same_sim_facts [OF that(1)] by (auto simp: room_def intro: exI [of _ None])
  have ok: "ue_ok ?u" using inv i by (rule cho_inv_ue)
  have u: "the_ue i w = ?u" by (simp add: the_ue_def)
  consider (other) "phase ?c \<noteq> CHO_UE_EVALUATING"
    | (expired) "phase ?c = CHO_UE_EVALUATING" "x > configExpiryTime ?c"
    | (eval) "phase ?c = CHO_UE_EVALUATING" "\<not> x > configExpiryTime ?c" by blast
  then show ?thesis
  proof cases
    case other
    then have "?v = w" by (simp add: CHO_CheckExecutionCondition_def u)
    then show ?thesis using inv quiet by simp
  next
    case expired
    let ?u' = "ResetHoContext (upd_cfg (\<lambda>g. g\<lparr>choConfigs := []\<rparr>) (upd_proc (\<lambda>c. c\<lparr>phase := CHO_IDLE\<rparr>)
        (upd_stats (\<lambda>s. s\<lparr>configsExpired := configsExpired s + 1\<rparr>) ?u)))"
    have v: "?v = upd_ue i ResetHoContext (upd_ue i (upd_cfg (\<lambda>g. g\<lparr>choConfigs := []\<rparr>))
        (set_phase i CHO_IDLE (both_stats i (\<lambda>s. s\<lparr>configsExpired := configsExpired s + 1\<rparr>) w)))"
      using expired by (simp add: CHO_CheckExecutionCondition_def u Let_def)
    have sim: "same_sim w ?v" by (simp add: v)
    have ues: "g_ues ?v = (g_ues w)[i := ?u']" using i by (simp add: v op_defs)
    have ok': "ue_ok ?u'" using ok expired(1) by (auto simp: op_defs inv_defs)
    have "cho_inv (evs ?v) ?v"
      by (rule cho_inv_local [OF inv i sim ues _ ok'])
        (use cho_inv_ev [OF inv i] expired(1) in \<open>simp_all add: v op_defs same_delta_def next_event_def Let_def\<close>)
    then show ?thesis using quiet sim by blast
  next
    case eval
    let ?s = "sourceCell ?c" and ?t = "targetCell ?c"
    show ?thesis
    proof (cases "map_of (channelCache ?u) ?s = None \<or> map_of (channelCache ?u) ?t = None")
      case True
      then have "?v = w" using eval
        by (auto simp: CHO_CheckExecutionCondition_def u Let_def split: option.split)
      then show ?thesis using inv quiet by simp
    next
      case False
      then obtain t1 m1 t2 m2 where cache: "map_of (channelCache ?u) ?s = Some (t1, m1)"
          "map_of (channelCache ?u) ?t = Some (t2, m2)" by auto
      let ?cond = "execution_condition P (snrDb m1) (snrDb m2)"
      have step: "next_event i (upd_proc (\<lambda>c. c\<lparr>executionTttActive := A, executionTttStartTime := T\<rparr>) ?u) =
            next_event i ?u"
          "next_event i (upd_proc (\<lambda>c. c\<lparr>executionTttActive := A\<rparr>) ?u) = next_event i ?u"
          "ue_ok (upd_proc (\<lambda>c. c\<lparr>executionTttActive := A, executionTttStartTime := T\<rparr>) ?u)"
          "ue_ok (upd_proc (\<lambda>c. c\<lparr>executionTttActive := A\<rparr>) ?u)" for A T
        using ok by (simp_all add: ttt_irrelevant)
      let ?go = "upd_ue i (upd_proc (\<lambda>c. c\<lparr>executionTttActive := False\<rparr>)) w"
      have v: "?v = (if ?cond then if \<not> executionTttActive ?c
              then upd_ue i (upd_proc (\<lambda>c. c\<lparr>executionTttActive := True, executionTttStartTime := x\<rparr>)) w
              else if x - executionTttStartTime ?c \<ge> executionTimeToTrigger ?c
              then CHO_Phase6_UeExecutes P i ?s ?t ?go else w
            else upd_ue i (upd_proc (\<lambda>c. c\<lparr>executionTttActive := False, executionTttStartTime := -1\<rparr>)) w)"
        using eval cache by (simp add: CHO_CheckExecutionCondition_def u Let_def)
      from if_cases4 [OF v]
      consider (start) "?v = upd_ue i (upd_proc (\<lambda>c. c\<lparr>executionTttActive := True, executionTttStartTime := x\<rparr>)) w"
        | (exec) "?v = CHO_Phase6_UeExecutes P i ?s ?t ?go"
        | (wait) "?v = w"
        | (reset) "?v = upd_ue i (upd_proc (\<lambda>c. c\<lparr>executionTttActive := False, executionTttStartTime := -1\<rparr>)) w"
        by (elim disjE)
      then show ?thesis
      proof cases
        case start
        then show ?thesis using quiet tick_inv [OF inv i step(1) step(3)] by simp
      next
        case exec
        have go: "cho_inv (evs ?go) ?go" using tick_inv [OF inv i step(2) step(4)] .
        have sim: "same_sim w ?go" by simp
        have "i < length (g_ues ?go)" "room k ?go"
          using i room same_sim_facts [OF sim] by (simp_all add: room_def)
        from Phase6_inv [OF go this room(2), of ?s ?t P]
        show ?thesis
          unfolding exec using i eval(1) same_sim_facts [OF sim]
          by (auto simp: upd_proc_def intro: exI [of _ "Some (CHO_Phase7 i ?s ?t)"])
      next
        case wait
        then show ?thesis using inv quiet by simp
      next
        case reset
        then show ?thesis using quiet tick_inv [OF inv i step(1) step(3)] by simp
      qed
    qed
  qed
qed

end
