(* ===== verification/Cho_Tick.thy ===== *)
theory Cho_Tick
  imports Cho_Preserve
begin

text \<open>
  The periodic task keeps the invariant: measuring and reporting change only what belongs to the
  measurements of one UE, a report starts a procedure, and the rest of the task touches the radio
  part of the UEs, the logs and the pending records.
\<close>

subsection \<open>Measuring\<close>

definition meas_frame :: "UeInfo \<Rightarrow> UeInfo \<Rightarrow> bool" where
  "meas_frame u u' \<longleftrightarrow> ue_context u' = ue_context u \<and> hoState u' = hoState u \<and>
     choProcState u' = choProcState u \<and> choConfigState u' = choConfigState u \<and>
     ueChoStats u' = ueChoStats u \<and> hoCount u' = hoCount u \<and> hoFail u' = hoFail u \<and>
     ecefX u' = ecefX u \<and> ecefY u' = ecefY u \<and> ecefZ u' = ecefZ u \<and>
     servingCellId (measState u') = servingCellId (measState u)"

definition meas_step :: "satellites \<Rightarrow> UeInfo \<Rightarrow> UeInfo \<Rightarrow> bool" where
  "meas_step sats u u' \<longleftrightarrow> meas_frame u u' \<and>
     (sats_ok sats \<and> ecef_ok u \<and> cache_ok (channelCache u) \<longrightarrow> cache_ok (channelCache u'))"

lemma meas_step_refl [simp]: "meas_step sats u u"
  by (simp add: meas_step_def meas_frame_def)

lemma meas_step_trans: "meas_step sats u v \<Longrightarrow> meas_step sats v w \<Longrightarrow> meas_step sats u w"
  by (auto simp: meas_step_def meas_frame_def ecef_ok_def)

lemma strip_radio_hoFail: "hoFail (strip_radio u) = hoFail u"
  by (simp add: strip_radio_def)

lemma strip_radio_meas_frame:
  assumes "strip_radio u' = strip_radio u"
  shows "meas_frame u u'"
  using strip_radio_eqD [OF assms] arg_cong [OF assms, of hoFail]
  by (simp add: meas_frame_def strip_radio_hoFail)

lemma GetDistanceTrend_meas: "meas_step sats u (snd (GetDistanceTrend P sats c t u))"
  using GetDistanceTrend_cache strip_radio_meas_frame [OF GetDistanceTrend_frame]
  by (simp add: meas_step_def)

lemma UpdateSatelliteState_meas: "meas_step sats u (snd (UpdateSatelliteState P sats c t u))"
  using UpdateSatelliteState_cache strip_radio_meas_frame [OF UpdateSatelliteState_frame]
  by (simp add: meas_step_def)

lemma meas_step_local:
  "servingCellId (f (measState u)) = servingCellId (measState u) \<Longrightarrow> meas_step sats u (upd_meas f u)"
  "meas_step sats u (ResetHoContext u)" "meas_step sats u (u\<lparr>hoContext := h\<rparr>)"
  by (simp_all add: meas_step_def meas_frame_def upd_meas_def ResetHoContext_def)

lemma scan_neighbour_meas: "meas_step sats (sc_ue sc) (sc_ue (scan_neighbour P sats i t s sc m))"
proof -
  let ?u = "upd_meas (\<lambda>ms. ms\<lparr>lastMeasurements := smap_set (mr_cellId m) m (lastMeasurements ms)\<rparr>) (sc_ue sc)"
  have "meas_step sats (sc_ue sc) (snd (GetDistanceTrend P sats (mr_cellId m) t ?u))"
    by (rule meas_step_trans [OF meas_step_local(1) GetDistanceTrend_meas]) simp
  then show ?thesis by (simp add: scan_neighbour_def Let_def case_prod_beta)
qed

lemma scan_neighbours_meas: "meas_step sats u (sc_ue (scan_neighbours P sats i t s u ms))"
proof -
  have "meas_step sats (sc_ue sc) (sc_ue (foldl (scan_neighbour P sats i t s) sc ms))" for sc
    by (induction ms arbitrary: sc) (auto intro: meas_step_trans scan_neighbour_meas)
  from this [of "\<lparr>sc_ue = u, sc_validations = [], sc_records = [], sc_best = None, sc_metric = -999\<rparr>"]
  show ?thesis by (simp add: scan_neighbours_def)
qed

subsection \<open>Measuring on the state\<close>

definition measuring :: "nat \<Rightarrow> cho_world \<Rightarrow> cho_world \<Rightarrow> bool" where
  "measuring i w w' \<longleftrightarrow>
     (\<exists>u'. g_ues w' = (g_ues w)[i := u'] \<and> meas_step (g_satellites w) (g_ues w ! i) u') \<and>
     g_satellites w' = g_satellites w \<and> g_choNtnStats w' = g_choNtnStats w \<and>
     g_handoverCount w' = g_handoverCount w"

lemma measuring_refl [simp]: "measuring i w w"
  by (auto simp: measuring_def intro: exI [of _ "g_ues w ! i"])

lemma measuring_trans:
  assumes "i < length (g_ues w)" "measuring i w v" "measuring i v x"
  shows "measuring i w x"
proof -
  obtain u' u'' where "g_ues v = (g_ues w)[i := u']" "meas_step (g_satellites w) (g_ues w ! i) u'"
      "g_ues x = (g_ues v)[i := u'']" "meas_step (g_satellites v) (g_ues v ! i) u''"
    using assms(2,3) by (auto simp: measuring_def)
  then show ?thesis
    using assms by (auto simp: measuring_def intro: meas_step_trans intro!: exI [of _ u''])
qed

lemma measuring_length: "measuring i w v \<Longrightarrow> length (g_ues v) = length (g_ues w)"
  by (auto simp: measuring_def)

lemma measuring_upd:
  assumes "meas_step (g_satellites w) (g_ues w ! i) (f (g_ues w ! i))"
  shows "measuring i w (upd_ue i f w)"
  using assms by (auto simp: measuring_def)

lemma measuring_same:
  assumes "measuring i w v" "cho_data v' = cho_data v"
  shows "measuring i w v'"
  using assms by (simp add: measuring_def cho_data_def)

text \<open>The events a step of the task adds are not phase events, or the one that starts a procedure.\<close>

definition quiet_events :: "cho_world \<Rightarrow> cho_world \<Rightarrow> bool" where
  "quiet_events w w' \<longleftrightarrow> (\<forall>j. filter_mset (of_ue j) (evs w') = filter_mset (of_ue j) (evs w)) \<and>
     count (evs w') (Call HandoverTick) = count (evs w) (Call HandoverTick)"

definition params_ok :: "params \<Rightarrow> bool" where
  "params_ok P \<longleftrightarrow> g_predictionEvalDelay P < 2 ^ 32"

lemma SchedulePrediction_sim:
  assumes "sim_ok w" "room k w" "0 < k" "evt - now_s w < 2 ^ 32"
  shows "sim_ok (SchedulePendingPredictionEval i s n d evt w) \<and>
    room (k - 1) (SchedulePendingPredictionEval i s n d evt w) \<and>
    now_s (SchedulePendingPredictionEval i s n d evt w) = now_s w \<and>
    quiet_events w (SchedulePendingPredictionEval i s n d evt w) \<and>
    cho_data (SchedulePendingPredictionEval i s n d evt w) = cho_data w"
proof -
  define p where "p = \<lparr>pe_ueId = int i, pe_servingCell = s, pe_neighborCell = n,
      pe_decisionTime = d, pe_evalTime = evt\<rparr>"
  define v where "v = w\<lparr>g_pendingPredictionEvals := g_pendingPredictionEvals w @ [p]\<rparr>"
  have sim: "same_sim w v" by (simp add: v_def same_sim_def simulator.defs)
  note f = same_sim_facts [OF sim]
  have eq: "SchedulePendingPredictionEval i s n d evt w =
      schedule_s (max 0 (evt - now_s w)) (EvalPrediction p) v"
    by (simp add: SchedulePendingPredictionEval_def Let_def p_def v_def now_s_def DSI_Now_def)
  have "sim_ok v" "room k v" using assms f by (simp_all add: room_def)
  from schedule_s_sim [OF this(1) _ _ this(2) assms(3), of "max 0 (evt - now_s w)" "EvalPrediction p"]
  show ?thesis
    unfolding eq using assms(4) by (simp add: f quiet_events_def cho_data_def) (simp add: v_def)
qed

lemma serving_trigger_frame:
  "same_sim w (serving_trigger P i t s b p q r x w)"
  "cho_data (serving_trigger P i t s b p q r x w) = cho_data w"
  by (simp_all add: serving_trigger_def same_sim_def simulator.defs cho_data_def)

lemma cho_dataD:
  assumes "cho_data v = cho_data w"
  shows "g_ues v = g_ues w" "g_satellites v = g_satellites w" "g_choNtnStats v = g_choNtnStats w"
    "g_handoverCount v = g_handoverCount w"
  using assms by (simp_all add: cho_data_def)

definition context_for :: "HoContext \<Rightarrow> cell_id \<Rightarrow> cell_id \<Rightarrow> bool" where
  "context_for h s t \<longleftrightarrow> valid h \<and> sourceCellId h = s \<and> hc_targetCellId h = t"

definition sim_step :: "nat \<Rightarrow> cho_world \<Rightarrow> cho_world \<Rightarrow> bool" where
  "sim_step k w w' \<longleftrightarrow> sim_ok w' \<and> room (k - 1) w' \<and> now_s w' = now_s w \<and> quiet_events w w'"

lemma quiet_events_refl [simp]: "quiet_events w w"
  by (simp add: quiet_events_def)

lemma sim_step_same:
  assumes "same_sim w v" "sim_step k w w'" "same_sim w' v'"
  shows "sim_step k v v'"
  using assms(2) same_sim_facts [OF assms(1)] same_sim_facts [OF assms(3)]
  by (simp add: sim_step_def room_def quiet_events_def)

lemma sim_step_refl: "sim_ok w \<Longrightarrow> room k w \<Longrightarrow> sim_step k w w"
  by (auto simp: sim_step_def room_def)

lemma decide_a3_frame:
  assumes sim: "sim_ok w" "room k w" "0 < k" and i: "i < length (g_ues w)" and P: "params_ok P"
    and t: "t = now_s w" and eq: "decide_a3 P i t s b w = (a3, w')"
  shows "sim_step k w w' \<and> measuring i w w' \<and>
    (a3 \<longrightarrow> context_for (hoContext (g_ues w' ! i)) (mr_cellId s) (mr_cellId b))"
proof -
  let ?u = "g_ues w ! i" and ?sats = "g_satellites w"
  define u1 where "u1 = snd (GetDistanceTrend P ?sats (mr_cellId s) t ?u)"
  define u2 where "u2 = snd (GetDistanceTrend P ?sats (mr_cellId b) t u1)"
  obtain p q r x where p: "p = GetSnrTrend P u2 (mr_cellId s)" "r = GetSnrTrend P u2 (mr_cellId b)"
      "q = fst (GetDistanceTrend P ?sats (mr_cellId s) t ?u)"
      "x = fst (GetDistanceTrend P ?sats (mr_cellId b) t u1)" by simp
  define v where "v = serving_trigger P i t s b p q r x (set_ue i u2 w)"
  define v3 where "v3 = SchedulePendingPredictionEval i (mr_cellId s) (mr_cellId b) t
      (t + g_predictionEvalDelay P) v"
  define row where "row = [Str ''HO TRIGGERED'', Str (mr_cellId b), Whole 1, Num (dynamic_margin P p),
      Num p, Num r]"
  define h where "h = \<lparr>preServingSnr = sinr s, preNeighborSnr = sinr b, decisionTime = t, valid = True,
      sourceCellId = mr_cellId s, hc_targetCellId = mr_cellId b, triggerType = ''A3+prediction''\<rparr>"
  have d: "decide_a3 P i t s b w =
      (if sinr b > sinr s + dynamic_margin P p
       then (True, snr_log row (upd_ue i (\<lambda>ue. ue\<lparr>hoContext := h\<rparr>) v3)) else (False, v3))"
    by (simp add: decide_a3_def Let_def case_prod_beta the_ue_def u1_def u2_def p v_def v3_def row_def h_def)
  have sv: "same_sim w v"
    unfolding v_def by (rule same_sim_trans [OF same_sim_basic(7) serving_trigger_frame(1)])
  have dv: "cho_data v = cho_data (set_ue i u2 w)" by (simp add: v_def serving_trigger_frame(2))
  have "meas_step ?sats ?u u2"
    unfolding u2_def u1_def by (rule meas_step_trans [OF GetDistanceTrend_meas GetDistanceTrend_meas])
  then have "measuring i w (set_ue i u2 w)" unfolding set_ue_def by (rule measuring_upd)
  then have mv: "measuring i w v" by (rule measuring_same) (rule dv)
  have "sim_ok v" "room k v" "t + g_predictionEvalDelay P - now_s v < 2 ^ 32"
    using sim P t same_sim_facts [OF sv] by (simp_all add: room_def params_ok_def)
  from SchedulePrediction_sim [OF this(1,2) sim(3) this(3), of i "mr_cellId s" "mr_cellId b" t]
  have v3: "sim_step k v v3" "cho_data v3 = cho_data v" by (simp_all add: sim_step_def v3_def)
  have m3: "measuring i w v3" using mv v3(2) by (rule measuring_same)
  have sim3: "sim_step k w v3"
    using v3(1) same_sim_facts [OF sv] by (simp add: sim_step_def quiet_events_def)
  let ?v4 = "upd_ue i (\<lambda>ue. ue\<lparr>hoContext := h\<rparr>) v3"
  have "measuring i v3 ?v4" by (rule measuring_upd) (rule meas_step_local(3))
  then have m4: "measuring i w ?v4" using measuring_trans [OF i m3] by blast
  have m5: "measuring i w (snr_log row ?v4)" using m4 by (rule measuring_same) (simp add: cho_data_def)
  have s5: "sim_step k w (snr_log row ?v4)"
    using sim_step_same [OF same_sim_refl sim3, of "snr_log row ?v4"] by simp
  have "i < length (g_ues v3)" using i measuring_length [OF m3] by simp
  then have "hoContext (g_ues (snr_log row ?v4) ! i) = h" by simp
  then show ?thesis
    using eq s5 m5 sim3 m3 unfolding d by (auto simp: context_for_def h_def split: if_splits)
qed

lemma trigger_step_frame: "servingCellId (snd (trigger_step n a c t d ms)) = servingCellId ms"
  by (simp add: trigger_step_def)

lemma trigger_step_reports: "fst (trigger_step n a c t d ms) \<Longrightarrow> n \<or> a"
  by (simp add: trigger_step_def split: if_splits)

definition mstep :: "nat \<Rightarrow> nat \<Rightarrow> cho_world \<Rightarrow> cho_world \<Rightarrow> bool" where
  "mstep k i w w' \<longleftrightarrow> sim_step k w w' \<and> measuring i w w'"

lemma mstep_upd:
  assumes "i < length (g_ues w)" "mstep k i w v"
    and "meas_step (g_satellites v) (g_ues v ! i) (f (g_ues v ! i))"
  shows "mstep k i w (upd_ue i f v)"
  using assms measuring_trans [OF assms(1) _ measuring_upd [of v i f]]
    sim_step_same [OF same_sim_refl _ same_sim_basic(1)]
  by (auto simp: mstep_def)

lemma mstep_same:
  assumes "mstep k i w v" "same_sim v v'" "cho_data v' = cho_data v"
  shows "mstep k i w v'"
  using assms sim_step_same [OF same_sim_refl] measuring_same by (auto simp: mstep_def)

lemma mstep_length: "mstep k i w v \<Longrightarrow> length (g_ues v) = length (g_ues w)"
  by (auto simp: mstep_def dest: measuring_length)

lemma mstep_shift:
  assumes "i < length (g_ues w)" "same_sim w v" "measuring i w v" "mstep k i v x"
  shows "mstep k i w x"
  using assms measuring_trans [OF assms(1,3)] same_sim_facts [OF assms(2)]
  by (auto simp: mstep_def sim_step_def quiet_events_def)

definition report_fits :: "UeInfo \<Rightarrow> UeInfo \<Rightarrow> MeasurementReport \<Rightarrow> bool" where
  "report_fits u u' r \<longleftrightarrow> servingCellId (measState u) \<noteq> [] \<and>
     mr_cellId (servingCell r) = servingCellId (measState u) \<and>
     (report_target r \<noteq> [] \<longrightarrow>
        context_for (hoContext u') (servingCellId (measState u)) (report_target r))"

lemma EvaluateAndReport_frame:
  assumes sim: "sim_ok w" "room k w" "0 < k" and i: "i < length (g_ues w)" and P: "params_ok P"
    and t: "t = now_s w" and eq: "UE_EvaluateAndReport P i t w = (r, w')"
  shows "mstep k i w w' \<and> (\<forall>rep. r = Some rep \<longrightarrow> report_fits (g_ues w ! i) (g_ues w' ! i) rep)"
proof -
  let ?u = "g_ues w ! i" and ?sid = "servingCellId (measState (g_ues w ! i))"
  let ?ms = "UE_PerformMeasurements P (g_satellites w) ?u t"
  have refl: "mstep k i w w" using sim_step_refl [OF sim(1,2)] by (simp add: mstep_def)
  have reset: "mstep k i w (upd_ue i ResetHoContext w)"
    by (rule mstep_upd [OF i refl]) (rule meas_step_local(2))
  consider (off) "?sid = []" | (rlf) "?sid \<noteq> []" "find (\<lambda>m. mr_cellId m = ?sid) ?ms = None"
    | (on) s where "?sid \<noteq> []" "find (\<lambda>m. mr_cellId m = ?sid) ?ms = Some s" by fastforce
  then show ?thesis
  proof cases
    case off
    then show ?thesis using eq reset by (auto simp: UE_EvaluateAndReport_def the_ue_def)
  next
    case rlf
    then show ?thesis
      using eq reset
      by (auto simp: UE_EvaluateAndReport_def the_ue_def Let_def report_fits_def rlf_report_def
          report_target_def)
  next
    case on
    have sid: "mr_cellId s = ?sid" using on(2) by (auto simp: find_Some_iff)
    define w2 where "w2 = snr_log [Str ''Serving'', Str ?sid, Num (sinr s),
        Num (GetSnrTrend P (the_ue i (upd_ue i (upd_meas (\<lambda>ms. ms\<lparr>lastMeasurements :=
          smap_set ?sid s (lastMeasurements ms)\<rparr>)) w)) ?sid)]
      (snr_log [Str ''Trend Analysis'', Num t, Whole (int i)]
        (upd_ue i (upd_meas (\<lambda>ms. ms\<lparr>lastMeasurements := smap_set ?sid s (lastMeasurements ms)\<rparr>)) w))"
    define sc where "sc = scan_neighbours P (g_satellites w) i t ?sid (the_ue i w2) ?ms"
    define w3 where "w3 = set_ue i (sc_ue sc) w2"
    define w4 where "w4 = w3\<lparr>g_pendingMeasurementValidations :=
        g_pendingMeasurementValidations w3 @ sc_validations sc,
        g_candidateSelectionLog := g_candidateSelectionLog w3 @
          map (candidate_row i t (sc_best sc)) (sc_records sc)\<rparr>"
    obtain a3 w5 where d: "(case sc_best sc of None \<Rightarrow> (False, w4)
        | Some b \<Rightarrow> decide_a3 P i t s b w4) = (a3, w5)" by (metis surj_pair)
    define w6 where "w6 = (if \<not> a3 then upd_ue i ResetHoContext w5 else w5)"
    let ?cand = "case sc_best sc of None \<Rightarrow> [] | Some b \<Rightarrow> mr_cellId b"
    obtain rp ms' where tr: "trigger_step False a3 ?cand t (mc_timeToTrigger (measConfig (the_ue i w6)))
        (measState (the_ue i w6)) = (rp, ms')" by (metis surj_pair)
    define w7 where "w7 = upd_ue i (upd_meas (\<lambda>_. ms')) w6"
    have res: "r = (if rp then Some (cho_report t False s (sc_best sc)) else None)"
        "w' = (if \<not> a3 then upd_ue i ResetHoContext w7 else w7)"
      using eq on d tr
      unfolding UE_EvaluateAndReport_def the_ue_def Let_def UE_EvaluateNtnTriggers_def w7_def w6_def
        w4_def w3_def sc_def w2_def by simp_all
    have s2: "same_sim w w2" "cho_data w2 = cho_data (upd_ue i (upd_meas (\<lambda>ms. ms\<lparr>lastMeasurements :=
        smap_set ?sid s (lastMeasurements ms)\<rparr>)) w)"
      by (simp_all add: w2_def cho_data_def)
    have "measuring i w (upd_ue i (upd_meas (\<lambda>ms. ms\<lparr>lastMeasurements :=
        smap_set ?sid s (lastMeasurements ms)\<rparr>)) w)"
      by (rule measuring_upd, rule meas_step_local(1)) simp
    then have m2: "measuring i w w2" by (rule measuring_same) (rule s2(2))
    have i2: "i < length (g_ues w2)" using i measuring_length [OF m2] by simp
    have sats2: "g_satellites w2 = g_satellites w" using m2 by (simp add: measuring_def)
    have "measuring i w2 w3" unfolding w3_def set_ue_def
      by (rule measuring_upd) (simp add: sc_def sats2 scan_neighbours_meas the_ue_def)
    then have m3: "measuring i w w3" by (rule measuring_trans [OF i m2])
    have m4: "measuring i w w4" using m3 by (rule measuring_same) (simp add: w4_def cho_data_def)
    have s4: "same_sim w w4"
      using s2(1) by (auto simp: w4_def w3_def same_sim_def simulator.defs set_ue_def upd_ue_def)
    note f4 = same_sim_facts [OF s4]
    have i4: "i < length (g_ues w4)" using i measuring_length [OF m4] by simp
    have sim4: "sim_ok w4" "room k w4" "t = now_s w4" using sim t f4 by (simp_all add: room_def)
    have "mstep k i w4 w5 \<and> (a3 \<longrightarrow> (\<exists>b. sc_best sc = Some b \<and>
        context_for (hoContext (g_ues w5 ! i)) ?sid (mr_cellId b)))"
    proof (cases "sc_best sc")
      case None
      then show ?thesis using d sim_step_refl [OF sim4(1,2)] by (auto simp: mstep_def)
    next
      case (Some b)
      then show ?thesis
        using decide_a3_frame [OF sim4(1,2) sim(3) i4 P sim4(3), of s b a3 w5] d sid by (auto simp: mstep_def)
    qed
    then have m5: "mstep k i w w5" and ctx: "a3 \<Longrightarrow> \<exists>b. sc_best sc = Some b \<and>
        context_for (hoContext (g_ues w5 ! i)) ?sid (mr_cellId b)"
      using mstep_shift [OF i s4 m4] by auto
    have m6: "mstep k i w w6"
      using m5 mstep_upd [of i w k w5 ResetHoContext] i meas_step_local(2) by (simp add: w6_def)
    have "servingCellId ms' = servingCellId (measState (g_ues w6 ! i))"
      using trigger_step_frame [of False a3 ?cand t "mc_timeToTrigger (measConfig (the_ue i w6))"
          "measState (the_ue i w6)"] tr by (simp add: the_ue_def)
    then have m7: "mstep k i w w7"
      unfolding w7_def by (intro mstep_upd [OF i m6] meas_step_local(1)) simp
    have m8: "mstep k i w w'"
      using m7 mstep_upd [of i w k w7 ResetHoContext] i meas_step_local(2) by (simp add: res(2))
    have "report_fits ?u (g_ues w' ! i) rep" if "r = Some rep" for rep
    proof -
      have a: a3 "rp" "rep = cho_report t False s (sc_best sc)"
        using that res(1) trigger_step_reports [of False a3 ?cand t
            "mc_timeToTrigger (measConfig (the_ue i w6))" "measState (the_ue i w6)"] tr
        by (auto split: if_splits)
      then obtain b where b: "sc_best sc = Some b" "context_for (hoContext (g_ues w5 ! i)) ?sid (mr_cellId b)"
        using ctx by blast
      have "w' = upd_ue i (upd_meas (\<lambda>_. ms')) w5" using a(1) res(2) by (simp add: w7_def w6_def)
      moreover have "i < length (g_ues w5)" using i mstep_length [OF m5] by simp
      ultimately have "hoContext (g_ues w' ! i) = hoContext (g_ues w5 ! i)" by (simp add: upd_meas_def)
      then show ?thesis
        using a(3) b on(1) sid by (simp add: report_fits_def cho_report_def report_target_def)
    qed
    then show ?thesis using m8 by blast
  qed
qed

subsection \<open>The handover check\<close>

lemma meas_ok:
  assumes "ue_ok u" "meas_step sats u u'" "sats_ok sats"
    and "phase (choProcState u) = CHO_IDLE \<or> hoContext u' = hoContext u"
  shows "ue_ok u'" "next_event j u' = next_event j u" "ueChoStats u' = ueChoStats u" "hoCount u' = hoCount u"
proof -
  have f: "meas_frame u u'" "cache_ok (channelCache u')"
    using assms by (auto simp: meas_step_def ue_ok_def bounds_ok_def)
  have "accounting u'" using assms(1) f(1) by (simp add: ue_ok_def accounting_def meas_frame_def)
  moreover have "phase_consistent u'"
    using assms(1,4) f(1) by (auto simp: ue_ok_def phase_consistent_def meas_frame_def Let_def)
  moreover have "bounds_ok u'"
    using assms(1) f by (simp add: ue_ok_def bounds_ok_def meas_frame_def ecef_ok_def)
  ultimately show "ue_ok u'" by (simp add: ue_ok_def)
  show "next_event j u' = next_event j u" "ueChoStats u' = ueChoStats u" "hoCount u' = hoCount u"
    using f(1) by (auto simp: meas_frame_def intro: next_event_cong)
qed

text \<open>A step of the task that keeps the invariant, the clock and the periodic event, and uses up at
  most \<open>k\<close> event ids.\<close>

definition tick_step :: "nat \<Rightarrow> cho_world \<Rightarrow> cho_world \<Rightarrow> bool" where
  "tick_step k w w' \<longleftrightarrow> cho_inv (evs w') w' \<and> (\<forall>m. room (k + m) w \<longrightarrow> room m w') \<and>
     now_s w' = now_s w \<and> length (g_ues w') = length (g_ues w) \<and>
     count (evs w') (Call HandoverTick) = count (evs w) (Call HandoverTick)"

lemma room_mono: "room k w \<Longrightarrow> l \<le> k \<Longrightarrow> room l w"
  by (simp add: room_def)

lemma tick_step_room: "tick_step k w w' \<Longrightarrow> room (k + m) w \<Longrightarrow> room m w'"
  by (simp add: tick_step_def)

lemma tick_step_trans:
  assumes "tick_step k u v" "tick_step l v w"
  shows "tick_step (k + l) u w"
proof -
  have "room m w" if "room (k + l + m) u" for m
    using tick_step_room [OF assms(2), of m] tick_step_room [OF assms(1), of "l + m"] that
    by (simp add: add.assoc)
  then show ?thesis using assms unfolding tick_step_def by simp
qed

lemma tick_step_mono:
  assumes "tick_step k w w'" "k \<le> l"
  shows "tick_step l w w'"
proof -
  have "room m w'" if "room (l + m) w" for m
    using tick_step_room [OF assms(1), of m] room_mono [OF that, of "k + m"] assms(2) by simp
  then show ?thesis using assms(1) unfolding tick_step_def by simp
qed

lemma mstep_inv:
  assumes inv: "cho_inv (evs w) w" and i: "i < length (g_ues w)" and m: "measuring i w w'"
    and ok: "sim_ok w'" and q: "quiet_events w w'"
    and ph: "phase (choProcState (g_ues w ! i)) = CHO_IDLE \<or>
             hoContext (g_ues w' ! i) = hoContext (g_ues w ! i)"
  shows "cho_inv (evs w') w'"
proof -
  obtain u' where u': "g_ues w' = (g_ues w)[i := u']" "meas_step (g_satellites w) (g_ues w ! i) u'"
    using m by (auto simp: measuring_def)
  have "sats_ok (g_satellites w)" using inv by (simp add: cho_inv_def)
  note u = meas_ok [OF cho_inv_ue [OF inv i] u'(2) this]
  have "phase (choProcState (g_ues w ! i)) = CHO_IDLE \<or> hoContext u' = hoContext (g_ues w ! i)"
    using ph u'(1) i by simp
  note u = u [OF this]
  show ?thesis
    by (rule cho_inv_update [OF inv i ok u'(1) _ u(1)])
      (use m q cho_inv_ev [OF inv i] u in \<open>simp_all add: measuring_def quiet_events_def\<close>)
qed

lemma Trigger_inv:
  assumes inv: "cho_inv (evs w) w" and i: "i < length (g_ues w)" and room: "room k w" "0 < k"
    and ph: "phase (choProcState (g_ues w ! i)) = CHO_IDLE"
    and src: "mr_cellId (servingCell r) = servingGnb (ue_context (g_ues w ! i))"
      "mr_cellId (servingCell r) \<noteq> []"
    and ctx: "report_target r \<noteq> [] \<Longrightarrow>
      context_for (hoContext (g_ues w ! i)) (mr_cellId (servingCell r)) (report_target r)"
  shows "cho_inv (evs (CHO_TriggerProcedure i (Some r) w)) (CHO_TriggerProcedure i (Some r) w) \<and>
    room (k - 1) (CHO_TriggerProcedure i (Some r) w) \<and>
    now_s (CHO_TriggerProcedure i (Some r) w) = now_s w \<and>
    evs (CHO_TriggerProcedure i (Some r) w) =
      add_mset (Call (CHO_Phase1 i (mr_cellId (servingCell r)) (report_target r))) (evs w)"
proof -
  let ?u = "g_ues w ! i" and ?t = "now_s w" and ?s = "mr_cellId (servingCell r)"
  let ?d = "GetUuDelayForUe ?u ?s + DELAY_RRC_PROC"
  have ok: "ue_ok ?u" using inv i by (rule cho_inv_ue)
  have "0 \<le> GetUuDelayForUe ?u ?s \<and> GetUuDelayForUe ?u ?s \<le> 20"
    using ok by (intro GetUuDelayForUe_bound) (simp add: ue_ok_def bounds_ok_def)
  then have d: "0 \<le> ?d" "?d \<le> 30" by (simp_all add: DELAY_RRC_PROC_def)
  let ?u' = "upd_stats (\<lambda>s. s\<lparr>totalReports := totalReports s + 1, st_lastReportTime := ?t\<rparr>)
      (upd_proc (\<lambda>c. c\<lparr>phase := CHO_MEAS_REPORT_UPLINK, sourceCell := ?s, targetCell := report_target r,
        procedureStartTime := ?t, phaseStartTime := ?t, failed := False, failureReason := [],
        servingSnrAtReport := sinr (servingCell r), targetSnrAtReport := report_target_snr r,
        measReportUplinkDelay := ?d, reconfigDownlinkDelay := ?d\<rparr>) ?u)"
  have ph': "phase_of i w = CHO_IDLE" using ph by (simp add: phase_of_def the_ue_def)
  have none: "filter_mset (of_ue i) (evs w) = {#}"
    using cho_inv_ev [OF inv i] ph by (simp add: next_event_def)
  have ok': "ue_ok ?u'" using ok ph d src ctx by (simp add: op_defs inv_defs context_for_def)
  show ?thesis
    unfolding CHO_TriggerProcedure_def Let_def option.case
    by (simp only: ph' not_True_eq_False if_False simp_thms the_ue_def,
        rule cho_inv_schedule [OF inv i room, of _ _ ?u'])
      (use i ok' none d in \<open>simp_all add: op_defs same_delta_def next_event_def Let_def\<close>)
qed

lemma tick_step_intro:
  assumes "\<And>m. room (k + m) w \<Longrightarrow> cho_inv (evs w') w' \<and> room m w' \<and> now_s w' = now_s w \<and>
      length (g_ues w') = length (g_ues w) \<and>
      count (evs w') (Call HandoverTick) = count (evs w) (Call HandoverTick)"
    and "room k w"
  shows "tick_step k w w'"
  using assms(1) assms(1) [of 0] assms(2) by (simp add: tick_step_def)

lemma Trigger_ues: "length (g_ues (CHO_TriggerProcedure i r w)) = length (g_ues w)"
  by (simp add: CHO_TriggerProcedure_def both_stats_def Let_def split: option.split)

lemma CheckExecution_ues: "length (g_ues (CHO_CheckExecutionCondition P i x w)) = length (g_ues w)"
  by (simp add: CHO_CheckExecutionCondition_def CHO_Phase6_UeExecutes_def both_stats_def set_phase_def
      Let_def split: option.split prod.split)

lemma CheckHandover_step:
  assumes inv: "cho_inv (evs w) w" and i: "i < length (g_ues w)" and room: "room 2 w"
    and P: "params_ok P" and t: "t = now_s w"
  shows "tick_step 2 w (CheckHandover P t i w)"
proof (rule tick_step_intro [OF _ room])
  fix m
  assume r: "room (2 + m) w"
  let ?u = "g_ues w ! i" and ?v = "CheckHandover P t i w"
  let ?goal = "\<lambda>v. cho_inv (evs v) v \<and> room m v \<and> now_s v = now_s w \<and> length (g_ues v) = length (g_ues w) \<and>
      count (evs v) (Call HandoverTick) = count (evs w) (Call HandoverTick)"
  have ok: "ue_ok ?u" using inv i by (rule cho_inv_ue)
  have stay: "?goal w" using inv r by (auto intro: room_mono)
  let ?act = "servingGnb (ue_context ?u)"
  have sid: "servingCellId (measState ?u) = ?act"
    using ok by (simp add: ue_ok_def phase_consistent_def Let_def)
  consider (busy) "phase (choProcState ?u) \<noteq> CHO_IDLE" "phase (choProcState ?u) \<noteq> CHO_UE_EVALUATING"
    | (eval) "phase (choProcState ?u) = CHO_UE_EVALUATING"
    | (idle) "phase (choProcState ?u) = CHO_IDLE" by blast
  then show "?goal ?v"
  proof cases
    case busy
    then have "?v = w" by (simp add: CheckHandover_def the_ue_def)
    then show ?thesis using stay by simp
  next
    case eval
    then have "?v = CHO_CheckExecutionCondition P i t w" by (simp add: CheckHandover_def the_ue_def)
    moreover from CheckExecutionCondition_inv [OF inv i r, of P t] obtain e where
      "cho_inv (evs (CHO_CheckExecutionCondition P i t w)) (CHO_CheckExecutionCondition P i t w)"
      "room (1 + m) (CHO_CheckExecutionCondition P i t w)"
      "now_s (CHO_CheckExecutionCondition P i t w) = now_s w" "e \<noteq> Some HandoverTick"
      "evs (CHO_CheckExecutionCondition P i t w) = opt_mset e + evs w" by auto
    ultimately show ?thesis
      using CheckExecution_ues by (cases e) (auto intro: room_mono)
  next
    case idle
    let ?w2 = "upd_ue i (upd_meas (\<lambda>ms. ms\<lparr>ms_lastMeasurementTime := t\<rparr>)) w"
    obtain rep w3 where e: "UE_EvaluateAndReport P i t ?w2 = (rep, w3)" by (metis surj_pair)
    have v: "?v = w \<or> (?act \<noteq> [] \<and> ?v = CHO_TriggerProcedure i rep w3)"
      using idle sid e by (simp add: CheckHandover_def the_ue_def Let_def)
    have s2: "same_sim w ?w2" by simp
    note f2 = same_sim_facts [OF s2]
    have m2: "measuring i w ?w2" by (rule measuring_upd, rule meas_step_local(1)) simp
    have "sim_ok ?w2" "room (2 + m) ?w2" "i < length (g_ues ?w2)" "t = now_s ?w2"
      using inv r i t f2 by (simp_all add: cho_inv_def room_def)
    from EvaluateAndReport_frame [OF this(1,2) _ this(3) P this(4) e]
    have st: "mstep (2 + m) i ?w2 w3" "\<And>x. rep = Some x \<Longrightarrow> report_fits (g_ues ?w2 ! i) (g_ues w3 ! i) x"
      by auto
    have w3: "mstep (2 + m) i w w3" using mstep_shift [OF i s2 m2 st(1)] .
    then have sim3: "sim_ok w3" "room (1 + m) w3" "now_s w3 = now_s w" "quiet_events w w3" "measuring i w w3"
      by (auto simp: mstep_def sim_step_def)
    have inv3: "cho_inv (evs w3) w3" using mstep_inv [OF inv i sim3(5,1,4)] idle by simp
    have i3: "i < length (g_ues w3)" using i mstep_length [OF w3] by simp
    obtain u' where u': "g_ues w3 = (g_ues w)[i := u']" "meas_step (g_satellites w) ?u u'"
      using sim3(5) by (auto simp: measuring_def)
    then have u3: "meas_frame ?u (g_ues w3 ! i)" using i by (simp add: meas_step_def)
    show ?thesis
    proof (cases "rep = None \<or> ?v = w")
      case True
      then show ?thesis
        using v stay inv3 sim3 mstep_length [OF w3]
        by (auto simp: CHO_TriggerProcedure_def quiet_events_def intro: room_mono)
    next
      case False
      then obtain x where x: "rep = Some x" "?v = CHO_TriggerProcedure i (Some x) w3" using v by auto
      have fits: "report_fits (g_ues ?w2 ! i) (g_ues w3 ! i) x" using st(2) x(1) by blast
      have src: "mr_cellId (servingCell x) = ?act" "?act \<noteq> []"
          "report_target x \<noteq> [] \<Longrightarrow> context_for (hoContext (g_ues w3 ! i)) ?act (report_target x)"
        using fits i sid by (auto simp: report_fits_def upd_meas_def)
      have "cho_inv (evs ?v) ?v \<and> room (1 + m - 1) ?v \<and> now_s ?v = now_s w3 \<and>
          evs ?v = add_mset (Call (CHO_Phase1 i (mr_cellId (servingCell x)) (report_target x))) (evs w3)"
        unfolding x(2)
        by (rule Trigger_inv [OF inv3 i3 sim3(2)]) (use u3 idle src in \<open>auto simp: meas_frame_def\<close>)
      then show ?thesis
        using sim3 mstep_length [OF w3] by (auto simp: x(2) Trigger_ues quiet_events_def)
    qed
  qed
qed

lemma fold_tick:
  assumes "\<And>i w. i \<in> set is \<Longrightarrow> cho_inv (evs w) w \<Longrightarrow> i < length (g_ues w) \<Longrightarrow> room k w \<Longrightarrow> t = now_s w \<Longrightarrow>
      tick_step k w (f w i)"
    and "cho_inv (evs w) w" "room (k * length is) w" "t = now_s w" "\<forall>i \<in> set is. i < length (g_ues w)"
  shows "tick_step (k * length is) w (foldl f w is)"
  using assms
proof (induction "is" arbitrary: w)
  case Nil
  then show ?case by (simp add: tick_step_def)
next
  case (Cons a "is")
  have r: "room k w" using Cons.prems(3) by (rule room_mono) simp
  have first: "tick_step k w (f w a)" using Cons.prems r by simp
  have "tick_step (k * length is) (f w a) (foldl f (f w a) is)"
  proof (rule Cons.IH)
    show "cho_inv (evs (f w a)) (f w a)" "t = now_s (f w a)" "\<forall>i \<in> set is. i < length (g_ues (f w a))"
      using first Cons.prems by (simp_all add: tick_step_def)
    show "room (k * length is) (f w a)"
      using tick_step_room [OF first] Cons.prems(3) by simp
  qed (use Cons.prems in simp)
  then show ?case using tick_step_trans [OF first] by simp
qed

end
