(* ===== verification/Cho_Run.thy ===== *)
theory Cho_Run
  imports Cho_Tick
begin

text \<open>
  The whole run: the periodic task and the event handler keep the invariant, the handler fits the
  simulator's contract, and the invariant holds in every state a run reaches.
\<close>

subsection \<open>Links and initial selection\<close>

lemma quiet_step:
  assumes inv: "cho_inv (evs w) w" and i: "i < length (g_ues w)" and sim: "same_sim w v"
    and ues: "g_ues v = (g_ues w)[i := u']" and sats: "g_satellites v = g_satellites w"
    and stats: "g_choNtnStats v = g_choNtnStats w" "g_handoverCount v = g_handoverCount w"
    and u: "ue_ok u'" "next_event i u' = next_event i (g_ues w ! i)"
      "ueChoStats u' = ueChoStats (g_ues w ! i)" "hoCount u' = hoCount (g_ues w ! i)"
  shows "tick_step 0 w v"
proof -
  have "cho_inv (evs v) v"
    by (rule cho_inv_local [OF inv i sim ues sats u(1)])
      (use stats u cho_inv_ev [OF inv i] in \<open>simp_all add: same_delta_def\<close>)
  then show ?thesis
    using same_sim_facts [OF sim] by (simp add: tick_step_def room_def ues)
qed

lemma tick_step_refl: "cho_inv (evs w) w \<Longrightarrow> tick_step 0 w w"
  by (simp add: tick_step_def)

lemma initial_selection_step:
  assumes inv: "cho_inv (evs w) w" and i: "i < length (g_ues w)"
  shows "tick_step 0 w (initial_selection P i w)"
proof -
  let ?u = "g_ues w ! i" and ?best = "SelectBestSatellite P i [] w"
  have ok: "ue_ok ?u" using inv i by (rule cho_inv_ue)
  show ?thesis
  proof (cases "servingGnb (ue_context ?u) \<noteq> [] \<or> ?best = []")
    case True
    then have "initial_selection P i w = w" by (auto simp: initial_selection_def the_ue_def Let_def)
    then show ?thesis using tick_step_refl [OF inv] by simp
  next
    case False
    let ?f = "\<lambda>ue. upd_meas (\<lambda>ms. ms\<lparr>servingCellId := ?best\<rparr>) (ue\<lparr>ue_context := (ue_context ue)\<lparr>servingGnb := ?best\<rparr>\<rparr>)"
    have v: "initial_selection P i w = upd_ue i ?f w"
      using False by (simp add: initial_selection_def the_ue_def Let_def)
    have idle: "phase (choProcState ?u) = CHO_IDLE"
      using ok False by (auto simp: ue_ok_def phase_consistent_def Let_def)
    have ok': "ue_ok (?f ?u)"
      using ok idle by (simp add: ue_ok_def accounting_def phase_consistent_def bounds_ok_def ecef_ok_def
          upd_meas_def Let_def)
    show ?thesis
      unfolding v
      by (rule quiet_step [OF inv i _ _ _ _ _ ok'])
        (auto simp: upd_meas_def intro: next_event_cong)
  qed
qed

lemma link_irrelevant:
  "ue_ok (u\<lparr>ulErrorRate := a, dlErrorRate := b, p2pDelay := d\<rparr>) = ue_ok u"
  by (simp add: ue_ok_def accounting_def phase_consistent_def bounds_ok_def ecef_ok_def Let_def)

lemma update_link_step:
  assumes inv: "cho_inv (evs w) w" and i: "i < length (g_ues w)"
  shows "tick_step 0 w (update_link P i w)"
proof -
  let ?u = "g_ues w ! i" and ?act = "servingGnb (ue_context (g_ues w ! i))"
  have ok: "ue_ok ?u" using inv i by (rule cho_inv_ue)
  show ?thesis
  proof (cases "?act = [] \<or> map_of (channelCache ?u) ?act = None")
    case True
    then have "update_link P i w = w" by (auto simp: update_link_def the_ue_def Let_def)
    then show ?thesis using tick_step_refl [OF inv] by simp
  next
    case False
    then obtain t m where c: "map_of (channelCache ?u) ?act = Some (t, m)" by auto
    obtain a b d x y where v: "update_link P i w =
        (upd_ue i (\<lambda>ue. ue\<lparr>ulErrorRate := a ue, dlErrorRate := b ue, p2pDelay := d ue\<rparr>) w)
          \<lparr>g_channelLog := x, g_snrLog := y\<rparr>"
      using c False by (simp add: update_link_def the_ue_def Let_def)
    let ?v = "update_link P i w"
    let ?u' = "?u\<lparr>ulErrorRate := a ?u, dlErrorRate := b ?u, p2pDelay := d ?u\<rparr>"
    have sim: "same_sim w ?v" unfolding v by (simp add: same_sim_def upd_ue_def simulator.defs)
    have ok': "ue_ok ?u'"
      using ok by (simp add: link_irrelevant)
    show ?thesis
      by (rule quiet_step [OF inv i sim _ _ _ _ ok']) (auto simp: v intro: next_event_cong)
  qed
qed

lemma UpdateChannelState_step:
  assumes inv: "cho_inv (evs w) w" and room: "room 0 w"
  shows "tick_step 0 w (UpdateChannelState P w)"
proof -
  have "tick_step 0 v (update_link P i (initial_selection P i v))"
    if "cho_inv (evs v) v" "i < length (g_ues v)" for i v
  proof -
    have s: "tick_step 0 v (initial_selection P i v)" using that by (rule initial_selection_step)
    then have "tick_step 0 (initial_selection P i v) (update_link P i (initial_selection P i v))"
      using that(2) by (intro update_link_step) (simp_all add: tick_step_def)
    then show ?thesis using tick_step_trans [OF s] by simp
  qed
  then show ?thesis
    unfolding UpdateChannelState_def
    using fold_tick [of "[0..<length (g_ues w)]" 0 "now_s w" "\<lambda>w i. update_link P i (initial_selection P i w)" w]
      inv room by simp
qed

subsection \<open>Refreshing the channels\<close>

lemma refresh_ue_meas: "meas_step sats u (refresh_ue P sats t u)"
proof -
  have "meas_step sats u (foldl (\<lambda>u (n, s). snd (UpdateSatelliteState P sats n t u)) u xs)" for xs
    by (induction xs arbitrary: u) (auto intro: meas_step_trans UpdateSatelliteState_meas)
  then show ?thesis by (simp add: refresh_ue_def)
qed

lemma UpdateSatelliteState_hoContext: "hoContext (snd (UpdateSatelliteState P sats n t u)) = hoContext u"
  by (rule strip_radio_eqD(7)) simp

lemma refresh_ue_hoContext: "hoContext (refresh_ue P sats t u) = hoContext u"
proof -
  have "hoContext (foldl (\<lambda>u (n, s). snd (UpdateSatelliteState P sats n t u)) u xs) = hoContext u" for xs
    by (induction xs arbitrary: u) (auto simp: UpdateSatelliteState_hoContext)
  then show ?thesis by (simp add: refresh_ue_def)
qed

lemma refresh_step:
  assumes inv: "cho_inv (evs w) w"
  shows "tick_step 0 w (w\<lparr>g_ues := map (refresh_ue P (g_satellites w) t) (g_ues w)\<rparr>)"
    (is "tick_step 0 w ?v")
proof -
  let ?r = "refresh_ue P (g_satellites w) t"
  have sim: "same_sim w ?v" by (simp add: same_sim_def simulator.defs)
  note f = same_sim_facts [OF sim]
  have sats: "sats_ok (g_satellites w)" using inv by (simp add: cho_inv_def)
  have u: "ue_ok (?r u)" "next_event j (?r u) = next_event j u" "ueChoStats (?r u) = ueChoStats u"
    "hoCount (?r u) = hoCount u" if "ue_ok u" for u j
    using meas_ok [OF that refresh_ue_meas sats disjI2 [OF refresh_ue_hoContext]] by auto
  have ok: "\<forall>x \<in> set (g_ues w). ue_ok x" using inv by (simp add: cho_inv_def)
  have "events_match (evs w) (map ?r (g_ues w))"
    using inv u(2) ok by (auto simp: cho_inv_def events_match_def)
  moreover have "sum_of fld (map ?r (g_ues w)) = sum_of fld (g_ues w)" for fld
    using u(3) ok by (auto simp: sum_of_def intro!: arg_cong [of _ _ sum_list])
  moreover have "(\<Sum>x \<leftarrow> g_ues w. hoCount (?r x)) = (\<Sum>x \<leftarrow> g_ues w. hoCount x)"
    using u(4) ok by (intro arg_cong [of _ _ sum_list] map_cong) auto
  ultimately have "cho_inv (evs ?v) ?v"
    using inv u(1) f by (auto simp: cho_inv_def stats_match_def comp_def)
  then show ?thesis using f by (simp add: tick_step_def room_def)
qed

subsection \<open>The periodic task\<close>

lemma data_step:
  assumes "cho_inv (evs w) w" "same_sim w v" "cho_data v = cho_data w"
  shows "tick_step 0 w v"
  using assms same_sim_facts [OF assms(2)] cho_dataD [OF assms(3)]
  by (simp add: tick_step_def cho_inv_def room_def)

lemma Verify_step:
  assumes "cho_inv (evs w) w"
  shows "tick_step 0 w (VerifyPendingMeasurements w)" "tick_step 0 w (VerifyPendingServingSnrFollowups w)"
    "tick_step 0 w (WriteVisualizationSnapshot t w)"
  by (rule data_step [OF assms]; simp add: VerifyPendingMeasurements_def
      VerifyPendingServingSnrFollowups_def WriteVisualizationSnapshot_def same_sim_def simulator.defs
      cho_data_def case_prod_beta Let_def)+

lemma CheckHandoverConditions_inv:
  assumes inv: "cho_inv (evs w) w" and room: "room (2 * length (g_ues w) + 1) w" and P: "params_ok P"
  shows "cho_inv (evs (CheckHandoverConditions P w)) (CheckHandoverConditions P w) \<and>
    count (evs (CheckHandoverConditions P w)) (Call HandoverTick) =
      count (evs w) (Call HandoverTick) + 1 \<and>
    m_currentTs (CheckHandoverConditions P w) = m_currentTs w \<and> room 0 (CheckHandoverConditions P w)"
proof -
  let ?t = "now_s w" and ?n = "length (g_ues w)"
  define w1 where "w1 = w\<lparr>g_ues := map (refresh_ue P (g_satellites w) ?t) (g_ues w)\<rparr>"
  define w2 where "w2 = UpdateChannelState P w1"
  define w3 where "w3 = VerifyPendingMeasurements w2"
  define w4 where "w4 = VerifyPendingServingSnrFollowups w3"
  define w5 where "w5 = foldl (\<lambda>w i. CheckHandover P ?t i w) w4 [0..<length (g_ues w4)]"
  define w6 where "w6 = WriteVisualizationSnapshot ?t w5"
  have eq: "CheckHandoverConditions P w = schedule_s 1 HandoverTick w6"
    by (simp add: CheckHandoverConditions_def Let_def w1_def w2_def w3_def w4_def w5_def w6_def)
  have s1: "tick_step 0 w w1" unfolding w1_def by (rule refresh_step [OF inv])
  have i1: "cho_inv (evs w1) w1" "room 0 w1"
    using s1 tick_step_room [OF s1, of 0] room room_mono by (auto simp: tick_step_def)
  have s2: "tick_step 0 w1 w2" unfolding w2_def by (rule UpdateChannelState_step [OF i1])
  have i2: "cho_inv (evs w2) w2" using s2 by (simp add: tick_step_def)
  have s3: "tick_step 0 w2 w3" unfolding w3_def by (rule Verify_step(1) [OF i2])
  have i3: "cho_inv (evs w3) w3" using s3 by (simp add: tick_step_def)
  have s4: "tick_step 0 w3 w4" unfolding w4_def by (rule Verify_step(2) [OF i3])
  have t4: "tick_step 0 w w4" using tick_step_trans [OF tick_step_trans [OF tick_step_trans [OF s1 s2] s3] s4] by simp
  then have i4: "cho_inv (evs w4) w4" "length (g_ues w4) = ?n" "?t = now_s w4" "room (2 * ?n + 1) w4"
    using room tick_step_room [OF t4, of "2 * ?n + 1"] by (simp_all add: tick_step_def)
  let ?f = "\<lambda>w i. CheckHandover P ?t i w"
  have "tick_step (2 * length [0..<?n]) w4 (foldl ?f w4 [0..<?n])"
  proof (rule fold_tick [of "[0..<?n]" 2 ?t ?f w4])
    show "tick_step 2 v (CheckHandover P ?t i v)"
      if "cho_inv (evs v) v" "i < length (g_ues v)" "room 2 v" "?t = now_s v" for i v
      using CheckHandover_step [OF that(1-3) P that(4)] .
    show "cho_inv (evs w4) w4" by (rule i4(1))
    show "room (2 * length [0..<?n]) w4" using room_mono [OF i4(4), of "2 * ?n"] by simp
    show "?t = now_s w4" by (rule i4(3))
    show "\<forall>i \<in> set [0..<?n]. i < length (g_ues w4)" using i4(2) by simp
  qed
  then have s5: "tick_step (2 * ?n) w4 w5" by (simp only: w5_def i4(2) length_upt minus_nat.diff_0)
  have i5: "cho_inv (evs w5) w5" using s5 by (simp add: tick_step_def)
  have s6: "tick_step 0 w5 w6" unfolding w6_def by (rule Verify_step(3) [OF i5])
  have "tick_step (2 * ?n) w w6" using tick_step_trans [OF tick_step_trans [OF t4 s5] s6] by simp
  then have i6: "cho_inv (evs w6) w6" "room 1 w6" "count (evs w6) (Call HandoverTick) = count (evs w) (Call HandoverTick)"
      "now_s w6 = now_s w"
    using room tick_step_room [of "2 * ?n" w w6 1] by (simp_all add: tick_step_def)
  have sim6: "sim_ok w6" using i6(1) by (simp add: cho_inv_def)
  note sch = schedule_s_sim [OF sim6 _ _ i6(2), of 1 HandoverTick, simplified]
  have "cho_inv (evs (schedule_s 1 HandoverTick w6)) (schedule_s 1 HandoverTick w6)"
    using i6(1) sch by (simp add: cho_inv_def events_match_def)
  moreover have "m_currentTs w6 = m_currentTs w" using i6(4) by (rule now_s_ts)
  ultimately show ?thesis unfolding eq using sch i6(3) by simp
qed

subsection \<open>The event handler\<close>

lemma EvaluatePendingPrediction_result:
  assumes "cho_inv (add_mset (Call (EvalPrediction p)) (evs w)) w"
  shows "phase_result w (EvaluatePendingPrediction p w)"
proof -
  have "cho_inv (evs w) w" using assms by (simp add: cho_inv_def events_match_def)
  moreover have "cho_data (EvaluatePendingPrediction p w) = cho_data w"
    by (simp add: EvaluatePendingPrediction_def cho_data_def)
  ultimately have "tick_step 0 w (EvaluatePendingPrediction p w)" by (intro data_step) simp_all
  then show ?thesis by (intro local_result) (simp_all add: tick_step_def)
qed

lemma cho_handler_inv:
  assumes inv: "cho_inv (add_mset (Call e) (evs w)) w" and room: "room (2 * length (g_ues w) + 1) w"
    and P: "params_ok P"
  shows "cho_inv (evs (cho_handler P e w)) (cho_handler P e w) \<and>
    m_currentTs (cho_handler P e w) = m_currentTs w \<and>
    count (evs (cho_handler P e w)) (Call HandoverTick) =
      count (add_mset (Call e) (evs w)) (Call HandoverTick)"
proof -
  have r1: "room 1 w" using room by (rule room_mono) simp
  have by_result: ?thesis if "phase_result w (cho_handler P e w)" "e \<noteq> HandoverTick"
    using that by (auto simp: phase_result_def opt_mset_def split: option.split)
  show ?thesis
  proof (cases e)
    case (CHO_Phase1 i s t)
    then show ?thesis using by_result Phase1_inv inv r1 by simp
  next
    case (CHO_Phase2 i s t)
    then show ?thesis using by_result Phase2_inv inv r1 by simp
  next
    case (CHO_Phase3 i s t)
    then show ?thesis using by_result Phase3_inv inv r1 by simp
  next
    case (CHO_Phase4 i s t)
    then show ?thesis using by_result Phase4_inv inv r1 by simp
  next
    case (CHO_Phase5 i s t)
    then show ?thesis using by_result Phase5_inv inv by simp
  next
    case (CHO_Phase7 i s t)
    then show ?thesis using by_result Phase7_inv inv by simp
  next
    case (EvalPrediction p)
    then show ?thesis using by_result EvaluatePendingPrediction_result inv by simp
  next
    case HandoverTick
    then have "cho_inv (evs w) w" using inv by (simp add: cho_inv_def events_match_def)
    then show ?thesis using CheckHandoverConditions_inv [OF _ room P] HandoverTick by simp
  next
    case (LinkQualityPrint c)
    then show ?thesis using inv by (simp add: cho_inv_def events_match_def)
  qed
qed

text \<open>What an event needs to be handled: the invariant with the event still counted, ids and time
  left.\<close>

definition cho_ok :: "params \<Rightarrow> cho_event \<Rightarrow> cho_world \<Rightarrow> bool" where
  "cho_ok P e w \<longleftrightarrow> cho_inv (add_mset (Call e) (evs w)) w \<and> room (2 * length (g_ues w) + 1) w \<and>
     params_ok P"

lemma cho_handler_sim:
  assumes "cho_ok P e w"
  shows "sim_inv map_invar map_events (cho_handler P e w)" "m_currentTs (cho_handler P e w) = m_currentTs w"
    "fault (cho_handler P e w) = fault w"
    "m_eventsWithContextEmpty (cho_handler P e w) = m_eventsWithContextEmpty w"
proof -
  have ok: "sim_ok w" "sim_ok (cho_handler P e w)" "m_currentTs (cho_handler P e w) = m_currentTs w"
    using assms cho_handler_inv [of e w P] by (auto simp: cho_ok_def cho_inv_def)
  then show "sim_inv map_invar map_events (cho_handler P e w)"
    "m_currentTs (cho_handler P e w) = m_currentTs w" "fault (cho_handler P e w) = fault w"
    "m_eventsWithContextEmpty (cho_handler P e w) = m_eventsWithContextEmpty w"
    by (simp_all add: sim_ok_def)
qed

interpretation cho_sim: simulator_run map_ops map_invar map_events "cho_handler P" "cho_ok P" for P
  by unfold_locales (simp_all add: cho_handler_sim)

end
