(* ===== verification/Cho_Reach.thy ===== *)
theory Cho_Reach
  imports Cho_Run
begin

text \<open>
  Runs of the handover simulation: one step runs the next event of the queue, a state is reachable
  if a number of steps leads to it from the start that \<open>main\<close> sets up, and the invariant holds in
  every reachable state. Steps are taken while unique ids and time stamps are in range: 2^32 events
  and 2^62 ns, or 146 years of simulated time.
\<close>

subsection \<open>Steps\<close>

definition in_range :: "cho_world \<Rightarrow> bool" where
  "in_range w \<longleftrightarrow> unat (sim_uid w) + 2 * length (g_ues w) + 1 < 2 ^ 32 \<and>
     (case op_PeekNext map_ops (sim_events w) of None \<Rightarrow> True | Some n \<Rightarrow> uint (m_ts (key n)) < 2 ^ 62)"

inductive cho_step :: "params \<Rightarrow> cho_world \<Rightarrow> cho_world \<Rightarrow> bool" for P where
  run_event: "\<not> DSI_IsFinished map_ops w \<Longrightarrow> fault w = None \<Longrightarrow> in_range w \<Longrightarrow>
    cho_step P w (DSI_ProcessOneEvent map_ops (cho_handler P) w)"

inductive_cases cho_stepE: "cho_step P w w'"
inductive_simps cho_step_iff: "cho_step P w w'"

inductive cho_reachable :: "params \<Rightarrow> cho_world \<Rightarrow> cho_world \<Rightarrow> bool" for P w0 where
  start: "cho_reachable P w0 w0"
| step: "cho_reachable P w0 w \<Longrightarrow> cho_step P w w' \<Longrightarrow> cho_reachable P w0 w'"

definition run_inv :: "cho_world \<Rightarrow> bool" where
  "run_inv w \<longleftrightarrow> cho_inv (evs w) w \<and> count (evs w) (Call HandoverTick) = 1"

lemma next_event_started:
  assumes inv: "cho_inv (evs w) w" and ne: "\<not> op_IsEmpty map_ops (sim_events w)" and rng: "in_range w"
  obtains n q x where "op_RemoveNext map_ops (sim_events w) = Some (n, q)"
    "impls w (impl n) = Some x" "\<not> m_cancel x" "m_currentTs w \<le> m_ts (key n)"
    "evs w = add_mset (closure x) (evs (start_event n q w))"
    "cho_inv (add_mset (closure x) (evs (start_event n q w))) (start_event n q w)"
    "room (2 * length (g_ues w) + 1) (start_event n q w)"
proof -
  have sim: "sim_inv map_invar map_events w" and ok: "sim_ok w" using inv by (simp_all add: cho_inv_def sim_ok_def)
  have mi: "map_invar (sim_events w)" using sim by (simp add: sim_inv_def)
  have ne': "map_events (sim_events w) \<noteq> {#}" using ne map_sched.IsEmpty_law [OF mi] by simp
  obtain n q where r: "op_RemoveNext map_ops (sim_events w) = Some (n, q)"
      "sim_inv map_invar map_events (start_event n q w)" "impls w (impl n) \<noteq> None"
      "m_currentTs w \<le> m_ts (key n)"
      "pending map_events w = add_mset (closure (the (impls w (impl n)))) (pending map_events (start_event n q w))"
    using map_sched.start_event_inv [OF sim ne'] by metis
  then obtain x where x: "impls w (impl n) = Some x" by auto
  have nc: "\<not> m_cancel x" using ok x by (auto simp: sim_ok_def ran_def)
  have ev: "evs w = add_mset (closure x) (evs (start_event n q w))" using r(5) x by (simp add: evs_def)
  have "sim_ok (start_event n q w)" using ok r(2) by (simp add: sim_ok_def start_event_def)
  then have c: "cho_inv (add_mset (closure x) (evs (start_event n q w))) (start_event n q w)"
    using inv unfolding ev [symmetric] by (simp add: cho_inv_def) (simp add: start_event_def)
  have "op_PeekNext map_ops (sim_events w) = Some n"
    by (rule map_sched.peek_is_removed [OF mi r(1) ne'])
  then have "room (2 * length (g_ues w) + 1) (start_event n q w)"
    using rng by (simp add: in_range_def room_def start_event_def)
  then show ?thesis using that r(1,4) x nc ev c by blast
qed

lemma cho_step_inv:
  assumes inv: "run_inv w" and P: "params_ok P" and step: "cho_step P w w'"
  shows "run_inv w' \<and> m_currentTs w \<le> m_currentTs w'"
proof -
  have fin: "\<not> op_IsEmpty map_ops (sim_events w)" "in_range w"
      "w' = DSI_ProcessOneEvent map_ops (cho_handler P) w"
    using step by (auto simp: cho_step_iff DSI_IsFinished_def)
  have c: "cho_inv (evs w) w" using inv by (simp add: run_inv_def)
  obtain n q x where r: "op_RemoveNext map_ops (sim_events w) = Some (n, q)"
      "impls w (impl n) = Some x" "\<not> m_cancel x" "m_currentTs w \<le> m_ts (key n)"
      "evs w = add_mset (closure x) (evs (start_event n q w))"
      "cho_inv (add_mset (closure x) (evs (start_event n q w))) (start_event n q w)"
      "room (2 * length (g_ues w) + 1) (start_event n q w)"
    by (rule next_event_started [OF c fin(1,2)])
  let ?s = "start_event n q w"
  have ts: "m_currentTs ?s = m_ts (key n)" "impls ?s = impls w" "g_ues ?s = g_ues w"
    by (simp_all add: start_event_def)
  have w': "w' = DSI_ProcessEventsWithContext map_ops (Notify (cho_handler P) (closure x) ?s)"
    using r(1-4) ts by (simp add: fin(3) DSI_ProcessOneEvent_def EventImpl_Invoke_def)
  have one: "count (add_mset (closure x) (evs ?s)) (Call HandoverTick) = 1"
    using inv r(5) by (simp add: run_inv_def)
  show ?thesis
  proof (cases "closure x")
    case SimulatorStop
    have same: "sim_ok (?s\<lparr>m_stop := True\<rparr>) = sim_ok ?s" "evs (?s\<lparr>m_stop := True\<rparr>) = evs ?s"
      by (simp_all add: sim_ok_def sim_inv_def event_ok_def evs_def pending_def)
    have "m_eventsWithContextEmpty ?s" using r(6) by (simp add: cho_inv_def sim_ok_def)
    then have "w' = ?s\<lparr>m_stop := True\<rparr>"
      by (simp add: w' SimulatorStop Notify_def Simulator_Stop_def DSI_ProcessEventsWithContext_def)
    moreover have "cho_inv (evs (?s\<lparr>m_stop := True\<rparr>)) (?s\<lparr>m_stop := True\<rparr>)"
      using r(6) same by (simp add: cho_inv_def SimulatorStop events_match_def)
    ultimately show ?thesis using one ts r(4) same by (simp add: run_inv_def SimulatorStop)
  next
    case (Call e)
    have h: "cho_inv (evs (cho_handler P e ?s)) (cho_handler P e ?s)"
        "m_currentTs (cho_handler P e ?s) = m_currentTs ?s"
        "count (evs (cho_handler P e ?s)) (Call HandoverTick) = 1"
      using cho_handler_inv [OF r(6) [unfolded Call] _ P] r(7) one by (simp_all add: ts Call)
    then have "m_eventsWithContextEmpty (cho_handler P e ?s)" by (simp add: cho_inv_def sim_ok_def)
    then have "w' = cho_handler P e ?s"
      by (simp add: w' Call Notify_def DSI_ProcessEventsWithContext_def)
    then show ?thesis using h ts r(4) by (simp add: run_inv_def)
  qed
qed

lemma cho_reachable_inv:
  assumes "cho_reachable P w0 w" "run_inv w0" "params_ok P"
  shows "run_inv w"
  using assms by (induction rule: cho_reachable.induct) (auto dest: cho_step_inv)

subsection \<open>The start\<close>

lemma radius_bound:
  assumes "1 / 4 \<le> D"
  shows "\<bar>6378137.0 / sqrt D\<bar> \<le> (10 ^ 8 :: real)"
proof -
  have h: "1 / 2 \<le> sqrt D" using assms by (intro real_le_rsqrt) (simp add: power2_eq_square)
  have "0 < sqrt D" using assms by simp
  with h have "6378137.0 / sqrt D \<le> 6378137.0 / (1 / 2)" by (intro divide_left_mono) simp_all
  moreover have "0 \<le> 6378137.0 / sqrt D" using assms by simp
  ultimately show ?thesis by simp
qed

lemma sin_square_le: "sin x * sin x \<le> (1 :: real)"
  using sin_cos_squared_add [of x] zero_le_power2 [of "cos x"] unfolding power2_eq_square by linarith

lemma shift_bound: "\<bar>n\<bar> \<le> 10 ^ 8 \<Longrightarrow> \<bar>a\<bar> \<le> 5 * 10 ^ 8 \<Longrightarrow> \<bar>n + a\<bar> \<le> 10 ^ 9" for n a :: real
  by simp

lemma scale_bound: "\<bar>n\<bar> \<le> 10 ^ 8 \<Longrightarrow> 0 \<le> q \<Longrightarrow> q \<le> 1 \<Longrightarrow> \<bar>n * q\<bar> \<le> 10 ^ 8" for n q :: real
  using mult_left_le [of q "\<bar>n\<bar>"] by (simp add: abs_mult)

lemma coord_scale: "\<bar>a\<bar> \<le> 10 ^ 9 \<Longrightarrow> \<bar>b\<bar> \<le> 1 \<Longrightarrow> \<bar>a * b\<bar> \<le> 10 ^ 9" for a b :: real
  using mult_mono [of "\<bar>a\<bar>" "10 ^ 9" "\<bar>b\<bar>" 1] by (simp add: abs_mult)

lemma GeographicToECEF_ok:
  assumes "\<bar>alt\<bar> \<le> 5 * 10 ^ 8" "GeographicToECEF la lo alt = (x, y, z)"
  shows "coord_ok x \<and> coord_ok y \<and> coord_ok z"
proof -
  define e2 :: real where "e2 = 0.00669437999014"
  define p l where "p = la * pi / 180" and "l = lo * pi / 180"
  define N where "N = 6378137.0 / sqrt (1 - e2 * sin p * sin p)"
  have e2: "0 \<le> e2" "e2 \<le> 1 / 2" by (simp_all add: e2_def)
  have "e2 * (sin p * sin p) \<le> 1 / 2 * 1" using e2 sin_square_le by (intro mult_mono) auto
  then have N: "\<bar>N\<bar> \<le> 10 ^ 8" unfolding N_def by (intro radius_bound) (simp add: mult.assoc)
  have "\<bar>N * (1 - e2)\<bar> \<le> 10 ^ 8" using e2 by (intro scale_bound N) auto
  then have b: "\<bar>N * (1 - e2) + alt\<bar> \<le> 10 ^ 9" by (rule shift_bound [OF _ assms(1)])
  have a: "\<bar>N + alt\<bar> \<le> 10 ^ 9" by (rule shift_bound [OF N assms(1)])
  have c: "\<bar>(N + alt) * cos p\<bar> \<le> 10 ^ 9" by (rule coord_scale [OF a abs_cos_le_one])
  have "x = (N + alt) * cos p * cos l" "y = (N + alt) * cos p * sin l" "z = (N * (1 - e2) + alt) * sin p"
    using assms(2) unfolding GeographicToECEF_def Let_def N_def e2_def p_def l_def
    by (simp_all only: prod.inject)
  then show ?thesis
    unfolding coord_ok_def
    using coord_scale [OF c abs_cos_le_one] coord_scale [OF c abs_sin_le_one] coord_scale [OF b abs_sin_le_one]
    by metis
qed

lemma UeInfo_init_ok: "ue_ok (with_devices (UeInfo_init P n sim name gid users la lo scen))"
proof -
  obtain x y z where g: "GeographicToECEF la lo 0 = (x, y, z)" by (metis surj_pair)
  have "coord_ok x \<and> coord_ok y \<and> coord_ok z" by (rule GeographicToECEF_ok [OF _ g]) simp
  then show ?thesis
    by (simp add: UeInfo_init_def g with_devices_def ue_ok_defs phase_sets Let_def
        ChoNtnStatistics_zero_def cache_ok_def)
qed

lemma LoadUeGroups_ok:
  assumes "LoadUeGroups_lines P stoi stod ues ls = Some ues'" "\<forall>u \<in> set ues. Q u"
    and "\<And>n sim name gid users la lo scen. Q (UeInfo_init P n sim name gid users la lo scen)"
  shows "\<forall>u \<in> set ues'. Q u"
  using assms(1,2)
proof (induction ls arbitrary: ues)
  case (Cons l ls)
  let ?f = "split_fields l"
  show ?case
  proof (cases "length ?f < 7")
    case True
    then show ?thesis using Cons.prems Cons.IH [of ues] by simp
  next
    case False
    from Cons.prems(1) False obtain a b c d where p: "stoi (?f ! 0) = Some a" "stoi (?f ! 3) = Some b"
        "stod (?f ! 4) = Some c" "stod (?f ! 5) = Some d"
      by (cases "stoi (?f ! 0)"; cases "stoi (?f ! 3)"; cases "stod (?f ! 4)"; cases "stod (?f ! 5)")
        (simp_all add: Let_def)
    show ?thesis
      by (rule Cons.IH [OF _ , of "ues @ [UeInfo_init P (length ues) a (?f ! 1) (?f ! 2) b c d (?f ! 6)]"])
        (use Cons.prems False p assms(3) in \<open>simp_all add: Let_def\<close>)
  qed
qed simp

text \<open>A UE the loader made.\<close>

definition fresh_ue :: "params \<Rightarrow> UeInfo \<Rightarrow> bool" where
  "fresh_ue P u \<longleftrightarrow> (\<exists>n sim name gid users la lo scen. u = UeInfo_init P n sim name gid users la lo scen)"

lemma LoadUeGroups_fresh:
  "LoadUeGroups_lines P stoi stod [] ls = Some ues \<Longrightarrow> \<forall>u \<in> set ues. fresh_ue P u"
  by (rule LoadUeGroups_ok) (simp_all only: fresh_ue_def, simp, blast)

lemma fresh_ue_facts:
  assumes "fresh_ue P u"
  shows "ue_ok (with_devices u)" "next_event i (with_devices u) = None"
    "ueChoStats (with_devices u) = ChoNtnStatistics_zero" "hoCount (with_devices u) = 0"
  using assms UeInfo_init_ok
  by (auto simp: fresh_ue_def UeInfo_init_def with_devices_def next_event_def split: prod.split)

lemma init_inv:
  assumes "sats_ok sats" "\<forall>u \<in> set ues. fresh_ue P u"
  shows "cho_inv (evs (cho_world_init sats (map with_devices ues))) (cho_world_init sats (map with_devices ues))"
    (is "cho_inv (evs ?w) ?w")
proof -
  have q: "map_invar []" "map_events [] = {#}"
    by (simp_all add: map_invar_def map_events_def)
  then have sim: "sim_ok ?w" "evs ?w = {#}"
    by (simp_all add: cho_world_init_def DefaultSimulatorImpl_init_def simulator.defs sim_ok_def
        sim_inv_def evs_def pending_def UID_VALID_def UID_INVALID_def)
  have data: "g_ues ?w = map with_devices ues" "g_satellites ?w = sats"
      "g_choNtnStats ?w = ChoNtnStatistics_zero" "g_handoverCount ?w = 0"
    by (simp_all add: cho_world_init_def simulator.defs DefaultSimulatorImpl_init_def)
  have zero: "sum_of f (map with_devices ues) = 0" if "f ChoNtnStatistics_zero = 0" for f
  proof -
    have "f (ueChoStats (with_devices u)) = 0" if "u \<in> set ues" for u
      using assms(2) fresh_ue_facts(3) \<open>f ChoNtnStatistics_zero = 0\<close> that by metis
    then have "map (\<lambda>u. f (ueChoStats (with_devices u))) ues = map (\<lambda>_. 0) ues" by simp
    then show ?thesis by (simp add: sum_of_def comp_def map_replicate_const sum_list_replicate)
  qed
  have "hoCount (with_devices u) = 0" if "u \<in> set ues" for u
    using assms(2) fresh_ue_facts(4) that by metis
  then have "map (\<lambda>u. hoCount (with_devices u)) ues = map (\<lambda>_. 0) ues" by simp
  then have "(\<Sum>u \<leftarrow> map with_devices ues. hoCount u) = 0" by (simp add: comp_def map_replicate_const sum_list_replicate)
  moreover have "\<forall>u \<in> set (map with_devices ues). ue_ok u" using assms(2) fresh_ue_facts(1) by auto
  moreover have "events_match {#} (map with_devices ues)"
  proof -
    have "next_event i (with_devices (ues ! i)) = None" if "i < length ues" for i
      using assms(2) nth_mem [OF that] fresh_ue_facts(2) by blast
    then show ?thesis by (simp add: events_match_def)
  qed
  moreover have "stats_match ChoNtnStatistics_zero (map with_devices ues)"
    using zero by (simp add: stats_match_def) (simp add: ChoNtnStatistics_zero_def)
  ultimately show ?thesis using sim data assms(1) by (simp add: cho_inv_def)
qed

lemma cho_inv_plain:
  assumes inv: "cho_inv (evs w) w" and sim: "sim_ok v" and data: "cho_data v = cho_data w"
    and ev: "evs v = add_mset c (evs w)" "\<And>i. \<not> of_ue i c"
  shows "cho_inv (evs v) v"
  using inv sim cho_dataD [OF data] ev by (simp add: cho_inv_def events_match_def)

lemma cho_start_inv:
  assumes sats: "sats_ok sats" and ues: "\<forall>u \<in> set ues. fresh_ue P u"
    and t: "0 \<le> simTime" "simTime < 2 ^ 32"
  shows "run_inv (cho_start sats ues simTime)"
proof -
  let ?w0 = "cho_world_init sats (map with_devices ues)"
  let ?w1 = "schedule_s 0 HandoverTick ?w0"
  let ?w2 = "schedule_s 2 (LinkQualityPrint ''Initial'') ?w1"
  let ?w3 = "cho_start sats ues simTime"
  have i0: "cho_inv (evs ?w0) ?w0" using init_inv [OF sats ues] .
  then have ok0: "sim_ok ?w0" by (simp add: cho_inv_def)
  have e0: "evs ?w0 = {#}" and r0: "room 3 ?w0"
    by (simp_all add: cho_world_init_def DefaultSimulatorImpl_init_def simulator.defs
        evs_def pending_def map_events_def room_def UID_VALID_def)
  note s1 = schedule_s_sim [OF ok0 _ _ r0, of 0 HandoverTick, simplified]
  have i1: "cho_inv (evs ?w1) ?w1"
    by (rule cho_inv_plain [OF i0 s1(1) _ s1(2)]) (simp_all add: cho_data_def)
  have r1: "room 2 ?w1" using s1(3) by simp
  note s2 = schedule_s_sim [OF s1(1) _ _ r1, of 2 "LinkQualityPrint ''Initial''", simplified]
  have i2: "cho_inv (evs ?w2) ?w2"
    by (rule cho_inv_plain [OF i1 s2(1) _ s2(2)]) (simp_all add: cho_data_def)
  have r2: "room 1 ?w2" using s2(3) by simp
  have w3: "?w3 = snd (DSI_Schedule map_ops (Seconds simTime) (next_impl ?w2) (MakeEvent SimulatorStop ?w2))"
    by (simp add: cho_start_def Let_def DSI_Stop_delay_def)
  note pos = Seconds_nonneg [OF t]
  have "uint (Seconds simTime) < 2 ^ 63"
    using ns_of_bounds(1,2) [OF t] unfolding Seconds_ns_of [OF t]
    by (simp add: uint_word_of_int take_bit_int_eq_self)
  moreover have "unat (sim_uid ?w2 + 1) = unat (sim_uid ?w2) + 1"
    using r2 unat_add_lem [of "sim_uid ?w2" 1] by (simp add: room_def)
  then have "sim_uid ?w2 + 1 \<noteq> 0" by auto
  ultimately have rf: "room_for (Seconds simTime) ?w2" using r2 by (simp add: room_for_def room_def)
  have si: "sim_inv map_invar map_events ?w2" using s2(1) by (simp add: sim_ok_def)
  note s3 = map_sched.Schedule_closure_inv [OF si pos rf, of SimulatorStop, folded w3]
  have form: "?w3 = insert_event map_ops (Seconds simTime + m_currentTs ?w2) (m_currentContext ?w2)
      (next_impl ?w2) (MakeEvent SimulatorStop ?w2)"
    using pos by (simp add: w3 DSI_Schedule_def Let_def MakeEvent_def)
  have "\<forall>x \<in> ran (impls ?w3). \<not> m_cancel x"
    using s2(1) by (auto simp: form insert_event_def MakeEvent_def EventImpl_new_def sim_ok_def ran_def)
  moreover have "fault ?w3 = fault ?w2" "m_eventsWithContextEmpty ?w3 = m_eventsWithContextEmpty ?w2"
    by (simp_all add: form insert_event_def MakeEvent_def)
  ultimately have ok3: "sim_ok ?w3" using s3(1) s2(1) by (simp add: sim_ok_def)
  have e3: "evs ?w3 = add_mset SimulatorStop (evs ?w2)" using s3(2) by (simp add: evs_def)
  have "cho_data ?w3 = cho_data ?w2" by (simp add: form insert_event_def MakeEvent_def cho_data_def)
  then have "cho_inv (evs ?w3) ?w3" by (rule cho_inv_plain [OF i2 ok3 _ e3]) simp
  then show ?thesis using e0 s1(2) s2(2) e3 by (simp add: run_inv_def)
qed

theorem cho_run_inv:
  assumes "sats_ok sats" "\<forall>u \<in> set ues. fresh_ue P u" "0 \<le> simTime" "simTime < 2 ^ 32" "params_ok P"
    and "cho_reachable P (cho_start sats ues simTime) w"
  shows "run_inv w"
  using cho_reachable_inv [OF assms(6) cho_start_inv [OF assms(1-4)] assms(5)] .

end
