(* ===== verification/Cho_Protocol.thy ===== *)
theory Cho_Protocol
  imports Cho_Reach
begin

text \<open>
  The conditional-handover protocol of one UE as a small transition system, and the proof that the
  simulation implements it: whatever the rest of the system does, every event of a run takes every
  UE along transitions of the protocol, or leaves it where it is.
\<close>

subsection \<open>The protocol\<close>

text \<open>A UE is served by a cell (none at first), prepares a handover from its cell to a target in
  five stages, waits with the stored configuration for its condition, or executes.\<close>

datatype proto = Served cell_id | Preparing nat cell_id cell_id | Waiting cell_id cell_id
  | Executing cell_id cell_id

inductive proto_step :: "proto \<Rightarrow> proto \<Rightarrow> bool" where
  attach: "s \<noteq> [] \<Longrightarrow> proto_step (Served []) (Served s)"
| report: "s \<noteq> [] \<Longrightarrow> proto_step (Served s) (Preparing 0 s t)"
| prepare: "k < 4 \<Longrightarrow> proto_step (Preparing k s t) (Preparing (Suc k) s t)"
| stored: "proto_step (Preparing 4 s t) (Waiting s t)"
| expire: "proto_step (Waiting s t) (Served s)"
| execute: "proto_step (Waiting s t) (Executing s t)"
| succeed: "proto_step (Executing s t) (Served t)"
| fail: "proto_step (Executing s t) (Served s)"

abbreviation proto_steps :: "proto \<Rightarrow> proto \<Rightarrow> bool" where
  "proto_steps \<equiv> proto_step\<^sup>*\<^sup>*"

text \<open>The abstraction of a UE.\<close>

fun proto_at :: "ChoPhase \<Rightarrow> cell_id \<Rightarrow> cell_id \<Rightarrow> cell_id \<Rightarrow> proto" where
  "proto_at CHO_MEAS_REPORT_UPLINK s t g = Preparing 0 s t"
| "proto_at CHO_GNB_CHO_DECISION s t g = Preparing 1 s t"
| "proto_at CHO_XN_REQUEST s t g = Preparing 2 s t"
| "proto_at CHO_XN_RESPONSE s t g = Preparing 3 s t"
| "proto_at CHO_RRC_RECONFIG_DOWNLINK s t g = Preparing 4 s t"
| "proto_at CHO_UE_EVALUATING s t g = Waiting s t"
| "proto_at CHO_UE_EXECUTING s t g = Executing s t"
| "proto_at ph s t g = Served g"

definition proto_of :: "UeInfo \<Rightarrow> proto" where
  "proto_of ue = proto_at (phase (choProcState ue)) (sourceCell (choProcState ue))
     (targetCell (choProcState ue)) (servingGnb (ue_context ue))"

lemma proto_steps_refl [simp]: "proto_steps p p"
  by (rule rtranclp.rtrancl_refl)

lemma proto_of_meas: "meas_frame u u' \<Longrightarrow> proto_of u' = proto_of u"
  by (simp add: meas_frame_def proto_of_def)

lemma proto_of_proc:
  assumes "phase (f (choProcState u)) = phase (choProcState u)"
    "sourceCell (f (choProcState u)) = sourceCell (choProcState u)"
    "targetCell (f (choProcState u)) = targetCell (choProcState u)"
  shows "proto_of (upd_proc f u) = proto_of u"
  by (simp add: proto_of_def Let_def upd_proc_def assms)

subsection \<open>Refinement of the operations\<close>

definition refines :: "cho_world \<Rightarrow> cho_world \<Rightarrow> bool" where
  "refines w w' \<longleftrightarrow> length (g_ues w') = length (g_ues w) \<and>
     (\<forall>i < length (g_ues w). proto_steps (proto_of (g_ues w ! i)) (proto_of (g_ues w' ! i)))"

lemma refines_refl [simp]: "refines w w"
  by (simp add: refines_def)

lemma refines_trans: "refines u v \<Longrightarrow> refines v w \<Longrightarrow> refines u w"
  unfolding refines_def by (metis rtranclp_trans)

lemma refines_update:
  assumes "g_ues w' = (g_ues w)[i := u']" "i < length (g_ues w) \<Longrightarrow> proto_steps (proto_of (g_ues w ! i)) (proto_of u')"
  shows "refines w w'"
  unfolding refines_def assms(1)
proof (intro conjI allI impI)
  fix j assume "j < length (g_ues w)"
  then show "proto_steps (proto_of (g_ues w ! j)) (proto_of ((g_ues w)[i := u'] ! j))"
    using assms(2) by (cases "j = i") simp_all
qed simp

lemma refines_same: "g_ues w' = g_ues w \<Longrightarrow> refines w w'"
  by (simp add: refines_def)

lemma refines_measuring: "measuring i w w' \<Longrightarrow> refines w w'"
  by (auto simp: measuring_def meas_step_def proto_of_meas intro!: refines_update)

lemma refines_step:
  assumes "g_ues w' = (g_ues w)[i := u']" "i < length (g_ues w) \<Longrightarrow> proto_step (proto_of (g_ues w ! i)) (proto_of u')"
  shows "refines w w'"
  using assms by (intro refines_update) auto

lemma complete_ue_context: "ue_context (complete_ue P t u) = (ue_context u)\<lparr>servingGnb := t\<rparr>"
proof -
  have "ue_context (ApplyUeErrorModelImmediately P x) = ue_context x" for x
    by (rule ApplyUeErrorModelImmediately_form [of P x]) simp
  then show ?thesis by (simp add: complete_ue_def Let_def ResetHoContext_def upd_meas_def upd_cfg_def)
qed

text \<open>The events of a procedure.\<close>

lemma Phases_refine:
  assumes "cho_inv (add_mset (Call e) (evs w)) w" "ev_ue e = Some i"
  shows "refines w (cho_handler P e w)"
proof -
  note due = cho_inv_due [OF assms]
  note ph = next_event_phase [OF due(2)]
  have steps: "proto_step (Preparing 0 s t) (Preparing 1 s t)" "proto_step (Preparing 1 s t) (Preparing 2 s t)"
    "proto_step (Preparing 2 s t) (Preparing 3 s t)" "proto_step (Preparing 3 s t) (Preparing 4 s t)" for s t
    using prepare [of 0] prepare [of 1] prepare [of 2] prepare [of 3] by (simp_all add: numeral_eq_Suc)
  show ?thesis
  proof (cases e)
    case (CHO_Phase1 j s t)
    then show ?thesis using ph(1) [OF CHO_Phase1] assms(2) steps(1)
      by (intro refines_step [of _ _ i]) (auto simp: CHO_Phase1_ReportArrived_def phase_of_def the_ue_def enter_phase_def upd_proc_def
        proto_of_def Let_def)
  next
    case (CHO_Phase2 j s t)
    then show ?thesis using ph(2) [OF CHO_Phase2] assms(2) steps(2)
      by (intro refines_step [of _ _ i]) (auto simp: CHO_Phase2_SendXnRequest_def phase_of_def the_ue_def enter_phase_def upd_proc_def
        proto_of_def Let_def)
  next
    case (CHO_Phase3 j s t)
    then show ?thesis using ph(3) [OF CHO_Phase3] assms(2) steps(3)
      by (intro refines_step [of _ _ i]) (auto simp: CHO_Phase3_XnResponse_def phase_of_def the_ue_def enter_phase_def upd_proc_def
        proto_of_def Let_def)
  next
    case (CHO_Phase4 j s t)
    then show ?thesis using ph(4) [OF CHO_Phase4] assms(2) steps(4)
      by (intro refines_step [of _ _ i])
        (auto simp: CHO_Phase4_SendRrcReconfig_def phase_of_def the_ue_def enter_phase_def upd_proc_def
          both_stats_def upd_stats_def proto_of_def Let_def)
  next
    case (CHO_Phase5 j s t)
    then show ?thesis using ph(5) [OF CHO_Phase5] assms(2) stored
      by (intro refines_step [of _ _ i])
        (auto simp: CHO_Phase5_UeStoresConfig_def phase_of_def the_ue_def upd_proc_def upd_cfg_def
          both_stats_def upd_stats_def proto_of_def Let_def)
  next
    case (CHO_Phase7 j s t)
    note facts = ph(6) [OF CHO_Phase7]
    have j: "j = i" using CHO_Phase7 assms(2) by simp
    have exec: "phase_of i w = CHO_UE_EXECUTING" using facts by (simp add: phase_of_def the_ue_def)
    have src: "servingGnb (ue_context (g_ues w ! i)) = s"
      using due(4) facts by (auto simp: ue_ok_def phase_consistent_def Let_def)
    show ?thesis
    proof (cases "CHO_IsLinkViable P (the_ue i w) t")
      case True
      then have "g_ues (CHO_Phase7_ExecutionComplete P i s t w) = (g_ues w)[i :=
          upd_proc (\<lambda>c. c\<lparr>phase := CHO_IDLE, failed := False\<rparr>)
            (complete_ue P t (upd_proc (\<lambda>c. c\<lparr>phase := CHO_XN_CANCEL\<rparr>) (upd_stats (count_success
              (now_s w - configReceivedTime (choProcState (the_ue i w)))
              (now_s w - executionStartTime (choProcState (the_ue i w)))) (g_ues w ! i))))]"
        unfolding CHO_Phase7_ExecutionComplete_def Let_def
        using exec due(1) by (simp add: both_stats_def set_phase_def)
      then show ?thesis
        using facts j by (intro refines_step [of _ _ i])
          (auto simp: CHO_Phase7 proto_of_def upd_proc_def complete_ue_context Let_def intro: succeed)
    next
      case False
      define r where "r = ''TARGET_NOT_VIABLE (SINR='' @ m_to_string P (snr_or (the_ue i w) t (-999)) @ '' dB)''"
      define v where "v = both_stats i (\<lambda>s. s\<lparr>failedAtExecution := failedAtExecution s + 1\<rparr>) w"
      have "CHO_Phase7_ExecutionComplete P i s t w = CHO_HandleFailure i r (now_s w) v"
        unfolding CHO_Phase7_ExecutionComplete_def Let_def r_def v_def using exec False by simp
      moreover have "proto_of (g_ues (CHO_HandleFailure i r (now_s w) v) ! i) = Served s"
        using due(1) src
        by (simp add: CHO_HandleFailure_def v_def both_stats_def upd_stats_def upd_proc_def upd_cfg_def
            ResetHoContext_def proto_of_def Let_def)
      moreover have "g_ues (CHO_HandleFailure i r (now_s w) v) =
          (g_ues w)[i := g_ues (CHO_HandleFailure i r (now_s w) v) ! i]"
        using due(1) by (simp add: CHO_HandleFailure_def v_def both_stats_def Let_def)
      ultimately show ?thesis
        using facts j fail by (intro refines_step [of _ _ i]) (auto simp: CHO_Phase7 proto_of_def Let_def)
    qed
  qed (use assms(2) in simp_all)
qed

subsection \<open>The periodic task\<close>

lemma Apply_proto: "proto_of (ApplyUeErrorModelImmediately P u) = proto_of u"
  by (rule ApplyUeErrorModelImmediately_form [of P u]) (simp add: proto_of_def)

lemma Phase6_refines:
  assumes "i < length (g_ues w)" "phase (choProcState (g_ues w ! i)) = CHO_UE_EVALUATING"
    and "s = sourceCell (choProcState (g_ues w ! i))" "t = targetCell (choProcState (g_ues w ! i))"
  shows "refines w (CHO_Phase6_UeExecutes P i s t w)"
proof -
  let ?v = "CHO_Phase6_UeExecutes P i s t w"
  have "phase_of i w = CHO_UE_EVALUATING" using assms(2) by (simp add: phase_of_def the_ue_def)
  then have "g_ues ?v = (g_ues w)[i := g_ues ?v ! i]" "proto_of (g_ues ?v ! i) = Executing s t"
    using assms unfolding CHO_Phase6_UeExecutes_def Let_def
    by (simp_all add: both_stats_def Apply_proto) (simp add: upd_cfg_def upd_stats_def upd_proc_def proto_of_def Let_def)
  moreover have "proto_of (g_ues w ! i) = Waiting s t" using assms by (simp add: proto_of_def)
  ultimately show ?thesis using execute by - (rule refines_step, assumption, simp)
qed

lemma CheckExecution_refines:
  assumes inv: "cho_inv (evs w) w" and i: "i < length (g_ues w)"
  shows "refines w (CHO_CheckExecutionCondition P i x w)"
proof -
  let ?u = "g_ues w ! i" and ?c = "choProcState (g_ues w ! i)" and ?v = "CHO_CheckExecutionCondition P i x w"
  have u: "the_ue i w = ?u" by (simp add: the_ue_def)
  have ok: "ue_ok ?u" using inv i by (rule cho_inv_ue)
  have quiet: "refines w (upd_ue i (upd_proc f) w)"
    if "phase (f ?c) = phase ?c" "sourceCell (f ?c) = sourceCell ?c" "targetCell (f ?c) = targetCell ?c" for f
    using proto_of_proc [of f ?u] that by (intro refines_update [of _ _ i "upd_proc f ?u"]) simp_all
  consider (other) "phase ?c \<noteq> CHO_UE_EVALUATING"
    | (expired) "phase ?c = CHO_UE_EVALUATING" "x > configExpiryTime ?c"
    | (eval) "phase ?c = CHO_UE_EVALUATING" "\<not> x > configExpiryTime ?c" by blast
  then show ?thesis
  proof cases
    case other
    then show ?thesis by (simp add: CHO_CheckExecutionCondition_def u)
  next
    case expired
    have "servingGnb (ue_context ?u) = sourceCell ?c"
      using ok expired(1) by (simp add: ue_ok_def phase_consistent_def Let_def)
    moreover have "?v = upd_ue i ResetHoContext (upd_ue i (upd_cfg (\<lambda>g. g\<lparr>choConfigs := []\<rparr>))
        (set_phase i CHO_IDLE (both_stats i (\<lambda>s. s\<lparr>configsExpired := configsExpired s + 1\<rparr>) w)))"
      using expired by (simp add: CHO_CheckExecutionCondition_def u Let_def)
    ultimately have "g_ues ?v = (g_ues w)[i := g_ues ?v ! i]" "proto_of (g_ues ?v ! i) = Served (sourceCell ?c)"
      using i by (simp_all add: set_phase_def both_stats_def)
        (simp add: upd_cfg_def upd_stats_def upd_proc_def ResetHoContext_def proto_of_def Let_def)
    moreover have "proto_of ?u = Waiting (sourceCell ?c) (targetCell ?c)" using expired by (simp add: proto_of_def Let_def)
    ultimately show ?thesis using expire by - (rule refines_step, assumption, simp)
  next
    case eval
    show ?thesis
    proof (cases "map_of (channelCache ?u) (sourceCell ?c) = None \<or> map_of (channelCache ?u) (targetCell ?c) = None")
      case True
      then have "?v = w" using eval by (auto simp: CHO_CheckExecutionCondition_def u Let_def split: option.split)
      then show ?thesis by simp
    next
      case False
      then obtain t1 m1 t2 m2 where cache: "map_of (channelCache ?u) (sourceCell ?c) = Some (t1, m1)"
          "map_of (channelCache ?u) (targetCell ?c) = Some (t2, m2)" by auto
      let ?go = "upd_ue i (upd_proc (\<lambda>c. c\<lparr>executionTttActive := False\<rparr>)) w"
      have v: "?v = (if execution_condition P (snrDb m1) (snrDb m2) then if \<not> executionTttActive ?c
              then upd_ue i (upd_proc (\<lambda>c. c\<lparr>executionTttActive := True, executionTttStartTime := x\<rparr>)) w
              else if x - executionTttStartTime ?c \<ge> executionTimeToTrigger ?c
              then CHO_Phase6_UeExecutes P i (sourceCell ?c) (targetCell ?c) ?go else w
            else upd_ue i (upd_proc (\<lambda>c. c\<lparr>executionTttActive := False, executionTttStartTime := -1\<rparr>)) w)"
        using eval cache by (simp add: CHO_CheckExecutionCondition_def u Let_def)
      have "refines ?go (CHO_Phase6_UeExecutes P i (sourceCell ?c) (targetCell ?c) ?go)"
        by (rule Phase6_refines) (use i eval in \<open>simp_all add: upd_proc_def\<close>)
      then have "refines w (CHO_Phase6_UeExecutes P i (sourceCell ?c) (targetCell ?c) ?go)"
        using refines_trans [OF quiet [of "\<lambda>c. c\<lparr>executionTttActive := False\<rparr>"]] by simp
      then show ?thesis using if_cases4 [OF v] quiet by auto
    qed
  qed
qed

lemma Trigger_refines:
  assumes "i < length (g_ues w)" "phase (choProcState (g_ues w ! i)) = CHO_IDLE"
    and "mr_cellId (servingCell r) = servingGnb (ue_context (g_ues w ! i))" "mr_cellId (servingCell r) \<noteq> []"
  shows "refines w (CHO_TriggerProcedure i (Some r) w)"
proof -
  let ?v = "CHO_TriggerProcedure i (Some r) w"
  have "phase_of i w = CHO_IDLE" using assms(2) by (simp add: phase_of_def the_ue_def)
  then have "g_ues ?v = (g_ues w)[i := g_ues ?v ! i]"
      "proto_of (g_ues ?v ! i) = Preparing 0 (mr_cellId (servingCell r)) (report_target r)"
    using assms(1) unfolding CHO_TriggerProcedure_def Let_def
    by (simp_all add: both_stats_def) (simp add: upd_stats_def upd_proc_def proto_of_def)
  moreover have "proto_of (g_ues w ! i) = Served (mr_cellId (servingCell r))" using assms by (simp add: proto_of_def)
  ultimately show ?thesis using report assms(4) by - (rule refines_step, assumption, simp)
qed

lemma CheckHandover_refines:
  assumes inv: "cho_inv (evs w) w" and i: "i < length (g_ues w)" and room: "room 2 w"
    and P: "params_ok P" and t: "t = now_s w"
  shows "refines w (CheckHandover P t i w)"
proof -
  let ?u = "g_ues w ! i" and ?v = "CheckHandover P t i w"
  have ok: "ue_ok ?u" using inv i by (rule cho_inv_ue)
  let ?act = "servingGnb (ue_context ?u)"
  have sid: "servingCellId (measState ?u) = ?act"
    using ok by (simp add: ue_ok_def phase_consistent_def Let_def)
  consider (busy) "phase (choProcState ?u) \<noteq> CHO_IDLE" "phase (choProcState ?u) \<noteq> CHO_UE_EVALUATING"
    | (eval) "phase (choProcState ?u) = CHO_UE_EVALUATING"
    | (idle) "phase (choProcState ?u) = CHO_IDLE" by blast
  then show ?thesis
  proof cases
    case busy
    then show ?thesis by (simp add: CheckHandover_def the_ue_def)
  next
    case eval
    then show ?thesis using CheckExecution_refines [OF inv i] by (simp add: CheckHandover_def the_ue_def)
  next
    case idle
    let ?w2 = "upd_ue i (upd_meas (\<lambda>ms. ms\<lparr>ms_lastMeasurementTime := t\<rparr>)) w"
    obtain rep w3 where e: "UE_EvaluateAndReport P i t ?w2 = (rep, w3)" by (metis surj_pair)
    have v: "?v = w \<or> ?v = CHO_TriggerProcedure i rep w3"
      using idle sid e by (simp add: CheckHandover_def the_ue_def Let_def)
    have s2: "same_sim w ?w2" by simp
    have m2: "measuring i w ?w2" by (rule measuring_upd, rule meas_step_local(1)) simp
    have "sim_ok ?w2" "room 2 ?w2" "i < length (g_ues ?w2)" "t = now_s ?w2"
      using inv room i t same_sim_facts [OF s2] by (simp_all add: cho_inv_def room_def)
    from EvaluateAndReport_frame [OF this(1,2) _ this(3) P this(4) e]
    have st: "measuring i ?w2 w3" "\<And>x. rep = Some x \<Longrightarrow> report_fits (g_ues ?w2 ! i) (g_ues w3 ! i) x"
      by (auto simp: mstep_def)
    have m3: "measuring i w w3" using measuring_trans [OF i m2 st(1)] .
    then obtain u' where "g_ues w3 = (g_ues w)[i := u']" "meas_step (g_satellites w) ?u u'"
      by (auto simp: measuring_def)
    then have u3: "meas_frame ?u (g_ues w3 ! i)" "i < length (g_ues w3)" using i by (simp_all add: meas_step_def)
    have "refines w3 (CHO_TriggerProcedure i rep w3)"
    proof (cases rep)
      case (Some x)
      then have "report_fits (g_ues ?w2 ! i) (g_ues w3 ! i) x" by (rule st(2))
      then have "mr_cellId (servingCell x) = ?act" "?act \<noteq> []"
        using i sid by (auto simp: report_fits_def upd_meas_def)
      then show ?thesis
        unfolding Some using u3 idle by (intro Trigger_refines) (auto simp: meas_frame_def)
    qed (simp add: CHO_TriggerProcedure_def)
    then show ?thesis using v refines_trans [OF refines_measuring [OF m3]] by auto
  qed
qed

text \<open>Steps of the task that keep the invariant and refine.\<close>

definition tick_refines :: "nat \<Rightarrow> cho_world \<Rightarrow> cho_world \<Rightarrow> bool" where
  "tick_refines k w w' \<longleftrightarrow> tick_step k w w' \<and> refines w w'"

lemma tick_refines_trans: "tick_refines k u v \<Longrightarrow> tick_refines l v w \<Longrightarrow> tick_refines (k + l) u w"
  unfolding tick_refines_def using tick_step_trans refines_trans by blast

lemma fold_tick_refines:
  assumes "\<And>i w. i \<in> set is \<Longrightarrow> cho_inv (evs w) w \<Longrightarrow> i < length (g_ues w) \<Longrightarrow> room k w \<Longrightarrow> t = now_s w \<Longrightarrow>
      tick_refines k w (f w i)"
    and "cho_inv (evs w) w" "room (k * length is) w" "t = now_s w" "\<forall>i \<in> set is. i < length (g_ues w)"
  shows "tick_refines (k * length is) w (foldl f w is)"
  using assms
proof (induction "is" arbitrary: w)
  case Nil
  then show ?case by (simp add: tick_refines_def tick_step_def)
next
  case (Cons a "is")
  have r: "room k w" using Cons.prems(3) by (rule room_mono) simp
  have first: "tick_refines k w (f w a)" using Cons.prems r by simp
  then have st: "tick_step k w (f w a)" by (simp add: tick_refines_def)
  have "tick_refines (k * length is) (f w a) (foldl f (f w a) is)"
  proof (rule Cons.IH)
    show "cho_inv (evs (f w a)) (f w a)" "t = now_s (f w a)" "\<forall>i \<in> set is. i < length (g_ues (f w a))"
      using st Cons.prems by (simp_all add: tick_step_def)
    show "room (k * length is) (f w a)" using tick_step_room [OF st] Cons.prems(3) by simp
  qed (use Cons.prems in simp)
  then show ?case using tick_refines_trans [OF first] by simp
qed

lemma initial_selection_refines:
  assumes "cho_inv (evs w) w" "i < length (g_ues w)"
  shows "refines w (initial_selection P i w)"
proof -
  let ?u = "g_ues w ! i" and ?best = "SelectBestSatellite P i [] w"
  show ?thesis
  proof (cases "servingGnb (ue_context ?u) \<noteq> [] \<or> ?best = []")
    case True
    then show ?thesis by (auto simp: initial_selection_def the_ue_def Let_def)
  next
    case False
    then have "phase (choProcState ?u) = CHO_IDLE"
      using cho_inv_ue [OF assms] by (auto simp: ue_ok_def phase_consistent_def Let_def)
    then show ?thesis
      using False attach [of ?best]
      by (intro refines_step [of _ _ i]) (auto simp: initial_selection_def the_ue_def Let_def proto_of_def upd_meas_def)
  qed
qed

lemma update_link_refines: "refines w (update_link P i w)"
proof (cases "servingGnb (ue_context (g_ues w ! i)) = [] \<or>
    map_of (channelCache (g_ues w ! i)) (servingGnb (ue_context (g_ues w ! i))) = None")
  case True
  then show ?thesis by (auto simp: update_link_def the_ue_def Let_def)
next
  case False
  then obtain t m where "map_of (channelCache (g_ues w ! i)) (servingGnb (ue_context (g_ues w ! i))) = Some (t, m)" by auto
  then obtain a b d x y where "update_link P i w =
      (upd_ue i (\<lambda>ue. ue\<lparr>ulErrorRate := a ue, dlErrorRate := b ue, p2pDelay := d ue\<rparr>) w)
        \<lparr>g_channelLog := x, g_snrLog := y\<rparr>"
    using False by (simp add: update_link_def the_ue_def Let_def)
  then have "g_ues (update_link P i w) = (g_ues w)[i := (g_ues w ! i)\<lparr>ulErrorRate := a (g_ues w ! i),
      dlErrorRate := b (g_ues w ! i), p2pDelay := d (g_ues w ! i)\<rparr>]" by simp
  then show ?thesis by (rule refines_update) (simp add: proto_of_def)
qed

lemma UpdateChannelState_refines:
  assumes inv: "cho_inv (evs w) w" and room: "room 0 w"
  shows "refines w (UpdateChannelState P w)"
proof -
  have "tick_refines 0 v (update_link P i (initial_selection P i v))"
    if v: "cho_inv (evs v) v" "i < length (g_ues v)" for i v
  proof -
    have s: "tick_refines 0 v (initial_selection P i v)"
      using initial_selection_step [OF v] initial_selection_refines [OF v] by (simp add: tick_refines_def)
    then have "tick_refines 0 (initial_selection P i v) (update_link P i (initial_selection P i v))"
      using that(2) update_link_step update_link_refines by (simp add: tick_refines_def tick_step_def)
    then show ?thesis using tick_refines_trans [OF s] by simp
  qed
  then show ?thesis
    unfolding UpdateChannelState_def
    using fold_tick_refines [of "[0..<length (g_ues w)]" 0 "now_s w" "\<lambda>w i. update_link P i (initial_selection P i w)" w]
      inv room by (simp add: tick_refines_def)
qed

lemma tick_refines_all:
  assumes inv: "cho_inv (evs w) w" and room: "room (2 * length (g_ues w) + 1) w" and P: "params_ok P"
  shows "refines w (CheckHandoverConditions P w)"
proof -
  let ?t = "now_s w" and ?n = "length (g_ues w)"
  define w1 where "w1 = w\<lparr>g_ues := map (refresh_ue P (g_satellites w) ?t) (g_ues w)\<rparr>"
  define w2 where "w2 = UpdateChannelState P w1"
  define w3 where "w3 = VerifyPendingMeasurements w2"
  define w4 where "w4 = VerifyPendingServingSnrFollowups w3"
  let ?f = "\<lambda>w i. CheckHandover P ?t i w"
  define w5 where "w5 = foldl ?f w4 [0..<length (g_ues w4)]"
  have eq: "CheckHandoverConditions P w = schedule_s 1 HandoverTick (WriteVisualizationSnapshot ?t w5)"
    by (simp add: CheckHandoverConditions_def Let_def w1_def w2_def w3_def w4_def w5_def)
  have s1: "tick_step 0 w w1" unfolding w1_def by (rule refresh_step [OF inv])
  then have i1: "cho_inv (evs w1) w1" "room 0 w1"
    using tick_step_room [OF s1, of 0] room room_mono by (auto simp: tick_step_def)
  have s2: "tick_step 0 w1 w2" unfolding w2_def by (rule UpdateChannelState_step [OF i1])
  then have i2: "cho_inv (evs w2) w2" by (simp add: tick_step_def)
  have s3: "tick_step 0 w2 w3" unfolding w3_def by (rule Verify_step(1) [OF i2])
  then have i3: "cho_inv (evs w3) w3" by (simp add: tick_step_def)
  have s4: "tick_step 0 w3 w4" unfolding w4_def by (rule Verify_step(2) [OF i3])
  have t4: "tick_step 0 w w4" using tick_step_trans [OF tick_step_trans [OF tick_step_trans [OF s1 s2] s3] s4] by simp
  then have i4: "cho_inv (evs w4) w4" "length (g_ues w4) = ?n" "?t = now_s w4" "room (2 * ?n) w4"
    using room tick_step_room [OF t4, of "2 * ?n"] room_mono [OF room] by (simp_all add: tick_step_def)
  have "refines w w1"
    by (simp add: refines_def w1_def proto_of_meas [OF meas_step_def [THEN iffD1, OF refresh_ue_meas, THEN conjunct1]])
  moreover have "refines w1 w2" unfolding w2_def by (rule UpdateChannelState_refines [OF i1])
  moreover have "refines w2 w4"
    by (rule refines_same) (simp add: w4_def w3_def VerifyPendingMeasurements_def
        VerifyPendingServingSnrFollowups_def case_prod_beta)
  moreover have "tick_refines (2 * length [0..<?n]) w4 (foldl ?f w4 [0..<?n])"
    by (rule fold_tick_refines [of _ 2 ?t])
      (use i4 P CheckHandover_step CheckHandover_refines in \<open>simp_all add: tick_refines_def\<close>)
  then have "refines w4 w5" by (simp add: tick_refines_def w5_def i4(2))
  moreover have "refines w5 (CheckHandoverConditions P w)"
    by (rule refines_same) (simp add: eq WriteVisualizationSnapshot_def)
  ultimately show ?thesis using refines_trans by blast
qed

subsection \<open>Refinement of the runs\<close>

lemma cho_handler_refines:
  assumes "cho_inv (add_mset (Call e) (evs w)) w" "room (2 * length (g_ues w) + 1) w" "params_ok P"
  shows "refines w (cho_handler P e w)"
proof (cases "ev_ue e")
  case None
  show ?thesis
  proof (cases "e = HandoverTick")
    case True
    then have "cho_inv (evs w) w" using assms(1) by (simp add: cho_inv_def events_match_def)
    then show ?thesis using tick_refines_all assms(2,3) True by simp
  next
    case False
    then show ?thesis using None by (cases e) (simp_all add: refines_same EvaluatePendingPrediction_def)
  qed
next
  case (Some i)
  then show ?thesis by (rule Phases_refine [OF assms(1)])
qed

lemma cho_step_refines:
  assumes inv: "run_inv w" and P: "params_ok P" and step: "cho_step P w w'"
  shows "refines w w'"
proof -
  have fin: "\<not> op_IsEmpty map_ops (sim_events w)" "in_range w"
      "w' = DSI_ProcessOneEvent map_ops (cho_handler P) w"
    using step by (auto simp: cho_step_iff DSI_IsFinished_def)
  have c: "cho_inv (evs w) w" using inv by (simp add: run_inv_def)
  obtain n q x where r: "op_RemoveNext map_ops (sim_events w) = Some (n, q)"
      "impls w (impl n) = Some x" "\<not> m_cancel x" "m_currentTs w \<le> m_ts (key n)"
      "cho_inv (add_mset (closure x) (evs (start_event n q w))) (start_event n q w)"
      "room (2 * length (g_ues w) + 1) (start_event n q w)"
    by (rule next_event_started [OF c fin(1,2)])
  let ?s = "start_event n q w"
  have ts: "impls ?s = impls w" "g_ues ?s = g_ues w" by (simp_all add: start_event_def)
  have w': "w' = DSI_ProcessEventsWithContext map_ops (Notify (cho_handler P) (closure x) ?s)"
    using r(1-4) ts by (simp add: fin(3) DSI_ProcessOneEvent_def EventImpl_Invoke_def)
  have ctx: "g_ues (DSI_ProcessEventsWithContext map_ops v) = g_ues v" for v :: cho_world
  proof -
    have "g_ues (foldl (\<lambda>s ev. insert_event map_ops (a s ev) (b ev) (d ev) s) v xs) = g_ues v"
      for a b d and xs :: "EventWithContext list" and v :: cho_world
      by (induction xs arbitrary: v) (simp_all add: insert_event_def)
    then show ?thesis by (simp add: DSI_ProcessEventsWithContext_def)
  qed
  have "refines ?s w'"
  proof (cases "closure x")
    case SimulatorStop
    then show ?thesis by (intro refines_same) (simp add: w' ctx Notify_def Simulator_Stop_def)
  next
    case (Call e)
    then have "refines ?s (cho_handler P e ?s)" using cho_handler_refines r(5,6) P ts by simp
    then show ?thesis by (simp add: refines_def w' ctx Notify_def Call)
  qed
  then show ?thesis by (simp add: refines_def ts)
qed

end
