(* ===== verification/Cho_Examples.thy ===== *)
theory Cho_Examples
  imports Cho_Setup
begin

text \<open>
  Concrete parameters, satellites, UEs and worlds, at which the witnesses of the handover theorems
  evaluate the definitions.
\<close>

subsection \<open>Parameters, a UE, satellites, links\<close>

text \<open>Parameters with simple random numbers and a piecewise linear error function, a UE at the
  origin, two satellites.\<close>

definition P0 :: params where
  "P0 = default_params (\<lambda>r. (0, Suc r)) (\<lambda>r. ((0, 0), Suc r)) (\<lambda>r. (1 / 2, Suc r))
     (\<lambda>x. max 0 (min 2 (1 - x))) (\<lambda>x. [])"

lemma P0_simps [simp]: "g_trendWindowSize P0 = 5" "g_measurementPeriod P0 = 1" "g_choExecutionOffset P0 = 3"
  "m_erfc P0 x = max 0 (min 2 (1 - x))" "g_predictionEvalDelay P0 = 5" "g_minSNR P0 = 0"
  "g_choNtnConfig P0 = g_choNtnConfig_default" "g_reportingOffset P0 = 1" "g_maxDistance P0 = 1500"
  by (simp_all add: P0_def default_params_def)

definition ue0 :: UeInfo where
  "ue0 = (UeInfo_init P0 0 1 ''group'' ''a'' 10 0 0 ''Rural'')\<lparr>ecefX := 0, ecefY := 0, ecefZ := 0\<rparr>"

lemma ue0_simps [simp]: "snrHistory ue0 = []" "channelCache ue0 = []"
  by (simp_all add: ue0_def UeInfo_init_def split: prod.split)

definition sample :: "real \<Rightarrow> real \<Rightarrow> TrajectoryPoint" where
  "sample t c = \<lparr>tp_time = t, x_ecef = c, y_ecef = c, z_ecef = c, lat_deg = 0, lon_deg = 0, alt_m = 0\<rparr>"

lemma sample_simps [simp]: "tp_time (sample t c) = t" "x_ecef (sample t c) = c" "y_ecef (sample t c) = c"
  "z_ecef (sample t c) = c"
  by (simp_all add: sample_def)

definition sat_A :: SatelliteState where
  "sat_A = \<lparr>sat_name = ''A'', trajectory = [sample 0 700, sample 10 900, sample 20 1200]\<rparr>"

definition metrics :: "real \<Rightarrow> real \<Rightarrow> UeSatMetrics" where
  "metrics dst snr = \<lparr>met_elevation = 45, met_distance = dst, dopplerShift = 0, snrDb = snr\<rparr>"

lemma metrics_simps [simp]: "met_elevation (metrics dst snr) = 45" "met_distance (metrics dst snr) = dst"
  "snrDb (metrics dst snr) = snr"
  by (simp_all add: metrics_def)

subsection \<open>Worlds\<close>

text \<open>A UE in the middle of a procedure from cell A to cell B.\<close>

definition ue_at :: "ChoPhase \<Rightarrow> real \<Rightarrow> UeInfo" where
  "ue_at ph snrB = upd_proc (\<lambda>c. c\<lparr>phase := ph, sourceCell := ''A'', targetCell := ''B'', configExpiryTime := 60,
     executionTttActive := True, executionTttStartTime := 4, executionTimeToTrigger := 1\<rparr>)
     (ue0\<lparr>channelCache := [(''A'', 5, metrics 700000 4), (''B'', 5, metrics 900000 snrB)]\<rparr>)"

definition w_at :: "ChoPhase \<Rightarrow> real \<Rightarrow> cho_world" where
  "w_at ph snrB = cho_world_init [] [ue_at ph snrB]"

lemma w_at_simps [simp]: "g_ues (w_at ph x) = [ue_at ph x]" "the_ue 0 (w_at ph x) = ue_at ph x"
  "phase_of 0 (w_at ph x) = ph"
  by (simp_all add: w_at_def cho_world_init_def simulator.defs DefaultSimulatorImpl_init_def the_ue_def
      phase_of_def ue_at_def upd_proc_def)

text \<open>An idle UE served by cell A that has seen cell B as the better one since time 4.\<close>

definition ue_measuring :: "(real \<times> UeSatMetrics) smap \<Rightarrow> UeInfo" where
  "ue_measuring cache = upd_meas (\<lambda>ms. ms\<lparr>servingCellId := ''A'', triggerActive := True, triggerStartTime := 4,
       candidateTargetCell := ''B''\<rparr>)
     (ue0\<lparr>channelCache := cache, ue_context := (ue_context ue0)\<lparr>servingGnb := ''A''\<rparr>\<rparr>)"

definition w_measuring :: "(real \<times> UeSatMetrics) smap \<Rightarrow> cho_world" where
  "w_measuring cache = cho_world_init [] [ue_measuring cache]"

lemma ue_measuring_simps [simp]: "channelCache (ue_measuring c) = c" "servingCellId (measState (ue_measuring c)) = ''A''"
  "triggerActive (measState (ue_measuring c))" "triggerStartTime (measState (ue_measuring c)) = 4"
  "candidateTargetCell (measState (ue_measuring c)) = ''B''" "servingGnb (ue_context (ue_measuring c)) = ''A''"
  "phase (choProcState (ue_measuring c)) = CHO_IDLE" "currentPhase (hoState (ue_measuring c)) = PHASE_IDLE"
  "mc_timeToTrigger (measConfig (ue_measuring c)) = 1" "measurementPeriod (measConfig (ue_measuring c)) = 1"
  "ms_lastMeasurementTime (measState (ue_measuring c)) = - 1"
  by (simp_all add: ue_measuring_def upd_meas_def ue0_def UeInfo_init_def P0_def default_params_def split: prod.split)

lemma w_measuring_simps [simp]: "g_ues (w_measuring c) = [ue_measuring c]" "the_ue 0 (w_measuring c) = ue_measuring c"
  "g_satellites (w_measuring c) = []" "phase_of 0 (w_measuring c) = CHO_IDLE"
  by (simp_all add: w_measuring_def cho_world_init_def simulator.defs DefaultSimulatorImpl_init_def the_ue_def
      phase_of_def)

lemma phase_of_upd: "i < length (g_ues w) \<Longrightarrow> phase_of i (upd_ue i f w) = phase (choProcState (f (g_ues w ! i)))"
  by (simp add: phase_of_def the_ue_def upd_ue_def)

end
