(* ===== verification/Cho_Link_Properties.thy ===== *)
theory Cho_Link_Properties
  imports Cho_Examples
begin

text \<open>
  The properties of the handover simulation below its procedure: interpolation on trajectories and
  tables, the caches and histories of the radio link, the error model, the choice of a satellite,
  the time to trigger, the pending records and the CSV readers.
\<close>

subsection \<open>Trajectories, longitudes, tables\<close>

text \<open>The position of a satellite is a blend of two samples of its trajectory, with the same
  share in all three coordinates; inside the trajectory they are samples around the asked time.\<close>
theorem InterpolatePosition_blend:
  assumes "map_of sats n = Some sat" "trajectory sat \<noteq> []" "InterpolatePosition sats n t = (x, y, z, e, d)"
  shows "\<exists>p q a. p \<in> set (trajectory sat) \<and> q \<in> set (trajectory sat) \<and> 0 \<le> a \<and> a \<le> 1 \<and>
    x = x_ecef p + a * (x_ecef q - x_ecef p) \<and> y = y_ecef p + a * (y_ecef q - y_ecef p) \<and>
    z = z_ecef p + a * (z_ecef q - z_ecef p) \<and>
    (tp_time (hd (trajectory sat)) < t \<and> t < tp_time (last (trajectory sat)) \<longrightarrow> tp_time p < t \<and> t \<le> tp_time q)"
proof (cases "tp_time (hd (trajectory sat)) < t \<and> t < tp_time (last (trajectory sat))")
  case True
  then obtain i a where *: "i + 1 < length (trajectory sat)" "0 < a" "a \<le> 1"
      "tp_time (trajectory sat ! i) < t" "t \<le> tp_time (trajectory sat ! (i + 1))"
      "InterpolatePosition sats n t =
         (x_ecef (trajectory sat ! i) + a * (x_ecef (trajectory sat ! (i + 1)) - x_ecef (trajectory sat ! i)),
          y_ecef (trajectory sat ! i) + a * (y_ecef (trajectory sat ! (i + 1)) - y_ecef (trajectory sat ! i)),
          z_ecef (trajectory sat ! i) + a * (z_ecef (trajectory sat ! (i + 1)) - z_ecef (trajectory sat ! i)), 0, 0)"
    using InterpolatePosition_inside [OF assms(1) refl assms(2)] by metis
  then show ?thesis
    using assms(3)
    by (intro exI [of _ "trajectory sat ! i"] exI [of _ "trajectory sat ! (i + 1)"] exI [of _ a]) auto
next
  case False
  then obtain p where p: "p = hd (trajectory sat) \<or> p = last (trajectory sat)"
      "x = x_ecef p \<and> y = y_ecef p \<and> z = z_ecef p"
    using assms by (auto simp: InterpolatePosition_def Let_def split: if_splits)
  then have "p \<in> set (trajectory sat)" using assms(2) by auto
  then show ?thesis using False p(2) by (intro exI [of _ p] exI [of _ 0]) auto
qed

lemma InterpolatePosition_blend_witness:
  "\<exists>x y z e d p q a. InterpolatePosition [(''A'', sat_A)] ''A'' 15 = (x, y, z, e, d) \<and> 0 \<le> a \<and> a \<le> 1 \<and>
     p \<in> set (trajectory sat_A) \<and> q \<in> set (trajectory sat_A) \<and> x = x_ecef p + a * (x_ecef q - x_ecef p)"
proof -
  obtain x y z e d where p: "InterpolatePosition [(''A'', sat_A)] ''A'' 15 = (x, y, z, e, d)" by (metis surj_pair)
  have "trajectory sat_A \<noteq> []" by (simp add: sat_A_def)
  from InterpolatePosition_blend [OF _ this p] p show ?thesis by fastforce
qed

text \<open>The table lookup never throws on the tables of the file, for any scenario name and any
  elevation (below the horizon and above 90 degrees included), and its value lies between two
  entries of the table.\<close>
theorem Get3GPPParameter_total:
  assumes "table \<in> {g_troposphericScintillation, GetShadowFadingTable s, GetShadowFadingTable_NLOS s,
    GetClutterLossTable s}"
  shows "\<exists>v a b. Get3GPPParameter table elevation = Some v \<and> a \<in> snd ` set table \<and> b \<in> snd ` set table \<and>
    between v a b"
  using Get3GPPParameter_in_range [of table elevation] assms tables_full by blast

lemma Get3GPPParameter_total_witness:
  "\<exists>v. Get3GPPParameter g_troposphericScintillation (- 7) = Some v"
  using Get3GPPParameter_total [of g_troposphericScintillation "''Rural''" "- 7"] by auto

text \<open>\<open>NormalizeLongitude\<close> returns for every longitude, a longitude in [-180, 180] that differs
  from it by whole turns.\<close>
theorem NormalizeLongitude_total:
  "\<exists>k::int. NormalizeLongitude lonDeg = Some (lonDeg + 360 * of_int k) \<and>
     -180 \<le> lonDeg + 360 * of_int k \<and> lonDeg + 360 * of_int k \<le> 180"
  by (rule NormalizeLongitude_result)

subsection \<open>History and trends\<close>

text \<open>The SNR history of a cell stays a queue of at most two windows of samples with strictly
  increasing times, whatever is added to it and when.\<close>
theorem history_stays_ordered:
  assumes "length (history_of ue c) \<le> nat (2 * g_trendWindowSize P)" "sorted_wrt (<) (map fst (history_of ue c))"
  shows "length (history_of (UpdateSnrHistory P c t s ue) c) \<le> nat (2 * g_trendWindowSize P) \<and>
    sorted_wrt (<) (map fst (history_of (UpdateSnrHistory P c t s ue) c))"
  using history_add_ok [of "nat (2 * g_trendWindowSize P)" "history_of ue c" t s] assms
  by (auto simp: hist_ok_def UpdateSnrHistory_def history_of_def [of "_\<lparr>snrHistory := _\<rparr>"])

lemma history_stays_ordered_witness:
  "length (history_of (UpdateSnrHistory P0 ''A'' 5 1 ue0) ''A'') \<le> 10"
  using history_stays_ordered [of ue0 "''A''" P0 5 1] by (simp add: history_of_def [of ue0])

text \<open>\<open>GetSnrAtTime\<close> returns a sample of the history that is nearest to the asked time and not
  more than two seconds away.\<close>
theorem GetSnrAtTime_nearest:
  assumes "GetSnrAtTime ue c T = Some s"
  shows "\<exists>t. (t, s) \<in> set (history_of ue c) \<and> \<bar>T - t\<bar> \<le> 2 \<and>
    (\<forall>t' s'. (t', s') \<in> set (history_of ue c) \<longrightarrow> \<bar>T - t\<bar> \<le> \<bar>T - t'\<bar>)"
  using GetSnrAtTime_SomeD [OF assms] by fast

lemma snr_sum_eq: "snr_sum h = sum_list (map snd h)"
proof -
  have "foldl (\<lambda>acc s. acc + snd s) a h = a + sum_list (map snd h)" for a :: real
    by (induction h arbitrary: a) simp_all
  then show ?thesis by (simp add: snr_sum_def)
qed

lemma window_sum:
  assumes "p + W \<le> length h" "\<And>k. k < length h \<Longrightarrow> snd (h ! k) = a + b * of_nat k"
  shows "snr_sum (take W (drop p h)) = of_nat W * a + b * (\<Sum>j < W. of_nat (p + j))"
proof -
  have "snr_sum (take W (drop p h)) = (\<Sum>j < W. a + b * of_nat (p + j))"
    using assms by (simp add: snr_sum_eq sum_list_sum_nth lessThan_atLeast0)
  also have "\<dots> = of_nat W * a + b * (\<Sum>j < W. of_nat (p + j))" 
    by (simp only: sum.distrib sum_distrib_left sum_constant card_lessThan)
  finally show ?thesis .
qed

text \<open>The SNR trend measures the slope: on samples that rise by b dB from one to the next it is
  b times the window size, however long the history and whatever the level.\<close>
theorem GetSnrTrend_of_ramp:
  assumes "map_of (snrHistory ue) c = Some h" "0 < g_trendWindowSize P" "2 * g_trendWindowSize P \<le> int (length h)"
    and "\<forall>k < length h. snd (h ! k) = a + b * of_nat k"
  shows "GetSnrTrend P ue c = b * of_int (g_trendWindowSize P)"
proof -
  define W where "W = nat (g_trendWindowSize P)"
  have W: "0 < W" "2 * W \<le> length h" "of_int (g_trendWindowSize P) = real W" "\<not> g_trendWindowSize P \<le> 0"
    using assms(2,3) by (auto simp: W_def)
  let ?p = "length h - W - W"
  have "snr_sum (drop (length h - W) h) = snr_sum (take W (drop (length h - W) h))" using W by simp
  also have "\<dots> = of_nat W * a + b * (\<Sum>j < W. of_nat (length h - W + j))"
    using W assms(4) by (intro window_sum) auto
  finally have recent: "snr_sum (drop (length h - W) h) = of_nat W * a + b * (\<Sum>j < W. of_nat (length h - W + j))" .
  have past: "snr_sum (take W (drop ?p h)) = of_nat W * a + b * (\<Sum>j < W. of_nat (?p + j))"
    using W assms(4) by (intro window_sum) auto
  have "(\<Sum>j < W. of_nat (length h - W + j)) = (\<Sum>j < W. real (?p + j) + real W)"
    using W by (intro sum.cong) auto
  then have "(\<Sum>j < W. of_nat (length h - W + j)) = (\<Sum>j < W. real (?p + j)) + real W * real W"
    by (simp add: sum.distrib)
  then have "snr_sum (drop (length h - W) h) - snr_sum (take W (drop ?p h)) = b * (real W * real W)"
    unfolding recent past by (simp add: algebra_simps)
  then have "(snr_sum (drop (length h - W) h) - snr_sum (take W (drop ?p h))) / real W = b * real W"
    using W(1) by simp
  then show ?thesis
    using W assms(1) by (simp add: GetSnrTrend_def Let_def history_of_def flip: W_def) (simp add: diff_divide_distrib)
qed

lemma GetSnrTrend_of_ramp_witness:
  "GetSnrTrend P0 (ue0\<lparr>snrHistory := [(''A'', map (\<lambda>k. (of_nat k, 3 + 2 * of_nat k)) [0..<12])]\<rparr>) ''A'' = 10"
  using GetSnrTrend_of_ramp [of "ue0\<lparr>snrHistory := [(''A'', map (\<lambda>k. (of_nat k, 3 + 2 * of_nat k)) [0..<12])]\<rparr>"
    "''A''" "map (\<lambda>k. (of_nat k, 3 + 2 * of_nat k)) [0..<12]" P0 3 2]
  by simp

subsection \<open>The caches of a link\<close>

text \<open>The channel of a link is computed once per instant: asked twice at the same whole second,
  \<open>UpdateSatelliteState\<close> returns the same metrics and leaves the UE as it is, random engine
  included.\<close>
theorem UpdateSatelliteState_idempotent:
  assumes "UpdateSatelliteState P sats n (of_int k) ue = (m, ue')"
  shows "UpdateSatelliteState P sats n (of_int k) ue' = (m, ue')"
  using assms
proof (cases rule: UpdateSatelliteState_cases)
  case hit
  then show ?thesis using assms by simp
next
  case out
  then show ?thesis using assms by simp
next
  case near
  then show ?thesis using assms by simp
next
  case fresh
  then show ?thesis by (intro UpdateSatelliteState_hit)
qed

lemma UpdateSatelliteState_idempotent_witness:
  "\<exists>m ue'. UpdateSatelliteState P0 [(''A'', sat_A)] ''A'' 7 ue0 = (m, ue') \<and>
     UpdateSatelliteState P0 [(''A'', sat_A)] ''A'' 7 ue' = (m, ue')"
  using UpdateSatelliteState_idempotent [of P0 "[(''A'', sat_A)]" "''A''" 7 ue0] by (metis of_int_numeral surj_pair)

text \<open>The distance trend destroys what it is computed from. It asks the channel model for the
  previous instant, which overwrites the cached metrics with those of that instant; the second trend
  for the same cell at the same time is 0, whatever the motion, if the satellite was inside its
  trajectory a period ago and not within a metre.\<close>
theorem GetDistanceTrend_second_is_zero:
  assumes "GetDistanceTrend P sats c t ue = (d, ue')" "t - g_measurementPeriod P = of_int k"
    and "in_trajectory sats c (of_int k)" "\<not> met_distance (link_geometry P sats c (of_int k) ue) < 1"
  shows "fst (GetDistanceTrend P sats c t ue') = 0"
proof (cases "t < g_measurementPeriod P \<or> map_of (channelCache ue) c = None")
  case True
  then have "ue' = ue" "d = 0" using assms(1) by (auto simp: GetDistanceTrend_def split: if_splits option.splits)
  then show ?thesis using True by (auto simp: GetDistanceTrend_def)
next
  case False
  then obtain t0 cur where cur: "map_of (channelCache ue) c = Some (t0, cur)" by force
  obtain prev ue1 where u: "UpdateSatelliteState P sats c (of_int k) ue = (prev, ue1)" by fastforce
  have ue': "ue' = ue1" using assms(1,2) False cur u by (auto simp: GetDistanceTrend_def)
  have "map_of (channelCache ue1) c = Some (of_int k, prev)"
    using u
  proof (cases rule: UpdateSatelliteState_cases)
    case hit
    moreover have "\<lfloor>real_of_int k + 1 / 10 ^ 6\<rfloor> = k" by (simp add: floor_eq_iff)
    ultimately show ?thesis by simp
  qed (use assms(3,4) in auto)
  moreover from this have "UpdateSatelliteState P sats c (of_int k) ue1 = (prev, ue1)"
    by (rule UpdateSatelliteState_hit)
  ultimately show ?thesis using False assms(2) by (simp add: GetDistanceTrend_def ue')
qed

lemma GetDistanceTrend_second_is_zero_witness:
  "\<exists>d ue'. GetDistanceTrend P0 [(''A'', sat_A)] ''A'' 1 (ue0\<lparr>channelCache := [(''A'', 1, metrics 5 9)]\<rparr>) = (d, ue') \<and>
     fst (GetDistanceTrend P0 [(''A'', sat_A)] ''A'' 1 ue') = 0"
proof -
  let ?u = "ue0\<lparr>channelCache := [(''A'', 1, metrics 5 9)]\<rparr>"
  obtain d ue' where g: "GetDistanceTrend P0 [(''A'', sat_A)] ''A'' 1 ?u = (d, ue')" by fastforce
  have "in_trajectory [(''A'', sat_A)] ''A'' (of_int 0)" by (simp add: in_trajectory_def sat_A_def)
  moreover have "met_distance (link_geometry P0 [(''A'', sat_A)] ''A'' (of_int 0) ?u) = sqrt (3 * 700 ^ 2)"
    by (simp add: link_geometry_def InterpolatePosition_def sat_A_def ue0_def Let_def metrics_default_def)
  then have "\<not> met_distance (link_geometry P0 [(''A'', sat_A)] ''A'' (of_int 0) ?u) < 1" by simp
  ultimately show ?thesis using GetDistanceTrend_second_is_zero [OF g, of 0] g by auto
qed

subsection \<open>The error model\<close>

text \<open>The error rate is a probability, and a better SNR never gives a larger one, if the error
  function of the standard library has values in [0, 2] and does not increase.\<close>
theorem packet_error_rate_antimono:
  assumes "\<forall>x. 0 \<le> m_erfc P x \<and> m_erfc P x \<le> 2" "\<forall>x y. x \<le> y \<longrightarrow> m_erfc P y \<le> m_erfc P x" "snr \<le> snr'"
  shows "0 \<le> packet_error_rate P snr' \<and> packet_error_rate P snr' \<le> packet_error_rate P snr \<and>
    packet_error_rate P snr \<le> 1"
proof -
  let ?b = "\<lambda>s. 1 - 0.5 * m_erfc P (sqrt (10 powr (s / 10)))" and ?n = "unat (g_packetSize P * 8)"
  have "m_erfc P (sqrt (10 powr (snr' / 10))) \<le> m_erfc P (sqrt (10 powr (snr / 10)))"
    using assms(2,3) by simp
  then have le: "?b snr \<le> ?b snr'" by simp
  have b: "0 \<le> ?b s" "?b s \<le> 1" for s using assms(1) by (simp_all add: field_simps)
  have "?b snr ^ ?n \<le> ?b snr' ^ ?n" using le b(1) by (rule power_mono)
  moreover have "0 \<le> ?b s ^ ?n" "?b s ^ ?n \<le> 1" for s using b by (simp_all add: power_le_one)
  moreover have "packet_error_rate P s = 1 - ?b s ^ ?n" for s
    using b [of s] power_le_one [of "?b s" ?n] zero_le_power [of "?b s" ?n]
    by (simp add: packet_error_rate_def Let_def)
  ultimately show ?thesis by simp
qed

lemma packet_error_rate_antimono_witness:
  "packet_error_rate P0 12 \<le> packet_error_rate P0 9 \<and> packet_error_rate P0 9 \<le> 1"
proof -
  have "\<forall>x y. x \<le> y \<longrightarrow> m_erfc P0 y \<le> m_erfc P0 x" by auto
  then show ?thesis using packet_error_rate_antimono [of P0 9 12] by simp
qed

text \<open>The two places that set the error rates of a link agree: what \<open>UpdateChannelState\<close> writes
  into the error models once a second is what \<open>ApplyUeErrorModelImmediately\<close> writes at the start
  and the end of an execution.\<close>
theorem error_rates_agree:
  assumes "i < length (g_ues w)"
  shows "ulErrorRate (the_ue i (update_link P i w)) = ulErrorRate (ApplyUeErrorModelImmediately P (the_ue i w)) \<and>
    dlErrorRate (the_ue i (update_link P i w)) = dlErrorRate (ApplyUeErrorModelImmediately P (the_ue i w))"
proof -
  have "max 0 (min 1 x) = (if (if x < 0 then 0 else x) > 1 then 1 else if x < 0 then 0 else x)" for x :: real
    by simp
  then show ?thesis
    using assms
    by (auto simp: update_link_def ApplyUeErrorModelImmediately_def Let_def packet_error_rate_def
        the_ue_def upd_ue_def split: option.split)
qed

lemma error_rates_agree_witness:
  "ulErrorRate (the_ue 0 (update_link P0 0 (cho_world_init [] [ue0]))) =
   ulErrorRate (ApplyUeErrorModelImmediately P0 (the_ue 0 (cho_world_init [] [ue0])))"
  using error_rates_agree [of 0 "cho_world_init [] [ue0]" P0]
  by (simp add: cho_world_init_def simulator.defs DefaultSimulatorImpl_init_def)

subsection \<open>Choosing a satellite\<close>

lemma best_scan_spec:
  fixes cache :: "(real \<times> UeSatMetrics) smap"
  assumes "foldl (\<lambda>(best, snr) (n, t, m). if skip n m then (best, snr)
      else if snrDb m > snr then (n, snrDb m) else (best, snr)) (b0, s0) cache = (b, s)"
  shows "s0 \<le> s \<and> (\<forall>(n, t, m) \<in> set cache. \<not> skip n m \<longrightarrow> snrDb m \<le> s) \<and>
    ((b, s) = (b0, s0) \<or> (\<exists>t m. (b, t, m) \<in> set cache \<and> \<not> skip b m \<and> snrDb m = s))"
  using assms
proof (induction cache arbitrary: b0 s0)
  case (Cons x cache)
  obtain n t m where x: "x = (n, t, m)" by (cases x)
  show ?case
  proof (cases "\<not> skip n m \<and> snrDb m > s0")
    case True
    then show ?thesis using Cons.IH [of n "snrDb m"] Cons.prems by (auto simp: x)
  next
    case False
    then show ?thesis using Cons.IH [of b0 s0] Cons.prems by (fastforce simp: x split: if_splits)
  qed
qed simp

text \<open>\<open>SelectBestSatellite\<close> changes the satellite only for a better one: a satellite other than
  the current is in the cache, above the horizon and inside its trajectory, has the largest SNR of
  all such satellites, and exceeds the current one by the execution offset.\<close>
theorem SelectBestSatellite_best:
  assumes "SelectBestSatellite P i cur w = best" "best \<noteq> cur"
  shows "\<exists>t m. (best, t, m) \<in> set (channelCache (the_ue i w)) \<and> \<not> met_elevation m < 0 \<and>
    \<not> trajectory_over (g_satellites w) (now_s w) best \<and>
    snrDb m \<ge> snr_or (the_ue i w) cur (-999) + g_choExecutionOffset P \<and>
    (\<forall>n' t' m'. (n', t', m') \<in> set (channelCache (the_ue i w)) \<and> \<not> met_elevation m' < 0 \<and>
      \<not> trajectory_over (g_satellites w) (now_s w) n' \<longrightarrow> snrDb m' \<le> snrDb m)"
proof -
  let ?skip = "\<lambda>n m. met_elevation m < 0 \<or> trajectory_over (g_satellites w) (now_s w) n"
  obtain b s where b: "best_scan ?skip cur (channelCache (the_ue i w)) = (b, s)" by fastforce
  have sel: "b = best" "snr_or (the_ue i w) cur (-999) + g_choExecutionOffset P \<le> s"
    using assms by (auto simp: SelectBestSatellite_def b Let_def split: if_splits)
  show ?thesis using best_scan_spec [OF b [unfolded best_scan_def]] sel assms(2) by fastforce
qed

lemma SelectBestSatellite_best_witness:
  "\<exists>t m. (''B'', t, m) \<in> set [(''A'', (5, metrics 700 4)), (''B'', (5, metrics 900 8))] \<and> \<not> met_elevation m < 0"
proof -
  let ?w = "cho_world_init [] [ue0\<lparr>channelCache := [(''A'', 5, metrics 700 4), (''B'', 5, metrics 900 8)]\<rparr>]"
  have u: "the_ue 0 ?w = ue0\<lparr>channelCache := [(''A'', 5, metrics 700 4), (''B'', 5, metrics 900 8)]\<rparr>"
      "g_satellites ?w = []"
    by (simp_all add: cho_world_init_def simulator.defs DefaultSimulatorImpl_init_def the_ue_def)
  have "SelectBestSatellite P0 0 ''A'' ?w = ''B''"
    by (simp add: SelectBestSatellite_def u best_scan_def trajectory_over_def snr_or_def)
  from SelectBestSatellite_best [OF this] show ?thesis by (auto simp: u)
qed

subsection \<open>Time to trigger\<close>

text \<open>The trigger of a UE over the measurements of a run: whether the condition holds, the best
  neighbour and the time of each. The code's NTN trigger is never set
  (\<open>UE_EvaluateNtnTriggers\<close>).\<close>

definition trigger_run :: "real \<Rightarrow> (bool \<times> cell_id \<times> real) list \<Rightarrow> UeMeasurementState \<Rightarrow> bool \<times> UeMeasurementState" where
  "trigger_run ttt ins ms =
     foldl (\<lambda>(r, ms) (a3, c, t). trigger_step False a3 c t ttt ms) (False, ms) ins"

definition holds_since :: "(bool \<times> cell_id \<times> real) list \<Rightarrow> cell_id \<Rightarrow> real \<Rightarrow> bool" where
  "holds_since ins c t0 \<longleftrightarrow> (\<exists>pre hold. ins = pre @ hold \<and> hold \<noteq> [] \<and> snd (snd (hd hold)) = t0 \<and>
     (\<forall>(a3, c', t) \<in> set hold. a3 \<and> c' = c))"

lemma holds_since_start: "holds_since (ins @ [(True, c, t)]) c t"
  unfolding holds_since_def by (intro exI [of _ ins] exI [of _ "[(True, c, t)]"]) simp

lemma holds_since_more:
  assumes "holds_since ins c t0"
  shows "holds_since (ins @ [(True, c, t)]) c t0"
proof -
  obtain pre hold where "ins = pre @ hold" "hold \<noteq> []" "snd (snd (hd hold)) = t0" "\<forall>(a3, c', t) \<in> set hold. a3 \<and> c' = c"
    using assms unfolding holds_since_def by blast
  then show ?thesis unfolding holds_since_def
    by (intro exI [of _ pre] exI [of _ "hold @ [(True, c, t)]"]) auto
qed

lemma trigger_run_inv:
  assumes "\<not> triggerActive ms" "trigger_run ttt ins ms = (r, ms')"
  shows "(triggerActive ms' \<longrightarrow> holds_since ins (candidateTargetCell ms') (triggerStartTime ms')) \<and>
    (r \<longrightarrow> (\<exists>t0 t. holds_since ins (candidateTargetCell ms') t0 \<and> last ins = (True, candidateTargetCell ms', t) \<and>
      t - t0 \<ge> ttt))"
  using assms(2)
proof (induction ins arbitrary: r ms' rule: rev_induct)
  case Nil
  then show ?case using assms(1) by (simp add: trigger_run_def)
next
  case (snoc x ins)
  obtain a3 c t where x: "x = (a3, c, t)" by (cases x)
  obtain r1 ms1 where p: "trigger_run ttt ins ms = (r1, ms1)" by fastforce
  have step: "trigger_step False a3 c t ttt ms1 = (r, ms')"
    using snoc.prems p by (simp add: trigger_run_def x)
  have ih: "triggerActive ms1 \<Longrightarrow> holds_since ins (candidateTargetCell ms1) (triggerStartTime ms1)"
    using snoc.IH [OF p] by blast
  show ?case
  proof (cases "a3 \<and> triggerActive ms1 \<and> c = candidateTargetCell ms1")
    case True
    then have "holds_since (ins @ [x]) c (triggerStartTime ms1)" using holds_since_more [OF ih] by (simp add: x)
    then show ?thesis
      using True step by (auto simp: trigger_step_def x split: if_splits)
  next
    case False
    then show ?thesis
      using step holds_since_start [of ins c t] by (auto simp: trigger_step_def x split: if_splits)
  qed
qed



subsection \<open>Pending records\<close>

lemma verify_validations_eq:
  "verify_validations t ues vs =
     (concat (map (validation_rows ues) (filter (\<lambda>v. pv_verificationTime v \<le> t) vs)),
      filter (\<lambda>v. \<not> pv_verificationTime v \<le> t) vs)"
  by (induction vs) (simp_all add: Let_def)

lemma verify_followups_eq:
  "verify_followups t ues fs =
     (map (followup_row ues) (filter (\<lambda>f. pf_verificationTime f \<le> t) fs),
      filter (\<lambda>f. \<not> pf_verificationTime f \<le> t) fs)"
  by (induction fs) simp_all

text \<open>The erasing loops over the pending records are the partition of the records by their due
  time: every record that is due has been handled once, in order, and is gone; every other stays,
  in order.\<close>
theorem pending_records_partition:
  "g_pendingMeasurementValidations (VerifyPendingMeasurements w) =
     filter (\<lambda>v. \<not> pv_verificationTime v \<le> now_s w) (g_pendingMeasurementValidations w) \<and>
   g_trendValidationLog (VerifyPendingMeasurements w) = g_trendValidationLog w @
     concat (map (validation_rows (g_ues w)) (filter (\<lambda>v. pv_verificationTime v \<le> now_s w) (g_pendingMeasurementValidations w))) \<and>
   g_pendingServingSnrFollowups (VerifyPendingServingSnrFollowups w) =
     filter (\<lambda>f. \<not> pf_verificationTime f \<le> now_s w) (g_pendingServingSnrFollowups w) \<and>
   g_servingSnrFollowupLog (VerifyPendingServingSnrFollowups w) = g_servingSnrFollowupLog w @
     map (followup_row (g_ues w)) (filter (\<lambda>f. pf_verificationTime f \<le> now_s w) (g_pendingServingSnrFollowups w))"
  by (simp add: VerifyPendingMeasurements_def VerifyPendingServingSnrFollowups_def verify_validations_eq
      verify_followups_eq)

subsection \<open>CSV\<close>

text \<open>A CSV line of fields.\<close>

fun join_fields :: "string list \<Rightarrow> string" where
  "join_fields [] = []"
| "join_fields [f] = f"
| "join_fields (f # g # fs) = f @ CHR '','' # join_fields (g # fs)"

lemma no_comma:
  assumes "CHR '','' \<notin> set f"
  shows "takeWhile (\<lambda>x. x \<noteq> CHR '','') (f @ CHR '','' # s) = f"
    "dropWhile (\<lambda>x. x \<noteq> CHR '','') (f @ CHR '','' # s) = CHR '','' # s"
    "takeWhile (\<lambda>x. x \<noteq> CHR '','') f = f" "dropWhile (\<lambda>x. x \<noteq> CHR '','') f = []"
  using assms by (induction f) auto

lemma split_fields_step: "CHR '','' \<notin> set f \<Longrightarrow> split_fields (f @ CHR '','' # s) = f # split_fields s"
  by (cases f) (auto simp: no_comma)

lemma split_fields_last: "CHR '','' \<notin> set f \<Longrightarrow> f \<noteq> [] \<Longrightarrow> split_fields f = [f]"
  by (cases f) (auto simp: no_comma)

text \<open>Reading back a CSV line gives its fields, empty ones included, if the last field is not
  empty and no field has a comma (the reader drops an empty last field).\<close>
theorem split_fields_roundtrip:
  assumes "fs \<noteq> []" "last fs \<noteq> []" "\<forall>f. f \<in> set fs \<longrightarrow> CHR '','' \<notin> set f"
  shows "split_fields (join_fields fs) = fs"
  using assms
proof (induction fs rule: join_fields.induct)
  case (2 f)
  then show ?case by (simp add: split_fields_last)
next
  case (3 f g fs)
  then show ?case using split_fields_step [of f "join_fields (g # fs)"] by simp
qed simp

lemma split_fields_roundtrip_witness:
  "split_fields ''2024,,SAT-7,45.0'' = [''2024'', [], ''SAT-7'', ''45.0'']"
  using split_fields_roundtrip [of "[''2024'', [], ''SAT-7'', ''45.0'']"] by simp

subsection \<open>The execution condition\<close>

text \<open>A radio link failure leads into a dead end. The report of a UE whose serving cell is lost
  names no target; while a procedure without target waits to be executed, its check does nothing
  until the configuration expires.\<close>
theorem rlf_procedure_waits:
  assumes "phase (choProcState (the_ue i w)) = CHO_UE_EVALUATING"
    and "targetCell (choProcState (the_ue i w)) = report_target (rlf_report t serving)"
    and "map_of (channelCache (the_ue i w)) [] = None" "\<not> now > configExpiryTime (choProcState (the_ue i w))"
  shows "CHO_CheckExecutionCondition P i now w = w"
  using assms by (simp add: CHO_CheckExecutionCondition_def rlf_report_def report_target_def Let_def split: option.split)

lemma rlf_procedure_waits_witness:
  "CHO_CheckExecutionCondition P0 0 30 (cho_world_init [] [upd_proc (\<lambda>c. c\<lparr>phase := CHO_UE_EVALUATING,
     configExpiryTime := 60\<rparr>) ue0]) =
   cho_world_init [] [upd_proc (\<lambda>c. c\<lparr>phase := CHO_UE_EVALUATING, configExpiryTime := 60\<rparr>) ue0]"
proof -
  let ?u = "upd_proc (\<lambda>c. c\<lparr>phase := CHO_UE_EVALUATING, configExpiryTime := 60\<rparr>) ue0"
  have u: "the_ue 0 (cho_world_init [] [?u]) = ?u"
    by (simp add: cho_world_init_def simulator.defs DefaultSimulatorImpl_init_def the_ue_def)
  have "targetCell (choProcState ue0) = []" by (simp add: ue0_def UeInfo_init_def split: prod.split)
  then show ?thesis
    by (intro rlf_procedure_waits [of _ _ 0 "[]"], unfold u)
      (simp_all add: upd_proc_def rlf_report_def report_target_def)
qed

end
