(* ===== verification/Cho_Properties.thy ===== *)
theory Cho_Properties
  imports Cho_Protocol Cho_Link_Properties
begin

text \<open>
  The properties of the runs of the handover simulation: what holds in every state that a run
  reaches from the start \<open>main\<close> sets up, and what every event does.
\<close>

subsection \<open>Runs\<close>

text \<open>A state of a run: satellites within 10^6 km of the centre of the earth, UEs as the loader makes
  them, a simulation time below 2^32 s, and any number of events.\<close>

definition run_state :: "params \<Rightarrow> cho_world \<Rightarrow> bool" where
  "run_state P w \<longleftrightarrow> params_ok P \<and> (\<exists>sats ues simTime. sats_ok sats \<and> (\<forall>u \<in> set ues. fresh_ue P u) \<and>
     0 \<le> simTime \<and> simTime < 2 ^ 32 \<and> cho_reachable P (cho_start sats ues simTime) w)"

lemma run_state_inv:
  assumes "run_state P w"
  shows "run_inv w" "cho_inv (evs w) w" "params_ok P"
proof -
  show i: "run_inv w" using assms cho_run_inv by (auto simp: run_state_def)
  then show "cho_inv (evs w) w" by (simp add: run_inv_def)
  show "params_ok P" using assms by (simp add: run_state_def)
qed

lemma run_state_step: "run_state P w \<Longrightarrow> cho_step P w w' \<Longrightarrow> run_state P w'"
  unfolding run_state_def using cho_reachable.step by metis

lemma run_state_ue:
  assumes "run_state P w" "i < length (g_ues w)"
  shows "ue_ok (the_ue i w)"
  using cho_inv_ue [OF run_state_inv(2) [OF assms(1)] assms(2)] by (simp add: the_ue_def)

text \<open>The example: no satellites, one UE, ten seconds.\<close>

definition w0 :: cho_world where
  "w0 = cho_start [] [UeInfo_init P0 0 1 ''group'' ''a'' 10 0 0 ''Rural''] 10"

lemma w0_run: "run_state P0 w0"
proof -
  have "fresh_ue P0 (UeInfo_init P0 0 1 ''group'' ''a'' 10 0 0 ''Rural'')" unfolding fresh_ue_def by blast
  moreover have "params_ok P0" by (simp add: params_ok_def)
  moreover have "sats_ok []" by (simp add: sats_ok_def)
  ultimately show ?thesis
    unfolding run_state_def w0_def
    by (intro conjI exI [of _ "[]"] exI [of _ "[UeInfo_init P0 0 1 ''group'' ''a'' 10 0 0 ''Rural'']"]
        exI [of _ 10] cho_reachable.start) simp_all
qed

lemma Seconds_nat: "n < 2 ^ 32 \<Longrightarrow> Seconds (of_nat n) = word_of_int (int n * 10 ^ 9)"
  using Seconds_ns_of [of "of_nat n"] ns_of_nat [of n] by simp

lemma w0_step: "cho_step P0 w0 (DSI_ProcessOneEvent map_ops (cho_handler P0) w0)" "length (g_ues w0) = 1"
proof -
  have sec: "Seconds 0 = 0" "Seconds 2 = 2000000000" "Seconds 10 = 10000000000"
    using Seconds_nat [of 0] Seconds_nat [of 2] Seconds_nat [of 10] by simp_all
  have pos: "Time_IsPositive 0" "Time_IsPositive 2000000000" "Time_IsPositive 10000000000"
    by (simp_all add: Time_IsPositive_def)
  have q: "sim_events w0 =
      [(\<lparr>m_ts = 0, m_uid = 4, m_context = NO_CONTEXT\<rparr>, 1), (\<lparr>m_ts = 2000000000, m_uid = 5, m_context = NO_CONTEXT\<rparr>, 2),
       (\<lparr>m_ts = 10000000000, m_uid = 6, m_context = NO_CONTEXT\<rparr>, 3)]" "sim_uid w0 = 7" "m_stop w0 = False"
      "fault w0 = None" and len: "length (g_ues w0) = 1"
    using pos
    by (simp_all add: w0_def cho_start_def schedule_s_def Simulator_Schedule_def DSI_Stop_delay_def DSI_Schedule_def
        MakeEvent_def insert_event_def Let_def cho_world_init_def DefaultSimulatorImpl_init_def simulator.defs
        sec map_ops_def UID_VALID_def EventKey_less_def)
  show "length (g_ues w0) = 1" by (rule len)
  show "cho_step P0 w0 (DSI_ProcessOneEvent map_ops (cho_handler P0) w0)"
    by (rule run_event)
      (simp_all add: DSI_IsFinished_def q len in_range_def map_ops_def MapScheduler_IsEmpty_def
        MapScheduler_PeekNext_def)
qed

subsection \<open>The protocol\<close>



subsection \<open>Events and phases\<close>

text \<open>C2: Events and phases match in every state of a run: the queue holds, for every UE, exactly the
  one event that will take it out of its phase, with its own source and target, and none for a UE
  that is idle or waits for its execution condition.\<close>
theorem events_match_phases:
  assumes "run_state P w" "i < length (g_ues w)"
  shows "filter_mset (of_ue i) (evs w) = opt_mset (next_event i (the_ue i w))"
  using run_state_inv(2) [OF assms(1)] assms(2) by (simp add: cho_inv_def events_match_def the_ue_def)

lemma events_match_phases_witness:
  "filter_mset (of_ue 0) (evs w0) = opt_mset (next_event 0 (the_ue 0 w0))"
  using events_match_phases [OF w0_run, of 0] w0_step(2) by simp

definition waits :: "cho_world \<Rightarrow> nat \<Rightarrow> ChoPhase \<Rightarrow> cell_id \<Rightarrow> cell_id \<Rightarrow> bool" where
  "waits w i ph s t \<longleftrightarrow> i < length (g_ues w) \<and> phase_of i w = ph \<and>
     sourceCell (choProcState (the_ue i w)) = s \<and> targetCell (choProcState (the_ue i w)) = t"

fun stale :: "cho_world \<Rightarrow> cho_event closure \<Rightarrow> bool" where
  "stale w (Call (CHO_Phase1 i s t)) \<longleftrightarrow> \<not> waits w i CHO_MEAS_REPORT_UPLINK s t"
| "stale w (Call (CHO_Phase2 i s t)) \<longleftrightarrow> \<not> waits w i CHO_GNB_CHO_DECISION s t"
| "stale w (Call (CHO_Phase3 i s t)) \<longleftrightarrow> \<not> waits w i CHO_XN_REQUEST s t"
| "stale w (Call (CHO_Phase4 i s t)) \<longleftrightarrow> \<not> waits w i CHO_XN_RESPONSE s t"
| "stale w (Call (CHO_Phase5 i s t)) \<longleftrightarrow> \<not> waits w i CHO_RRC_RECONFIG_DOWNLINK s t"
| "stale w (Call (CHO_Phase7 i s t)) \<longleftrightarrow> \<not> waits w i CHO_UE_EXECUTING s t"
| "stale w c \<longleftrightarrow> False"

lemma queued_event_due:
  assumes "cho_inv (evs w) w" "Call e \<in># evs w" "ev_ue e = Some i"
  shows "i < length (g_ues w)" "next_event i (g_ues w ! i) = Some e"
proof -
  have m: "events_match (evs w) (g_ues w)" using assms(1) by (simp add: cho_inv_def)
  have mem: "Call e \<in># filter_mset (of_ue i) (evs w)" using assms(2,3) by simp
  show i: "i < length (g_ues w)"
  proof (rule ccontr)
    assume "\<not> i < length (g_ues w)"
    then have "filter_mset (of_ue i) (evs w) = {#}" using m unfolding events_match_def by (simp only: not_less)
    then show False using mem by (metis empty_iff set_mset_empty)
  qed
  then have "filter_mset (of_ue i) (evs w) = opt_mset (next_event i (g_ues w ! i))"
    using m unfolding events_match_def by blast
  with mem show "next_event i (g_ues w ! i) = Some e" by (cases "next_event i (g_ues w ! i)") auto
qed

lemma due_not_stale:
  assumes "i < length (g_ues w)" "next_event i (g_ues w ! i) = Some e"
  shows "\<not> stale w (Call e)"
  using assms
  by (cases "phase (choProcState (g_ues w ! i))")
    (auto simp: next_event_def Let_def waits_def phase_of_def the_ue_def)



text \<open>The periodic task is scheduled exactly once in every state of a run.\<close>
theorem one_tick:
  assumes "run_state P w"
  shows "count (evs w) (Call HandoverTick) = 1"
  using run_state_inv(1) [OF assms] by (simp add: run_inv_def)

text \<open>C8: A run never gets stuck: until \<open>Stop\<close> has been executed there is a next event, and
  executing it moves the clock forward or leaves it, with no failed assertion (no negative delay, no
  time before now, no missing event) and another state of the run as the result.\<close>
theorem run_progresses:
  assumes "run_state P w" "\<not> m_stop w" "in_range w"
  shows "\<exists>w'. cho_step P w w' \<and> run_state P w' \<and> m_currentTs w \<le> m_currentTs w' \<and> fault w' = None"
proof -
  have c: "cho_inv (evs w) w" by (rule run_state_inv(2) [OF assms(1)])
  have "Call HandoverTick \<in># evs w"
    using run_state_inv(1) [OF assms(1)] by (simp add: run_inv_def flip: count_greater_zero_iff)
  then have "sim_events w \<noteq> []" by (auto simp: evs_def pending_def)
  then have "\<not> DSI_IsFinished map_ops w"
    using assms(2) by (simp add: DSI_IsFinished_def map_ops_def MapScheduler_IsEmpty_def)
  moreover have "fault w = None" using c by (simp add: cho_inv_def sim_ok_def)
  ultimately have step: "cho_step P w (DSI_ProcessOneEvent map_ops (cho_handler P) w)"
    using assms(3) by (rule run_event)
  then show ?thesis
    using cho_step_inv [OF run_state_inv(1,3) [OF assms(1)] step] run_state_step [OF assms(1) step]
    by (auto simp: run_inv_def cho_inv_def sim_ok_def)
qed

lemma run_progresses_witness: "\<exists>w'. cho_step P0 w0 w' \<and> fault w' = None"
proof -
  have "\<not> m_stop w0" "in_range w0" using w0_step(1) by (auto simp: cho_step_iff DSI_IsFinished_def)
  then show ?thesis using run_progresses [OF w0_run] by blast
qed

subsection \<open>Accounting\<close>

text \<open>C4: Every procedure is accounted for. In every state of a run the counters of a UE add up: the
  reports are the configurations sent and the procedure under preparation; those sent are those
  received and the one on its way; those received have ended in success, failure or expiry, or are
  the one in use; executions have ended in success or failure, or one is going on; and the
  handover counts of the UE are those of its statistics.\<close>
theorem procedures_accounted:
  assumes "run_state P w" "i < length (g_ues w)"
  shows "let ue = the_ue i w; s = ueChoStats ue; ph = phase (choProcState ue) in
    totalReports s = configsSent s + of_bool (preparing ph) \<and>
    configsSent s = configsReceived s + of_bool (ph = CHO_RRC_RECONFIG_DOWNLINK) \<and>
    configsReceived s = successfulHandovers s + failedAtExecution s + configsExpired s + of_bool (has_config ph) \<and>
    executionsTriggered s = successfulHandovers s + failedAtExecution s + of_bool (ph = CHO_UE_EXECUTING) \<and>
    successfulHandovers s = of_int (hoCount ue) \<and> failedAtExecution s = of_int (hoFail ue)"
  using run_state_ue [OF assms] by (simp add: ue_ok_def accounting_def Let_def)

lemma procedures_accounted_witness:
  "totalReports (ueChoStats (the_ue 0 w0)) =
     configsSent (ueChoStats (the_ue 0 w0)) + of_bool (preparing (phase (choProcState (the_ue 0 w0))))"
  using procedures_accounted [OF w0_run, of 0] w0_step(2) by (simp add: Let_def)



subsection \<open>The state of a UE\<close>

text \<open>C15: A UE has a stored configuration exactly while it waits for its condition or executes, and
  then exactly one, for its target; the loop that would cancel handovers of other candidates after
  a success never has one to cancel.\<close>
theorem one_configuration:
  assumes "run_state P w" "i < length (g_ues w)"
  shows "map fst (choConfigs (choConfigState (the_ue i w))) =
    (if has_config (phase_of i w) then [targetCell (choProcState (the_ue i w))] else [])"
  using run_state_ue [OF assms] by (simp add: ue_ok_def phase_consistent_def Let_def phase_of_def)

lemma one_configuration_witness:
  "map fst (choConfigs (choConfigState (the_ue 0 w0))) =
    (if has_config (phase_of 0 w0) then [targetCell (choProcState (the_ue 0 w0))] else [])"
  using one_configuration [OF w0_run, of 0] w0_step(2) by simp



subsection \<open>Execution\<close>



lemma Phase7_success_ue:
  assumes "i < length (g_ues w)" "phase_of i w = CHO_UE_EXECUTING" "CHO_IsLinkViable P (the_ue i w) t"
  shows "the_ue i (CHO_Phase7_ExecutionComplete P i s t w) =
    upd_proc (\<lambda>c. c\<lparr>phase := CHO_IDLE, failed := False\<rparr>)
      (complete_ue P t (upd_proc (\<lambda>c. c\<lparr>phase := CHO_XN_CANCEL\<rparr>) (upd_stats (count_success
        (now_s w - configReceivedTime (choProcState (the_ue i w)))
        (now_s w - executionStartTime (choProcState (the_ue i w)))) (the_ue i w))))"
  using assms unfolding CHO_Phase7_ExecutionComplete_def Let_def
  by (simp add: both_stats_def set_phase_def the_ue_def)

lemma Phase7_failure_ue:
  assumes "i < length (g_ues w)" "phase_of i w = CHO_UE_EXECUTING" "\<not> CHO_IsLinkViable P (the_ue i w) t"
  shows "\<exists>r. the_ue i (CHO_Phase7_ExecutionComplete P i s t w) =
    upd_proc (\<lambda>c. c\<lparr>phase := CHO_IDLE, failed := True, failureReason := r\<rparr>)
      (ResetHoContext (upd_cfg (\<lambda>g. g\<lparr>choConfigs := []\<rparr>)
        ((\<lambda>ue. ue\<lparr>hoFail := hoFail ue + 1, hoState := (hoState ue)\<lparr>interruptionActive := False\<rparr>\<rparr>)
          (upd_stats (\<lambda>s. s\<lparr>failedAtExecution := failedAtExecution s + 1\<rparr>) (the_ue i w)))))"
  using assms unfolding CHO_Phase7_ExecutionComplete_def Let_def
  by (intro exI) (simp add: CHO_HandleFailure_def Let_def both_stats_def the_ue_def)

lemma complete_ue_fields:
  "choConfigs (choConfigState (complete_ue P t u)) = []" "interruptionActive (hoState (complete_ue P t u)) = False"
  "servingCellId (measState (complete_ue P t u)) = t" "hoCount (complete_ue P t u) = hoCount u + 1"
  "hoFail (complete_ue P t u) = hoFail u"
proof -
  let ?x = "\<lambda>u. ApplyUeErrorModelImmediately P u"
  have f: "choConfigState (?x v) = choConfigState v" "hoState (?x v) = hoState v" "measState (?x v) = measState v"
      "hoFail (?x v) = hoFail v" for v
    by (rule ApplyUeErrorModelImmediately_form [of P v]; simp)+
  show "choConfigs (choConfigState (complete_ue P t u)) = []" "interruptionActive (hoState (complete_ue P t u)) = False"
    "servingCellId (measState (complete_ue P t u)) = t" "hoCount (complete_ue P t u) = hoCount u + 1"
    "hoFail (complete_ue P t u) = hoFail u"
    by (simp_all add: complete_ue_def Let_def ResetHoContext_def f) (simp_all add: upd_cfg_def upd_meas_def)
qed

text \<open>C9: An execution ends in exactly one of two ways, on whether the target link is viable: the UE
  is served by the target and the handover is counted, or it stays with its cell and the failure is
  counted. In both it is idle again, without configurations and with its traffic no longer
  interrupted.\<close>
theorem execution_outcome:
  assumes "i < length (g_ues w)" "phase_of i w = CHO_UE_EXECUTING" "v = CHO_Phase7_ExecutionComplete P i s t w"
  shows "phase_of i v = CHO_IDLE \<and> choConfigs (choConfigState (the_ue i v)) = [] \<and>
    \<not> interruptionActive (hoState (the_ue i v)) \<and>
    (if CHO_IsLinkViable P (the_ue i w) t
     then servingGnb (ue_context (the_ue i v)) = t \<and> servingCellId (measState (the_ue i v)) = t \<and>
       hoCount (the_ue i v) = hoCount (the_ue i w) + 1 \<and> hoFail (the_ue i v) = hoFail (the_ue i w)
     else ue_context (the_ue i v) = ue_context (the_ue i w) \<and> measState (the_ue i v) = measState (the_ue i w) \<and>
       hoCount (the_ue i v) = hoCount (the_ue i w) \<and> hoFail (the_ue i v) = hoFail (the_ue i w) + 1)"
proof (cases "CHO_IsLinkViable P (the_ue i w) t")
  case True
  show ?thesis
    using True Phase7_success_ue [OF assms(1,2) True, of s]
    by (simp add: assms(3) phase_of_def)
      (simp add: upd_proc_def upd_stats_def complete_ue_context complete_ue_fields)
next
  case False
  then obtain r where "the_ue i v = upd_proc (\<lambda>c. c\<lparr>phase := CHO_IDLE, failed := True, failureReason := r\<rparr>)
      (ResetHoContext (upd_cfg (\<lambda>g. g\<lparr>choConfigs := []\<rparr>)
        ((\<lambda>ue. ue\<lparr>hoFail := hoFail ue + 1, hoState := (hoState ue)\<lparr>interruptionActive := False\<rparr>\<rparr>)
          (upd_stats (\<lambda>s. s\<lparr>failedAtExecution := failedAtExecution s + 1\<rparr>) (the_ue i w)))))"
    using Phase7_failure_ue [OF assms(1,2)] assms(3) by blast
  then show ?thesis using False by (simp add: phase_of_def) (simp add: op_defs)
qed

lemma ue_at_cache: "channelCache (ue_at ph x) = [(''A'', 5, metrics 700000 4), (''B'', 5, metrics 900000 x)]"
  by (simp add: ue_at_def upd_proc_def)

lemma execution_outcome_witness:
  "servingGnb (ue_context (the_ue 0 (CHO_Phase7_ExecutionComplete P0 0 ''A'' ''B'' (w_at CHO_UE_EXECUTING 9)))) = ''B''"
proof -
  have "CHO_IsLinkViable P0 (ue_at CHO_UE_EXECUTING 9) ''B''"
    by (simp add: CHO_IsLinkViable_def ue_at_cache g_choNtnConfig_default_def)
  then show ?thesis using execution_outcome [of 0 "w_at CHO_UE_EXECUTING 9" _ P0 "''A''" "''B''"] by simp
qed

text \<open>After a failed execution the traffic stays cut: the interruption ends, but the error rates
  of the link are not set again, so that the 1 of the interruption stays in the error models until
  the next periodic task; and the flag of a pending execution stays set for good.\<close>
theorem failure_leaves_link_down:
  assumes "i < length (g_ues w)" "phase_of i w = CHO_UE_EXECUTING" "\<not> CHO_IsLinkViable P (the_ue i w) t"
    and "ulErrorRate (the_ue i w) = Some 1" "executionPending (choConfigState (the_ue i w))"
  shows "\<not> interruptionActive (hoState (the_ue i (CHO_Phase7_ExecutionComplete P i s t w))) \<and>
    ulErrorRate (the_ue i (CHO_Phase7_ExecutionComplete P i s t w)) = Some 1 \<and>
    executionPending (choConfigState (the_ue i (CHO_Phase7_ExecutionComplete P i s t w)))"
proof -
  obtain r where "the_ue i (CHO_Phase7_ExecutionComplete P i s t w) =
    upd_proc (\<lambda>c. c\<lparr>phase := CHO_IDLE, failed := True, failureReason := r\<rparr>)
      (ResetHoContext (upd_cfg (\<lambda>g. g\<lparr>choConfigs := []\<rparr>)
        ((\<lambda>ue. ue\<lparr>hoFail := hoFail ue + 1, hoState := (hoState ue)\<lparr>interruptionActive := False\<rparr>\<rparr>)
          (upd_stats (\<lambda>s. s\<lparr>failedAtExecution := failedAtExecution s + 1\<rparr>) (the_ue i w)))))"
    using Phase7_failure_ue [OF assms(1-3)] by blast
  then show ?thesis using assms(4,5) by (simp add: op_defs)
qed

lemma failure_leaves_link_down_witness:
  "ulErrorRate (the_ue 0 (CHO_Phase7_ExecutionComplete P0 0 ''A'' ''B'' (upd_ue 0 (\<lambda>ue. upd_cfg
     (\<lambda>g. g\<lparr>executionPending := True\<rparr>) (ue\<lparr>ulErrorRate := Some 1\<rparr>)) (w_at CHO_UE_EXECUTING (-5))))) = Some 1"
proof -
  let ?w = "upd_ue 0 (\<lambda>ue. upd_cfg (\<lambda>g. g\<lparr>executionPending := True\<rparr>) (ue\<lparr>ulErrorRate := Some 1\<rparr>)) (w_at CHO_UE_EXECUTING (-5))"
  have u: "the_ue 0 ?w = upd_cfg (\<lambda>g. g\<lparr>executionPending := True\<rparr>) ((ue_at CHO_UE_EXECUTING (-5))\<lparr>ulErrorRate := Some 1\<rparr>)"
    by (simp add: the_ue_def)
  have "\<not> CHO_IsLinkViable P0 (the_ue 0 ?w) ''B''"
    unfolding u by (simp add: CHO_IsLinkViable_def upd_cfg_def ue_at_cache g_choNtnConfig_default_def)
  moreover have "phase_of 0 ?w = CHO_UE_EXECUTING" by (simp add: phase_of_upd) (simp add: upd_cfg_def ue_at_def upd_proc_def)
  moreover have "ulErrorRate (the_ue 0 ?w) = Some 1" "executionPending (choConfigState (the_ue 0 ?w))"
    unfolding u by (simp_all add: upd_cfg_def)
  ultimately show ?thesis using failure_leaves_link_down [of 0 ?w P0 "''B''"] by simp
qed

subsection \<open>From the files to the runs\<close>

definition points_ok :: "TrajectoryPoint list \<Rightarrow> bool" where
  "points_ok tr \<longleftrightarrow> (\<forall>p \<in> set tr. coord_ok (x_ecef p) \<and> coord_ok (y_ecef p) \<and> coord_ok (z_ecef p))"

lemma trajectory_point_ok: "\<bar>al\<bar> \<le> 5 * 10 ^ 8 \<Longrightarrow> points_ok [trajectory_point t la lo al]"
  using GeographicToECEF_ok [of al la lo] by (auto simp: points_ok_def trajectory_point_def split: prod.split)

lemma trajectory_lines_ok:
  assumes "points_ok tr" "\<And>f v. stod f = Some v \<Longrightarrow> \<bar>v * 1000\<bar> \<le> 5 * 10 ^ 8"
  shows "points_ok (trajectory_lines absTime stod n start tr ls)"
  using assms(1)
proof (induction ls arbitrary: start tr)
  case (Cons l ls)
  have more: "points_ok (tr @ [trajectory_point t la lo (al * 1000)])" if "stod f = Some al" for f t la lo al
    using trajectory_point_ok [OF assms(2) [OF that], of t la lo] Cons.prems by (auto simp: points_ok_def)
  show ?case
    using Cons.prems Cons.IH more
    by (cases "stod (split_fields l ! 5)"; cases "stod (split_fields l ! 6)"; cases "stod (split_fields l ! 7)")
      (simp_all add: Let_def)
qed simp

lemma smap_set_subset: "set (smap_set k v m) \<subseteq> insert (k, v) (set m)"
  by (induction m) (auto split: if_splits)

lemma LoadTrajectory_ok:
  assumes "sats_ok sats" "\<And>f v. stod f = Some v \<Longrightarrow> \<bar>v * 1000\<bar> \<le> 5 * 10 ^ 8"
  shows "sats_ok (snd (LoadTrajectory absTime stod csv n sats))"
proof (cases csv)
  case None
  then show ?thesis using assms(1) by (simp add: LoadTrajectory_def)
next
  case (Some ls)
  let ?tr = "trajectory_lines absTime stod n (-1) [] ls"
  let ?S = "\<lparr>sat_name = n, trajectory = ?tr\<rparr>"
  have "points_ok ?tr" by (rule trajectory_lines_ok [OF _ assms(2)]) (simp_all add: points_ok_def)
  then have "\<forall>(n, s) \<in> insert (n, ?S) (set sats). points_ok (trajectory s)"
    using assms(1) by (auto simp: sats_ok_def points_ok_def)
  then have "sats_ok (smap_set n ?S sats)"
    using smap_set_subset [of n ?S sats] unfolding sats_ok_def points_ok_def by blast
  then show ?thesis using assms(1) Some by (simp add: LoadTrajectory_def Let_def)
qed



end
