(* ===== verification/Cho_Strategies.thy ===== *)
theory Cho_Strategies
  imports Cho_Control
begin

text \<open>
  The other handover strategies: the programs
  \<open>MultiUE-CHO-SNR/SNR-CHO-Multi.cc\<close>, \<open>MultiUE-CHO-distance/distance-CHO-Multi.cc\<close> and
  \<open>MultiUE-CHO-elevation/elevation-CHO-Multi.cc\<close> under \<open>src/scratch\<close>. They are the program of
  the other theories with another decision, so that the data are those of \<open>Cho_Types\<close> (a
  program that lacks a field leaves it alone) and what two of them share is one definition with
  what differs as its argument. A prefix names the program.
\<close>

subsection \<open>What the programs share\<close>

text \<open>The loop over the neighbours: the first entry that is best, \<open>better\<close> being the comparison of
  the program, among those better than \<open>start\<close>.\<close>

definition best_neighbour :: "(real \<Rightarrow> real \<Rightarrow> bool) \<Rightarrow> (MeasResultCell \<Rightarrow> real) \<Rightarrow> real \<Rightarrow>
    MeasResultCell list \<Rightarrow> MeasResultCell option" where
  "best_neighbour better value start ms =
     fst (foldl (\<lambda>(best, bestVal) m. if better (value m) bestVal then (Some m, value m) else (best, bestVal))
       (None, start) ms)"

definition other_cells :: "cell_id \<Rightarrow> MeasResultCell list \<Rightarrow> MeasResultCell list" where
  "other_cells serving ms = filter (\<lambda>m. mr_cellId m \<noteq> serving) ms"

text \<open>\<open>lastMeasurements\<close> gets the serving cell, then every neighbour.\<close>

definition remember :: "MeasResultCell list \<Rightarrow> UeMeasurementState \<Rightarrow> UeMeasurementState" where
  "remember ms s = s\<lparr>lastMeasurements :=
     foldl (\<lambda>l m. smap_set (mr_cellId m) m l) (lastMeasurements s) ms\<rparr>"

definition context_of :: "MeasResultCell \<Rightarrow> MeasResultCell \<Rightarrow> real \<Rightarrow> string \<Rightarrow> HoContext" where
  "context_of serving best simTime trigger =
     \<lparr>preServingSnr = sinr serving, preNeighborSnr = sinr best, decisionTime = simTime, valid = True,
      sourceCellId = mr_cellId serving, hc_targetCellId = mr_cellId best, triggerType = trigger\<rparr>"

text \<open>The decision on the best neighbour: the prediction to evaluate later, and the context.\<close>

definition decide :: "params \<Rightarrow> nat \<Rightarrow> real \<Rightarrow> MeasResultCell \<Rightarrow> MeasResultCell \<Rightarrow> string option \<Rightarrow>
    cho_world \<Rightarrow> cho_world" where
  "decide P i simTime serving best trigger w =
     (let w1 = SchedulePendingPredictionEval i (mr_cellId serving) (mr_cellId best) simTime
                 (simTime + g_predictionEvalDelay P) w
      in upd_ue i (\<lambda>ue. case trigger of
           Some tr \<Rightarrow> ue\<lparr>hoContext := context_of serving best simTime tr\<rparr>
         | None \<Rightarrow> ResetHoContext ue) w1)"

text \<open>\<open>UE_EvaluateAndReport\<close> of the three programs.\<close>

definition evaluate_and_report :: "(MeasResultCell list \<Rightarrow> MeasResultCell option) \<Rightarrow>
    (MeasResultCell \<Rightarrow> MeasResultCell \<Rightarrow> bool) \<Rightarrow> params \<Rightarrow> nat \<Rightarrow> real \<Rightarrow> cho_world \<Rightarrow>
    MeasurementReport option \<times> cho_world" where
  "evaluate_and_report pick prepare P i simTime w =
     (let ue = the_ue i w; sid = servingCellId (measState ue) in
      if sid = [] then (None, upd_ue i ResetHoContext w)
      else let measurements = UE_PerformMeasurements P (g_satellites w) ue simTime in
      case find (\<lambda>m. mr_cellId m = sid) measurements of
        None \<Rightarrow> (Some (rlf_report simTime sid), upd_ue i ResetHoContext w)
      | Some serving \<Rightarrow>
          (let ntnTrigger = UE_EvaluateNtnTriggers i serving;
               best = pick (other_cells sid measurements);
               w1 = upd_ue i (upd_meas (remember (serving # other_cells sid measurements))) w;
               a3 = (case best of None \<Rightarrow> False | Some b \<Rightarrow> prepare serving b);
               w2 = (case best of None \<Rightarrow> w1
                     | Some b \<Rightarrow> decide P i simTime serving b (if a3 then Some ''A3'' else None) w1);
               candidateCell = (case best of None \<Rightarrow> [] | Some b \<Rightarrow> mr_cellId b);
               (report, ms') = trigger_step ntnTrigger a3 candidateCell simTime
                                 (mc_timeToTrigger (measConfig (the_ue i w2))) (measState (the_ue i w2));
               w3 = upd_ue i (upd_meas (\<lambda>_. ms')) w2;
               w4 = (if \<not> (ntnTrigger \<or> a3) then upd_ue i ResetHoContext w3 else w3)
           in (if report then Some (cho_report simTime ntnTrigger serving best) else None, w4)))"

text \<open>
  \<open>CHO_CheckExecutionCondition\<close>: \<open>condition\<close> is the program's, \<open>tally\<close> counts for the UE
  and globally in the SNR program, only globally in the others, and \<open>execute\<close> is
  \<open>CHO_Phase6_UeExecutes\<close>. Unlike in the other theories, an expiry leaves the context.
\<close>

definition check_execution :: "((ChoNtnStatistics \<Rightarrow> ChoNtnStatistics) \<Rightarrow> cho_world \<Rightarrow> cho_world) \<Rightarrow>
    (cell_id \<Rightarrow> cell_id \<Rightarrow> cho_world \<Rightarrow> cho_world) \<Rightarrow>
    (UeSatMetrics \<Rightarrow> UeSatMetrics \<Rightarrow> bool) \<Rightarrow> nat \<Rightarrow> real \<Rightarrow> cho_world \<Rightarrow> cho_world" where
  "check_execution tally execute condition i currentTime w =
     (let ue = the_ue i w; c = choProcState ue in
      if phase c \<noteq> CHO_UE_EVALUATING then w
      else if currentTime > configExpiryTime c
      then let w1 = tally (\<lambda>s. s\<lparr>configsExpired := configsExpired s + 1\<rparr>) w;
               w2 = set_phase i CHO_IDLE w1
           in upd_ue i (upd_cfg (\<lambda>g. g\<lparr>choConfigs := []\<rparr>)) w2
      else case (map_of (channelCache ue) (sourceCell c), map_of (channelCache ue) (targetCell c)) of
        (Some (t1, s), Some (t2, m)) \<Rightarrow>
          (if condition s m
           then if \<not> executionTttActive c
                then upd_ue i (upd_proc (\<lambda>c. c\<lparr>executionTttActive := True,
                       executionTttStartTime := currentTime\<rparr>)) w
                else if currentTime - executionTttStartTime c \<ge> executionTimeToTrigger c
                then execute (sourceCell c) (targetCell c)
                       (upd_ue i (upd_proc (\<lambda>c. c\<lparr>executionTttActive := False\<rparr>)) w)
                else w
           else upd_ue i (upd_proc (\<lambda>c. c\<lparr>executionTttActive := False,
                  executionTttStartTime := -1\<rparr>)) w)
      | _ \<Rightarrow> w)"

text \<open>\<open>CHO_Phase6_UeExecutes\<close> of the programs that count globally only.\<close>

definition execute_counting_globally :: "params \<Rightarrow> nat \<Rightarrow> cell_id \<Rightarrow> cell_id \<Rightarrow> cho_world \<Rightarrow> cho_world" where
  "execute_counting_globally P i src tgt w =
     (if phase_of i w \<noteq> CHO_UE_EVALUATING then w
      else let t = now_s w;
               w1 = upd_ue i (upd_cfg (\<lambda>g. g\<lparr>executionPending := True, executionTargetCell := tgt,
                      executionTriggerTime := t\<rparr>)) w;
               w2 = upd_ue i (\<lambda>ue. upd_proc (\<lambda>c. c\<lparr>phase := CHO_UE_EXECUTING, phaseStartTime := t,
                      executionStartTime := t,
                      servingSnrAtExecution := snr_or ue src (servingSnrAtExecution c),
                      targetSnrAtExecution := snr_or ue tgt (targetSnrAtExecution c)\<rparr>) ue) w1;
               w3 = upd_gstats (\<lambda>s. s\<lparr>executionsTriggered := executionsTriggered s + 1\<rparr>) w2;
               total = execution_time (the_ue i w3) src tgt;
               c = choProcState (the_ue i w3);
               w4 = cho_log [Num t, Whole (int i), Str ''EXECUTION_TRIGGERED'', Str src, Str tgt,
                      Num (servingSnrAtExecution c), Num (targetSnrAtExecution c), Num (total * 1000),
                      Str [], Str ''AUTONOMOUS''] w3;
               w5 = xn_log [Num t, Whole (int i), Str ''CHO_AUTONOMOUS_EXECUTION'', Str ''UE'', Str tgt,
                      Str ''Uu'', Str ''UE_autonomous_trigger'',
                      Txt [Str ''exec_delay='', Num (total * 1000), Str ''ms'']] w4;
               w6 = upd_ue i (\<lambda>ue. ue\<lparr>hoState := (hoState ue)\<lparr>interruptionActive := True\<rparr>\<rparr>) w5;
               w7 = upd_ue i (ApplyUeErrorModelImmediately P) w6
           in schedule_s total (CHO_Phase7 i src tgt) w7)"

text \<open>\<open>CheckHandover\<close>, with what the program does for an idle UE that reports.\<close>

definition check_handover :: "(nat \<Rightarrow> real \<Rightarrow> cho_world \<Rightarrow> cho_world) \<Rightarrow>
    (nat \<Rightarrow> real \<Rightarrow> cho_world \<Rightarrow> MeasurementReport option \<times> cho_world) \<Rightarrow>
    (nat \<Rightarrow> MeasurementReport option \<Rightarrow> cho_world \<Rightarrow> cho_world) \<Rightarrow> real \<Rightarrow> nat \<Rightarrow> cho_world \<Rightarrow> cho_world" where
  "check_handover check evaluate react simTime i w =
     (let ue = the_ue i w in
      if phase (choProcState ue) \<noteq> CHO_IDLE
      then (if phase (choProcState ue) = CHO_UE_EVALUATING then check i simTime w else w)
      else if currentPhase (hoState ue) \<noteq> PHASE_IDLE then w
      else let activeSat = servingGnb (ue_context ue) in
      if activeSat = [] then w
      else let w1 = (if servingCellId (measState ue) = [] \<or> servingCellId (measState ue) \<noteq> activeSat
                     then upd_ue i (upd_meas (\<lambda>ms. ms\<lparr>servingCellId := activeSat,
                            ms_lastMeasurementTime := simTime, triggerActive := False,
                            triggerStartTime := -1, candidateTargetCell := []\<rparr>)) w
                     else w) in
      if simTime - ms_lastMeasurementTime (measState (the_ue i w1)) <
           measurementPeriod (measConfig (the_ue i w1)) then w1
      else let w2 = upd_ue i (upd_meas (\<lambda>ms. ms\<lparr>ms_lastMeasurementTime := simTime\<rparr>)) w1;
               (report, w3) = evaluate i simTime w2
           in react i report w3)"

text \<open>After a radio link failure three programs drop the serving cell, so that the next periodic task
  selects a satellite anew; a report without a neighbour is ignored.\<close>

definition forget_serving :: "UeInfo \<Rightarrow> UeInfo" where
  "forget_serving ue = upd_meas (\<lambda>ms. ms\<lparr>servingCellId := [], triggerActive := False\<rparr>)
     (ue\<lparr>ue_context := (ue_context ue)\<lparr>servingGnb := []\<rparr>\<rparr>)"

definition react_reselecting :: "(nat \<Rightarrow> MeasurementReport option \<Rightarrow> cho_world \<Rightarrow> cho_world) \<Rightarrow>
    nat \<Rightarrow> MeasurementReport option \<Rightarrow> cho_world \<Rightarrow> cho_world" where
  "react_reselecting trigger i report w =
     (case report of None \<Rightarrow> w
      | Some r \<Rightarrow> if mr_eventType r = ''RLF'' then upd_ue i forget_serving w
                  else if neighborCells r \<noteq> [] then trigger i (Some r) w else w)"

text \<open>\<open>CHO_TriggerProcedure\<close> of the programs that count globally only.\<close>

definition trigger_counting_globally :: "nat \<Rightarrow> MeasurementReport option \<Rightarrow> cho_world \<Rightarrow> cho_world" where
  "trigger_counting_globally i report w =
     (case report of None \<Rightarrow> w | Some r \<Rightarrow>
      if phase_of i w \<noteq> CHO_IDLE then w
      else let t = now_s w; src = mr_cellId (servingCell r); tgt = report_target r;
               delay = GetUuDelayForUe (the_ue i w) src + DELAY_RRC_PROC;
               w1 = upd_ue i (upd_proc (\<lambda>c. c\<lparr>phase := CHO_MEAS_REPORT_UPLINK, sourceCell := src,
                      targetCell := tgt, procedureStartTime := t, phaseStartTime := t,
                      failed := False, failureReason := [], servingSnrAtReport := sinr (servingCell r),
                      targetSnrAtReport := report_target_snr r, measReportUplinkDelay := delay,
                      reconfigDownlinkDelay := delay\<rparr>)) w;
               w2 = upd_gstats (\<lambda>s. s\<lparr>totalReports := totalReports s + 1, st_lastReportTime := t\<rparr>) w1;
               w3 = cho_log [Num t, Whole (int i), Str ''CHO_TRIGGERED'', Str src, Str tgt,
                      Num (sinr (servingCell r)), Num (report_target_snr r), Num (delay * 1000),
                      Str [], Str ''START''] w2;
               w4 = xn_log [Num t, Whole (int i), Str ''MEAS_REPORT_UPLINK'', Str ''UE'', Str src,
                      Str ''Uu'', Txt [Str ''MeasReport_delay='', Num (delay * 1000), Str ''ms'']] w3
           in schedule_s delay (CHO_Phase1 i src tgt) w4)"

text \<open>The loop of \<open>SelectBestSatellite\<close>, over a value of the link.\<close>

definition best_link :: "(string \<Rightarrow> UeSatMetrics \<Rightarrow> bool) \<Rightarrow> (real \<Rightarrow> real \<Rightarrow> bool) \<Rightarrow> (UeSatMetrics \<Rightarrow> real) \<Rightarrow>
    string \<Rightarrow> real \<Rightarrow> (real \<times> UeSatMetrics) smap \<Rightarrow> string \<times> real" where
  "best_link skip better value start startVal cache =
     foldl (\<lambda>(best, bestVal) (n, t, m).
         if skip n m then (best, bestVal)
         else if better (value m) bestVal then (n, value m) else (best, bestVal))
       (start, startVal) cache"

definition link_or :: "(UeSatMetrics \<Rightarrow> real) \<Rightarrow> UeInfo \<Rightarrow> cell_id \<Rightarrow> real \<Rightarrow> real" where
  "link_or value ue c dflt = (case map_of (channelCache ue) c of None \<Rightarrow> dflt | Some (t, m) \<Rightarrow> value m)"

definition invisible :: "cho_world \<Rightarrow> string \<Rightarrow> UeSatMetrics \<Rightarrow> bool" where
  "invisible w n m \<longleftrightarrow> met_elevation m < 0 \<or> trajectory_over (g_satellites w) (now_s w) n"

subsection \<open>By SNR\<close>

definition SNR_PreparationCondition :: "MeasResultCell \<Rightarrow> MeasResultCell \<Rightarrow> real \<Rightarrow> bool" where
  "SNR_PreparationCondition serving neighbor reportingOffset \<longleftrightarrow> sinr neighbor > sinr serving - reportingOffset"

definition SNR_EvaluateAndReport :: "params \<Rightarrow> nat \<Rightarrow> real \<Rightarrow> cho_world \<Rightarrow> MeasurementReport option \<times> cho_world" where
  "SNR_EvaluateAndReport P =
     evaluate_and_report (best_neighbour (>) sinr (-999))
       (\<lambda>serving best. SNR_PreparationCondition serving best (g_reportingOffset P)) P"

definition SNR_condition :: "params \<Rightarrow> UeSatMetrics \<Rightarrow> UeSatMetrics \<Rightarrow> bool" where
  "SNR_condition P s m \<longleftrightarrow> snrDb m - snrDb s \<ge> g_choExecutionOffset P \<and> snrDb s > g_minSNR P"

definition SNR_CheckExecutionCondition :: "params \<Rightarrow> nat \<Rightarrow> real \<Rightarrow> cho_world \<Rightarrow> cho_world" where
  "SNR_CheckExecutionCondition P i =
     check_execution (both_stats i) (CHO_Phase6_UeExecutes P i) (SNR_condition P) i"

definition SNR_SelectBestSatellite :: "params \<Rightarrow> nat \<Rightarrow> string \<Rightarrow> cho_world \<Rightarrow> string" where
  "SNR_SelectBestSatellite P i currentSat w =
     (let ue = the_ue i w; currentSNR = link_or snrDb ue currentSat (-999);
          (bestSat, bestSNR) = best_link (invisible w) (>) snrDb currentSat (-999) (channelCache ue)
      in if bestSat \<noteq> currentSat \<and> bestSNR < currentSNR + g_choExecutionOffset P then currentSat else bestSat)"

definition SNR_CheckHandover :: "params \<Rightarrow> real \<Rightarrow> nat \<Rightarrow> cho_world \<Rightarrow> cho_world" where
  "SNR_CheckHandover P =
     check_handover (SNR_CheckExecutionCondition P) (SNR_EvaluateAndReport P) CHO_TriggerProcedure"

subsection \<open>By distance\<close>

definition Distance_PreparationCondition :: "MeasResultCell \<Rightarrow> MeasResultCell \<Rightarrow> real \<Rightarrow> bool" where
  "Distance_PreparationCondition serving neighbor reportingOffset \<longleftrightarrow>
     mr_distance neighbor / 1000 < mr_distance serving / 1000 + reportingOffset"

definition Distance_EvaluateAndReport :: "params \<Rightarrow> nat \<Rightarrow> real \<Rightarrow> cho_world \<Rightarrow> MeasurementReport option \<times> cho_world" where
  "Distance_EvaluateAndReport P =
     evaluate_and_report (best_neighbour (<) mr_distance (10 ^ 18))
       (\<lambda>serving best. Distance_PreparationCondition serving best (g_reportingOffset P)) P"

definition Distance_condition :: "params \<Rightarrow> UeSatMetrics \<Rightarrow> UeSatMetrics \<Rightarrow> bool" where
  "Distance_condition P s m \<longleftrightarrow>
     met_distance s / 1000 - met_distance m / 1000 \<ge> g_choExecutionOffset P \<and>
     met_distance s / 1000 < g_maxDistance P"

definition Distance_CheckExecutionCondition :: "params \<Rightarrow> nat \<Rightarrow> real \<Rightarrow> cho_world \<Rightarrow> cho_world" where
  "Distance_CheckExecutionCondition P i =
     check_execution upd_gstats (execute_counting_globally P i) (Distance_condition P) i"

definition Distance_SelectBestSatellite :: "params \<Rightarrow> nat \<Rightarrow> string \<Rightarrow> cho_world \<Rightarrow> string" where
  "Distance_SelectBestSatellite P i currentSat w =
     (let ue = the_ue i w; currentDist = link_or met_distance ue currentSat (10 ^ 18);
          skip = (\<lambda>n m. invisible w n m \<or> met_distance m / 1000 > g_maxDistance P \<or> snrDb m < -6);
          (bestSat, bestDist) = best_link skip (<) met_distance currentSat (10 ^ 18) (channelCache ue)
      in if bestSat \<noteq> currentSat \<and> currentDist / 1000 - bestDist / 1000 < g_choExecutionOffset P then currentSat
         else bestSat)"

definition Distance_CheckHandover :: "params \<Rightarrow> real \<Rightarrow> nat \<Rightarrow> cho_world \<Rightarrow> cho_world" where
  "Distance_CheckHandover P =
     check_handover (Distance_CheckExecutionCondition P) (Distance_EvaluateAndReport P)
       (react_reselecting trigger_counting_globally)"

subsection \<open>By elevation\<close>

definition Elevation_PreparationCondition :: "MeasResultCell \<Rightarrow> MeasResultCell \<Rightarrow> real \<Rightarrow> bool" where
  "Elevation_PreparationCondition serving neighbor reportingOffset \<longleftrightarrow>
     mr_elevation neighbor > mr_elevation serving - reportingOffset"

definition Elevation_EvaluateAndReport :: "params \<Rightarrow> nat \<Rightarrow> real \<Rightarrow> cho_world \<Rightarrow> MeasurementReport option \<times> cho_world" where
  "Elevation_EvaluateAndReport P =
     evaluate_and_report (best_neighbour (>) mr_elevation (-180))
       (\<lambda>serving best. Elevation_PreparationCondition serving best (g_reportingOffset P)) P"

definition Elevation_condition :: "params \<Rightarrow> UeSatMetrics \<Rightarrow> UeSatMetrics \<Rightarrow> bool" where
  "Elevation_condition P s m \<longleftrightarrow>
     met_elevation m - met_elevation s \<ge> g_choExecutionOffset P \<and> met_elevation s \<ge> 0"

definition Elevation_CheckExecutionCondition :: "params \<Rightarrow> nat \<Rightarrow> real \<Rightarrow> cho_world \<Rightarrow> cho_world" where
  "Elevation_CheckExecutionCondition P i =
     check_execution upd_gstats (execute_counting_globally P i) (Elevation_condition P) i"

definition Elevation_SelectBestSatellite :: "params \<Rightarrow> nat \<Rightarrow> string \<Rightarrow> cho_world \<Rightarrow> string" where
  "Elevation_SelectBestSatellite P i currentSat w =
     (let ue = the_ue i w; currentElev = link_or met_elevation ue currentSat (-180);
          skip = (\<lambda>n m. invisible w n m \<or> snrDb m < -6);
          (bestSat, bestElev) = best_link skip (>) met_elevation currentSat (-180) (channelCache ue)
      in if bestSat \<noteq> currentSat \<and> bestElev - currentElev < g_choExecutionOffset P then currentSat else bestSat)"

definition Elevation_CheckHandover :: "params \<Rightarrow> real \<Rightarrow> nat \<Rightarrow> cho_world \<Rightarrow> cho_world" where
  "Elevation_CheckHandover P =
     check_handover (Elevation_CheckExecutionCondition P) (Elevation_EvaluateAndReport P)
       (react_reselecting trigger_counting_globally)"

end
