(* ===== verification/Cho_Topsis.thy ===== *)
theory Cho_Topsis
  imports Cho_Strategies
begin

text \<open>
  The strategy of \<open>src/scratch/MultiUE-CHO-TOPSIS/topsis-CHO-Multi.cc\<close>: the neighbour to report is
  chosen by SD-TOPSIS, a ranking by closeness to the ideal over three criteria (SINR and elevation,
  the larger the better, and distance, the smaller the better) that are weighted by their standard
  deviations. A matrix is the list of its rows.
\<close>

subsection \<open>The algorithm\<close>

definition decision_matrix :: "MeasResultCell list \<Rightarrow> real list list" where
  "decision_matrix candidates = map (\<lambda>c. [sinr c, mr_elevation c, mr_distance c]) candidates"

definition sumSquares :: "real list list \<Rightarrow> nat \<Rightarrow> real" where
  "sumSquares M j = (\<Sum>r \<leftarrow> M. r ! j * r ! j)"

definition normMatrix :: "real list list \<Rightarrow> real list list" where
  "normMatrix M = map (\<lambda>r. map (\<lambda>j. if sumSquares M j > 0 then r ! j / sqrt (sumSquares M j) else r ! j)
     [0..<3]) M"

definition topsis_mean :: "real list list \<Rightarrow> nat \<Rightarrow> real" where
  "topsis_mean M j = (\<Sum>r \<leftarrow> M. r ! j) / of_nat (length M)"

definition stdDev :: "real list list \<Rightarrow> nat \<Rightarrow> real" where
  "stdDev M j = sqrt ((\<Sum>r \<leftarrow> M. (r ! j - topsis_mean M j) ^ 2) / of_nat (length M))"

definition topsis_weights :: "real list list \<Rightarrow> real list" where
  "topsis_weights M =
     (let stdDevs = map (stdDev M) [0..<3]; sumStdDev = sum_list stdDevs
      in if sumStdDev > 1 / 10 ^ 6 then map (\<lambda>d. d / sumStdDev) stdDevs else replicate 3 (1 / 3))"

definition weightedMatrix :: "real list list \<Rightarrow> real list list" where
  "weightedMatrix M = map (\<lambda>r. map (\<lambda>j. r ! j * topsis_weights M ! j) [0..<3]) M"

definition topsis_column :: "real list list \<Rightarrow> nat \<Rightarrow> real list" where
  "topsis_column M j = map (\<lambda>r. r ! j) M"

text \<open>The positive and the negative ideal solution.\<close>

definition topsis_pis :: "real list list \<Rightarrow> real list" where
  "topsis_pis M = [foldl max (- (10 ^ 9)) (topsis_column M 0), foldl max (- (10 ^ 9)) (topsis_column M 1),
     foldl min (10 ^ 9) (topsis_column M 2)]"

definition topsis_nis :: "real list list \<Rightarrow> real list" where
  "topsis_nis M = [foldl min (10 ^ 9) (topsis_column M 0), foldl min (10 ^ 9) (topsis_column M 1),
     foldl max (- (10 ^ 9)) (topsis_column M 2)]"

definition topsis_dist :: "real list \<Rightarrow> real list \<Rightarrow> real" where
  "topsis_dist r p = sqrt (\<Sum>j \<leftarrow> [0..<3]. (r ! j - p ! j) ^ 2)"

definition topsis_score :: "real list list \<Rightarrow> real list \<Rightarrow> real" where
  "topsis_score M r =
     (let distPIS = topsis_dist r (topsis_pis M); distNIS = topsis_dist r (topsis_nis M)
      in if distPIS + distNIS > 0 then distNIS / (distPIS + distNIS) else 0)"

definition topsis_scores :: "MeasResultCell list \<Rightarrow> real list" where
  "topsis_scores candidates =
     (let M = weightedMatrix (normMatrix (decision_matrix candidates)) in map (topsis_score M) M)"

text \<open>The index of the first score that is highest, over the start value -1.\<close>

definition bestIndex :: "real list \<Rightarrow> nat" where
  "bestIndex scores =
     fst (foldl (\<lambda>(best, highest) (i, s). if s > highest then (i, s) else (best, highest)) (0, -1)
       (List.enumerate 0 scores))"

definition FindBestTargetWithSD_TOPSIS :: "MeasResultCell list \<Rightarrow> MeasResultCell option" where
  "FindBestTargetWithSD_TOPSIS candidates =
     (if candidates = [] then None
      else if length candidates = 1 then Some (candidates ! 0)
      else Some (candidates ! bestIndex (topsis_scores candidates)))"

subsection \<open>The program\<close>

text \<open>This program has no handover context and no predictions.\<close>

definition Topsis_EvaluateAndReport :: "params \<Rightarrow> nat \<Rightarrow> real \<Rightarrow> cho_world \<Rightarrow> MeasurementReport option \<times> cho_world" where
  "Topsis_EvaluateAndReport P i simTime w =
     (let ue = the_ue i w; sid = servingCellId (measState ue) in
      if sid = [] then (None, w)
      else let measurements = UE_PerformMeasurements P (g_satellites w) ue simTime in
      case find (\<lambda>m. mr_cellId m = sid) measurements of
        None \<Rightarrow> (Some (rlf_report simTime sid), w)
      | Some serving \<Rightarrow>
          (let ntnTrigger = UE_EvaluateNtnTriggers i serving;
               validCandidates = other_cells sid measurements;
               w1 = upd_ue i (upd_meas (remember (serving # validCandidates))) w;
               bestNeighbor = FindBestTargetWithSD_TOPSIS validCandidates;
               a3 = (case bestNeighbor of None \<Rightarrow> False
                     | Some b \<Rightarrow> UE_EvaluateCHOPreparationCondition serving b (g_reportingOffset P));
               candidateCell = (case bestNeighbor of None \<Rightarrow> [] | Some b \<Rightarrow> mr_cellId b);
               (report, ms') = trigger_step ntnTrigger a3 candidateCell simTime
                                 (mc_timeToTrigger (measConfig (the_ue i w1))) (measState (the_ue i w1))
           in (if report then Some (cho_report simTime ntnTrigger serving bestNeighbor) else None,
               upd_ue i (upd_meas (\<lambda>_. ms')) w1)))"

definition Topsis_CheckExecutionCondition :: "params \<Rightarrow> nat \<Rightarrow> real \<Rightarrow> cho_world \<Rightarrow> cho_world" where
  "Topsis_CheckExecutionCondition P i =
     check_execution (both_stats i) (CHO_Phase6_UeExecutes P i) (SNR_condition P) i"

definition Topsis_SelectBestSatellite :: "params \<Rightarrow> nat \<Rightarrow> string \<Rightarrow> cho_world \<Rightarrow> string" where
  "Topsis_SelectBestSatellite P i currentSat w =
     (let ue = the_ue i w; currentSNR = link_or snrDb ue currentSat (-999);
          (bestSat, bestSNR) = best_link (invisible w) (>) snrDb currentSat (-999) (channelCache ue)
      in if bestSat \<noteq> currentSat \<and> bestSNR < currentSNR then currentSat else bestSat)"

definition Topsis_CheckHandover :: "params \<Rightarrow> real \<Rightarrow> nat \<Rightarrow> cho_world \<Rightarrow> cho_world" where
  "Topsis_CheckHandover P =
     check_handover (Topsis_CheckExecutionCondition P) (Topsis_EvaluateAndReport P) CHO_TriggerProcedure"

subsection \<open>Weights and scores\<close>

lemma stdDev_nonneg: "0 \<le> stdDev M j"
  by (auto simp: stdDev_def intro!: divide_nonneg_nonneg sum_list_nonneg)

lemma topsis_weights_length [simp]: "length (topsis_weights M) = 3"
  by (simp add: topsis_weights_def Let_def)

lemma topsis_weights_nonneg: "j < 3 \<Longrightarrow> 0 \<le> topsis_weights M ! j"
  using stdDev_nonneg [of M]
  by (auto simp: topsis_weights_def Let_def nth_append less_Suc_eq numeral_3_eq_3 intro!: divide_nonneg_nonneg)

lemma topsis_weights_sum: "sum_list (topsis_weights M) = 1"
  by (simp add: topsis_weights_def Let_def numeral_3_eq_3 add_divide_distrib [symmetric])

lemma topsis_dist_nonneg [simp]: "0 \<le> topsis_dist r p"
  by (auto simp: topsis_dist_def intro!: sum_list_nonneg)

lemma topsis_score_bounds: "0 \<le> topsis_score M r" "topsis_score M r \<le> 1"
proof -
  have d: "0 \<le> topsis_dist r (topsis_pis M)" "0 \<le> topsis_dist r (topsis_nis M)" by simp_all
  show "0 \<le> topsis_score M r" "topsis_score M r \<le> 1"
    unfolding topsis_score_def Let_def using d by (auto simp: divide_le_eq_1 simp del: topsis_dist_nonneg)
qed

text \<open>Closer to the positive and farther from the negative ideal is a score at least as high.\<close>

lemma ratio_mono:
  fixes p q n m :: real
  assumes "0 \<le> p" "p \<le> q" "0 \<le> m" "m \<le> n"
  shows "(if q + m > 0 then m / (q + m) else 0) \<le> (if p + n > 0 then n / (p + n) else 0)"
proof (cases "q + m > 0 \<and> p + n > 0")
  case True
  have "m * p \<le> n * q" using assms by (intro mult_mono) auto
  then have "m * (p + n) \<le> n * (q + m)" by (simp add: algebra_simps)
  then show ?thesis using True by (simp add: frac_le_eq divide_le_eq pos_divide_le_eq mult.commute field_simps)
next
  case False
  then have "m = 0 \<or> \<not> q + m > 0" using assms by linarith
  then show ?thesis using assms by auto
qed

lemma foldl_max_ge: "a \<le> foldl max a xs \<and> (\<forall>x \<in> set xs. x \<le> foldl max a xs)" for a :: real
proof (induction xs arbitrary: a)
  case (Cons y ys)
  show ?case using Cons.IH [of "max a y"] unfolding foldl_Cons list.set by (auto simp del: Cons.IH)
qed simp

lemma foldl_min_le: "foldl min a xs \<le> a \<and> (\<forall>x \<in> set xs. foldl min a xs \<le> x)" for a :: real
proof (induction xs arbitrary: a)
  case (Cons y ys)
  show ?case using Cons.IH [of "min a y"] unfolding foldl_Cons list.set by (auto simp del: Cons.IH)
qed simp

lemma nearer: "s \<le> r \<Longrightarrow> r \<le> p \<Longrightarrow> (r - p) ^ 2 \<le> (s - p) ^ 2"
    "p \<le> r \<Longrightarrow> r \<le> s \<Longrightarrow> (r - p) ^ 2 \<le> (s - p) ^ 2" for p r s :: real
  by (simp_all flip: abs_le_square_iff)

text \<open>A row that is at least as good in every column is at least as close to the ideal and at least as
  far from its opposite.\<close>

definition row_dominates :: "real list \<Rightarrow> real list \<Rightarrow> bool" where
  "row_dominates r s \<longleftrightarrow> r ! 0 \<ge> s ! 0 \<and> r ! 1 \<ge> s ! 1 \<and> r ! 2 \<le> s ! 2"

lemma topsis_dist_mono:
  assumes "\<And>j. j < 3 \<Longrightarrow> (r ! j - p ! j) ^ 2 \<le> (s ! j - p ! j) ^ 2"
  shows "topsis_dist r p \<le> topsis_dist s p"
  unfolding topsis_dist_def by (intro real_sqrt_le_mono sum_list_mono) (use assms in auto)

lemma topsis_score_mono:
  assumes "r \<in> set M" "s \<in> set M" "row_dominates r s"
  shows "topsis_score M s \<le> topsis_score M r"
proof -
  have col: "r ! j \<in> set (topsis_column M j)" "s ! j \<in> set (topsis_column M j)" for j
    using assms(1,2) by (auto simp: topsis_column_def)
  have up: "x \<le> foldl max a (topsis_column M j)" and lo: "foldl min a (topsis_column M j) \<le> x"
    if "x \<in> set (topsis_column M j)" for x a j
    using foldl_max_ge foldl_min_le that by blast+
  have "topsis_dist r (topsis_pis M) \<le> topsis_dist s (topsis_pis M)"
  proof (rule topsis_dist_mono)
    fix j :: nat
    assume "j < 3"
    then consider "j = 0" | "j = 1" | "j = 2" by linarith
    then show "(r ! j - topsis_pis M ! j) ^ 2 \<le> (s ! j - topsis_pis M ! j) ^ 2"
      using assms(3) up [OF col(1)] lo [OF col(1)]
      by cases (simp_all add: topsis_pis_def row_dominates_def nearer)
  qed
  moreover have "topsis_dist s (topsis_nis M) \<le> topsis_dist r (topsis_nis M)"
  proof (rule topsis_dist_mono)
    fix j :: nat
    assume "j < 3"
    then consider "j = 0" | "j = 1" | "j = 2" by linarith
    then show "(s ! j - topsis_nis M ! j) ^ 2 \<le> (r ! j - topsis_nis M ! j) ^ 2"
      using assms(3) up [OF col(2)] lo [OF col(2)]
      by cases (simp_all add: topsis_nis_def row_dominates_def nearer)
  qed
  ultimately show ?thesis unfolding topsis_score_def Let_def by (intro ratio_mono) simp_all
qed

text \<open>The scaling by column norms and weights keeps domination.\<close>

lemma weighted_dominates:
  assumes "row_dominates r s"
  shows "row_dominates
    (map (\<lambda>j. map (\<lambda>j. if sumSquares M j > 0 then r ! j / sqrt (sumSquares M j) else r ! j) [0..<3] ! j * topsis_weights N ! j) [0..<3])
    (map (\<lambda>j. map (\<lambda>j. if sumSquares M j > 0 then s ! j / sqrt (sumSquares M j) else s ! j) [0..<3] ! j * topsis_weights N ! j) [0..<3])"
  using assms topsis_weights_nonneg [of 0 N] topsis_weights_nonneg [of 1 N] topsis_weights_nonneg [of 2 N]
  by (auto simp: row_dominates_def numeral_3_eq_3 numeral_2_eq_2 nth_append intro!: mult_right_mono divide_right_mono)

subsection \<open>The choice\<close>

lemma bestIndex_fold:
  "case foldl (\<lambda>(best, highest) (i, s). if s > highest then (i, s) else (best, highest)) (0, -1)
      (List.enumerate 0 xs) of (b, h) \<Rightarrow>
    (\<forall>x \<in> set xs. x \<le> h) \<and> ((b, h) = (0, -1) \<or> b < length xs \<and> xs ! b = h \<and> (\<forall>i < b. xs ! i < h))" for xs :: "real list"
proof (induction xs rule: rev_induct)
  case (snoc x xs)
  obtain b h where f: "foldl (\<lambda>(best, highest) (i, s). if s > highest then (i, s) else (best, highest)) (0, -1)
      (List.enumerate 0 xs) = (b, h)" by fastforce
  then show ?case
    using snoc by (auto simp: enumerate_append_eq nth_append) (metis nth_mem order_le_less_trans)+
qed simp

lemma bestIndex_best:
  assumes "xs \<noteq> []" "\<forall>x \<in> set xs. 0 \<le> x"
  shows "bestIndex xs < length xs \<and> (\<forall>x \<in> set xs. x \<le> xs ! bestIndex xs) \<and> (\<forall>i < bestIndex xs. xs ! i < xs ! bestIndex xs)"
proof -
  obtain b h where f: "foldl (\<lambda>(best, highest) (i, s). if s > highest then (i, s) else (best, highest)) (0, -1)
      (List.enumerate 0 xs) = (b, h)" by fastforce
  have "hd xs \<in> set xs" using assms(1) by simp
  then have "0 \<le> h" using bestIndex_fold [of xs] assms(2) by (fastforce simp: f)
  then show ?thesis using bestIndex_fold [of xs] by (auto simp: f bestIndex_def)
qed

end
