(* ===== verification/Cho_Serving_Time.thy ===== *)
theory Cho_Serving_Time
  imports Cho_Strategies
begin

text \<open>
  The strategy of \<open>src/scratch/MultiUE-CHO-serving-time/serving-time-CHO-Multi.cc\<close>: hand over to the
  satellite that stays in view longest. How long that is follows from the trajectory, in which a gap
  of more than 90 s between two samples separates two passes. \<open>g_minServingTime\<close> of this
  program is an argument where the other parameters come from the record they share.
\<close>

subsection \<open>The time a satellite can still serve\<close>

definition TRAJECTORY_GAP_THRESHOLD :: real where "TRAJECTORY_GAP_THRESHOLD = 90"

record TimedSatelliteState = SatelliteState +
  max_time :: real
  remaining_time :: real

definition refresh_timing :: "real \<Rightarrow> TimedSatelliteState \<Rightarrow> TimedSatelliteState" where
  "refresh_timing simTime sat =
     (if trajectory sat = [] then sat\<lparr>max_time := 1, remaining_time := 0\<rparr>
      else let sat1 = (if max_time sat \<le> 0 then sat\<lparr>max_time := max 1 (tp_time (last (trajectory sat)))\<rparr>
                       else sat)
           in sat1\<lparr>remaining_time := max 0 (tp_time (last (trajectory sat)) - simTime)\<rparr>)"

definition RefreshSatelliteTiming :: "real \<Rightarrow> TimedSatelliteState smap \<Rightarrow> TimedSatelliteState smap" where
  "RefreshSatelliteTiming simTime sats = map (\<lambda>(n, sat). (n, refresh_timing simTime sat)) sats"

text \<open>\<open>FindTrajectoryBracket\<close>: the index it leaves in \<open>leftIndex\<close> where it returns true.\<close>

definition sample_gap :: "TrajectoryPoint list \<Rightarrow> nat \<Rightarrow> real" where
  "sample_gap tr i = tp_time (tr ! (i + 1)) - tp_time (tr ! i)"

definition FindTrajectoryBracket :: "TrajectoryPoint list \<Rightarrow> real \<Rightarrow> nat option" where
  "FindTrajectoryBracket tr simTime =
     (if tr = [] then None
      else if simTime < tp_time (hd tr) \<or> simTime > tp_time (last tr) then None
      else if simTime = tp_time (last tr) then Some (length tr - 1)
      else let leftIndex = bracket_from tr simTime 0 in
        if leftIndex < length tr - 1 \<and> sample_gap tr leftIndex > TRAJECTORY_GAP_THRESHOLD \<and>
           simTime > tp_time (tr ! leftIndex) \<and> simTime < tp_time (tr ! (leftIndex + 1))
        then None else Some leftIndex)"

text \<open>The loop that looks for the end of the pass.\<close>

function segment_end :: "TrajectoryPoint list \<Rightarrow> nat \<Rightarrow> nat" where
  "segment_end tr i =
     (if i + 1 < length tr \<and> \<not> sample_gap tr i > TRAJECTORY_GAP_THRESHOLD then segment_end tr (i + 1) else i)"
  by pat_completeness auto
termination
  by (relation "measure (\<lambda>(tr, i). length tr - i)") auto

declare segment_end.simps [simp del]

definition GetSatelliteRemainingServiceTime :: "satellites \<Rightarrow> string \<Rightarrow> real \<Rightarrow> real" where
  "GetSatelliteRemainingServiceTime sats satName simTime =
     (case map_of sats satName of
        None \<Rightarrow> 0
      | Some sat \<Rightarrow>
          (case FindTrajectoryBracket (trajectory sat) simTime of
             None \<Rightarrow> 0
           | Some index \<Rightarrow> max 0 (tp_time (trajectory sat ! segment_end (trajectory sat) index) - simTime)))"

definition CalculateElevationForUeAtTime :: "satellites \<Rightarrow> UeInfo \<Rightarrow> string \<Rightarrow> real \<Rightarrow> real" where
  "CalculateElevationForUeAtTime sats ue satName simTime =
     (if \<not> in_trajectory sats satName simTime then -90
      else let (satX, satY, satZ, elevUnused, distUnused) = InterpolatePosition sats satName simTime;
               dx = satX - ecefX ue; dy = satY - ecefY ue; dz = satZ - ecefZ ue;
               dist = sqrt (dx * dx + dy * dy + dz * dz)
           in if dist < 1 then -90
              else let ueR = sqrt (ecefX ue * ecefX ue + ecefY ue * ecefY ue + ecefZ ue * ecefZ ue);
                       dotRn = dx * (ecefX ue / ueR) + dy * (ecefY ue / ueR) + dz * (ecefZ ue / ueR)
                   in arcsin (max (-1) (min 1 (dotRn / dist))) * 180 / pi)"

subsection \<open>Measurements and the report\<close>

definition ServingTime_PerformMeasurements :: "params \<Rightarrow> satellites \<Rightarrow> UeInfo \<Rightarrow> real \<Rightarrow> MeasResultCell list" where
  "ServingTime_PerformMeasurements P sats ue simTime =
     map (\<lambda>(cellId, t, m). UE_MeasureCell P ue cellId simTime)
       (filter (\<lambda>(cellId, t, m). \<not> met_elevation m < 0 \<and> \<not> trajectory_over sats simTime cellId \<and>
          \<not> snrDb m < g_minSNR P) (channelCache ue))"

definition ServingTime_PreparationCondition :: "params \<Rightarrow> satellites \<Rightarrow> MeasResultCell \<Rightarrow> MeasResultCell \<Rightarrow>
    real \<Rightarrow> bool" where
  "ServingTime_PreparationCondition P sats serving neighbor reportingOffset =
     (if sinr neighbor < g_minSNR P then False
      else GetSatelliteRemainingServiceTime sats (mr_cellId neighbor) (measurementTime neighbor) >
           GetSatelliteRemainingServiceTime sats (mr_cellId serving) (measurementTime serving) + reportingOffset)"

definition ServingTime_NtnTriggers :: "real \<Rightarrow> satellites \<Rightarrow> MeasResultCell \<Rightarrow> bool" where
  "ServingTime_NtnTriggers minServingTime sats serving \<longleftrightarrow>
     GetSatelliteRemainingServiceTime sats (mr_cellId serving) (measurementTime serving) \<le> minServingTime"

text \<open>The comparison in the loops over the satellites: longer, or as long and closer.\<close>

definition longer_or_closer :: "real \<Rightarrow> real \<Rightarrow> real \<Rightarrow> real \<Rightarrow> bool" where
  "longer_or_closer remainingTime d bestRemainingTime bestDist \<longleftrightarrow>
     remainingTime > bestRemainingTime \<or>
     (\<bar>remainingTime - bestRemainingTime\<bar> < 1 / 10 ^ 9 \<and> d < bestDist)"

definition longest_neighbour :: "satellites \<Rightarrow> real \<Rightarrow> MeasResultCell list \<Rightarrow> MeasResultCell option \<times> real \<times> real" where
  "longest_neighbour sats simTime ms =
     foldl (\<lambda>(best, bestTime, bestDist) m.
         let remainingTime = GetSatelliteRemainingServiceTime sats (mr_cellId m) simTime in
         if longer_or_closer remainingTime (mr_distance m) bestTime bestDist
         then (Some m, remainingTime, mr_distance m) else (best, bestTime, bestDist))
       (None, -1, 10 ^ 18) ms"

definition serving_time_report :: "real \<Rightarrow> bool \<Rightarrow> bool \<Rightarrow> MeasResultCell \<Rightarrow> MeasResultCell option \<Rightarrow> MeasurementReport" where
  "serving_time_report simTime ntnTrigger better serving best =
     \<lparr>reportTime = simTime, servingCell = serving,
      neighborCells = (case best of None \<Rightarrow> [] | Some b \<Rightarrow> [b]),
      mr_eventType = (if ntnTrigger then ''NTN_CRITICAL'' else ''CHO_PREP''),
      triggerReason = (if ntnTrigger then ''Serving satellite remaining time below threshold''
                       else ''CHO Phase-1 MR triggered by serving-time advantage''),
      servingCellBelowThreshold = ntnTrigger, betterNeighborAvailable = better\<rparr>"

text \<open>The condition is \<open>a3 \<or> ntnTrigger \<and> better\<close>, but a change of the candidate restarts the time to
  trigger only without \<open>ntnTrigger\<close>.\<close>

definition serving_time_step :: "bool \<Rightarrow> bool \<Rightarrow> cell_id \<Rightarrow> real \<Rightarrow> real \<Rightarrow> UeMeasurementState \<Rightarrow>
    bool \<times> UeMeasurementState" where
  "serving_time_step met ntnTrigger candidateCell simTime ttt ms =
     (if \<not> met then (False, ms\<lparr>triggerActive := False, triggerStartTime := -1, candidateTargetCell := []\<rparr>)
      else trigger_step ntnTrigger met candidateCell simTime ttt ms)"

definition ServingTime_EvaluateAndReport :: "params \<Rightarrow> real \<Rightarrow> nat \<Rightarrow> real \<Rightarrow> cho_world \<Rightarrow>
    MeasurementReport option \<times> cho_world" where
  "ServingTime_EvaluateAndReport P minServingTime i simTime w =
     (let ue = the_ue i w; sats = g_satellites w; sid = servingCellId (measState ue) in
      if sid = [] then (None, upd_ue i ResetHoContext w)
      else let measurements = ServingTime_PerformMeasurements P sats ue simTime in
      case find (\<lambda>m. mr_cellId m = sid) measurements of
        None \<Rightarrow> (Some (rlf_report simTime sid), upd_ue i ResetHoContext w)
      | Some serving \<Rightarrow>
          (let ntnTrigger = ServingTime_NtnTriggers minServingTime sats serving;
               (best, bestTime, bestDist) = longest_neighbour sats simTime (other_cells sid measurements);
               w1 = upd_ue i (upd_meas (remember (serving # other_cells sid measurements))) w;
               better = (best \<noteq> None \<and>
                 bestTime > GetSatelliteRemainingServiceTime sats (mr_cellId serving) simTime);
               a3 = (case best of None \<Rightarrow> False
                     | Some b \<Rightarrow> ServingTime_PreparationCondition P sats serving b (g_reportingOffset P));
               w2 = (case best of None \<Rightarrow> w1
                     | Some b \<Rightarrow> decide P i simTime serving b
                         (if a3 then Some ''SERVING_TIME_A3''
                          else if ntnTrigger \<and> better then Some ''SERVING_TIME_CRITICAL'' else None) w1);
               candidateCell = (case best of None \<Rightarrow> [] | Some b \<Rightarrow> mr_cellId b);
               met = (a3 \<or> ntnTrigger \<and> better);
               (report, ms') = serving_time_step met ntnTrigger candidateCell simTime
                                 (mc_timeToTrigger (measConfig (the_ue i w2))) (measState (the_ue i w2));
               w3 = upd_ue i (upd_meas (\<lambda>_. ms')) w2;
               w4 = (if \<not> met then upd_ue i ResetHoContext w3 else w3)
           in (if report then Some (serving_time_report simTime ntnTrigger better serving best) else None, w4)))"

subsection \<open>Execution and selection\<close>

definition ServingTime_condition :: "params \<Rightarrow> real \<Rightarrow> satellites \<Rightarrow> real \<Rightarrow> cell_id \<Rightarrow> cell_id \<Rightarrow>
    UeSatMetrics \<Rightarrow> bool" where
  "ServingTime_condition P minServingTime sats currentTime src tgt m \<longleftrightarrow>
     GetSatelliteRemainingServiceTime sats src currentTime \<le> minServingTime \<and>
     GetSatelliteRemainingServiceTime sats tgt currentTime - GetSatelliteRemainingServiceTime sats src currentTime
       \<ge> g_choExecutionOffset P \<and>
     met_distance m / 1000 < g_maxDistance P \<and> snrDb m \<ge> g_minSNR P \<and> met_elevation m \<ge> 0"

definition ServingTime_CheckExecutionCondition :: "params \<Rightarrow> real \<Rightarrow> nat \<Rightarrow> real \<Rightarrow> cho_world \<Rightarrow> cho_world" where
  "ServingTime_CheckExecutionCondition P minServingTime i currentTime w =
     (let c = choProcState (the_ue i w)
      in check_execution upd_gstats (execute_counting_globally P i)
           (\<lambda>s m. ServingTime_condition P minServingTime (g_satellites w) currentTime (sourceCell c) (targetCell c) m)
           i currentTime w)"

definition ServingTime_SelectBestSatellite :: "params \<Rightarrow> nat \<Rightarrow> string \<Rightarrow> cho_world \<Rightarrow> string" where
  "ServingTime_SelectBestSatellite P i currentSat w =
     (let ue = the_ue i w; sats = g_satellites w; simTime = now_s w;
          currentRemainingTime = (case map_of (channelCache ue) currentSat of
            None \<Rightarrow> -1 | Some _ \<Rightarrow> GetSatelliteRemainingServiceTime sats currentSat simTime);
          (bestSat, bestRemainingTime, bestDist) =
            foldl (\<lambda>(best, bestTime, bestDist) (n, t, m).
                if invisible w n m \<or> met_distance m / 1000 > g_maxDistance P \<or> snrDb m < g_minSNR P
                then (best, bestTime, bestDist)
                else let remainingTime = GetSatelliteRemainingServiceTime sats n simTime in
                  if longer_or_closer remainingTime (met_distance m) bestTime bestDist
                  then (n, remainingTime, met_distance m) else (best, bestTime, bestDist))
              (currentSat, -1, 10 ^ 18) (channelCache ue)
      in if bestSat \<noteq> currentSat \<and> currentSat \<noteq> [] \<and>
            bestRemainingTime - currentRemainingTime < g_choExecutionOffset P
         then currentSat else bestSat)"

definition ServingTime_CheckHandover :: "params \<Rightarrow> real \<Rightarrow> real \<Rightarrow> nat \<Rightarrow> cho_world \<Rightarrow> cho_world" where
  "ServingTime_CheckHandover P minServingTime =
     check_handover (ServingTime_CheckExecutionCondition P minServingTime)
       (ServingTime_EvaluateAndReport P minServingTime) (react_reselecting trigger_counting_globally)"

end
