(* ===== verification/Cho_Strategy_Properties.thy ===== *)
theory Cho_Strategy_Properties
  imports Cho_Topsis Cho_Serving_Time Cho_Examples Cho_Frame
begin

text \<open>
  The properties of the handover strategies. Two interfaces carry them: a ranking of the values of a
  metric (SNR and elevation the larger the better, distance the smaller the better), under which the
  loops of the programs find a best entry, and an execution rule that demands a gain, under which
  unchanged links allow no cycle of handovers.
\<close>

subsection \<open>Rankings\<close>

locale ranking =
  fixes better :: "real \<Rightarrow> real \<Rightarrow> bool"
  assumes asym: "better a b \<Longrightarrow> \<not> better b a"
    and negatively_transitive: "\<not> better a b \<Longrightarrow> \<not> better b c \<Longrightarrow> \<not> better a c"
begin

lemma irrefl: "\<not> better a a"
  using asym by blast

lemma best_neighbour_fold:
  assumes "foldl (\<lambda>(best, bestVal) m. if better (value m) bestVal then (Some m, value m) else (best, bestVal))
      (b0, v0) ms = (b, v)"
  shows "\<not> better v0 v \<and> (\<forall>m \<in> set ms. \<not> better (value m) v) \<and>
    ((b, v) = (b0, v0) \<or> (\<exists>m \<in> set ms. b = Some m \<and> value m = v \<and> better v v0))"
  using assms
proof (induction ms arbitrary: b0 v0)
  case Nil
  then show ?case by (simp add: irrefl)
next
  case (Cons m ms)
  show ?case
  proof (cases "better (value m) v0")
    case True
    then have "\<not> better (value m) v \<and> (\<forall>m \<in> set ms. \<not> better (value m) v) \<and>
      ((b, v) = (Some m, value m) \<or> (\<exists>k \<in> set ms. b = Some k \<and> value k = v \<and> better v (value m)))"
      using Cons by simp
    moreover have "better v v0"
      using calculation True negatively_transitive asym by (metis prod.inject)
    ultimately show ?thesis using asym by auto
  next
    case False
    then have ih: "\<not> better v0 v \<and> (\<forall>m \<in> set ms. \<not> better (value m) v) \<and>
      ((b, v) = (b0, v0) \<or> (\<exists>m \<in> set ms. b = Some m \<and> value m = v \<and> better v v0))"
      using Cons by simp
    then have "\<not> better (value m) v" using False negatively_transitive by blast
    then show ?thesis using ih by auto
  qed
qed

lemma best_neighbour_best:
  assumes "best_neighbour better value start ms = Some b"
  shows "b \<in> set ms \<and> (\<forall>m \<in> set ms. \<not> better (value m) (value b))"
proof -
  obtain c v where f: "foldl (\<lambda>(best, bestVal) m. if better (value m) bestVal then (Some m, value m) else (best, bestVal))
      (None, start) ms = (c, v)" by fastforce
  then show ?thesis using best_neighbour_fold [OF f] assms by (auto simp: best_neighbour_def)
qed

lemma best_link_best:
  assumes "best_link skip better value start startVal cache = (b, v)"
  shows "\<not> better startVal v \<and> (\<forall>(n, t, m) \<in> set cache. \<not> skip n m \<longrightarrow> \<not> better (value m) v) \<and>
    ((b, v) = (start, startVal) \<or> (\<exists>t m. (b, t, m) \<in> set cache \<and> \<not> skip b m \<and> value m = v))"
  using assms unfolding best_link_def
proof (induction cache arbitrary: start startVal)
  case Nil
  then show ?case by (simp add: irrefl)
next
  case (Cons x cache)
  obtain n t m where x: "x = (n, t, m)" by (cases x)
  let ?goal = "\<lambda>s v0 c. \<not> better v0 v \<and> (\<forall>(n, t, m) \<in> set c. \<not> skip n m \<longrightarrow> \<not> better (value m) v) \<and>
    ((b, v) = (s, v0) \<or> (\<exists>t m. (b, t, m) \<in> set c \<and> \<not> skip b m \<and> value m = v))"
  show ?case
  proof (cases "\<not> skip n m \<and> better (value m) startVal")
    case True
    then have ih: "?goal n (value m) cache" using Cons by (simp add: x)
    then have "\<not> better startVal v" using True negatively_transitive asym by blast
    then show ?thesis using ih True by (auto simp: x)
  next
    case False
    then have ih: "?goal start startVal cache" using Cons by (simp add: x split: if_splits)
    then have "\<not> skip n m \<Longrightarrow> \<not> better (value m) v" using False negatively_transitive by blast
    then show ?thesis using ih by (auto simp: x)
  qed
qed

end

interpretation larger: ranking "(>)"
  by unfold_locales auto

interpretation smaller: ranking "(<)"
  by unfold_locales auto

subsection \<open>Execution rules that demand a gain\<close>

locale handover_gain =
  fixes allowed :: "'c \<Rightarrow> 'c \<Rightarrow> bool" and gain :: "'c \<Rightarrow> real" and offset :: real
  assumes allowed_gain: "allowed a b \<Longrightarrow> gain a + offset \<le> gain b"
begin

lemma chain_gain: "successively allowed (c # cs) \<Longrightarrow> gain c + offset * length cs \<le> gain (last (c # cs))"
proof (induction cs arbitrary: c)
  case (Cons d cs)
  then show ?case using allowed_gain [of c d] by (fastforce simp: algebra_simps)
qed simp

lemma chain_distinct:
  assumes "successively allowed cs" "0 < offset"
  shows "distinct cs"
  using assms(1)
proof (induction cs)
  case (Cons c cs)
  have "c \<notin> set cs"
  proof
    assume "c \<in> set cs"
    then obtain us vs where cs: "cs = us @ c # vs" by (meson split_list)
    then have "successively allowed ((c # us @ [c]) @ vs)" using Cons.prems by simp
    then have "successively allowed (c # us @ [c])" unfolding successively_append_iff by blast
    then have "gain c + offset * length (us @ [c]) \<le> gain c" using chain_gain by fastforce
    then show False using assms(2) by (simp add: mult_le_0_iff not_le)
  qed
  then show ?case using Cons by (auto simp: successively_Cons)
qed simp

lemma chain_bounded:
  assumes "successively allowed cs" "0 < offset" "\<And>c. c \<in> set cs \<Longrightarrow> lo \<le> gain c \<and> gain c \<le> hi"
  shows "cs = [] \<or> (length cs - 1) * offset \<le> hi - lo"
proof (cases cs)
  case (Cons c ds)
  have "gain c + offset * length ds \<le> gain (last cs)" using chain_gain [of c ds] assms(1) by (simp add: Cons)
  moreover have "last cs \<in> set cs" "c \<in> set cs" by (simp_all add: Cons)
  ultimately show ?thesis using assms(3) [of c] assms(3) [of "last cs"] by (simp add: Cons algebra_simps)
qed simp

end

text \<open>The interpretations: a cell is a name, whose link is given by \<open>link\<close>.\<close>

interpretation snr_rule: handover_gain "\<lambda>a b. SNR_condition P (link a) (link b)" "\<lambda>a. snrDb (link a)"
    "g_choExecutionOffset P" for P and link :: "cell_id \<Rightarrow> UeSatMetrics"
  by unfold_locales (simp add: SNR_condition_def)

interpretation tdcho_rule: handover_gain "\<lambda>a b. execution_condition P (snrDb (link a)) (snrDb (link b))"
    "\<lambda>a. snrDb (link a)" "g_choExecutionOffset P" for P and link :: "cell_id \<Rightarrow> UeSatMetrics"
  by unfold_locales (simp add: execution_condition_def)

interpretation distance_rule: handover_gain "\<lambda>a b. Distance_condition P (link a) (link b)"
    "\<lambda>a. - met_distance (link a) / 1000" "g_choExecutionOffset P" for P and link :: "cell_id \<Rightarrow> UeSatMetrics"
  by unfold_locales (simp add: Distance_condition_def)

interpretation elevation_rule: handover_gain "\<lambda>a b. Elevation_condition P (link a) (link b)"
    "\<lambda>a. met_elevation (link a)" "g_choExecutionOffset P" for P and link :: "cell_id \<Rightarrow> UeSatMetrics"
  by unfold_locales (simp add: Elevation_condition_def)

interpretation serving_time_rule: handover_gain "\<lambda>a b. ServingTime_condition P mst sats t a b (link b)"
    "\<lambda>a. GetSatelliteRemainingServiceTime sats a t" "g_choExecutionOffset P"
    for P mst sats t and link :: "cell_id \<Rightarrow> UeSatMetrics"
  by unfold_locales (simp add: ServingTime_condition_def)

text \<open>C12: While the links stay as they are, no sequence of handovers that the execution conditions of
  the programs allow returns to a cell it left, if the execution offset is positive; and the
  number of handovers is bounded by what the metric has to offer over the offset.\<close>
theorem no_handover_cycle:
  assumes "0 < g_choExecutionOffset P"
  shows "(successively (\<lambda>a b. execution_condition P (snrDb (link a)) (snrDb (link b))) cs \<or>
       successively (\<lambda>a b. SNR_condition P (link a) (link b)) cs \<or>
       successively (\<lambda>a b. Distance_condition P (link a) (link b)) cs \<or>
       successively (\<lambda>a b. Elevation_condition P (link a) (link b)) cs \<or>
       successively (\<lambda>a b. ServingTime_condition P mst sats t a b (link b)) cs \<longrightarrow> distinct cs) \<and>
     (successively (\<lambda>a b. Elevation_condition P (link a) (link b)) cs \<and>
        (\<forall>c \<in> set cs. - 90 \<le> met_elevation (link c) \<and> met_elevation (link c) \<le> 90) \<longrightarrow>
        cs = [] \<or> (length cs - 1) * g_choExecutionOffset P \<le> 180)"
proof -
  have "successively (\<lambda>a b. Elevation_condition P (link a) (link b)) cs \<Longrightarrow>
      \<forall>c \<in> set cs. - 90 \<le> met_elevation (link c) \<and> met_elevation (link c) \<le> 90 \<Longrightarrow>
      cs = [] \<or> (length cs - 1) * g_choExecutionOffset P \<le> 180"
    using elevation_rule.chain_bounded [OF _ assms, of link cs "-90" 90] by simp
  then show ?thesis
    using snr_rule.chain_distinct [OF _ assms, of link cs] tdcho_rule.chain_distinct [OF _ assms, of link cs]
      distance_rule.chain_distinct [OF _ assms, of link cs] elevation_rule.chain_distinct [OF _ assms, of link cs]
      serving_time_rule.chain_distinct [OF _ assms, of mst sats t link cs]
    by blast
qed

lemma no_handover_cycle_witness:
  "\<not> successively (\<lambda>a b. SNR_condition P0 (metrics 700 (if a = ''A'' then 4 else 8)) (metrics 700 (if b = ''A'' then 4 else 8)))
     [''A'', ''B'', ''A'']"
  using no_handover_cycle [of P0 "\<lambda>a. metrics 700 (if a = ''A'' then 4 else 8)" "[''A'', ''B'', ''A'']"] by simp

subsection \<open>Execution needs the condition\<close>

lemma phase_of_ue_upd:
  "i < length (g_ues w) \<Longrightarrow> phase_of i (upd_ue i (upd_proc f) w) = phase (f (choProcState (the_ue i w)))"
  by (simp add: phase_of_upd the_ue_def upd_proc_def)

definition execution_due :: "(UeSatMetrics \<Rightarrow> UeSatMetrics \<Rightarrow> bool) \<Rightarrow> UeInfo \<Rightarrow> real \<Rightarrow> bool" where
  "execution_due condition ue now \<longleftrightarrow>
    (\<exists>t1 s t2 m. map_of (channelCache ue) (sourceCell (choProcState ue)) = Some (t1, s) \<and>
      map_of (channelCache ue) (targetCell (choProcState ue)) = Some (t2, m) \<and> condition s m) \<and>
    executionTttActive (choProcState ue) \<and>
    now - executionTttStartTime (choProcState ue) \<ge> executionTimeToTrigger (choProcState ue) \<and>
    now \<le> configExpiryTime (choProcState ue)"

lemma check_execution_starts:
  assumes tally: "\<And>f w. length (g_ues (tally f w)) = length (g_ues w)"
    and "i < length (g_ues w)" "phase_of i w = CHO_UE_EVALUATING"
    and exec: "phase_of i (check_execution tally execute condition i now w) = CHO_UE_EXECUTING"
  shows "execution_due condition (the_ue i w) now"
proof -
  let ?c = "choProcState (the_ue i w)" and ?u = "the_ue i w"
  let ?v = "check_execution tally execute condition i now w"
  have ph: "phase ?c = CHO_UE_EVALUATING" using assms(3) by (simp add: phase_of_def)
  have "now \<le> configExpiryTime ?c"
  proof (rule ccontr)
    assume "\<not> now \<le> configExpiryTime ?c"
    then have "?v = upd_ue i (upd_cfg (\<lambda>g. g\<lparr>choConfigs := []\<rparr>))
        (set_phase i CHO_IDLE (tally (\<lambda>s. s\<lparr>configsExpired := configsExpired s + 1\<rparr>) w))"
      using ph by (simp add: check_execution_def Let_def)
    then show False
      using exec assms(2) by (simp add: phase_of_upd set_phase_def upd_cfg_def upd_proc_def tally)
  qed
  moreover obtain t1 s t2 m where "map_of (channelCache ?u) (sourceCell ?c) = Some (t1, s)"
      "map_of (channelCache ?u) (targetCell ?c) = Some (t2, m)"
  proof (cases "map_of (channelCache ?u) (sourceCell ?c) = None \<or> map_of (channelCache ?u) (targetCell ?c) = None")
    case True
    then have "?v = w"
      using calculation ph by (auto simp: check_execution_def Let_def split: option.split)
    then show ?thesis using exec assms(3) by simp
  qed (use that in auto)
  moreover have "condition s m \<and> executionTttActive ?c \<and> now - executionTttStartTime ?c \<ge> executionTimeToTrigger ?c"
  proof (rule ccontr)
    assume "\<not> ?thesis"
    then have "?v = w \<or> ?v = upd_ue i (upd_proc (\<lambda>c. c\<lparr>executionTttActive := True, executionTttStartTime := now\<rparr>)) w \<or>
        ?v = upd_ue i (upd_proc (\<lambda>c. c\<lparr>executionTttActive := False, executionTttStartTime := -1\<rparr>)) w"
      using calculation ph by (auto simp: check_execution_def Let_def)
    then have "phase_of i ?v = CHO_UE_EVALUATING"
      using assms(2,3) ph by (auto simp: phase_of_ue_upd)
    then show False using exec by simp
  qed
  ultimately show ?thesis unfolding execution_due_def by blast
qed



subsection \<open>Reports\<close>

lemma decide_ues:
  "g_ues (decide P i t serving best trigger w) = (g_ues w)[i := (case trigger of
     Some tr \<Rightarrow> (g_ues w ! i)\<lparr>hoContext := context_of serving best t tr\<rparr> | None \<Rightarrow> ResetHoContext (g_ues w ! i))]"
  by (cases trigger) (simp_all add: decide_def SchedulePendingPredictionEval_def Let_def)

lemma remember_keeps [simp]:
  "triggerActive (remember ms s) = triggerActive s" "triggerStartTime (remember ms s) = triggerStartTime s"
  "candidateTargetCell (remember ms s) = candidateTargetCell s"
  by (simp_all add: remember_def)

lemma trigger_step_report:
  "trigger_step ntn a3 c t ttt ms = (True, ms') \<Longrightarrow>
    (ntn \<or> a3) \<and> triggerActive ms \<and> (ntn \<or> c = candidateTargetCell ms) \<and> t - triggerStartTime ms \<ge> ttt"
  by (auto simp: trigger_step_def split: if_splits)

lemma evaluate_and_report_report:
  assumes "i < length (g_ues w)"
    and "evaluate_and_report pick prepare P i t w = (Some r, w')" "mr_eventType r \<noteq> ''RLF''"
  shows "\<exists>b. pick (other_cells (servingCellId (measState (the_ue i w)))
        (UE_PerformMeasurements P (g_satellites w) (the_ue i w) t)) = Some b \<and>
      neighborCells r = [b] \<and> prepare (servingCell r) b \<and>
      servingCell r \<in> set (UE_PerformMeasurements P (g_satellites w) (the_ue i w) t) \<and>
      mr_cellId (servingCell r) = servingCellId (measState (the_ue i w)) \<and>
      triggerActive (measState (the_ue i w)) \<and> candidateTargetCell (measState (the_ue i w)) = mr_cellId b \<and>
      t - triggerStartTime (measState (the_ue i w)) \<ge> mc_timeToTrigger (measConfig (the_ue i w))"
proof -
  let ?u = "the_ue i w" and ?ms = "UE_PerformMeasurements P (g_satellites w) (the_ue i w) t"
  let ?sid = "servingCellId (measState ?u)"
  have sid: "?sid \<noteq> []" using assms(2) by (auto simp: evaluate_and_report_def Let_def)
  obtain s where s: "find (\<lambda>m. mr_cellId m = ?sid) ?ms = Some s"
  proof (cases "find (\<lambda>m. mr_cellId m = ?sid) ?ms")
    case None
    then have "r = rlf_report t ?sid" using assms(2) sid by (simp add: evaluate_and_report_def Let_def)
    then show ?thesis using assms(3) by (simp add: rlf_report_def)
  qed
  have found: "s \<in> set ?ms" "mr_cellId s = ?sid" using s by (auto simp: find_Some_iff)
  show ?thesis
  proof (cases "pick (other_cells ?sid ?ms)")
    case None
    then show ?thesis
      using assms(2) sid s by (auto simp: evaluate_and_report_def Let_def UE_EvaluateNtnTriggers_def trigger_step_def
          split: if_splits)
  next
    case (Some b)
    then show ?thesis
      using assms(1,2) sid s found
      by (auto simp: evaluate_and_report_def Let_def UE_EvaluateNtnTriggers_def decide_ues the_ue_def
          cho_report_def upd_meas_def ResetHoContext_def split: if_splits prod.splits dest!: trigger_step_report)
  qed
qed

definition best_report :: "(real \<Rightarrow> real \<Rightarrow> bool) \<Rightarrow> (MeasResultCell \<Rightarrow> real) \<Rightarrow> MeasResultCell list \<Rightarrow>
    UeInfo \<Rightarrow> real \<Rightarrow> MeasurementReport \<Rightarrow> bool" where
  "best_report better value ms ue t r \<longleftrightarrow>
    (\<exists>b. neighborCells r = [b] \<and> b \<in> set ms \<and> mr_cellId b \<noteq> servingCellId (measState ue) \<and>
      (\<forall>m \<in> set ms. mr_cellId m \<noteq> servingCellId (measState ue) \<longrightarrow> \<not> better (value m) (value b)) \<and>
      candidateTargetCell (measState ue) = mr_cellId b) \<and>
    triggerActive (measState ue) \<and> t - triggerStartTime (measState ue) \<ge> mc_timeToTrigger (measConfig ue)"

lemma best_report_intro:
  assumes "ranking better" "i < length (g_ues w)" "mr_eventType r \<noteq> ''RLF''"
    and "evaluate_and_report (best_neighbour better value start) prepare P i t w = (Some r, w')"
  shows "best_report better value (UE_PerformMeasurements P (g_satellites w) (the_ue i w) t) (the_ue i w) t r \<and>
    prepare (servingCell r) (hd (neighborCells r))"
  using evaluate_and_report_report [OF assms(2,4,3)] ranking.best_neighbour_best [OF assms(1)]
  by (fastforce simp: best_report_def other_cells_def)



subsection \<open>Link failures\<close>

text \<open>An idle UE that is served and due to measure, but does not detect its serving cell.\<close>

definition lost_serving :: "(params \<Rightarrow> satellites \<Rightarrow> UeInfo \<Rightarrow> real \<Rightarrow> MeasResultCell list) \<Rightarrow> params \<Rightarrow> nat \<Rightarrow> real \<Rightarrow>
    cho_world \<Rightarrow> bool" where
  "lost_serving meas P i t w \<longleftrightarrow> (let ue = the_ue i w; sid = servingCellId (measState ue) in
     phase (choProcState ue) = CHO_IDLE \<and> currentPhase (hoState ue) = PHASE_IDLE \<and>
     sid \<noteq> [] \<and> servingGnb (ue_context ue) = sid \<and>
     t - ms_lastMeasurementTime (measState ue) \<ge> measurementPeriod (measConfig ue) \<and>
     (\<forall>m \<in> set (meas P (g_satellites w) ue t). mr_cellId m \<noteq> sid))"

lemma measurements_same_cache:
  "channelCache ue' = channelCache ue \<Longrightarrow> UE_PerformMeasurements P sats ue' t = UE_PerformMeasurements P sats ue t"
  "channelCache ue' = channelCache ue \<Longrightarrow>
    ServingTime_PerformMeasurements P sats ue' t = ServingTime_PerformMeasurements P sats ue t"
  by (simp_all add: UE_PerformMeasurements_def ServingTime_PerformMeasurements_def UE_MeasureCell_def)

lemma evaluate_lost:
  assumes "servingCellId (measState (the_ue i w)) = sid" "sid \<noteq> []"
    "\<forall>m \<in> set (UE_PerformMeasurements P (g_satellites w) (the_ue i w) t). mr_cellId m \<noteq> sid"
  shows "evaluate_and_report pick prepare P i t w = (Some (rlf_report t sid), upd_ue i ResetHoContext w)"
    "Topsis_EvaluateAndReport P i t w = (Some (rlf_report t sid), w)"
proof -
  have "find (\<lambda>m. mr_cellId m = sid) (UE_PerformMeasurements P (g_satellites w) (the_ue i w) t) = None"
    using assms(3) by (simp add: find_None_iff)
  then show "evaluate_and_report pick prepare P i t w = (Some (rlf_report t sid), upd_ue i ResetHoContext w)"
    "Topsis_EvaluateAndReport P i t w = (Some (rlf_report t sid), w)"
    using assms(1,2) by (simp_all add: evaluate_and_report_def Topsis_EvaluateAndReport_def Let_def)
qed

lemma evaluate_lost_serving_time:
  assumes "servingCellId (measState (the_ue i w)) = sid" "sid \<noteq> []"
    "\<forall>m \<in> set (ServingTime_PerformMeasurements P (g_satellites w) (the_ue i w) t). mr_cellId m \<noteq> sid"
  shows "ServingTime_EvaluateAndReport P mst i t w = (Some (rlf_report t sid), upd_ue i ResetHoContext w)"
proof -
  have "find (\<lambda>m. mr_cellId m = sid) (ServingTime_PerformMeasurements P (g_satellites w) (the_ue i w) t) = None"
    using assms(3) by (simp add: find_None_iff)
  then show ?thesis using assms(1,2) by (simp add: ServingTime_EvaluateAndReport_def Let_def)
qed

lemma check_handover_lost:
  assumes "lost_serving meas P i t w" "i < length (g_ues w)"
    and "\<And>ue ue'. channelCache ue' = channelCache ue \<Longrightarrow> meas P (g_satellites w) ue' t = meas P (g_satellites w) ue t"
    and "\<And>w sid. servingCellId (measState (the_ue i w)) = sid \<Longrightarrow> sid \<noteq> [] \<Longrightarrow>
      \<forall>m \<in> set (meas P (g_satellites w) (the_ue i w) t). mr_cellId m \<noteq> sid \<Longrightarrow>
      evaluate i t w = (Some (rlf_report t sid), after w)"
  shows "check_handover check evaluate react t i w =
    react i (Some (rlf_report t (servingCellId (measState (the_ue i w)))))
      (after (upd_ue i (upd_meas (\<lambda>ms. ms\<lparr>ms_lastMeasurementTime := t\<rparr>)) w))"
proof -
  let ?v = "upd_ue i (upd_meas (\<lambda>ms. ms\<lparr>ms_lastMeasurementTime := t\<rparr>)) w"
  let ?sid = "servingCellId (measState (the_ue i w))"
  have u: "the_ue i ?v = upd_meas (\<lambda>ms. ms\<lparr>ms_lastMeasurementTime := t\<rparr>) (the_ue i w)"
    using assms(2) by (simp add: the_ue_def)
  have m: "meas P (g_satellites w) (the_ue i ?v) t = meas P (g_satellites w) (the_ue i w) t"
    by (rule assms(3)) (simp add: u upd_meas_def)
  have sid: "servingCellId (measState (the_ue i ?v)) = ?sid" by (simp add: u upd_meas_def)
  have "evaluate i t ?v = (Some (rlf_report t ?sid), after ?v)"
    using assms(1) m sid by (intro assms(4)) (simp_all add: lost_serving_def Let_def)
  then show ?thesis using assms(1) by (simp add: check_handover_def lost_serving_def Let_def)
qed

lemma forget_serving_result:
  assumes "i < length (g_ues w)"
  shows "phase_of i (upd_ue i forget_serving (upd_ue i ResetHoContext w)) = phase_of i w \<and>
    servingGnb (ue_context (the_ue i (upd_ue i forget_serving (upd_ue i ResetHoContext w)))) = [] \<and>
    servingCellId (measState (the_ue i (upd_ue i forget_serving (upd_ue i ResetHoContext w)))) = [] \<and>
    sim_events (upd_ue i forget_serving (upd_ue i ResetHoContext w)) = sim_events w"
  using assms by (simp add: phase_of_def the_ue_def) (simp add: forget_serving_def upd_meas_def ResetHoContext_def upd_ue_def)

lemma trigger_without_target:
  assumes "phase_of i w = CHO_IDLE" "i < length (g_ues w)"
  shows "phase_of i (CHO_TriggerProcedure i (Some (rlf_report t c)) w) = CHO_MEAS_REPORT_UPLINK \<and>
    targetCell (choProcState (the_ue i (CHO_TriggerProcedure i (Some (rlf_report t c)) w))) = []"
  using assms by (simp add: CHO_TriggerProcedure_def Let_def phase_of_def the_ue_def both_stats_def)
    (simp add: upd_proc_def upd_stats_def rlf_report_def report_target_def)

lemma react_reselecting_lost: "react_reselecting f i (Some (rlf_report t c)) w = upd_ue i forget_serving w"
  by (simp add: react_reselecting_def rlf_report_def)

text \<open>C22: When an idle UE no longer detects its serving cell, the distance, elevation and serving-time
  programs leave it idle and without a serving cell, so that the next periodic task selects one anew; the
  SNR and the TOPSIS program start a handover procedure towards no cell.\<close>
theorem link_failure_reactions:
  assumes "i < length (g_ues w)"
  shows "(lost_serving UE_PerformMeasurements P i t w \<longrightarrow>
        (\<forall>f \<in> {Distance_CheckHandover P, Elevation_CheckHandover P}.
          phase_of i (f t i w) = CHO_IDLE \<and> servingGnb (ue_context (the_ue i (f t i w))) = [] \<and>
          servingCellId (measState (the_ue i (f t i w))) = [] \<and> sim_events (f t i w) = sim_events w) \<and>
        (\<forall>f \<in> {SNR_CheckHandover P, Topsis_CheckHandover P}.
          phase_of i (f t i w) = CHO_MEAS_REPORT_UPLINK \<and> targetCell (choProcState (the_ue i (f t i w))) = [])) \<and>
      (lost_serving ServingTime_PerformMeasurements P i t w \<longrightarrow>
        phase_of i (ServingTime_CheckHandover P mst t i w) = CHO_IDLE \<and>
        servingGnb (ue_context (the_ue i (ServingTime_CheckHandover P mst t i w))) = [])"
proof -
  let ?v = "upd_ue i (upd_meas (\<lambda>ms. ms\<lparr>ms_lastMeasurementTime := t\<rparr>)) w"
  let ?r = "Some (rlf_report t (servingCellId (measState (the_ue i w))))"
  note react = react_reselecting_lost [of trigger_counting_globally i t
      "servingCellId (measState (the_ue i w))" "upd_ue i ResetHoContext ?v"]
  have vlen: "i < length (g_ues ?v)" using assms by simp
  have vsim: "sim_events ?v = sim_events w" by (simp add: upd_ue_def)
  have ph: "phase_of i ?v = phase_of i w" "phase_of i (upd_ue i ResetHoContext ?v) = phase_of i w"
    using assms by (simp_all add: phase_of_def the_ue_def) (simp_all add: upd_meas_def ResetHoContext_def)
  {
    assume lost: "lost_serving UE_PerformMeasurements P i t w"
    note go = check_handover_lost [OF lost assms measurements_same_cache(1), where after = "upd_ue i ResetHoContext"]
    note go' = check_handover_lost [OF lost assms measurements_same_cache(1), where after = "\<lambda>w. w"]
    have p: "phase_of i w = CHO_IDLE" using lost by (simp add: lost_serving_def Let_def phase_of_def)
    have "Distance_CheckHandover P t i w = upd_ue i forget_serving (upd_ue i ResetHoContext ?v)"
      unfolding Distance_CheckHandover_def Distance_EvaluateAndReport_def react [symmetric]
      by (rule go; (assumption | (rule evaluate_lost; assumption)))
    moreover have "Elevation_CheckHandover P t i w = upd_ue i forget_serving (upd_ue i ResetHoContext ?v)"
      unfolding Elevation_CheckHandover_def Elevation_EvaluateAndReport_def react [symmetric]
      by (rule go; (assumption | (rule evaluate_lost; assumption)))
    moreover have "SNR_CheckHandover P t i w = CHO_TriggerProcedure i ?r (upd_ue i ResetHoContext ?v)"
      unfolding SNR_CheckHandover_def SNR_EvaluateAndReport_def by (rule go; (assumption | (rule evaluate_lost; assumption)))
    moreover have "Topsis_CheckHandover P t i w = CHO_TriggerProcedure i ?r ?v"
      unfolding Topsis_CheckHandover_def by (rule go'; (assumption | (rule evaluate_lost; assumption)))
    ultimately have "(\<forall>f \<in> {Distance_CheckHandover P, Elevation_CheckHandover P}.
          phase_of i (f t i w) = CHO_IDLE \<and> servingGnb (ue_context (the_ue i (f t i w))) = [] \<and>
          servingCellId (measState (the_ue i (f t i w))) = [] \<and> sim_events (f t i w) = sim_events w) \<and>
        (\<forall>f \<in> {SNR_CheckHandover P, Topsis_CheckHandover P}.
          phase_of i (f t i w) = CHO_MEAS_REPORT_UPLINK \<and> targetCell (choProcState (the_ue i (f t i w))) = [])"
      using forget_serving_result [OF vlen] trigger_without_target p ph vlen vsim by simp
  }
  moreover {
    assume lost: "lost_serving ServingTime_PerformMeasurements P i t w"
    have p: "phase_of i w = CHO_IDLE" using lost by (simp add: lost_serving_def Let_def phase_of_def)
    have "ServingTime_CheckHandover P mst t i w = upd_ue i forget_serving (upd_ue i ResetHoContext ?v)"
      unfolding ServingTime_CheckHandover_def react [symmetric]
      by (rule check_handover_lost [OF lost assms measurements_same_cache(2), where after = "upd_ue i ResetHoContext"];
          (assumption | (rule evaluate_lost_serving_time; assumption)))
    then have "phase_of i (ServingTime_CheckHandover P mst t i w) = CHO_IDLE \<and>
        servingGnb (ue_context (the_ue i (ServingTime_CheckHandover P mst t i w))) = []"
      using forget_serving_result [OF vlen] p ph by simp
  }
  ultimately show ?thesis by blast
qed

lemma link_failure_reactions_witness:
  "servingGnb (ue_context (the_ue 0 (Distance_CheckHandover P0 5 0 (w_measuring [])))) = [] \<and>
   phase_of 0 (SNR_CheckHandover P0 5 0 (w_measuring [])) = CHO_MEAS_REPORT_UPLINK"
proof -
  have "lost_serving UE_PerformMeasurements P0 0 5 (w_measuring [])"
    by (simp add: lost_serving_def UE_PerformMeasurements_def)
  then show ?thesis using link_failure_reactions [of 0 "w_measuring []" P0 5] by simp
qed

end
