(* ===== verification/Cho_Choice_Properties.thy ===== *)
theory Cho_Choice_Properties
  imports Cho_Strategy_Properties
begin

text \<open>
  What the strategies choose: the satellite that \<open>SelectBestSatellite\<close> returns and the ranking of
  SD-TOPSIS.
\<close>

subsection \<open>Selecting a satellite\<close>

definition best_visible :: "(string \<Rightarrow> UeSatMetrics \<Rightarrow> bool) \<Rightarrow> (real \<Rightarrow> real \<Rightarrow> bool) \<Rightarrow> (UeSatMetrics \<Rightarrow> real) \<Rightarrow>
    (real \<times> UeSatMetrics) smap \<Rightarrow> (real \<Rightarrow> bool) \<Rightarrow> string \<Rightarrow> bool" where
  "best_visible skip better value cache enough n \<longleftrightarrow>
    (\<exists>t m. (n, t, m) \<in> set cache \<and> \<not> skip n m \<and> enough (value m) \<and>
      (\<forall>(n', t', m') \<in> set cache. \<not> skip n' m' \<longrightarrow> \<not> better (value m') (value m)))"

lemma best_visible_intro:
  assumes "ranking better" "best_link skip better value start v0 cache = (n, v)" "n \<noteq> start" "enough v"
  shows "best_visible skip better value cache enough n"
  using ranking.best_link_best [OF assms(1,2)] assms(3,4) unfolding best_visible_def by fastforce

text \<open>\<open>SelectBestSatellite\<close> of the SNR, TOPSIS, distance and elevation programs leaves the current
  satellite only for one that is in the cache, visible and (where the program asks for it) in range and
  above -6 dB, that no other such satellite surpasses in the metric, and that improves on the
  current one by the execution offset (in the TOPSIS program: that is not worse).\<close>
theorem strategies_select_best:
  assumes "cache = channelCache (the_ue i w)" "cur = link_or snrDb (the_ue i w) n (-999)"
    "dcur = link_or met_distance (the_ue i w) n (10 ^ 18)" "ecur = link_or met_elevation (the_ue i w) n (-180)"
  shows "(SNR_SelectBestSatellite P i n w = n \<or>
        best_visible (invisible w) (>) snrDb cache (\<lambda>v. v \<ge> cur + g_choExecutionOffset P) (SNR_SelectBestSatellite P i n w)) \<and>
      (Topsis_SelectBestSatellite P i n w = n \<or>
        best_visible (invisible w) (>) snrDb cache (\<lambda>v. v \<ge> cur) (Topsis_SelectBestSatellite P i n w)) \<and>
      (Distance_SelectBestSatellite P i n w = n \<or>
        best_visible (\<lambda>n m. invisible w n m \<or> met_distance m / 1000 > g_maxDistance P \<or> snrDb m < -6) (<) met_distance
          cache (\<lambda>v. dcur / 1000 - v / 1000 \<ge> g_choExecutionOffset P) (Distance_SelectBestSatellite P i n w)) \<and>
      (Elevation_SelectBestSatellite P i n w = n \<or>
        best_visible (\<lambda>n m. invisible w n m \<or> snrDb m < -6) (>) met_elevation
          cache (\<lambda>v. v - ecur \<ge> g_choExecutionOffset P) (Elevation_SelectBestSatellite P i n w))"
proof -
  obtain b v where snr: "best_link (invisible w) (>) snrDb n (-999) (channelCache (the_ue i w)) = (b, v)" by fastforce
  obtain b' v' where dst: "best_link (\<lambda>n m. invisible w n m \<or> met_distance m / 1000 > g_maxDistance P \<or> snrDb m < -6)
      (<) met_distance n (10 ^ 18) (channelCache (the_ue i w)) = (b', v')" by fastforce
  obtain b'' v'' where ele: "best_link (\<lambda>n m. invisible w n m \<or> snrDb m < -6) (>) met_elevation n (-180) (channelCache (the_ue i w)) =
      (b'', v'')" by fastforce
  note intro1 = best_visible_intro [OF larger.ranking_axioms snr]
  note intro2 = best_visible_intro [OF smaller.ranking_axioms dst]
  note intro3 = best_visible_intro [OF larger.ranking_axioms ele]
  have "SNR_SelectBestSatellite P i n w \<noteq> n \<Longrightarrow>
      best_visible (invisible w) (>) snrDb cache (\<lambda>v. v \<ge> cur + g_choExecutionOffset P) (SNR_SelectBestSatellite P i n w)"
    using snr assms by (auto simp: SNR_SelectBestSatellite_def Let_def not_less split: if_splits intro!: intro1)
  moreover have "Topsis_SelectBestSatellite P i n w \<noteq> n \<Longrightarrow>
      best_visible (invisible w) (>) snrDb cache (\<lambda>v. v \<ge> cur) (Topsis_SelectBestSatellite P i n w)"
    using snr assms by (auto simp: Topsis_SelectBestSatellite_def Let_def not_less split: if_splits intro!: intro1)
  moreover have "Distance_SelectBestSatellite P i n w \<noteq> n \<Longrightarrow>
      best_visible (\<lambda>n m. invisible w n m \<or> met_distance m / 1000 > g_maxDistance P \<or> snrDb m < -6) (<) met_distance
        cache (\<lambda>v. dcur / 1000 - v / 1000 \<ge> g_choExecutionOffset P) (Distance_SelectBestSatellite P i n w)"
    using dst assms by (auto simp: Distance_SelectBestSatellite_def Let_def not_less split: if_splits intro!: intro2 [simplified])
  moreover have "Elevation_SelectBestSatellite P i n w \<noteq> n \<Longrightarrow>
      best_visible (\<lambda>n m. invisible w n m \<or> snrDb m < -6) (>) met_elevation
        cache (\<lambda>v. v - ecur \<ge> g_choExecutionOffset P) (Elevation_SelectBestSatellite P i n w)"
    using ele assms by (auto simp: Elevation_SelectBestSatellite_def Let_def not_less split: if_splits intro!: intro3)
  ultimately show ?thesis by blast
qed

lemma strategies_select_best_witness:
  "best_visible (invisible (w_measuring [(''A'', 5, metrics 900 4), (''B'', 5, metrics 900 9)])) (>) snrDb
     [(''A'', 5, metrics 900 4), (''B'', 5, metrics 900 9)] (\<lambda>v. v \<ge> 7) ''B''"
proof -
  let ?c = "[(''A'', 5, metrics 900 4), (''B'', 5, metrics 900 9)]"
  have "SNR_SelectBestSatellite P0 0 ''A'' (w_measuring ?c) = ''B''"
    by (simp add: SNR_SelectBestSatellite_def best_link_def link_or_def invisible_def trajectory_over_def)
  then show ?thesis
    using strategies_select_best [OF refl refl refl refl, where i = 0 and w = "w_measuring ?c" and n = "''A''" and P = P0]
    by (simp add: link_or_def)
qed

subsection \<open>SD-TOPSIS\<close>

lemma topsis_scores_length [simp]: "length (topsis_scores cs) = length cs"
  by (simp add: topsis_scores_def Let_def weightedMatrix_def normMatrix_def decision_matrix_def)

lemma topsis_scores_bounds: "s \<in> set (topsis_scores cs) \<Longrightarrow> 0 \<le> s \<and> s \<le> 1"
  by (auto simp: topsis_scores_def Let_def topsis_score_bounds)

text \<open>C18: SD-TOPSIS chooses, among two or more candidates, the first one whose score is highest; all
  scores lie between 0 and 1, and the weights of the three criteria are not negative and sum to 1.\<close>
theorem topsis_choice:
  assumes "2 \<le> length cs" "FindBestTargetWithSD_TOPSIS cs = Some c"
  shows "(\<exists>k < length cs. c = cs ! k \<and> (\<forall>j < length cs. topsis_scores cs ! j \<le> topsis_scores cs ! k) \<and>
      (\<forall>j < k. topsis_scores cs ! j < topsis_scores cs ! k)) \<and>
    (\<forall>s \<in> set (topsis_scores cs). 0 \<le> s \<and> s \<le> 1) \<and>
    (\<forall>M. sum_list (topsis_weights M) = 1 \<and> (\<forall>j < 3. 0 \<le> topsis_weights M ! j))"
proof -
  let ?k = "bestIndex (topsis_scores cs)"
  have "topsis_scores cs \<noteq> []" using assms(1) topsis_scores_length [of cs] by fastforce
  then have k: "?k < length cs" "\<forall>x \<in> set (topsis_scores cs). x \<le> topsis_scores cs ! ?k"
      "\<forall>j < ?k. topsis_scores cs ! j < topsis_scores cs ! ?k"
    using bestIndex_best [of "topsis_scores cs"] topsis_scores_bounds [of _ cs] by auto
  have "\<forall>j < length cs. topsis_scores cs ! j \<le> topsis_scores cs ! ?k"
    using k(2) nth_mem [of _ "topsis_scores cs"] by simp
  moreover have "c = cs ! ?k" using assms by (auto simp: FindBestTargetWithSD_TOPSIS_def split: if_splits)
  ultimately show ?thesis using k topsis_scores_bounds topsis_weights_sum topsis_weights_nonneg by blast
qed

definition cell_at :: "cell_id \<Rightarrow> real \<Rightarrow> real \<Rightarrow> real \<Rightarrow> MeasResultCell" where
  "cell_at n snr el d = MeasResultCell_zero\<lparr>mr_cellId := n, sinr := snr, mr_elevation := el, mr_distance := d\<rparr>"

lemma topsis_choice_witness:
  "\<exists>k < 2. FindBestTargetWithSD_TOPSIS [cell_at ''A'' 4 30 900, cell_at ''B'' 9 60 700] =
     Some ([cell_at ''A'' 4 30 900, cell_at ''B'' 9 60 700] ! k)"
proof -
  let ?cs = "[cell_at ''A'' 4 30 900, cell_at ''B'' 9 60 700]"
  obtain c where "FindBestTargetWithSD_TOPSIS ?cs = Some c" by (simp add: FindBestTargetWithSD_TOPSIS_def)
  then show ?thesis using topsis_choice [of ?cs c] by (auto simp: numeral_2_eq_2)
qed

text \<open>C19: A candidate that is at least as good as another in all three criteria (SINR, elevation,
  distance) never has a lower score.\<close>
theorem topsis_dominance:
  assumes "i < length cs" "j < length cs" "sinr (cs ! i) \<ge> sinr (cs ! j)"
    "mr_elevation (cs ! i) \<ge> mr_elevation (cs ! j)" "mr_distance (cs ! i) \<le> mr_distance (cs ! j)"
  shows "topsis_scores cs ! j \<le> topsis_scores cs ! i"
proof -
  let ?D = "decision_matrix cs" and ?N = "normMatrix (decision_matrix cs)"
  let ?M = "weightedMatrix ?N"
  have len: "length ?M = length cs" "length ?N = length cs" "length ?D = length cs"
    by (simp_all add: weightedMatrix_def normMatrix_def decision_matrix_def)
  have "row_dominates (?D ! i) (?D ! j)" using assms by (simp add: row_dominates_def decision_matrix_def)
  then have "row_dominates (?M ! i) (?M ! j)"
    using weighted_dominates [of "?D ! i" "?D ! j" ?D ?N] assms(1,2) len
    by (simp add: weightedMatrix_def normMatrix_def)
  then have "topsis_score ?M (?M ! j) \<le> topsis_score ?M (?M ! i)"
    using assms(1,2) len by (intro topsis_score_mono) simp_all
  then show ?thesis using assms(1,2) len by (simp add: topsis_scores_def Let_def)
qed

lemma topsis_dominance_witness:
  "topsis_scores [cell_at ''A'' 4 30 900, cell_at ''B'' 9 60 700] ! 0 \<le>
   topsis_scores [cell_at ''A'' 4 30 900, cell_at ''B'' 9 60 700] ! 1"
  using topsis_dominance [of 1 "[cell_at ''A'' 4 30 900, cell_at ''B'' 9 60 700]" 0]
  by (simp add: cell_at_def)

end
