(* ===== verification/Cho_Serving_Properties.thy ===== *)
theory Cho_Serving_Properties
  imports Cho_Strategy_Properties
begin

text \<open>
  The properties of the serving-time program: what the remaining service time is along a trajectory
  with gaps, and what a report says about it.
\<close>

subsection \<open>Passes\<close>

text \<open>A pass is a longest run of samples \<open>a\<close> to \<open>e\<close> without a gap.\<close>

definition is_pass :: "TrajectoryPoint list \<Rightarrow> nat \<Rightarrow> nat \<Rightarrow> bool" where
  "is_pass tr a e \<longleftrightarrow> a \<le> e \<and> e < length tr \<and>
     (\<forall>k \<in> {a..<e}. sample_gap tr k \<le> TRAJECTORY_GAP_THRESHOLD) \<and>
     (a = 0 \<or> sample_gap tr (a - 1) > TRAJECTORY_GAP_THRESHOLD) \<and>
     (e = length tr - 1 \<or> sample_gap tr e > TRAJECTORY_GAP_THRESHOLD)"

definition samples_ordered :: "TrajectoryPoint list \<Rightarrow> bool" where
  "samples_ordered tr \<longleftrightarrow> sorted_wrt (<) (map tp_time tr)"

lemma samples_less: "samples_ordered tr \<Longrightarrow> i < j \<Longrightarrow> j < length tr \<Longrightarrow> tp_time (tr ! i) < tp_time (tr ! j)"
  unfolding samples_ordered_def using sorted_wrt_nth_less [of "(<)" "map tp_time tr" i j] by simp

lemma samples_le: "samples_ordered tr \<Longrightarrow> i \<le> j \<Longrightarrow> j < length tr \<Longrightarrow> tp_time (tr ! i) \<le> tp_time (tr ! j)"
  by (cases "i = j") (auto dest: samples_less [of tr i j])

lemma segment_end_pass:
  assumes "is_pass tr a e" "a \<le> i" "i \<le> e"
  shows "segment_end tr i = e"
  using assms(2,3)
proof (induction "e - i" arbitrary: i)
  case 0
  then have "i = e" by simp
  then show ?case using assms(1) by (subst segment_end.simps) (auto simp: is_pass_def)
next
  case (Suc d)
  then have "i < e" by linarith
  then have "segment_end tr i = segment_end tr (i + 1)"
    using assms(1) Suc.prems by (subst segment_end.simps) (auto simp: is_pass_def not_less)
  then show ?case using Suc.hyps(1) [of "i + 1"] Suc.hyps(2) Suc.prems \<open>i < e\<close> by simp
qed

text \<open>On ordered samples the bracket of a time is the sample before it.\<close>

lemma bracket_from_at:
  assumes "samples_ordered tr" "k + 1 < length tr" "tp_time (tr ! k) < t" "t \<le> tp_time (tr ! (k + 1))" "i \<le> k"
  shows "bracket_from tr t i = k"
  using assms(5)
proof (induction "k - i" arbitrary: i)
  case 0
  then show ?case using assms(2,4) by (simp add: bracket_from.simps [of tr t i])
next
  case (Suc d)
  then have "i < k" by linarith
  have "tp_time (tr ! (i + 1)) \<le> tp_time (tr ! k)"
    using samples_le [OF assms(1), of "i + 1" k] assms(2) \<open>i < k\<close> by simp
  then have "bracket_from tr t i = bracket_from tr t (i + 1)"
    using assms(2,3) \<open>i < k\<close> by (subst bracket_from.simps) auto
  then show ?case using Suc.hyps(1) [of "i + 1"] Suc.hyps(2) \<open>i < k\<close> by simp
qed

lemma sample_before:
  assumes "a < e" "tp_time (tr ! a) < t" "t \<le> tp_time (tr ! e)"
  shows "\<exists>k. a \<le> k \<and> k < e \<and> tp_time (tr ! k) < t \<and> t \<le> tp_time (tr ! (k + 1))"
  using assms(1,3)
proof (induction e)
  case (Suc e)
  show ?case
  proof (cases "t \<le> tp_time (tr ! e)")
    case True
    then have "a < e" using Suc.prems(1) assms(2) by (cases "a = e") auto
    then show ?thesis using Suc.IH True by (auto intro: less_SucI)
  next
    case False
    then show ?thesis using Suc.prems by (intro exI [of _ e]) auto
  qed
qed simp

lemma FindTrajectoryBracket_at:
  assumes "samples_ordered tr" "k + 1 < length tr" "tp_time (tr ! k) < t" "t \<le> tp_time (tr ! (k + 1))"
  shows "FindTrajectoryBracket tr t =
    (if t = tp_time (tr ! (k + 1)) then Some (if k + 2 = length tr then k + 1 else k)
     else if sample_gap tr k > TRAJECTORY_GAP_THRESHOLD then None else Some k)"
proof -
  have ne: "tr \<noteq> []" using assms(2) by auto
  then have ends: "hd tr = tr ! 0" "last tr = tr ! (length tr - 1)" "tr \<noteq> []"
    by (simp_all add: hd_conv_nth last_conv_nth)
  have first: "tp_time (hd tr) \<le> tp_time (tr ! k)" using samples_le [OF assms(1), of 0 k] assms(2) ends by simp
  have "tp_time (tr ! (k + 1)) \<le> tp_time (last tr)"
    using samples_le [OF assms(1), of "k + 1" "length tr - 1"] assms(2) ends by simp
  moreover have "k + 2 \<noteq> length tr \<Longrightarrow> tp_time (tr ! (k + 1)) < tp_time (last tr)"
    using samples_less [OF assms(1), of "k + 1" "length tr - 1"] assms(2) ends by simp
  moreover have "k + 2 = length tr \<Longrightarrow> last tr = tr ! (k + 1)"
    unfolding ends(2) by (rule arg_cong [of _ _ "(!) tr"]) linarith
  ultimately show ?thesis
    using first assms(2-4) bracket_from_at [OF assms(1-4), of 0] ends(3)
    unfolding FindTrajectoryBracket_def Let_def by (auto simp: not_less)
qed

lemma segment_end_gap: "sample_gap tr k > TRAJECTORY_GAP_THRESHOLD \<Longrightarrow> segment_end tr k = k"
  by (simp add: segment_end.simps)

lemma remaining_in_pass:
  assumes "map_of sats n = Some sat" "samples_ordered (trajectory sat)" "is_pass (trajectory sat) a e"
    and from_start: "tp_time (trajectory sat ! a) < t \<or> a = 0 \<and> t = tp_time (trajectory sat ! 0)"
    and till: "t \<le> tp_time (trajectory sat ! e)"
  shows "GetSatelliteRemainingServiceTime sats n t = tp_time (trajectory sat ! e) - t"
proof -
  let ?tr = "trajectory sat"
  note pass = assms(3)
  have "\<exists>j. FindTrajectoryBracket ?tr t = Some j \<and> a \<le> j \<and> j \<le> e"
  proof (cases "tp_time (?tr ! a) < t")
    case True
    then have "a < e" using till pass by (cases "a = e") (auto simp: is_pass_def)
    then obtain k where k: "a \<le> k" "k < e" "tp_time (?tr ! k) < t" "t \<le> tp_time (?tr ! (k + 1))"
      using sample_before [OF _ True till] by blast
    then have "k + 1 < length ?tr" "\<not> sample_gap ?tr k > TRAJECTORY_GAP_THRESHOLD"
      using pass by (auto simp: is_pass_def not_less)
    then show ?thesis using FindTrajectoryBracket_at [OF assms(2) _ k(3,4)] k(1,2) by auto
  next
    case False
    then have start: "a = 0" "t = tp_time (?tr ! 0)" using from_start by auto
    have e: "e < length ?tr" "?tr \<noteq> []" using pass by (auto simp: is_pass_def)
    have "hd ?tr = ?tr ! 0" "last ?tr = ?tr ! (length ?tr - 1)" using e(2) by (simp_all add: hd_conv_nth last_conv_nth)
    moreover have "bracket_from ?tr t 0 = 0"
      using start(2) samples_le [OF assms(2), of 0 1] by (subst bracket_from.simps) auto
    moreover have "length ?tr \<noteq> 1 \<Longrightarrow> t < tp_time (?tr ! (length ?tr - 1))"
      using start(2) e(2) samples_less [OF assms(2), of 0 "length ?tr - 1"] by (cases "length ?tr") auto
    ultimately show ?thesis
      using start e pass unfolding FindTrajectoryBracket_def Let_def
      by (cases "length ?tr = 1") (auto simp: is_pass_def)
  qed
  then obtain j where "FindTrajectoryBracket ?tr t = Some j" "a \<le> j" "j \<le> e" by blast
  then show "GetSatelliteRemainingServiceTime sats n t = tp_time (?tr ! e) - t"
    using assms(1) segment_end_pass [OF pass] till by (simp add: GetSatelliteRemainingServiceTime_def)
qed

lemma no_time_in_gap:
  assumes "map_of sats n = Some sat" "samples_ordered (trajectory sat)"
    and "k + 1 < length (trajectory sat)" "sample_gap (trajectory sat) k > TRAJECTORY_GAP_THRESHOLD"
    "tp_time (trajectory sat ! k) < t" "t < tp_time (trajectory sat ! (k + 1))"
  shows "GetSatelliteRemainingServiceTime sats n t = 0"
  using assms FindTrajectoryBracket_at [OF assms(2), of k t] by (simp add: GetSatelliteRemainingServiceTime_def)


text \<open>At the very first sample of a pass that is not the first one the remaining service time is 0,
  although right after it the whole pass is left: the bracket found there is the last sample before the
  gap.\<close>
theorem pass_start_has_no_time:
  assumes "map_of sats n = Some sat" "samples_ordered (trajectory sat)" "is_pass (trajectory sat) a e" "a > 0"
  shows "GetSatelliteRemainingServiceTime sats n (tp_time (trajectory sat ! a)) = 0 \<and>
    (\<forall>t. tp_time (trajectory sat ! a) < t \<and> t \<le> tp_time (trajectory sat ! e) \<longrightarrow>
      GetSatelliteRemainingServiceTime sats n t = tp_time (trajectory sat ! e) - t)"
proof -
  let ?tr = "trajectory sat" and ?k = "a - 1"
  have k: "?k + 1 < length ?tr" "sample_gap ?tr ?k > TRAJECTORY_GAP_THRESHOLD" "?k + 1 = a"
    using assms(3,4) by (auto simp: is_pass_def)
  have less: "tp_time (?tr ! ?k) < tp_time (?tr ! a)" using samples_less [OF assms(2), of ?k a] k by simp
  then have bracket: "FindTrajectoryBracket ?tr (tp_time (?tr ! a)) = Some (if ?k + 2 = length ?tr then a else ?k)"
    using FindTrajectoryBracket_at [OF assms(2) k(1), of "tp_time (?tr ! a)"] k(3) by simp
  have "?k + 2 = length ?tr \<Longrightarrow> segment_end ?tr a = a"
    using k by (subst segment_end.simps) simp
  then show ?thesis
    using assms(1) bracket segment_end_gap [OF k(2)] less remaining_in_pass [OF assms(1-3)]
    by (auto simp: GetSatelliteRemainingServiceTime_def)
qed

definition two_passes :: SatelliteState where
  "two_passes = \<lparr>sat_name = ''A'', trajectory = [sample 0 700, sample 60 800, sample 200 900, sample 260 800]\<rparr>"

lemma two_passes_facts: "map_of [(''A'', two_passes)] ''A'' = Some two_passes" "samples_ordered (trajectory two_passes)"
  "is_pass (trajectory two_passes) 2 3"
  by (auto simp: two_passes_def samples_ordered_def is_pass_def sample_gap_def TRAJECTORY_GAP_THRESHOLD_def numeral_2_eq_2
      numeral_3_eq_3 less_Suc_eq)


lemma pass_start_has_no_time_witness:
  "GetSatelliteRemainingServiceTime [(''A'', two_passes)] ''A'' 200 = 0 \<and>
   GetSatelliteRemainingServiceTime [(''A'', two_passes)] ''A'' 201 = 59"
  using pass_start_has_no_time [OF two_passes_facts] by (simp add: two_passes_def)

subsection \<open>The serving-time program\<close>

lemma zero_less_one_div_giga: "0 < (1 :: real) / 10 ^ 9"
  by simp

lemma longest_fold:
  assumes "foldl (\<lambda>(best, bestTime, bestDist) m. let remainingTime = R m in
      if longer_or_closer remainingTime (mr_distance m) bestTime bestDist
      then (Some m, remainingTime, mr_distance m) else (best, bestTime, bestDist)) (b0, t0, d0) ms = (b, t, d)"
  shows "t0 \<le> t + length ms / 10 ^ 9 \<and> (\<forall>m \<in> set ms. R m \<le> t + length ms / 10 ^ 9) \<and>
    ((b, t, d) = (b0, t0, d0) \<or> (\<exists>m \<in> set ms. b = Some m \<and> t = R m))"
  using assms
proof (induction ms arbitrary: b0 t0 d0)
  case (Cons m ms)
  show ?case
  proof (cases "longer_or_closer (R m) (mr_distance m) t0 d0")
    case True
    then have "R m \<le> t + length ms / 10 ^ 9 \<and> (\<forall>m \<in> set ms. R m \<le> t + length ms / 10 ^ 9) \<and>
        ((b, t, d) = (Some m, R m, mr_distance m) \<or> (\<exists>m \<in> set ms. b = Some m \<and> t = R m))"
      using Cons.IH [of "Some m" "R m" "mr_distance m"] Cons.prems by simp
    moreover have "t0 \<le> R m + 1 / 10 ^ 9"
      using True zero_less_one_div_giga unfolding longer_or_closer_def by linarith
    ultimately show ?thesis by (auto simp: add_divide_distrib)
  next
    case False
    then have "t0 \<le> t + length ms / 10 ^ 9 \<and> (\<forall>m \<in> set ms. R m \<le> t + length ms / 10 ^ 9) \<and>
        ((b, t, d) = (b0, t0, d0) \<or> (\<exists>m \<in> set ms. b = Some m \<and> t = R m))"
      using Cons.IH [of b0 t0 d0] Cons.prems by simp
    moreover have "R m \<le> t0" using False unfolding longer_or_closer_def by linarith
    ultimately show ?thesis by (auto simp: add_divide_distrib)
  qed
qed simp

lemma longest_neighbour_longest:
  assumes "longest_neighbour sats t ms = (b, bt, bd)"
  shows "(\<forall>m \<in> set ms. GetSatelliteRemainingServiceTime sats (mr_cellId m) t \<le> bt + length ms / 10 ^ 9) \<and>
    (\<forall>m. b = Some m \<longrightarrow> m \<in> set ms \<and> bt = GetSatelliteRemainingServiceTime sats (mr_cellId m) t)"
  using longest_fold [of "\<lambda>m. GetSatelliteRemainingServiceTime sats (mr_cellId m) t" None "-1" "10 ^ 18" ms b bt bd] assms
  by (auto simp: longest_neighbour_def)

lemma ServingTime_measured_at:
  "m \<in> set (ServingTime_PerformMeasurements P sats ue t) \<Longrightarrow> measurementTime m = t"
  by (auto simp: ServingTime_PerformMeasurements_def UE_MeasureCell_def Let_def split: option.split)

lemma serving_time_step_reports: "fst (serving_time_step met ntn c t ttt ms) \<Longrightarrow> met"
  by (auto simp: serving_time_step_def split: if_splits)

lemma if_Some_None_iff: "(if b then Some x else None) = Some y \<longleftrightarrow> b \<and> x = y"
  by simp

lemma ServingTime_report_decision:
  assumes "ServingTime_EvaluateAndReport P mst i t w = (Some r, w')" "sid \<noteq> []"
   "find (\<lambda>m. mr_cellId m = sid) ms = Some s"
   "longest_neighbour (g_satellites w) t (other_cells sid ms) = (Some b, bt, bd)"
   "ms = ServingTime_PerformMeasurements P (g_satellites w) (the_ue i w) t"
    and "sid = servingCellId (measState (the_ue i w))" "mr_cellId s = sid"
  shows "(ServingTime_PreparationCondition P (g_satellites w) s b (g_reportingOffset P) \<or>
        ServingTime_NtnTriggers mst (g_satellites w) s \<and>
        bt > GetSatelliteRemainingServiceTime (g_satellites w) sid t) \<and>
        r = serving_time_report t (ServingTime_NtnTriggers mst (g_satellites w) s)
          (bt > GetSatelliteRemainingServiceTime (g_satellites w) sid t) s (Some b)"
proof -
  have "\<exists>c ttt st. fst (serving_time_step (ServingTime_PreparationCondition P (g_satellites w) s b (g_reportingOffset P) \<or>
        ServingTime_NtnTriggers mst (g_satellites w) s \<and>
        bt > GetSatelliteRemainingServiceTime (g_satellites w) (mr_cellId s) t) (ServingTime_NtnTriggers mst (g_satellites w) s) c t ttt st) \<and>
      r = serving_time_report t (ServingTime_NtnTriggers mst (g_satellites w) s)
          (bt > GetSatelliteRemainingServiceTime (g_satellites w) (mr_cellId s) t) s (Some b)"
    using assms(1) [unfolded ServingTime_EvaluateAndReport_def Let_def assms(5,6) [symmetric] assms(3,4) case_prod_conv option.case
      if_not_P [OF assms(2)] if_Some_None_iff]
    unfolding case_prod_beta prod.inject if_Some_None_iff if_not_P [OF assms(2)] assms(3,4) option.case case_prod_conv fst_conv snd_conv
    by (auto simp del: prod.collapse)
  then show ?thesis using serving_time_step_reports assms(7) by metis
qed

lemma ServingTime_report_cases:
  assumes "ServingTime_EvaluateAndReport P mst i t w = (Some r, w')" "mr_eventType r \<noteq> ''RLF''"
    and "ms = ServingTime_PerformMeasurements P (g_satellites w) (the_ue i w) t"
    and "sid = servingCellId (measState (the_ue i w))"
  obtains s b bt bd where "s \<in> set ms" "mr_cellId s = sid" "servingCell r = s" "neighborCells r = [b]"
    "longest_neighbour (g_satellites w) t (other_cells sid ms) = (Some b, bt, bd)"
    "ServingTime_PreparationCondition P (g_satellites w) s b (g_reportingOffset P) \<or>
      bt > GetSatelliteRemainingServiceTime (g_satellites w) sid t"
    "mr_eventType r = ''NTN_CRITICAL'' \<Longrightarrow> ServingTime_NtnTriggers mst (g_satellites w) s"
proof -
  have sid: "sid \<noteq> []" using assms(1,4) by (auto simp: ServingTime_EvaluateAndReport_def Let_def)
  obtain s where s: "find (\<lambda>m. mr_cellId m = sid) ms = Some s"
  proof (cases "find (\<lambda>m. mr_cellId m = sid) ms")
    case None
    then have "r = rlf_report t sid"
      using assms(1,3,4) sid by (simp add: ServingTime_EvaluateAndReport_def Let_def)
    then show ?thesis using assms(2) by (simp add: rlf_report_def)
  qed
  have found: "s \<in> set ms" "mr_cellId s = sid" using s by (auto simp: find_Some_iff)
  obtain best bt bd where lo: "longest_neighbour (g_satellites w) t (other_cells sid ms) = (best, bt, bd)"
    by (metis prod_cases3)
  show thesis
  proof (cases best)
    case None
    then show ?thesis
      using assms(1) sid s lo None
      by (simp add: ServingTime_EvaluateAndReport_def Let_def assms(3,4) serving_time_step_def)
  next
    case (Some b)
    note dec = ServingTime_report_decision [OF assms(1) sid s lo [unfolded Some] assms(3,4) found(2)]
    show ?thesis
    proof (rule that)
      show "servingCell r = s" "neighborCells r = [b]"
        using dec by (simp_all add: serving_time_report_def)
      show "mr_eventType r = ''NTN_CRITICAL'' \<Longrightarrow> ServingTime_NtnTriggers mst (g_satellites w) s"
        using dec by (simp add: serving_time_report_def split: if_splits)
    qed (use found lo Some dec in blast)+
  qed
qed


definition served_satellites :: satellites where
  "served_satellites = [(''A'', \<lparr>sat_name = ''A'', trajectory = [sample 0 700, sample 80 800]\<rparr>),
     (''B'', \<lparr>sat_name = ''B'', trajectory = [sample 0 700, sample 90 800, sample 180 900]\<rparr>)]"

lemma served_remaining: "GetSatelliteRemainingServiceTime served_satellites ''A'' 5 = 75"
  "GetSatelliteRemainingServiceTime served_satellites ''B'' 5 = 175"
  by (simp_all add: GetSatelliteRemainingServiceTime_def served_satellites_def FindTrajectoryBracket_def Let_def
      bracket_from.simps segment_end.simps sample_gap_def TRAJECTORY_GAP_THRESHOLD_def)


end
