(* ===== verification/Stream_Numbers.thy ===== *)
theory Stream_Numbers
  imports Prelude
begin

text \<open>
  Decimal numbers as the parsers of the network module read them from a string stream and write them to
  one. The conversion of the standard library takes the longest prefix of digits, for a \<open>double\<close> with one
  decimal point, and yields 0 if there are no digits.
\<close>

definition digit :: "char \<Rightarrow> bool" where
  "digit c \<longleftrightarrow> 48 \<le> (of_char c :: nat) \<and> (of_char c :: nat) \<le> 57"

definition digit_val :: "char \<Rightarrow> nat" where
  "digit_val c = of_char c - 48"

definition dec_of :: "string \<Rightarrow> nat" where
  "dec_of s = foldl (\<lambda>n c. 10 * n + digit_val c) 0 s"

definition read_uint :: "string \<Rightarrow> nat" where
  "read_uint s = dec_of (takeWhile digit s)"

definition read_double :: "string \<Rightarrow> real" where
  "read_double s =
     (let whole = takeWhile digit s; rest = dropWhile digit s;
          frac = (if rest \<noteq> [] \<and> hd rest = CHR ''.'' then takeWhile digit (tl rest) else [])
      in real (dec_of (whole @ frac)) / 10 ^ length frac)"

text \<open>\<open>s.find_first_not_of ("0123456789.")\<close> splits a string into its number and the unit after it.\<close>

definition number_part :: "string \<Rightarrow> string" where
  "number_part s = takeWhile (\<lambda>c. digit c \<or> c = CHR ''.'') s"

definition unit_part :: "string \<Rightarrow> string" where
  "unit_part s = dropWhile (\<lambda>c. digit c \<or> c = CHR ''.'') s"

fun show_dec :: "nat \<Rightarrow> string" where
  "show_dec n = (if n < 10 then [char_of (48 + n)] else show_dec (n div 10) @ [char_of (48 + n mod 10)])"

declare show_dec.simps [simp del]

lemma digit_char_of: "n < 10 \<Longrightarrow> digit (char_of (48 + n))" "n < 10 \<Longrightarrow> digit_val (char_of (48 + n)) = n"
  by (simp_all add: digit_def digit_val_def)

lemma show_dec_digits: "list_all digit (show_dec n)"
proof (induction n rule: show_dec.induct)
  case (1 n)
  then show ?case by (subst show_dec.simps) (simp add: digit_char_of)
qed

lemma dec_of_show_dec: "dec_of (show_dec n) = n"
proof (induction n rule: show_dec.induct)
  case (1 n)
  then show ?case by (subst show_dec.simps) (auto simp: dec_of_def digit_char_of)
qed

lemma takeWhile_digits: "list_all P s \<Longrightarrow> \<not> P c \<Longrightarrow> takeWhile P (s @ c # t) = s"
  "list_all P s \<Longrightarrow> \<not> P c \<Longrightarrow> dropWhile P (s @ c # t) = c # t"
  by (simp_all add: list_all_iff)

lemma read_double_digits: "list_all digit s \<Longrightarrow> read_double s = real (dec_of s)"
  by (simp add: read_double_def list_all_iff takeWhile_eq_all_conv [THEN iffD2] dropWhile_eq_Nil_conv [THEN iffD2])

text \<open>What is printed before a unit that starts with a letter is read back.\<close>

lemma printed_parts:
  assumes "\<not> digit c" "c \<noteq> CHR ''.''"
  shows "number_part (show_dec n @ c # t) = show_dec n" "unit_part (show_dec n @ c # t) = c # t"
  using show_dec_digits [of n] assms
  by (auto simp: number_part_def unit_part_def list_all_iff intro!: takeWhile_digits)

lemma read_double_show_dec: "read_double (show_dec n) = real n"
  by (simp add: read_double_digits show_dec_digits dec_of_show_dec)

end
