(* ===== verification/Queue_Size.thy ===== *)
theory Queue_Size
  imports Stream_Numbers
begin

text \<open>
  \<open>QueueSize\<close> (\<open>src/src/network/utils/queue-size.cc\<close>, \<open>queue-size.h\<close>): a number of packets or of bytes in 32 bits,
  parsed from strings such as \<open>100p\<close>. \<^const>\<open>None\<close> is a call that aborts. A \<open>double\<close> is \<^typ>\<open>real\<close>; the cast of a
  number beyond 32 bits, which C++ leaves undefined, wraps here.
\<close>

datatype QueueSizeUnit = PACKETS | BYTES

record QueueSize =
  qs_unit :: QueueSizeUnit
  qs_value :: uint32

definition uint32_of_double :: "real \<Rightarrow> uint32" where
  "uint32_of_double r = word_of_int \<lfloor>r\<rfloor>"

text \<open>The comparisons of \<open>DoParse\<close> in their order.\<close>

definition queue_size_units :: "(string \<times> QueueSizeUnit \<times> real) list" where
  "queue_size_units =
     [(''B'', BYTES, 1), (''kB'', BYTES, 1000), (''KB'', BYTES, 1000), (''KiB'', BYTES, 1024),
      (''MB'', BYTES, 1000000), (''MiB'', BYTES, 1048576),
      (''p'', PACKETS, 1), (''kp'', PACKETS, 1000), (''Kp'', PACKETS, 1000), (''Kip'', PACKETS, 1024),
      (''Mp'', PACKETS, 1000000), (''Mip'', PACKETS, 1048576)]"

definition QueueSize_DoParse :: "string \<Rightarrow> QueueSize option" where
  "QueueSize_DoParse s =
     (if unit_part s \<noteq> []
      then let r = read_double (number_part s) in
        (case map_of queue_size_units (unit_part s) of
           None \<Rightarrow> None
         | Some (u, k) \<Rightarrow> Some \<lparr>qs_unit = u, qs_value = uint32_of_double (r * k)\<rparr>)
      else None)"

definition QueueSize_print :: "QueueSize \<Rightarrow> string" where
  "QueueSize_print s = show_dec (unat (qs_value s)) @ (if qs_unit s = PACKETS then ''p'' else ''B'')"

definition same_unit :: "QueueSize \<Rightarrow> QueueSize \<Rightarrow> bool \<Rightarrow> bool option" where
  "same_unit s s' b = (if qs_unit s \<noteq> qs_unit s' then None else Some b)"

definition QueueSize_less :: "QueueSize \<Rightarrow> QueueSize \<Rightarrow> bool option" where
  "QueueSize_less s s' = same_unit s s' (qs_value s < qs_value s')"

definition QueueSize_less_eq :: "QueueSize \<Rightarrow> QueueSize \<Rightarrow> bool option" where
  "QueueSize_less_eq s s' = same_unit s s' (qs_value s \<le> qs_value s')"

definition QueueSize_greater :: "QueueSize \<Rightarrow> QueueSize \<Rightarrow> bool option" where
  "QueueSize_greater s s' = same_unit s s' (qs_value s' < qs_value s)"

definition QueueSize_greater_eq :: "QueueSize \<Rightarrow> QueueSize \<Rightarrow> bool option" where
  "QueueSize_greater_eq s s' = same_unit s s' (qs_value s' \<le> qs_value s)"

definition QueueSize_equal :: "QueueSize \<Rightarrow> QueueSize \<Rightarrow> bool option" where
  "QueueSize_equal s s' = same_unit s s' (qs_value s = qs_value s')"

text \<open>\<open>sz\<close> is the \<open>GetSize\<close> of the items of the queue.\<close>

definition QueueSize_plus :: "('a \<Rightarrow> uint32) \<Rightarrow> QueueSize \<Rightarrow> 'a \<Rightarrow> QueueSize" where
  "QueueSize_plus sz s item =
     (case qs_unit s of
        PACKETS \<Rightarrow> s\<lparr>qs_value := qs_value s + 1\<rparr>
      | BYTES \<Rightarrow> s\<lparr>qs_value := qs_value s + sz item\<rparr>)"

definition QueueSize_minus :: "('a \<Rightarrow> uint32) \<Rightarrow> QueueSize \<Rightarrow> 'a \<Rightarrow> QueueSize option" where
  "QueueSize_minus sz s item =
     (case qs_unit s of
        PACKETS \<Rightarrow> if qs_value s < 1 then None else Some (s\<lparr>qs_value := qs_value s - 1\<rparr>)
      | BYTES \<Rightarrow> if qs_value s < sz item then None else Some (s\<lparr>qs_value := qs_value s - sz item\<rparr>))"

lemma queue_unit_lookup: "map_of queue_size_units ''B'' = Some (BYTES, 1)" "map_of queue_size_units ''p'' = Some (PACKETS, 1)"
  by (simp_all add: queue_size_units_def)

lemma uint32_of_double_unat: "uint32_of_double (real (unat r)) = r"
proof -
  have "\<lfloor>real (unat r)\<rfloor> = int (unat r)" by (rule floor_of_nat)
  then show ?thesis unfolding uint32_of_double_def by simp
qed

text \<open>What the stream output of a queue size prints, \<open>DoParse\<close> reads back as the same size, for every
  unit and value; but a number with a space before its unit, as in "128 kB", is refused.\<close>
theorem queue_size_roundtrip:
  "QueueSize_DoParse (QueueSize_print s) = Some s \<and> QueueSize_DoParse (show_dec n @ '' kB'') = None"
proof -
  have cs: "\<not> digit CHR ''p''" "\<not> digit CHR ''B''" "\<not> digit CHR '' ''" by (simp_all add: digit_def)
  define t where "t = (if qs_unit s = PACKETS then ''p'' else ''B'')"
  have parts: "number_part (QueueSize_print s) = show_dec (unat (qs_value s))" "unit_part (QueueSize_print s) = t"
    using printed_parts [of "CHR ''p''" "unat (qs_value s)" "[]"] printed_parts [of "CHR ''B''" "unat (qs_value s)" "[]"] cs
    by (simp_all add: QueueSize_print_def t_def)
  have u: "t \<noteq> []" "map_of queue_size_units t = Some (qs_unit s, 1)"
    by (cases "qs_unit s"; simp add: t_def queue_unit_lookup)+
  have "QueueSize_DoParse (QueueSize_print s) = Some s"
    unfolding QueueSize_DoParse_def parts read_double_show_dec Let_def using u
    by (simp only: if_True if_False not_False_eq_True option.case prod.case mult_1_right uint32_of_double_unat) simp
  moreover have "unit_part (show_dec n @ '' kB'') = '' kB''"
    using printed_parts(2) [of "CHR '' ''" n "''kB''"] cs by simp
  then have "QueueSize_DoParse (show_dec n @ '' kB'') = None"
    by (simp add: QueueSize_DoParse_def queue_size_units_def Let_def)
  ultimately show ?thesis by simp
qed

end
