(* ===== verification/Drop_Tail_Queue.thy ===== *)
theory Drop_Tail_Queue
  imports Queue_Size
begin

text \<open>
  The queue of a net device: \<open>QueueBase\<close> and \<open>Queue<Item>\<close> (\<open>src/src/network/utils/queue.cc\<close>, \<open>queue.h\<close>) with its
  counters in 32 bits, and \<open>DropTailQueue\<close> (\<open>drop-tail-queue.h\<close>), which uses the container as a FIFO. The item
  type is a parameter; \<open>sz\<close> is its \<open>GetSize\<close>. The calls of the trace sources are a list of entries.
  \<^const>\<open>None\<close> is a call that does not return because an assertion fails or the program aborts.
\<close>

subsection \<open>State\<close>

datatype 'a queue_trace =
    is_enq: TraceEnqueue (traced_item: 'a)
  | is_deq: TraceDequeue (traced_item: 'a)
  | is_drop: TraceDrop (traced_item: 'a)
  | is_drop_before: TraceDropBeforeEnqueue (traced_item: 'a)
  | is_drop_after: TraceDropAfterDequeue (traced_item: 'a)

record 'a Queue =
  m_packets :: "'a list"
  m_nBytes :: uint32
  m_nTotalReceivedBytes :: uint32
  m_nPackets :: uint32
  m_nTotalReceivedPackets :: uint32
  m_nTotalDroppedBytes :: uint32
  m_nTotalDroppedBytesBeforeEnqueue :: uint32
  m_nTotalDroppedBytesAfterDequeue :: uint32
  m_nTotalDroppedPackets :: uint32
  m_nTotalDroppedPacketsBeforeEnqueue :: uint32
  m_nTotalDroppedPacketsAfterDequeue :: uint32
  m_maxSize :: QueueSize
  q_trace :: "'a queue_trace list"

definition QueueBase_init :: "'a Queue" where
  "QueueBase_init =
     \<lparr>m_packets = [], m_nBytes = 0, m_nTotalReceivedBytes = 0, m_nPackets = 0, m_nTotalReceivedPackets = 0,
      m_nTotalDroppedBytes = 0, m_nTotalDroppedBytesBeforeEnqueue = 0, m_nTotalDroppedBytesAfterDequeue = 0,
      m_nTotalDroppedPackets = 0, m_nTotalDroppedPacketsBeforeEnqueue = 0, m_nTotalDroppedPacketsAfterDequeue = 0,
      m_maxSize = \<lparr>qs_unit = PACKETS, qs_value = 2 ^ 32 - 1\<rparr>, q_trace = []\<rparr>"

subsection \<open>QueueBase\<close>

definition Queue_IsEmpty :: "'a Queue \<Rightarrow> bool" where
  "Queue_IsEmpty q \<longleftrightarrow> m_nPackets q = 0"

definition GetCurrentSize :: "'a Queue \<Rightarrow> QueueSize" where
  "GetCurrentSize q =
     (case qs_unit (m_maxSize q) of
        PACKETS \<Rightarrow> \<lparr>qs_unit = PACKETS, qs_value = m_nPackets q\<rparr>
      | BYTES \<Rightarrow> \<lparr>qs_unit = BYTES, qs_value = m_nBytes q\<rparr>)"

definition ResetStatistics :: "'a Queue \<Rightarrow> 'a Queue" where
  "ResetStatistics q =
     q\<lparr>m_nTotalReceivedBytes := 0, m_nTotalReceivedPackets := 0,
       m_nTotalDroppedBytes := 0, m_nTotalDroppedBytesBeforeEnqueue := 0, m_nTotalDroppedBytesAfterDequeue := 0,
       m_nTotalDroppedPackets := 0, m_nTotalDroppedPacketsBeforeEnqueue := 0,
       m_nTotalDroppedPacketsAfterDequeue := 0\<rparr>"

definition SetMaxSize :: "QueueSize \<Rightarrow> 'a Queue \<Rightarrow> 'a Queue option" where
  "SetMaxSize new_size q =
     (if qs_value new_size = 0 then Some q
      else let q1 = q\<lparr>m_maxSize := new_size\<rparr> in
        (case QueueSize_less new_size (GetCurrentSize q1) of
           Some False \<Rightarrow> Some q1
         | _ \<Rightarrow> None))"

definition WouldOverflow :: "uint32 \<Rightarrow> uint32 \<Rightarrow> 'a Queue \<Rightarrow> bool" where
  "WouldOverflow nPackets nBytes q =
     (case qs_unit (m_maxSize q) of
        PACKETS \<Rightarrow> qs_value (m_maxSize q) < m_nPackets q + nPackets
      | BYTES \<Rightarrow> qs_value (m_maxSize q) < m_nBytes q + nBytes)"

subsection \<open>Queue\<close>

definition DropBeforeEnqueue :: "('a \<Rightarrow> uint32) \<Rightarrow> 'a \<Rightarrow> 'a Queue \<Rightarrow> 'a Queue" where
  "DropBeforeEnqueue sz item q =
     q\<lparr>m_nTotalDroppedPackets := m_nTotalDroppedPackets q + 1,
       m_nTotalDroppedPacketsBeforeEnqueue := m_nTotalDroppedPacketsBeforeEnqueue q + 1,
       m_nTotalDroppedBytes := m_nTotalDroppedBytes q + sz item,
       m_nTotalDroppedBytesBeforeEnqueue := m_nTotalDroppedBytesBeforeEnqueue q + sz item,
       q_trace := q_trace q @ [TraceDrop item, TraceDropBeforeEnqueue item]\<rparr>"

definition DropAfterDequeue :: "('a \<Rightarrow> uint32) \<Rightarrow> 'a \<Rightarrow> 'a Queue \<Rightarrow> 'a Queue" where
  "DropAfterDequeue sz item q =
     q\<lparr>m_nTotalDroppedPackets := m_nTotalDroppedPackets q + 1,
       m_nTotalDroppedPacketsAfterDequeue := m_nTotalDroppedPacketsAfterDequeue q + 1,
       m_nTotalDroppedBytes := m_nTotalDroppedBytes q + sz item,
       m_nTotalDroppedBytesAfterDequeue := m_nTotalDroppedBytesAfterDequeue q + sz item,
       q_trace := q_trace q @ [TraceDrop item, TraceDropAfterDequeue item]\<rparr>"

text \<open>The position of a container iterator is an index; \<open>end ()\<close> is the length.\<close>

definition store_item :: "('a \<Rightarrow> uint32) \<Rightarrow> nat \<Rightarrow> 'a \<Rightarrow> 'a Queue \<Rightarrow> 'a Queue" where
  "store_item sz pos item q =
     q\<lparr>m_packets := take pos (m_packets q) @ item # drop pos (m_packets q),
       m_nBytes := m_nBytes q + sz item,
       m_nTotalReceivedBytes := m_nTotalReceivedBytes q + sz item,
       m_nPackets := m_nPackets q + 1,
       m_nTotalReceivedPackets := m_nTotalReceivedPackets q + 1,
       q_trace := q_trace q @ [TraceEnqueue item]\<rparr>"

definition DoEnqueue :: "('a \<Rightarrow> uint32) \<Rightarrow> nat \<Rightarrow> 'a \<Rightarrow> 'a Queue \<Rightarrow> (bool \<times> 'a Queue) option" where
  "DoEnqueue sz pos item q =
     map_option (\<lambda>too_big. if too_big then (False, DropBeforeEnqueue sz item q) else (True, store_item sz pos item q))
       (QueueSize_greater (QueueSize_plus sz (GetCurrentSize q) item) (m_maxSize q))"

text \<open>Taking an item out, common to \<open>DoDequeue\<close> and \<open>DoRemove\<close>; the iterator must point to an item.\<close>

definition take_item :: "('a \<Rightarrow> uint32) \<Rightarrow> nat \<Rightarrow> 'a Queue \<Rightarrow> ('a \<times> 'a Queue) option" where
  "take_item sz pos q =
     (if pos \<ge> length (m_packets q) then None
      else let item = m_packets q ! pos;
               q1 = q\<lparr>m_packets := take pos (m_packets q) @ drop (Suc pos) (m_packets q)\<rparr>
           in if \<not> (sz item \<le> m_nBytes q1 \<and> 0 < m_nPackets q1) then None
              else Some (item, q1\<lparr>m_nBytes := m_nBytes q1 - sz item, m_nPackets := m_nPackets q1 - 1,
                                 q_trace := q_trace q1 @ [TraceDequeue item]\<rparr>))"

definition DoDequeue :: "('a \<Rightarrow> uint32) \<Rightarrow> nat \<Rightarrow> 'a Queue \<Rightarrow> ('a option \<times> 'a Queue) option" where
  "DoDequeue sz pos q =
     (if m_nPackets q = 0 then Some (None, q)
      else map_option (\<lambda>(item, q1). (Some item, q1)) (take_item sz pos q))"

definition DoRemove :: "('a \<Rightarrow> uint32) \<Rightarrow> nat \<Rightarrow> 'a Queue \<Rightarrow> ('a option \<times> 'a Queue) option" where
  "DoRemove sz pos q =
     (if m_nPackets q = 0 then Some (None, q)
      else map_option (\<lambda>(item, q1). (Some item, DropAfterDequeue sz item q1)) (take_item sz pos q))"

definition DoPeek :: "nat \<Rightarrow> 'a Queue \<Rightarrow> 'a option option" where
  "DoPeek pos q =
     (if m_nPackets q = 0 then Some None
      else if pos \<ge> length (m_packets q) then None else Some (Some (m_packets q ! pos)))"

definition Queue_DoDispose :: "'a Queue \<Rightarrow> 'a Queue" where
  "Queue_DoDispose q = q\<lparr>m_packets := []\<rparr>"

subsection \<open>DropTailQueue\<close>

text \<open>The attribute \<open>MaxSize\<close> has the default \<open>100p\<close>.\<close>

definition DropTailQueue_init :: "'a Queue" where
  "DropTailQueue_init = the (SetMaxSize (the (QueueSize_DoParse ''100p'')) QueueBase_init)"

definition Enqueue :: "('a \<Rightarrow> uint32) \<Rightarrow> 'a \<Rightarrow> 'a Queue \<Rightarrow> (bool \<times> 'a Queue) option" where
  "Enqueue sz item q = DoEnqueue sz (length (m_packets q)) item q"

definition Dequeue :: "('a \<Rightarrow> uint32) \<Rightarrow> 'a Queue \<Rightarrow> ('a option \<times> 'a Queue) option" where
  "Dequeue sz q = DoDequeue sz 0 q"

definition Queue_Remove :: "('a \<Rightarrow> uint32) \<Rightarrow> 'a Queue \<Rightarrow> ('a option \<times> 'a Queue) option" where
  "Queue_Remove sz q = DoRemove sz 0 q"

definition Queue_Peek :: "'a Queue \<Rightarrow> 'a option option" where
  "Queue_Peek q = DoPeek 0 q"

text \<open>The loop of \<open>Queue::Flush\<close>, which calls the virtual \<open>Remove\<close>.\<close>

partial_function (option) Flush :: "('a \<Rightarrow> uint32) \<Rightarrow> 'a Queue \<Rightarrow> 'a Queue option" where
  "Flush sz q =
     (if Queue_IsEmpty q then Some q
      else Option.bind (Queue_Remove sz q) (\<lambda>r. Flush sz (snd r)))"

lemmas queue_op_defs = Enqueue_def Dequeue_def Queue_Remove_def DoEnqueue_def DoDequeue_def DoRemove_def take_item_def

subsection \<open>The contract of a FIFO queue\<close>

datatype 'a queue_call = Offer 'a | Take

text \<open>A sequence of calls: the items accepted, the items refused, the items handed out and the queue.\<close>

fun queue_calls :: "('a \<Rightarrow> 'q \<Rightarrow> (bool \<times> 'q) option) \<Rightarrow> ('q \<Rightarrow> ('a option \<times> 'q) option) \<Rightarrow> 'a queue_call list \<Rightarrow> 'q \<Rightarrow>
    ('a list \<times> 'a list \<times> 'a list \<times> 'q) option" where
  "queue_calls enq deq [] q = Some ([], [], [], q)"
| "queue_calls enq deq (Offer x # cs) q =
     Option.bind (enq x q) (\<lambda>(ok, q1).
       map_option (\<lambda>(acc, ref, out, q2). if ok then (x # acc, ref, out, q2) else (acc, x # ref, out, q2))
         (queue_calls enq deq cs q1))"
| "queue_calls enq deq (Take # cs) q =
     Option.bind (deq q) (\<lambda>(y, q1).
       map_option (\<lambda>(acc, ref, out, q2). (acc, ref, (case y of None \<Rightarrow> [] | Some x \<Rightarrow> [x]) @ out, q2))
         (queue_calls enq deq cs q1))"

fun offered :: "'a queue_call list \<Rightarrow> 'a list" where
  "offered [] = []"
| "offered (Offer x # cs) = x # offered cs"
| "offered (Take # cs) = offered cs"

locale fifo_queue =
  fixes inv :: "'q \<Rightarrow> bool"
    and contents :: "'q \<Rightarrow> 'a list"
    and legal :: "'a \<Rightarrow> bool"
    and full :: "'q \<Rightarrow> 'a \<Rightarrow> bool"
    and enq :: "'a \<Rightarrow> 'q \<Rightarrow> (bool \<times> 'q) option"
    and deq :: "'q \<Rightarrow> ('a option \<times> 'q) option"
  assumes enq_ok: "inv q \<Longrightarrow> legal x \<Longrightarrow> \<exists>q'. enq x q = Some (\<not> full q x, q') \<and> inv q' \<and>
      contents q' = (if full q x then contents q else contents q @ [x])"
    and deq_ok: "inv q \<Longrightarrow> \<exists>q'. deq q = Some (case contents q of [] \<Rightarrow> None | x # _ \<Rightarrow> Some x, q') \<and> inv q' \<and>
      contents q' = tl (contents q)"
begin

lemma calls_in_order:
  assumes "inv q" "\<forall>x \<in> set (offered cs). legal x"
  shows "\<exists>acc ref out q'. queue_calls enq deq cs q = Some (acc, ref, out, q') \<and> inv q' \<and>
    contents q @ acc = out @ contents q' \<and> offered cs \<in> shuffles acc ref"
  using assms
proof (induction cs arbitrary: q)
  case Nil
  then show ?case by simp
next
  case (Cons c cs)
  show ?case
  proof (cases c)
    case (Offer x)
    then obtain q1 where q1: "enq x q = Some (\<not> full q x, q1)" "inv q1"
        "contents q1 = (if full q x then contents q else contents q @ [x])"
      using enq_ok [of q x] Cons.prems by auto
    then obtain acc ref out q' where "queue_calls enq deq cs q1 = Some (acc, ref, out, q')" "inv q'"
        "contents q1 @ acc = out @ contents q'" "offered cs \<in> shuffles acc ref"
      using Cons.IH [of q1] Cons.prems Offer by auto
    then show ?thesis using q1 Offer
      by (cases "full q x") (auto simp: Cons_in_shuffles_leftI Cons_in_shuffles_rightI)
  next
    case Take
    then obtain q1 where q1: "deq q = Some (case contents q of [] \<Rightarrow> None | x # _ \<Rightarrow> Some x, q1)" "inv q1"
        "contents q1 = tl (contents q)"
      using deq_ok [of q] Cons.prems by auto
    then obtain acc ref out q' where "queue_calls enq deq cs q1 = Some (acc, ref, out, q')" "inv q'"
        "contents q1 @ acc = out @ contents q'" "offered cs \<in> shuffles acc ref"
      using Cons.IH [of q1] Cons.prems Take by auto
    then show ?thesis using q1 Take by (cases "contents q") auto
  qed
qed

end

subsection \<open>The drop-tail queue keeps the contract\<close>

definition total_size :: "('a \<Rightarrow> uint32) \<Rightarrow> 'a list \<Rightarrow> nat" where
  "total_size sz xs = (\<Sum>x\<leftarrow>xs. unat (sz x))"

text \<open>The items are not empty and at most \<open>L\<close> bytes long.\<close>

definition item_legal :: "('a \<Rightarrow> uint32) \<Rightarrow> nat \<Rightarrow> 'a \<Rightarrow> bool" where
  "item_legal sz L x \<longleftrightarrow> 0 < sz x \<and> unat (sz x) \<le> L"

text \<open>No counter wraps: the largest contents are below \<open>2 ^ 32\<close> packets and bytes.\<close>

definition capacity_ok :: "nat \<Rightarrow> QueueSize \<Rightarrow> bool" where
  "capacity_ok L m =
     (case qs_unit m of
        PACKETS \<Rightarrow> unat (qs_value m) + 1 < 2 ^ 32 \<and> unat (qs_value m) * L < 2 ^ 32
      | BYTES \<Rightarrow> unat (qs_value m) + L < 2 ^ 32)"

definition in_capacity :: "('a \<Rightarrow> uint32) \<Rightarrow> QueueSize \<Rightarrow> 'a list \<Rightarrow> bool" where
  "in_capacity sz m xs =
     (case qs_unit m of
        PACKETS \<Rightarrow> length xs \<le> unat (qs_value m)
      | BYTES \<Rightarrow> total_size sz xs \<le> unat (qs_value m))"

definition queue_ok :: "('a \<Rightarrow> uint32) \<Rightarrow> nat \<Rightarrow> 'a Queue \<Rightarrow> bool" where
  "queue_ok sz L q \<longleftrightarrow>
     capacity_ok L (m_maxSize q) \<and> in_capacity sz (m_maxSize q) (m_packets q) \<and>
     list_all (item_legal sz L) (m_packets q) \<and>
     m_nPackets q = of_nat (length (m_packets q)) \<and> m_nBytes q = of_nat (total_size sz (m_packets q))"

definition queue_full :: "('a \<Rightarrow> uint32) \<Rightarrow> 'a Queue \<Rightarrow> 'a \<Rightarrow> bool" where
  "queue_full sz q x \<longleftrightarrow> \<not> in_capacity sz (m_maxSize q) (m_packets q @ [x])"

lemma total_size_simps [simp]:
  "total_size sz [] = 0" "total_size sz (x # xs) = unat (sz x) + total_size sz xs"
  "total_size sz (xs @ ys) = total_size sz xs + total_size sz ys"
  by (simp_all add: total_size_def)

lemma total_size_bounds:
  assumes "list_all (item_legal sz L) xs"
  shows "length xs \<le> total_size sz xs" "total_size sz xs \<le> length xs * L"
  using assms by (induction xs) (auto simp: item_legal_def word_less_nat_alt)

lemma capacity_bounds:
  assumes "capacity_ok L m" "in_capacity sz m xs" "list_all (item_legal sz L) xs"
  shows "length xs < 2 ^ 32" "total_size sz xs < 2 ^ 32"
proof -
  note t = total_size_bounds [OF assms(3)]
  have "length xs < 2 ^ 32 \<and> total_size sz xs < 2 ^ 32"
  proof (cases "qs_unit m")
    case PACKETS
    then have l: "length xs \<le> unat (qs_value m)" "unat (qs_value m) * L < 2 ^ 32" "unat (qs_value m) + 1 < 2 ^ 32"
      using assms(1,2) by (simp_all add: capacity_ok_def in_capacity_def)
    have "length xs * L \<le> unat (qs_value m) * L" using l(1) by (rule mult_le_mono1)
    then show ?thesis using t l by linarith
  next
    case BYTES
    then show ?thesis using assms(1,2) t by (simp add: capacity_ok_def in_capacity_def)
  qed
  then show "length xs < 2 ^ 32" "total_size sz xs < 2 ^ 32" by auto
qed

lemma unat_of_nat_less: "n < 2 ^ 32 \<Longrightarrow> unat (of_nat n :: uint32) = n"
  by (simp add: unat_of_nat take_bit_nat_eq_self)

lemma queue_ok_counts:
  assumes "queue_ok sz L q"
  shows "unat (m_nPackets q) = length (m_packets q)" "unat (m_nBytes q) = total_size sz (m_packets q)"
    "m_nPackets q = 0 \<longleftrightarrow> m_packets q = []"
proof -
  have b: "length (m_packets q) < 2 ^ 32" "total_size sz (m_packets q) < 2 ^ 32"
    using assms capacity_bounds unfolding queue_ok_def by blast+
  then show c: "unat (m_nPackets q) = length (m_packets q)" "unat (m_nBytes q) = total_size sz (m_packets q)"
    using assms by (simp_all only: queue_ok_def unat_of_nat_less)
  show "m_nPackets q = 0 \<longleftrightarrow> m_packets q = []" using c(1) by (metis length_0_conv unat_eq_zero)
qed

text \<open>An item is refused exactly where \<open>WouldOverflow\<close> says so.\<close>

lemma DoEnqueue_eq:
  "DoEnqueue sz pos x q =
     Some (if WouldOverflow 1 (sz x) q then (False, DropBeforeEnqueue sz x q) else (True, store_item sz pos x q))"
  by (simp add: DoEnqueue_def WouldOverflow_def QueueSize_greater_def same_unit_def QueueSize_plus_def GetCurrentSize_def
      split: QueueSizeUnit.split)

lemma queue_full_iff:
  assumes "queue_ok sz L q" "item_legal sz L x"
  shows "WouldOverflow 1 (sz x) q \<longleftrightarrow> queue_full sz q x"
proof (cases "qs_unit (m_maxSize q)")
  case PACKETS
  have "length (m_packets q) \<le> unat (qs_value (m_maxSize q))" "unat (qs_value (m_maxSize q)) + 1 < 2 ^ 32"
    using assms(1) PACKETS by (simp_all add: queue_ok_def capacity_ok_def in_capacity_def)
  then have "unat (m_nPackets q + 1) = length (m_packets q) + 1"
    using queue_ok_counts [OF assms(1)] by (subst unat_add_lem [THEN iffD1]) simp_all
  then show ?thesis using PACKETS by (simp add: WouldOverflow_def queue_full_def in_capacity_def word_less_nat_alt) linarith
next
  case BYTES
  have "total_size sz (m_packets q) \<le> unat (qs_value (m_maxSize q))" "unat (qs_value (m_maxSize q)) + L < 2 ^ 32" "unat (sz x) \<le> L"
    using assms BYTES by (simp_all add: queue_ok_def capacity_ok_def in_capacity_def item_legal_def)
  then have "unat (m_nBytes q + sz x) = total_size sz (m_packets q) + unat (sz x)"
    using queue_ok_counts [OF assms(1)] by (subst unat_add_lem [THEN iffD1]) simp_all
  then show ?thesis using BYTES by (simp add: WouldOverflow_def queue_full_def in_capacity_def word_less_nat_alt) linarith
qed

lemma Enqueue_ok:
  assumes "queue_ok sz L q" "item_legal sz L x"
  shows "\<exists>q'. Enqueue sz x q = Some (\<not> queue_full sz q x, q') \<and> queue_ok sz L q' \<and>
    m_packets q' = (if queue_full sz q x then m_packets q else m_packets q @ [x])"
proof (cases "queue_full sz q x")
  case True
  then have "Enqueue sz x q = Some (False, DropBeforeEnqueue sz x q)"
    by (simp add: Enqueue_def DoEnqueue_eq queue_full_iff [OF assms])
  moreover have "queue_ok sz L (DropBeforeEnqueue sz x q)" "m_packets (DropBeforeEnqueue sz x q) = m_packets q"
    using assms(1) by (simp_all add: queue_ok_def DropBeforeEnqueue_def)
  ultimately show ?thesis using True by auto
next
  case False
  let ?q = "store_item sz (length (m_packets q)) x q"
  have "Enqueue sz x q = Some (True, ?q)"
    using False by (simp add: Enqueue_def DoEnqueue_eq queue_full_iff [OF assms])
  moreover have "m_packets ?q = m_packets q @ [x]" by (simp add: store_item_def)
  moreover have "queue_ok sz L ?q"
    using assms False by (simp add: queue_ok_def store_item_def queue_full_def)
  ultimately show ?thesis using False by auto
qed

lemma take_first:
  assumes "queue_ok sz L q" "m_packets q = x # xs"
  shows "take_item sz 0 q = Some (x, q\<lparr>m_packets := xs, m_nBytes := of_nat (total_size sz xs),
      m_nPackets := of_nat (length xs), q_trace := q_trace q @ [TraceDequeue x]\<rparr>)"
proof -
  note c = queue_ok_counts [OF assms(1)]
  have "sz x \<le> m_nBytes q" "0 < m_nPackets q" using c assms(2) by (simp_all add: word_le_nat_alt word_less_nat_alt)
  moreover have "m_nBytes q - sz x = of_nat (total_size sz xs)" "m_nPackets q - 1 = of_nat (length xs)"
    using assms by (simp_all add: queue_ok_def)
  ultimately show ?thesis using assms(2) by (simp add: take_item_def Let_def)
qed

lemma queue_ok_tail:
  assumes "queue_ok sz L q" "m_packets q = x # xs"
  shows "queue_ok sz L (q\<lparr>m_packets := xs, m_nBytes := of_nat (total_size sz xs), m_nPackets := of_nat (length xs),
      q_trace := tr\<rparr>)"
  using assms by (auto simp: queue_ok_def in_capacity_def split: QueueSizeUnit.splits)

lemma Dequeue_ok:
  assumes "queue_ok sz L q"
  shows "\<exists>q'. Dequeue sz q = Some (case m_packets q of [] \<Rightarrow> None | x # _ \<Rightarrow> Some x, q') \<and> queue_ok sz L q' \<and>
    m_packets q' = tl (m_packets q)"
proof (cases "m_packets q")
  case Nil
  then show ?thesis using assms queue_ok_counts(3) [OF assms] by (simp add: Dequeue_def DoDequeue_def)
next
  case (Cons x xs)
  then show ?thesis using assms queue_ok_counts(3) [OF assms] take_first [OF assms Cons] queue_ok_tail [OF assms Cons]
    by (simp add: Dequeue_def DoDequeue_def)
qed

interpretation drop_tail: fifo_queue "queue_ok sz L" m_packets "item_legal sz L" "queue_full sz" "Enqueue sz" "Dequeue sz"
  for sz :: "'a \<Rightarrow> uint32" and L
  by unfold_locales (fact Enqueue_ok, fact Dequeue_ok)


lemma DropTailQueue_init_eq: "DropTailQueue_init = QueueBase_init\<lparr>m_maxSize := \<lparr>qs_unit = PACKETS, qs_value = 100\<rparr>\<rparr>"
proof -
  have "QueueSize_DoParse ''100p'' = Some \<lparr>qs_unit = PACKETS, qs_value = 100\<rparr>"
    using queue_unit_lookup(2)
    by (simp add: QueueSize_DoParse_def unit_part_def number_part_def digit_def read_double_def dec_of_def digit_val_def
        uint32_of_double_def Let_def)
  then show ?thesis
    by (simp add: DropTailQueue_init_def SetMaxSize_def QueueBase_init_def QueueSize_less_def same_unit_def GetCurrentSize_def Let_def)
qed

lemma DropTailQueue_init_ok: "L \<le> 2 ^ 24 \<Longrightarrow> queue_ok sz L DropTailQueue_init"
  by (simp add: DropTailQueue_init_eq QueueBase_init_def queue_ok_def capacity_ok_def in_capacity_def)


subsection \<open>Flushing\<close>

lemma Remove_ok:
  assumes "queue_ok sz L q" "m_packets q = x # xs"
  shows "\<exists>q'. Queue_Remove sz q = Some (Some x, q') \<and> queue_ok sz L q' \<and> m_packets q' = xs \<and>
    q_trace q' = q_trace q @ [TraceDequeue x, TraceDrop x, TraceDropAfterDequeue x]"
proof -
  let ?q = "q\<lparr>m_packets := xs, m_nBytes := of_nat (total_size sz xs), m_nPackets := of_nat (length xs),
      q_trace := q_trace q @ [TraceDequeue x]\<rparr>"
  have "m_nPackets q \<noteq> 0" using queue_ok_counts(3) [OF assms(1)] assms(2) by simp
  then have "Queue_Remove sz q = Some (Some x, DropAfterDequeue sz x ?q)"
    using take_first [OF assms] by (simp add: Queue_Remove_def DoRemove_def)
  moreover have "queue_ok sz L (DropAfterDequeue sz x ?q)"
    using queue_ok_tail [OF assms] by (simp add: queue_ok_def DropAfterDequeue_def)
  ultimately show ?thesis by (simp add: DropAfterDequeue_def)
qed

definition flush_trace :: "'a list \<Rightarrow> 'a queue_trace list" where
  "flush_trace xs = concat (map (\<lambda>x. [TraceDequeue x, TraceDrop x, TraceDropAfterDequeue x]) xs)"

lemma Flush_ok:
  assumes "queue_ok sz L q"
  shows "\<exists>q'. Flush sz q = Some q' \<and> queue_ok sz L q' \<and> m_packets q' = [] \<and> q_trace q' = q_trace q @ flush_trace (m_packets q)"
  using assms
proof (induction "m_packets q" arbitrary: q)
  case Nil
  then show ?case using queue_ok_counts(3) [OF Nil.prems] by (subst Flush.simps) (simp add: Queue_IsEmpty_def flush_trace_def)
next
  case (Cons x xs)
  obtain q1 where q1: "Queue_Remove sz q = Some (Some x, q1)" "queue_ok sz L q1" "m_packets q1 = xs"
      "q_trace q1 = q_trace q @ [TraceDequeue x, TraceDrop x, TraceDropAfterDequeue x]"
    using Remove_ok [OF Cons.prems Cons.hyps(2) [symmetric]] by auto
  have "\<not> Queue_IsEmpty q"
    using queue_ok_counts(3) [OF Cons.prems] Cons.hyps(2) [symmetric] by (simp add: Queue_IsEmpty_def)
  then show ?case using Cons.hyps(1) [of q1] q1 Cons.hyps(2) [symmetric] by (subst Flush.simps) (auto simp: flush_trace_def)
qed

subsection \<open>The statistics\<close>

definition traced :: "('a queue_trace \<Rightarrow> bool) \<Rightarrow> 'a queue_trace list \<Rightarrow> 'a list" where
  "traced P tr = map traced_item (filter P tr)"

lemma traced_simps [simp]:
  "traced P [] = []" "traced P (t # ts) = (if P t then traced_item t # traced P ts else traced P ts)"
  "traced P (ts @ us) = traced P ts @ traced P us"
  by (simp_all add: traced_def)

text \<open>The counters count the calls of the trace sources, modulo \<open>2 ^ 32\<close>.\<close>

definition accounting :: "('a \<Rightarrow> uint32) \<Rightarrow> 'a Queue \<Rightarrow> bool" where
  "accounting sz q \<longleftrightarrow>
     m_nTotalReceivedPackets q = of_nat (length (traced is_enq (q_trace q))) \<and>
     m_nTotalReceivedBytes q = of_nat (total_size sz (traced is_enq (q_trace q))) \<and>
     m_nTotalDroppedPacketsBeforeEnqueue q = of_nat (length (traced is_drop_before (q_trace q))) \<and>
     m_nTotalDroppedBytesBeforeEnqueue q = of_nat (total_size sz (traced is_drop_before (q_trace q))) \<and>
     m_nTotalDroppedPacketsAfterDequeue q = of_nat (length (traced is_drop_after (q_trace q))) \<and>
     m_nTotalDroppedBytesAfterDequeue q = of_nat (total_size sz (traced is_drop_after (q_trace q))) \<and>
     m_nTotalDroppedPackets q = m_nTotalDroppedPacketsBeforeEnqueue q + m_nTotalDroppedPacketsAfterDequeue q \<and>
     m_nTotalDroppedBytes q = m_nTotalDroppedBytesBeforeEnqueue q + m_nTotalDroppedBytesAfterDequeue q \<and>
     length (traced is_drop (q_trace q)) = length (traced is_drop_before (q_trace q)) + length (traced is_drop_after (q_trace q)) \<and>
     m_nPackets q = of_nat (length (m_packets q)) \<and>
     m_nBytes q = of_nat (total_size sz (m_packets q)) \<and>
     traced is_enq (q_trace q) = traced is_deq (q_trace q) @ m_packets q"

lemma accounting_drop_before: "accounting sz q \<Longrightarrow> accounting sz (DropBeforeEnqueue sz x q)"
  by (simp add: accounting_def DropBeforeEnqueue_def)

lemma accounting_drop_after: "accounting sz q \<Longrightarrow> accounting sz (DropAfterDequeue sz x q)"
  by (simp add: accounting_def DropAfterDequeue_def)

lemma accounting_store: "accounting sz q \<Longrightarrow> accounting sz (store_item sz (length (m_packets q)) x q)"
  by (simp add: accounting_def store_item_def)

lemma accounting_take: "accounting sz q \<Longrightarrow> take_item sz 0 q = Some (x, q') \<Longrightarrow> accounting sz q'"
  by (cases "m_packets q") (auto simp: accounting_def take_item_def Let_def split: if_splits)

lemma accounting_Remove: "accounting sz q \<Longrightarrow> Queue_Remove sz q = Some (y, q') \<Longrightarrow> accounting sz q'"
  by (auto simp: Queue_Remove_def DoRemove_def intro: accounting_take accounting_drop_after split: if_splits)

lemma accounting_Flush: "Flush sz q = Some q' \<Longrightarrow> accounting sz q \<longrightarrow> accounting sz q' \<and> m_nPackets q' = 0"
  by (rule Flush.raw_induct [where P = "\<lambda>sz q q'. accounting sz q \<longrightarrow> accounting sz q' \<and> m_nPackets q' = 0"])
     (auto simp: Queue_IsEmpty_def bind_eq_Some_conv dest: accounting_Remove split: if_splits)


lemma queue_accounting_init: "accounting sz DropTailQueue_init"
  by (simp add: accounting_def DropTailQueue_init_eq QueueBase_init_def)


end
