(* ===== verification/Error_Model.thy ===== *)
theory Error_Model
  imports Prelude
begin

text \<open>
  The error models of \<open>src/src/network/utils/error-model.cc\<close>, which decide at a receiver whether a packet is
  corrupted. A random variable stream is a state with a draw function, the parameters \<open>GetValue\<close> and
  \<open>GetInteger\<close>; of a packet the models use the size or the uid. A \<open>double\<close> is \<^typ>\<open>real\<close>.
\<close>

record ErrorModel =
  m_enable :: bool

definition ErrorModel_Enable :: "'a ErrorModel_scheme \<Rightarrow> 'a ErrorModel_scheme" where
  "ErrorModel_Enable m = m\<lparr>m_enable := True\<rparr>"

definition ErrorModel_Disable :: "'a ErrorModel_scheme \<Rightarrow> 'a ErrorModel_scheme" where
  "ErrorModel_Disable m = m\<lparr>m_enable := False\<rparr>"

subsection \<open>RateErrorModel\<close>

datatype ErrorUnit = ERROR_UNIT_BIT | ERROR_UNIT_BYTE | ERROR_UNIT_PACKET

record 'r RateErrorModel = ErrorModel +
  m_unit :: ErrorUnit
  m_rate :: real
  m_ranvar :: 'r

definition RateErrorModel_init :: "'r \<Rightarrow> 'r RateErrorModel" where
  "RateErrorModel_init v = \<lparr>m_enable = True, m_unit = ERROR_UNIT_BYTE, m_rate = 0, m_ranvar = v\<rparr>"

definition RateErrorModel_SetUnit :: "ErrorUnit \<Rightarrow> 'r RateErrorModel \<Rightarrow> 'r RateErrorModel" where
  "RateErrorModel_SetUnit u m = m\<lparr>m_unit := u\<rparr>"

definition RateErrorModel_SetRate :: "real \<Rightarrow> 'r RateErrorModel \<Rightarrow> 'r RateErrorModel" where
  "RateErrorModel_SetRate rate m = m\<lparr>m_rate := rate\<rparr>"

definition DoCorruptPkt :: "('r \<Rightarrow> real \<times> 'r) \<Rightarrow> 'r RateErrorModel \<Rightarrow> bool \<times> 'r RateErrorModel" where
  "DoCorruptPkt GetValue m =
     (let (v, r) = GetValue (m_ranvar m) in (v < m_rate m, m\<lparr>m_ranvar := r\<rparr>))"

definition DoCorruptByte :: "('r \<Rightarrow> real \<times> 'r) \<Rightarrow> uint32 \<Rightarrow> 'r RateErrorModel \<Rightarrow> bool \<times> 'r RateErrorModel" where
  "DoCorruptByte GetValue size_p m =
     (let per = 1 - (1 - m_rate m) ^ unat size_p;
          (v, r) = GetValue (m_ranvar m)
      in (v < per, m\<lparr>m_ranvar := r\<rparr>))"

text \<open>The number of bits is computed in 32 bits.\<close>

definition DoCorruptBit :: "('r \<Rightarrow> real \<times> 'r) \<Rightarrow> uint32 \<Rightarrow> 'r RateErrorModel \<Rightarrow> bool \<times> 'r RateErrorModel" where
  "DoCorruptBit GetValue size_p m =
     (let per = 1 - (1 - m_rate m) ^ unat (8 * size_p);
          (v, r) = GetValue (m_ranvar m)
      in (v < per, m\<lparr>m_ranvar := r\<rparr>))"

definition RateErrorModel_DoCorrupt :: "('r \<Rightarrow> real \<times> 'r) \<Rightarrow> uint32 \<Rightarrow> 'r RateErrorModel \<Rightarrow> bool \<times> 'r RateErrorModel" where
  "RateErrorModel_DoCorrupt GetValue size_p m =
     (if \<not> m_enable m then (False, m)
      else case m_unit m of
             ERROR_UNIT_PACKET \<Rightarrow> DoCorruptPkt GetValue m
           | ERROR_UNIT_BYTE \<Rightarrow> DoCorruptByte GetValue size_p m
           | ERROR_UNIT_BIT \<Rightarrow> DoCorruptBit GetValue size_p m)"

subsection \<open>BurstErrorModel\<close>

record ('r, 's) BurstErrorModel = ErrorModel +
  m_burstRate :: real
  m_burstStart :: 'r
  m_burstSize :: 's
  m_counter :: uint32
  m_currentBurstSz :: uint32

definition BurstErrorModel_DoCorrupt ::
  "('r \<Rightarrow> real \<times> 'r) \<Rightarrow> ('s \<Rightarrow> uint32 \<times> 's) \<Rightarrow> ('r, 's) BurstErrorModel \<Rightarrow> bool \<times> ('r, 's) BurstErrorModel" where
  "BurstErrorModel_DoCorrupt GetValue GetInteger m =
     (if \<not> m_enable m then (False, m)
      else let (ranVar, r) = GetValue (m_burstStart m); m1 = m\<lparr>m_burstStart := r\<rparr>
           in if ranVar < m_burstRate m1
              then let (n, s) = GetInteger (m_burstSize m1); m2 = m1\<lparr>m_burstSize := s, m_currentBurstSz := n\<rparr>
                   in if n = 0 then (False, m2) else (True, m2\<lparr>m_counter := 1\<rparr>)
              else if m_counter m1 < m_currentBurstSz m1
                   then (True, m1\<lparr>m_counter := m_counter m1 + 1\<rparr>)
                   else (False, m1))"

definition BurstErrorModel_DoReset :: "('r, 's) BurstErrorModel \<Rightarrow> ('r, 's) BurstErrorModel" where
  "BurstErrorModel_DoReset m = m\<lparr>m_counter := 0, m_currentBurstSz := 0\<rparr>"

subsection \<open>ListErrorModel, ReceiveListErrorModel and BinaryErrorModel\<close>

record ListErrorModel = ErrorModel +
  m_packetList :: "uint64 list"

definition ListErrorModel_DoCorrupt :: "uint64 \<Rightarrow> ListErrorModel \<Rightarrow> bool" where
  "ListErrorModel_DoCorrupt uid m \<longleftrightarrow> m_enable m \<and> list_ex (\<lambda>i. uid = i) (m_packetList m)"

definition ListErrorModel_DoReset :: "ListErrorModel \<Rightarrow> ListErrorModel" where
  "ListErrorModel_DoReset m = m\<lparr>m_packetList := []\<rparr>"

record ReceiveListErrorModel = ErrorModel +
  m_receiveList :: "uint32 list"
  m_timesInvoked :: uint32

definition ReceiveListErrorModel_DoCorrupt :: "ReceiveListErrorModel \<Rightarrow> bool \<times> ReceiveListErrorModel" where
  "ReceiveListErrorModel_DoCorrupt m =
     (if \<not> m_enable m then (False, m)
      else let m1 = m\<lparr>m_timesInvoked := m_timesInvoked m + 1\<rparr>
           in (list_ex (\<lambda>i. m_timesInvoked m1 - 1 = i) (m_receiveList m1), m1))"

definition ReceiveListErrorModel_DoReset :: "ReceiveListErrorModel \<Rightarrow> ReceiveListErrorModel" where
  "ReceiveListErrorModel_DoReset m = m\<lparr>m_receiveList := []\<rparr>"

record BinaryErrorModel = ErrorModel +
  m_binaryCounter :: "8 word"

definition BinaryErrorModel_DoCorrupt :: "BinaryErrorModel \<Rightarrow> bool \<times> BinaryErrorModel" where
  "BinaryErrorModel_DoCorrupt m =
     (if \<not> m_enable m then (False, m)
      else let ret = (m_binaryCounter m mod 2 \<noteq> 0)
           in (ret, m\<lparr>m_binaryCounter := m_binaryCounter m + 1\<rparr>))"

definition BinaryErrorModel_DoReset :: "BinaryErrorModel \<Rightarrow> BinaryErrorModel" where
  "BinaryErrorModel_DoReset m = m\<lparr>m_binaryCounter := 0\<rparr>"

subsection \<open>A sequence of packets\<close>

text \<open>The decisions of a model on the packets of a list, in their order.\<close>

fun decisions :: "('p \<Rightarrow> 'm \<Rightarrow> bool \<times> 'm) \<Rightarrow> 'p list \<Rightarrow> 'm \<Rightarrow> bool list \<times> 'm" where
  "decisions f [] m = ([], m)"
| "decisions f (p # ps) m =
     (let (b, m1) = f p m; (bs, m2) = decisions f ps m1 in (b # bs, m2))"

text \<open>The rate model decides each packet by its own draw; the rate applies to the packet, its bytes or its bits.\<close>

definition packet_rate :: "ErrorUnit \<Rightarrow> real \<Rightarrow> uint32 \<Rightarrow> real" where
  "packet_rate u rate n =
     (case u of ERROR_UNIT_PACKET \<Rightarrow> rate
      | ERROR_UNIT_BYTE \<Rightarrow> 1 - (1 - rate) ^ unat n
      | ERROR_UNIT_BIT \<Rightarrow> 1 - (1 - rate) ^ unat (8 * n))"

lemma RateErrorModel_DoCorrupt_eq:
  "RateErrorModel_DoCorrupt GetValue n m =
     (if m_enable m then (fst (GetValue (m_ranvar m)) < packet_rate (m_unit m) (m_rate m) n, m\<lparr>m_ranvar := snd (GetValue (m_ranvar m))\<rparr>)
      else (False, m))"
  by (simp add: RateErrorModel_DoCorrupt_def packet_rate_def DoCorruptPkt_def DoCorruptByte_def DoCorruptBit_def Let_def
      split: ErrorUnit.split prod.split)

lemma power_antimono: "0 \<le> x \<Longrightarrow> x \<le> y \<Longrightarrow> y \<le> 1 \<Longrightarrow> (1 - y) ^ n \<le> (1 - x :: real) ^ n"
  by (intro power_mono) simp_all

lemma packet_rate_bounds:
  assumes "0 \<le> rate" "rate \<le> 1"
  shows "0 \<le> packet_rate u rate n" "packet_rate u rate n \<le> 1"
  using assms by (cases u; simp add: packet_rate_def power_le_one)+

text \<open>The rate error model: on a disabled model no packet is corrupted and nothing is drawn; with draws
  in [0, 1) and a rate in [0, 1] a rate of 0 corrupts no packet and a rate of 1 every packet that is not empty (and is
  shorter than 2^29 bytes, where the number of bits wraps), in each of the three units; with the same draw a
  larger rate, and for bytes a longer packet, never spares a packet that the smaller would corrupt.\<close>
theorem rate_error_model:
  assumes "\<forall>s. 0 \<le> fst (GetValue s) \<and> fst (GetValue s) < 1"
  shows "(\<not> m_enable m \<longrightarrow> RateErrorModel_DoCorrupt GetValue n m = (False, m)) \<and>
    (m_enable m \<and> m_rate m = 0 \<longrightarrow> \<not> fst (RateErrorModel_DoCorrupt GetValue n m)) \<and>
    (m_enable m \<and> m_rate m = 1 \<and> 0 < n \<and> n < 2 ^ 29 \<longrightarrow> fst (RateErrorModel_DoCorrupt GetValue n m)) \<and>
    (m_enable m \<and> 0 \<le> m_rate m \<and> m_rate m \<le> rate \<and> rate \<le> 1 \<and> fst (RateErrorModel_DoCorrupt GetValue n m) \<longrightarrow>
       fst (RateErrorModel_DoCorrupt GetValue n (RateErrorModel_SetRate rate m))) \<and>
    (m_enable m \<and> 0 \<le> m_rate m \<and> m_rate m \<le> 1 \<and> m_unit m = ERROR_UNIT_BYTE \<and> n \<le> n' \<and>
       fst (RateErrorModel_DoCorrupt GetValue n m) \<longrightarrow> fst (RateErrorModel_DoCorrupt GetValue n' m))"
proof (intro conjI impI)
  let ?v = "fst (GetValue (m_ranvar m))"
  have v: "0 \<le> ?v" "?v < 1" using assms by auto
  show "RateErrorModel_DoCorrupt GetValue n m = (False, m)" if "\<not> m_enable m"
    using that by (simp add: RateErrorModel_DoCorrupt_eq)
  show "\<not> fst (RateErrorModel_DoCorrupt GetValue n m)" if "m_enable m \<and> m_rate m = 0"
    using that v by (cases "m_unit m") (simp_all add: RateErrorModel_DoCorrupt_eq packet_rate_def)
  show "fst (RateErrorModel_DoCorrupt GetValue n m)" if h: "m_enable m \<and> m_rate m = 1 \<and> 0 < n \<and> n < 2 ^ 29"
  proof -
    have n: "0 < unat n" "unat n < 2 ^ 29" using h by (simp_all add: word_less_nat_alt)
    then have "unat (8 * n) = 8 * unat n" by (simp add: unat_word_ariths)
    then show ?thesis using h v n by (cases "m_unit m") (simp_all add: RateErrorModel_DoCorrupt_eq packet_rate_def power_0_left)
  qed
  show "fst (RateErrorModel_DoCorrupt GetValue n (RateErrorModel_SetRate rate m))"
    if h: "m_enable m \<and> 0 \<le> m_rate m \<and> m_rate m \<le> rate \<and> rate \<le> 1 \<and> fst (RateErrorModel_DoCorrupt GetValue n m)"
  proof -
    have "packet_rate (m_unit m) (m_rate m) n \<le> packet_rate (m_unit m) rate n"
      using h by (cases "m_unit m") (simp_all add: packet_rate_def power_antimono)
    then show ?thesis using h by (auto simp: RateErrorModel_DoCorrupt_eq RateErrorModel_SetRate_def)
  qed
  show "fst (RateErrorModel_DoCorrupt GetValue n' m)"
    if h: "m_enable m \<and> 0 \<le> m_rate m \<and> m_rate m \<le> 1 \<and> m_unit m = ERROR_UNIT_BYTE \<and> n \<le> n' \<and> fst (RateErrorModel_DoCorrupt GetValue n m)"
  proof -
    have "(1 - m_rate m) ^ unat n' \<le> (1 - m_rate m) ^ unat n"
      using h by (intro power_decreasing) (simp_all add: word_le_nat_alt)
    then show ?thesis using h by (auto simp: RateErrorModel_DoCorrupt_eq packet_rate_def)
  qed
qed

theorem rate_error_model_witness:
  "fst (RateErrorModel_DoCorrupt (\<lambda>s. (1 / 2, s)) 100 (RateErrorModel_SetRate 1 (RateErrorModel_init ())))"
  using rate_error_model [of "\<lambda>s. (1 / 2, s)" "RateErrorModel_SetRate 1 (RateErrorModel_init ())" 100]
  by (simp add: RateErrorModel_SetRate_def RateErrorModel_init_def)

text \<open>A burst of \<open>k\<close> packets: while no new burst starts, the model corrupts the rest of it and then nothing.\<close>

lemma burst_runs_out:
  assumes "m_enable m" "\<forall>s. \<not> fst (GetValue s) < m_burstRate m"
  shows "fst (decisions (\<lambda>_ . BurstErrorModel_DoCorrupt GetValue GetInteger) ps m) =
    replicate (min (length ps) (unat (m_currentBurstSz m) - unat (m_counter m))) True @
    replicate (length ps - (unat (m_currentBurstSz m) - unat (m_counter m))) False"
  using assms
proof (induction ps arbitrary: m)
  case (Cons p ps)
  define m1 where "m1 = m\<lparr>m_burstStart := snd (GetValue (m_burstStart m))\<rparr>"
  let ?d = "unat (m_currentBurstSz m) - unat (m_counter m)"
  have none: "\<not> fst (GetValue (m_burstStart m)) < m_burstRate m" using Cons.prems(2) by blast
  show ?case
  proof (cases "m_counter m < m_currentBurstSz m")
    case True
    then have less: "unat (m_counter m) < unat (m_currentBurstSz m)" by (simp add: word_less_nat_alt)
    then have "unat (m_counter m) + 1 < 2 ^ 32" using unsigned_less [of "m_currentBurstSz m", where ?'a = nat] by simp
    then have c: "unat (m_counter m + 1) = unat (m_counter m) + 1" by (subst unat_add_lem [THEN iffD1]) simp_all
    have step: "BurstErrorModel_DoCorrupt GetValue GetInteger m = (True, m1\<lparr>m_counter := m_counter m + 1\<rparr>)"
      using Cons.prems(1) none True by (simp add: BurstErrorModel_DoCorrupt_def m1_def split_beta Let_def)
    obtain k where k: "?d = Suc k" using less by (metis Suc_diff_Suc)
    then have "unat (m_currentBurstSz m) - Suc (unat (m_counter m)) = k"
      "Suc (length ps + unat (m_counter m)) - unat (m_currentBurstSz m) = length ps - k" using less by simp_all
    then show ?thesis
      using Cons.IH [of "m1\<lparr>m_counter := m_counter m + 1\<rparr>"] Cons.prems step c less
      by (simp add: m1_def split_beta Let_def k)
  next
    case False
    then have "?d = 0" by (simp add: word_less_nat_alt)
    moreover have "BurstErrorModel_DoCorrupt GetValue GetInteger m = (False, m1)"
      using Cons.prems(1) none False by (simp add: BurstErrorModel_DoCorrupt_def m1_def split_beta Let_def)
    ultimately show ?thesis using Cons.IH [of m1] Cons.prems by (simp add: m1_def split_beta Let_def)
  qed
qed simp

text \<open>The receive list names the packets by their position, as long as fewer than \<open>2 ^ 32\<close> are seen.\<close>

lemma receive_list_positions:
  assumes "m_enable m"
  shows "fst (decisions (\<lambda>_. ReceiveListErrorModel_DoCorrupt) ps m) =
    map (\<lambda>k. m_timesInvoked m + of_nat k \<in> set (m_receiveList m)) [0..<length ps]"
  using assms
proof (induction ps arbitrary: m)
  case (Cons p ps)
  define m1 where "m1 = m\<lparr>m_timesInvoked := m_timesInvoked m + 1\<rparr>"
  have step: "ReceiveListErrorModel_DoCorrupt m = (m_timesInvoked m \<in> set (m_receiveList m), m1)"
    using Cons.prems by (simp add: ReceiveListErrorModel_DoCorrupt_def m1_def Let_def list_ex_iff)
  have "map (\<lambda>k. m_timesInvoked m1 + of_nat k \<in> set (m_receiveList m1)) [0..<length ps] =
      map (\<lambda>k. m_timesInvoked m + of_nat k \<in> set (m_receiveList m)) (map Suc [0..<length ps])"
    by (simp add: m1_def add.assoc)
  then show ?case using Cons.IH [of m1] Cons.prems step
    by (simp add: m1_def split_beta Let_def map_Suc_upt upt_conv_Cons del: upt_Suc)
qed simp

lemma binary_alternates:
  assumes "m_enable m"
  shows "fst (decisions (\<lambda>_. BinaryErrorModel_DoCorrupt) ps m) =
    map (\<lambda>k. odd (unat (m_binaryCounter m) + k)) [0..<length ps]"
  using assms
proof (induction ps arbitrary: m)
  case (Cons p ps)
  define m1 where "m1 = m\<lparr>m_binaryCounter := m_binaryCounter m + 1\<rparr>"
  have odd: "(w mod 2 \<noteq> 0) = odd (unat w)" for w :: "8 word"
  proof -
    have "(w mod 2 = 0) = (unat (w mod 2) = 0)" by (simp add: unat_eq_zero)
    also have "unat (w mod 2) = unat w mod 2" by (simp add: unat_mod_distrib)
    finally show ?thesis by (simp add: even_iff_mod_2_eq_zero)
  qed
  have step: "BinaryErrorModel_DoCorrupt m = (odd (unat (m_binaryCounter m)), m1)"
    using Cons.prems odd [of "m_binaryCounter m"] by (simp add: BinaryErrorModel_DoCorrupt_def m1_def Let_def)
  have parity: "odd (unat (m_binaryCounter m1) + k) = odd (unat (m_binaryCounter m) + Suc k)" for k
    by (simp add: m1_def unat_word_ariths dvd_mod_iff)
  have "map (\<lambda>k. odd (unat (m_binaryCounter m1) + k)) [0..<length ps] =
      map (\<lambda>k. odd (unat (m_binaryCounter m) + k)) (map Suc [0..<length ps])"
    by (simp only: parity map_map o_def)
  then show ?case using Cons.IH [of m1] Cons.prems step
    by (simp add: m1_def split_beta Let_def map_Suc_upt upt_conv_Cons del: upt_Suc)
qed simp

end
