(* ===== verification/Net_Buffer.thy ===== *)
theory Net_Buffer
  imports Prelude "HOL-Library.Monad_Syntax"
begin

text \<open>
  The bytes of packets: \<open>Buffer\<close> of \<open>src/src/network/model/buffer.cc\<close> and \<open>buffer.h\<close>. Several buffers share one
  reference-counted \<open>Data\<close> until one of them would write into a part that another may see; a run of zero bytes
  (the payload that nobody filled) is only counted, not stored. Offsets are natural numbers: the code's
  \<open>uint32_t\<close> arithmetic agrees with them while sizes stay below \<open>2 ^ 31\<close>, and the one subtraction that can
  wrap is written with its wrap. The memory maps addresses to \<open>Data\<close>; \<^const>\<open>None\<close> is a failed assertion or
  an access outside of the allocated bytes.
\<close>

type_synonym uint8 = "8 word"
type_synonym uint16 = "16 word"

subsection \<open>Memory\<close>

record BufferData =
  m_count :: nat
  m_size :: nat
  m_dirtyStart :: nat
  m_dirtyEnd :: nat
  m_bytes :: "nat \<Rightarrow> uint8"

text \<open>\<open>mem_junk\<close> is what fresh memory holds.\<close>

record buffer_mem =
  mem_data :: "nat \<Rightarrow> BufferData option"
  mem_next :: nat
  mem_junk :: "nat \<Rightarrow> uint8"
  g_recommendedStart :: nat
  g_maxSize :: nat
  g_freeList :: "nat list"

definition buffer_mem_init :: "(nat \<Rightarrow> uint8) \<Rightarrow> buffer_mem" where
  "buffer_mem_init junk =
     \<lparr>mem_data = (\<lambda>_. None), mem_next = 0, mem_junk = junk, g_recommendedStart = 0, g_maxSize = 0, g_freeList = []\<rparr>"

definition put_data :: "nat \<Rightarrow> BufferData \<Rightarrow> buffer_mem \<Rightarrow> buffer_mem" where
  "put_data a d h = h\<lparr>mem_data := (mem_data h)(a := Some d)\<rparr>"

text \<open>Reading and writing a range of bytes; a range without bytes touches nothing.\<close>

definition peek_bytes :: "nat \<Rightarrow> nat \<Rightarrow> nat \<Rightarrow> buffer_mem \<Rightarrow> uint8 list option" where
  "peek_bytes a i n h =
     (if n = 0 then Some []
      else do { d \<leftarrow> mem_data h a; if i + n \<le> m_size d then Some (map (m_bytes d) [i..<i + n]) else None })"

definition poke_bytes :: "nat \<Rightarrow> nat \<Rightarrow> uint8 list \<Rightarrow> buffer_mem \<Rightarrow> buffer_mem option" where
  "poke_bytes a j xs h =
     (if xs = [] then Some h
      else do { d \<leftarrow> mem_data h a;
                if j + length xs \<le> m_size d
                then Some (put_data a (d\<lparr>m_bytes := (\<lambda>k. if j \<le> k \<and> k < j + length xs then xs ! (k - j) else m_bytes d k)\<rparr>) h)
                else None })"

definition Allocate :: "nat \<Rightarrow> buffer_mem \<Rightarrow> nat \<times> buffer_mem" where
  "Allocate reqSize h =
     (let req = (if reqSize = 0 then 1 else reqSize) + 100; a = mem_next h
      in (a, (put_data a \<lparr>m_count = 1, m_size = req, m_dirtyStart = 0, m_dirtyEnd = 0, m_bytes = mem_junk h\<rparr> h)
             \<lparr>mem_next := a + 1\<rparr>))"

definition Deallocate :: "nat \<Rightarrow> buffer_mem \<Rightarrow> buffer_mem option" where
  "Deallocate a h =
     do { d \<leftarrow> mem_data h a;
          if m_count d \<noteq> 0 then None else Some (h\<lparr>mem_data := (mem_data h)(a := None)\<rparr>) }"

text \<open>The free list exists from the first buffer on; its destruction at the exit of the program is not modelled.\<close>

definition Recycle :: "nat \<Rightarrow> buffer_mem \<Rightarrow> buffer_mem option" where
  "Recycle a h =
     do { d \<leftarrow> mem_data h a;
          if m_count d \<noteq> 0 then None
          else let h1 = h\<lparr>g_maxSize := max (g_maxSize h) (m_size d)\<rparr>
               in if m_size d < g_maxSize h1 \<or> length (g_freeList h1) > 1000
                  then Deallocate a h1
                  else Some (h1\<lparr>g_freeList := g_freeList h1 @ [a]\<rparr>) }"

text \<open>The loop of \<open>Create\<close> takes blocks from the back of the free list; the list argument is the reversed list.\<close>

fun Create_loop :: "nat \<Rightarrow> nat list \<Rightarrow> buffer_mem \<Rightarrow> (nat option \<times> buffer_mem) option" where
  "Create_loop dataSize [] h = Some (None, h)"
| "Create_loop dataSize (a # as) h =
     do { d \<leftarrow> mem_data h a;
          let h1 = h\<lparr>g_freeList := rev as\<rparr>;
          if m_size d \<ge> dataSize then Some (Some a, put_data a (d\<lparr>m_count := 1\<rparr>) h1)
          else do { h2 \<leftarrow> Deallocate a h1; Create_loop dataSize as h2 } }"

definition Create :: "nat \<Rightarrow> buffer_mem \<Rightarrow> (nat \<times> buffer_mem) option" where
  "Create dataSize h =
     do { (r, h1) \<leftarrow> Create_loop dataSize (rev (g_freeList h)) h;
          Some (case r of Some a \<Rightarrow> (a, h1) | None \<Rightarrow> Allocate dataSize h1) }"

text \<open>\<open>m_data->m_count--\<close> and the recycling of a block that no buffer refers to.\<close>

definition release :: "nat \<Rightarrow> buffer_mem \<Rightarrow> buffer_mem option" where
  "release a h =
     do { d \<leftarrow> mem_data h a;
          let h1 = put_data a (d\<lparr>m_count := m_count d - 1\<rparr>) h;
          if m_count d - 1 = 0 then Recycle a h1 else Some h1 }"

definition retain :: "nat \<Rightarrow> buffer_mem \<Rightarrow> buffer_mem option" where
  "retain a h = do { d \<leftarrow> mem_data h a; Some (put_data a (d\<lparr>m_count := m_count d + 1\<rparr>) h) }"

definition set_dirty :: "nat \<Rightarrow> nat \<Rightarrow> nat \<Rightarrow> buffer_mem \<Rightarrow> buffer_mem option" where
  "set_dirty a s e h = do { d \<leftarrow> mem_data h a; Some (put_data a (d\<lparr>m_dirtyStart := s, m_dirtyEnd := e\<rparr>) h) }"

subsection \<open>Buffers\<close>

record Buffer =
  m_data :: nat
  m_maxZeroAreaStart :: nat
  m_zeroAreaStart :: nat
  m_zeroAreaEnd :: nat
  m_start :: nat
  m_end :: nat

definition Buffer_GetSize :: "Buffer \<Rightarrow> nat" where
  "Buffer_GetSize b = m_end b - m_start b"

definition GetInternalSize :: "Buffer \<Rightarrow> nat" where
  "GetInternalSize b = m_zeroAreaStart b - m_start b + m_end b - m_zeroAreaEnd b"

definition GetInternalEnd :: "Buffer \<Rightarrow> nat" where
  "GetInternalEnd b = m_end b - (m_zeroAreaEnd b - m_zeroAreaStart b)"

definition update_max_start :: "Buffer \<Rightarrow> Buffer" where
  "update_max_start b = b\<lparr>m_maxZeroAreaStart := max (m_maxZeroAreaStart b) (m_zeroAreaStart b)\<rparr>"

definition Buffer_Initialize :: "nat \<Rightarrow> buffer_mem \<Rightarrow> (Buffer \<times> buffer_mem) option" where
  "Buffer_Initialize zeroSize h =
     do { (a, h1) \<leftarrow> Create 0 h;
          d \<leftarrow> mem_data h1 a;
          let s = min (m_size d) (g_recommendedStart h1);
          h2 \<leftarrow> set_dirty a s (s + zeroSize) h1;
          Some (\<lparr>m_data = a, m_maxZeroAreaStart = s, m_zeroAreaStart = s, m_zeroAreaEnd = s + zeroSize,
                 m_start = s, m_end = s + zeroSize\<rparr>, h2) }"

definition Buffer_copy :: "Buffer \<Rightarrow> buffer_mem \<Rightarrow> (Buffer \<times> buffer_mem) option" where
  "Buffer_copy o' h =
     do { h1 \<leftarrow> retain (m_data o') h; Some (o'\<lparr>m_maxZeroAreaStart := m_zeroAreaStart o'\<rparr>, h1) }"

definition Buffer_assign :: "Buffer \<Rightarrow> Buffer \<Rightarrow> buffer_mem \<Rightarrow> (Buffer \<times> buffer_mem) option" where
  "Buffer_assign b o' h =
     do { h1 \<leftarrow> (if m_data b \<noteq> m_data o' then do { h0 \<leftarrow> release (m_data b) h; retain (m_data o') h0 } else Some h);
          Some (o', h1\<lparr>g_recommendedStart := max (g_recommendedStart h1) (m_maxZeroAreaStart b)\<rparr>) }"

definition Buffer_destroy :: "Buffer \<Rightarrow> buffer_mem \<Rightarrow> buffer_mem option" where
  "Buffer_destroy b h =
     release (m_data b) (h\<lparr>g_recommendedStart := max (g_recommendedStart h) (m_maxZeroAreaStart b)\<rparr>)"

subsection \<open>Adding and removing bytes\<close>

text \<open>The new bytes are whatever the memory holds; the caller writes them through an iterator.\<close>

definition Buffer_AddAtStart :: "nat \<Rightarrow> Buffer \<Rightarrow> buffer_mem \<Rightarrow> (Buffer \<times> buffer_mem) option" where
  "Buffer_AddAtStart start b h =
     do { d \<leftarrow> mem_data h (m_data b);
          let isDirty = (m_count d > 1 \<and> m_start b > m_dirtyStart d);
          if m_start b \<ge> start \<and> \<not> isDirty
          then if \<not> (m_count d = 1 \<or> m_start b = m_dirtyStart d) then None
               else let b1 = b\<lparr>m_start := m_start b - start\<rparr>
                    in do { h1 \<leftarrow> set_dirty (m_data b) (m_start b1) (m_dirtyEnd d) h;
                            Some (update_max_start b1, h1) }
          else do { (a, h1) \<leftarrow> Create (GetInternalSize b + start) h;
                    xs \<leftarrow> peek_bytes (m_data b) (m_start b) (GetInternalSize b) h1;
                    h2 \<leftarrow> poke_bytes a start xs h1;
                    h3 \<leftarrow> release (m_data b) h2;
                    let b1 = b\<lparr>m_data := a,
                               m_zeroAreaStart := m_zeroAreaStart b + start - m_start b,
                               m_zeroAreaEnd := m_zeroAreaEnd b + start - m_start b,
                               m_end := m_end b + start - m_start b,
                               m_start := 0\<rparr>;
                    h4 \<leftarrow> set_dirty a (m_start b1) (m_end b1) h3;
                    Some (update_max_start b1, h4) } }"

definition Buffer_AddAtEnd :: "nat \<Rightarrow> Buffer \<Rightarrow> buffer_mem \<Rightarrow> (Buffer \<times> buffer_mem) option" where
  "Buffer_AddAtEnd end' b h =
     do { d \<leftarrow> mem_data h (m_data b);
          let isDirty = (m_count d > 1 \<and> m_end b < m_dirtyEnd d);
          if GetInternalEnd b + end' \<le> m_size d \<and> \<not> isDirty
          then if \<not> (m_count d = 1 \<or> m_end b = m_dirtyEnd d) then None
               else let b1 = b\<lparr>m_end := m_end b + end'\<rparr>
                    in do { h1 \<leftarrow> set_dirty (m_data b) (m_dirtyStart d) (m_end b1) h;
                            Some (update_max_start b1, h1) }
          else do { (a, h1) \<leftarrow> Create (GetInternalSize b + end') h;
                    xs \<leftarrow> peek_bytes (m_data b) (m_start b) (GetInternalSize b) h1;
                    h2 \<leftarrow> poke_bytes a 0 xs h1;
                    h3 \<leftarrow> release (m_data b) h2;
                    let b1 = b\<lparr>m_data := a,
                               m_zeroAreaStart := m_zeroAreaStart b - m_start b,
                               m_zeroAreaEnd := m_zeroAreaEnd b - m_start b,
                               m_end := m_end b - m_start b + end',
                               m_start := 0\<rparr>;
                    h4 \<leftarrow> set_dirty a (m_start b1) (m_end b1) h3;
                    Some (update_max_start b1, h4) } }"

definition Buffer_RemoveAtStart :: "nat \<Rightarrow> Buffer \<Rightarrow> Buffer" where
  "Buffer_RemoveAtStart start b =
     (let newStart = m_start b + start in update_max_start
       (if newStart \<le> m_zeroAreaStart b
        then b\<lparr>m_start := newStart\<rparr>
        else if newStart \<le> m_zeroAreaEnd b
        then let delta = newStart - m_zeroAreaStart b
             in b\<lparr>m_start := m_zeroAreaStart b, m_zeroAreaEnd := m_zeroAreaEnd b - delta, m_end := m_end b - delta\<rparr>
        else if newStart \<le> m_end b
        then let zeroSize = m_zeroAreaEnd b - m_zeroAreaStart b
             in b\<lparr>m_start := newStart - zeroSize, m_end := m_end b - zeroSize,
                  m_zeroAreaStart := newStart - zeroSize, m_zeroAreaEnd := newStart - zeroSize\<rparr>
        else let e = m_end b - (m_zeroAreaEnd b - m_zeroAreaStart b)
             in b\<lparr>m_end := e, m_start := e, m_zeroAreaEnd := e, m_zeroAreaStart := e\<rparr>))"

definition Buffer_RemoveAtEnd :: "nat \<Rightarrow> Buffer \<Rightarrow> Buffer" where
  "Buffer_RemoveAtEnd end' b =
     (let newEnd = m_end b - min end' (m_end b - m_start b) in update_max_start
       (if newEnd > m_zeroAreaEnd b
        then b\<lparr>m_end := newEnd\<rparr>
        else if newEnd > m_zeroAreaStart b
        then b\<lparr>m_end := newEnd, m_zeroAreaEnd := newEnd\<rparr>
        else if newEnd > m_start b
        then b\<lparr>m_end := newEnd, m_zeroAreaEnd := newEnd, m_zeroAreaStart := newEnd\<rparr>
        else b\<lparr>m_end := m_start b, m_zeroAreaEnd := m_start b, m_zeroAreaStart := m_start b\<rparr>))"

text \<open>The argument of \<open>RemoveAtEnd\<close> is a difference of unsigned numbers.\<close>

definition Buffer_CreateFragment :: "nat \<Rightarrow> nat \<Rightarrow> Buffer \<Rightarrow> buffer_mem \<Rightarrow> (Buffer \<times> buffer_mem) option" where
  "Buffer_CreateFragment start len b h =
     do { (tmp, h1) \<leftarrow> Buffer_copy b h;
          Some (Buffer_RemoveAtEnd (nat ((int (Buffer_GetSize b) - int (start + len)) mod 2 ^ 32))
                 (Buffer_RemoveAtStart start tmp), h1) }"

subsection \<open>Iterators\<close>

record buffer_iter =
  i_zeroStart :: nat
  i_zeroEnd :: nat
  i_dataStart :: nat
  i_dataEnd :: nat
  i_current :: nat
  i_data :: nat

definition Buffer_Begin :: "Buffer \<Rightarrow> buffer_iter" where
  "Buffer_Begin b =
     \<lparr>i_zeroStart = m_zeroAreaStart b, i_zeroEnd = m_zeroAreaEnd b, i_dataStart = m_start b, i_dataEnd = m_end b,
      i_current = m_start b, i_data = m_data b\<rparr>"

definition Buffer_End :: "Buffer \<Rightarrow> buffer_iter" where
  "Buffer_End b = (Buffer_Begin b)\<lparr>i_current := m_end b\<rparr>"

definition Iterator_Next :: "nat \<Rightarrow> buffer_iter \<Rightarrow> buffer_iter option" where
  "Iterator_Next delta it =
     (if i_current it + delta \<le> i_dataEnd it then Some (it\<lparr>i_current := i_current it + delta\<rparr>) else None)"

definition Iterator_Prev :: "nat \<Rightarrow> buffer_iter \<Rightarrow> buffer_iter option" where
  "Iterator_Prev delta it =
     (if i_current it \<ge> delta then Some (it\<lparr>i_current := i_current it - delta\<rparr>) else None)"

definition IsEnd :: "buffer_iter \<Rightarrow> bool" where
  "IsEnd it \<longleftrightarrow> i_current it = i_dataEnd it"

definition IsStart :: "buffer_iter \<Rightarrow> bool" where
  "IsStart it \<longleftrightarrow> i_current it = i_dataStart it"

definition CheckNoZero :: "nat \<Rightarrow> nat \<Rightarrow> buffer_iter \<Rightarrow> bool" where
  "CheckNoZero start end' it \<longleftrightarrow>
     \<not> (start < i_dataStart it \<or> end' > i_dataEnd it \<or>
        (end' > i_zeroStart it \<and> start < i_zeroEnd it \<and> i_zeroEnd it \<noteq> i_zeroStart it \<and> start \<noteq> end'))"

definition Iterator_Check :: "nat \<Rightarrow> buffer_iter \<Rightarrow> bool" where
  "Iterator_Check i it \<longleftrightarrow> i \<ge> i_dataStart it \<and> \<not> (i \<ge> i_zeroStart it \<and> i < i_zeroEnd it) \<and> i \<le> i_dataEnd it"

definition zero_size :: "buffer_iter \<Rightarrow> nat" where
  "zero_size it = i_zeroEnd it - i_zeroStart it"

text \<open>Writing at an offset of the memory and advancing.\<close>

definition write_at :: "nat \<Rightarrow> uint8 list \<Rightarrow> buffer_iter \<Rightarrow> buffer_mem \<Rightarrow> (buffer_iter \<times> buffer_mem) option" where
  "write_at j xs it h =
     do { h1 \<leftarrow> poke_bytes (i_data it) j xs h; Some (it\<lparr>i_current := i_current it + length xs\<rparr>, h1) }"

definition WriteU8 :: "uint8 \<Rightarrow> buffer_iter \<Rightarrow> buffer_mem \<Rightarrow> (buffer_iter \<times> buffer_mem) option" where
  "WriteU8 data it h =
     (if \<not> Iterator_Check (i_current it) it then None
      else if i_current it < i_zeroStart it then write_at (i_current it) [data] it h
      else write_at (i_current it - zero_size it) [data] it h)"

definition WriteU8_len :: "uint8 \<Rightarrow> nat \<Rightarrow> buffer_iter \<Rightarrow> buffer_mem \<Rightarrow> (buffer_iter \<times> buffer_mem) option" where
  "WriteU8_len data len it h =
     (if \<not> CheckNoZero (i_current it) (i_current it + len) it then None
      else if i_current it \<le> i_zeroStart it then write_at (i_current it) (replicate len data) it h
      else write_at (i_current it - zero_size it) (replicate len data) it h)"

text \<open>The assertion passes the size where \<open>CheckNoZero\<close> expects the end.\<close>

definition Iterator_Write :: "uint8 list \<Rightarrow> buffer_iter \<Rightarrow> buffer_mem \<Rightarrow> (buffer_iter \<times> buffer_mem) option" where
  "Iterator_Write xs it h =
     (if \<not> CheckNoZero (i_current it) (length xs) it then None
      else if i_current it \<le> i_zeroStart it then write_at (i_current it) xs it h
      else write_at (i_current it - zero_size it) xs it h)"

text \<open>Copying from another buffer, in three parts: before, in and after its zero area.\<close>

definition Iterator_Write_range :: "buffer_iter \<Rightarrow> buffer_iter \<Rightarrow> buffer_iter \<Rightarrow> buffer_mem \<Rightarrow> (buffer_iter \<times> buffer_mem) option" where
  "Iterator_Write_range start end' it h =
     (if i_data start \<noteq> i_data end' \<or> i_current end' < i_current start \<or> i_zeroStart start \<noteq> i_zeroStart end' \<or>
         i_zeroEnd start \<noteq> i_zeroEnd end' \<or> i_data it = i_data start then None
      else let n = i_current end' - i_current start in
        if \<not> CheckNoZero (i_current it) (i_current it + n) it then None
        else let n1 = (if i_current start \<le> i_zeroStart start then min n (i_zeroStart start - i_current start) else 0);
                 c1 = i_current start + n1;
                 n2 = (if c1 \<le> i_zeroEnd start then min (n - n1) (i_zeroEnd start - c1) else 0);
                 c2 = c1 + n2;
                 n3 = min (n - n1 - n2) (i_dataEnd start - c2)
             in do { xs1 \<leftarrow> peek_bytes (i_data start) (i_current start) n1 h;
                     (it1, h1) \<leftarrow> write_at (i_current it) xs1 it h;
                     (it2, h2) \<leftarrow> write_at (i_current it1) (replicate n2 0) it1 h1;
                     xs3 \<leftarrow> peek_bytes (i_data start) (c2 - zero_size start) n3 h2;
                     write_at (i_current it2) xs3 it2 h2 })"

definition PeekU8 :: "buffer_iter \<Rightarrow> buffer_mem \<Rightarrow> uint8 option" where
  "PeekU8 it h =
     (if \<not> (i_current it \<ge> i_dataStart it \<and> i_current it < i_dataEnd it) then None
      else if i_current it < i_zeroStart it then map_option hd (peek_bytes (i_data it) (i_current it) 1 h)
      else if i_current it < i_zeroEnd it then Some 0
      else map_option hd (peek_bytes (i_data it) (i_current it - zero_size it) 1 h))"

definition ReadU8 :: "buffer_iter \<Rightarrow> buffer_mem \<Rightarrow> (uint8 \<times> buffer_iter) option" where
  "ReadU8 it h = do { v \<leftarrow> PeekU8 it h; Some (v, it\<lparr>i_current := i_current it + 1\<rparr>) }"

text \<open>A loop of \<open>ReadU8\<close>, as in \<open>Iterator::Read\<close>.\<close>

fun Iterator_Read :: "nat \<Rightarrow> buffer_iter \<Rightarrow> buffer_mem \<Rightarrow> (uint8 list \<times> buffer_iter) option" where
  "Iterator_Read 0 it h = Some ([], it)"
| "Iterator_Read (Suc n) it h =
     do { (v, it1) \<leftarrow> ReadU8 it h; (vs, it2) \<leftarrow> Iterator_Read n it1 h; Some (v # vs, it2) }"

subsection \<open>Copies and concatenation\<close>

definition Buffer_CreateFullCopy :: "Buffer \<Rightarrow> buffer_mem \<Rightarrow> (Buffer \<times> buffer_mem) option" where
  "Buffer_CreateFullCopy b h =
     (if m_zeroAreaEnd b - m_zeroAreaStart b \<noteq> 0
      then do { (tmp, h1) \<leftarrow> Buffer_Initialize 0 h;
                (tmp1, h2) \<leftarrow> Buffer_AddAtStart (m_zeroAreaEnd b - m_zeroAreaStart b) tmp h1;
                (_, h3) \<leftarrow> WriteU8_len 0 (m_zeroAreaEnd b - m_zeroAreaStart b) (Buffer_Begin tmp1) h2;
                let dataStart = m_zeroAreaStart b - m_start b;
                (tmp2, h4) \<leftarrow> Buffer_AddAtStart dataStart tmp1 h3;
                xs \<leftarrow> peek_bytes (m_data b) (m_start b) dataStart h4;
                (_, h5) \<leftarrow> Iterator_Write xs (Buffer_Begin tmp2) h4;
                let dataEnd = m_end b - m_zeroAreaEnd b;
                (tmp3, h6) \<leftarrow> Buffer_AddAtEnd dataEnd tmp2 h5;
                i \<leftarrow> Iterator_Prev dataEnd (Buffer_End tmp3);
                ys \<leftarrow> peek_bytes (m_data b) (m_zeroAreaStart b) dataEnd h6;
                (_, h7) \<leftarrow> Iterator_Write ys i h6;
                Some (tmp3, h7) }
      else Buffer_copy b h)"

text \<open>\<open>*this = \<dots>\<close> with a temporary, which is destroyed after the assignment.\<close>

definition assign_temporary :: "Buffer \<Rightarrow> Buffer \<Rightarrow> buffer_mem \<Rightarrow> (Buffer \<times> buffer_mem) option" where
  "assign_temporary b tmp h =
     do { (b1, h1) \<leftarrow> Buffer_assign b tmp h; h2 \<leftarrow> Buffer_destroy tmp h1; Some (b1, h2) }"

definition Buffer_TransformIntoRealBuffer :: "Buffer \<Rightarrow> buffer_mem \<Rightarrow> (Buffer \<times> buffer_mem) option" where
  "Buffer_TransformIntoRealBuffer b h =
     do { (tmp, h1) \<leftarrow> Buffer_CreateFullCopy b h; assign_temporary b tmp h1 }"

text \<open>\<open>PeekData\<close> returns a pointer to the bytes; here the buffer it leaves and the offset.\<close>

definition Buffer_PeekData :: "Buffer \<Rightarrow> buffer_mem \<Rightarrow> (nat \<times> Buffer \<times> buffer_mem) option" where
  "Buffer_PeekData b h =
     do { (b1, h1) \<leftarrow> Buffer_TransformIntoRealBuffer b h; Some (m_start b1, b1, h1) }"

text \<open>\<open>AddAtEnd (const Buffer &)\<close>; the two buffers are distinct objects.\<close>

definition Buffer_append :: "Buffer \<Rightarrow> Buffer \<Rightarrow> buffer_mem \<Rightarrow> (Buffer \<times> buffer_mem) option" where
  "Buffer_append o' b h =
     do { d \<leftarrow> mem_data h (m_data b);
          if m_count d = 1 \<and> (m_end b = m_zeroAreaEnd b \<or> m_zeroAreaStart b = m_zeroAreaEnd b) \<and>
             m_end b = m_dirtyEnd d \<and> m_start o' = m_zeroAreaStart o' \<and> m_zeroAreaEnd o' - m_zeroAreaStart o' > 0
          then let zs = (if m_zeroAreaStart b = m_zeroAreaEnd b then m_end b else m_zeroAreaStart b);
                   zeroSize = m_zeroAreaEnd o' - m_zeroAreaStart o';
                   b1 = b\<lparr>m_zeroAreaStart := zs, m_zeroAreaEnd := m_end b + zeroSize, m_end := m_end b + zeroSize\<rparr>;
                   endData = m_end o' - m_zeroAreaEnd o'
               in do { h1 \<leftarrow> set_dirty (m_data b) (m_dirtyStart d) (m_zeroAreaEnd b1) h;
                       (b2, h2) \<leftarrow> Buffer_AddAtEnd endData b1 h1;
                       dst \<leftarrow> Iterator_Prev endData (Buffer_End b2);
                       src \<leftarrow> Iterator_Prev endData (Buffer_End o');
                       (_, h3) \<leftarrow> Iterator_Write_range src (Buffer_End o') dst h2;
                       Some (b2, h3) }
          else do { (tmp, h1) \<leftarrow> Buffer_CreateFullCopy b h;
                    (b1, h2) \<leftarrow> assign_temporary b tmp h1;
                    (b2, h3) \<leftarrow> Buffer_AddAtEnd (Buffer_GetSize o') b1 h2;
                    destStart \<leftarrow> Iterator_Prev (Buffer_GetSize o') (Buffer_End b2);
                    (_, h4) \<leftarrow> Iterator_Write_range (Buffer_Begin o') (Buffer_End o') destStart h3;
                    Some (b2, h4) } }"

text \<open>
  \<open>CopyData\<close> into a byte array; the loop that writes the zero area in pieces of \<open>g_zeroes\<close> is the recursion.
\<close>

function copy_zeroes :: "nat \<Rightarrow> uint8 list" where
  "copy_zeroes left' = (if left' > 0 then let toWrite = min left' 1000 in replicate toWrite 0 @ copy_zeroes (left' - toWrite) else [])"
  by auto
termination by (relation "measure id") auto

declare copy_zeroes.simps [simp del]

definition Buffer_CopyData :: "nat \<Rightarrow> Buffer \<Rightarrow> buffer_mem \<Rightarrow> uint8 list option" where
  "Buffer_CopyData sz b h =
     (if sz > 0
      then let n1 = min (m_zeroAreaStart b - m_start b) sz
           in do { xs \<leftarrow> peek_bytes (m_data b) (m_start b) n1 h;
                   if sz - n1 > 0
                   then let n2 = min (m_zeroAreaEnd b - m_zeroAreaStart b) (sz - n1)
                        in if sz - n1 - n2 > 0
                           then do { ys \<leftarrow> peek_bytes (m_data b) (m_zeroAreaStart b) (min (m_end b - m_zeroAreaEnd b) (sz - n1 - n2)) h;
                                     Some (xs @ copy_zeroes n2 @ ys) }
                           else Some (xs @ copy_zeroes n2)
                   else Some xs }
      else Some [])"

end
