(* ===== verification/Buffer_Correct.thy ===== *)
theory Buffer_Correct
  imports Net_Buffer
begin

text \<open>
  The buffers refine lists of bytes. The invariant \<open>mem_ok\<close> relates the memory to the list of the buffers that
  are alive (and, within an operation, of the addresses that are held without a buffer): every buffer lies
  inside its block and inside its dirty area, the counts are right, and a buffer that ends where the dirty area
  ends has the last byte of the block. Every operation keeps it, changes the bytes of its own buffer as
  a list operation does, and leaves all other buffers as they are, although blocks are shared.
\<close>

subsection \<open>Contents and invariant\<close>

definition real_end :: "Buffer \<Rightarrow> nat" where
  "real_end b = m_zeroAreaStart b + (m_end b - m_zeroAreaEnd b)"

definition bytes_in :: "BufferData \<Rightarrow> Buffer \<Rightarrow> uint8 list" where
  "bytes_in d b =
     map (m_bytes d) [m_start b..<m_zeroAreaStart b] @ replicate (m_zeroAreaEnd b - m_zeroAreaStart b) 0 @
     map (m_bytes d) [m_zeroAreaStart b..<real_end b]"

definition contents :: "buffer_mem \<Rightarrow> Buffer \<Rightarrow> uint8 list" where
  "contents h b = (case mem_data h (m_data b) of None \<Rightarrow> [] | Some d \<Rightarrow> bytes_in d b)"

definition fits :: "BufferData \<Rightarrow> Buffer \<Rightarrow> bool" where
  "fits d b \<longleftrightarrow>
     m_start b \<le> m_zeroAreaStart b \<and> m_zeroAreaStart b \<le> m_zeroAreaEnd b \<and> m_zeroAreaEnd b \<le> m_end b \<and>
     real_end b \<le> m_size d \<and> m_dirtyStart d \<le> m_start b \<and> m_end b \<le> m_dirtyEnd d"

definition refs :: "Buffer list \<Rightarrow> nat list \<Rightarrow> nat \<Rightarrow> nat" where
  "refs bs xs a = length (filter (\<lambda>b. m_data b = a) bs) + count_list xs a"

definition mem_ok :: "buffer_mem \<Rightarrow> Buffer list \<Rightarrow> nat list \<Rightarrow> bool" where
  "mem_ok h bs xs \<longleftrightarrow>
     (\<forall>b \<in> set bs. \<exists>d. mem_data h (m_data b) = Some d \<and> fits d b) \<and>
     (\<forall>b \<in> set bs. \<forall>c \<in> set bs. \<forall>d. m_data b = m_data c \<and> mem_data h (m_data b) = Some d \<and> m_end b = m_dirtyEnd d \<longrightarrow>
        real_end c \<le> real_end b) \<and>
     (\<forall>a d. mem_data h a = Some d \<longrightarrow> m_count d = refs bs xs a \<and> a < mem_next h) \<and>
     (\<forall>a \<in> set xs. mem_data h a \<noteq> None) \<and>
     distinct (g_freeList h) \<and> (\<forall>a \<in> set (g_freeList h). \<exists>d. mem_data h a = Some d \<and> m_count d = 0)"

lemma mem_okI:
  assumes "\<And>b. b \<in> set bs \<Longrightarrow> \<exists>d. mem_data h (m_data b) = Some d \<and> fits d b"
    and "\<And>b c d. b \<in> set bs \<Longrightarrow> c \<in> set bs \<Longrightarrow> m_data b = m_data c \<Longrightarrow> mem_data h (m_data b) = Some d \<Longrightarrow>
      m_end b = m_dirtyEnd d \<Longrightarrow> real_end c \<le> real_end b"
    and "\<And>a d. mem_data h a = Some d \<Longrightarrow> m_count d = refs bs xs a \<and> a < mem_next h"
    and "\<And>a. a \<in> set xs \<Longrightarrow> mem_data h a \<noteq> None"
    and "distinct (g_freeList h)" "\<And>a. a \<in> set (g_freeList h) \<Longrightarrow> \<exists>d. mem_data h a = Some d \<and> m_count d = 0"
  shows "mem_ok h bs xs"
  unfolding mem_ok_def using assms by blast

lemma mem_okD:
  assumes "mem_ok h bs xs"
  shows "b \<in> set bs \<Longrightarrow> \<exists>d. mem_data h (m_data b) = Some d \<and> fits d b"
    and "b \<in> set bs \<Longrightarrow> c \<in> set bs \<Longrightarrow> m_data b = m_data c \<Longrightarrow> mem_data h (m_data b) = Some d \<Longrightarrow>
      m_end b = m_dirtyEnd d \<Longrightarrow> real_end c \<le> real_end b"
    and "mem_data h a = Some d \<Longrightarrow> m_count d = refs bs xs a"
    and "mem_data h a = Some d \<Longrightarrow> a < mem_next h"
    and "a \<in> set xs \<Longrightarrow> mem_data h a \<noteq> None"
    and "distinct (g_freeList h)" and "a \<in> set (g_freeList h) \<Longrightarrow> \<exists>d. mem_data h a = Some d \<and> m_count d = 0"
  using assms unfolding mem_ok_def by blast+

lemma mem_ok_last:
  assumes "mem_ok h (b # bs) xs" "c \<in> set bs" "m_data c = m_data b" "mem_data h (m_data b) = Some d"
  shows "(m_end b = m_dirtyEnd d \<longrightarrow> real_end c \<le> real_end b) \<and> (m_end c = m_dirtyEnd d \<longrightarrow> real_end b \<le> real_end c)"
  using mem_okD(2) [OF assms(1), of b c d] mem_okD(2) [OF assms(1), of c b d] assms(2-4) by (metis list.set_intros)

lemma refs_Cons [simp]:
  "refs (b # bs) xs a = (if m_data b = a then 1 else 0) + refs bs xs a"
  "refs bs (x # xs) a = (if x = a then 1 else 0) + refs bs xs a"
  by (simp_all add: refs_def)

lemma refs_in: "b \<in> set bs \<Longrightarrow> 0 < refs bs xs (m_data b)" "a \<in> set xs \<Longrightarrow> 0 < refs bs xs a"
  by (auto simp: refs_def filter_empty_conv count_list_0_iff neq0_conv [symmetric] simp del: neq0_conv)

lemma refs_0: "refs bs xs a = 0 \<longleftrightarrow> a \<notin> m_data ` set bs \<and> a \<notin> set xs"
  by (auto simp: refs_def filter_empty_conv count_list_0_iff)

text \<open>The order of the buffers does not matter, and a buffer can be turned into a bare reference.\<close>

lemma mem_ok_perm:
  assumes "mset bs = mset bs'" "mset xs = mset xs'" shows "mem_ok h bs xs = mem_ok h bs' xs'"
proof -
  have sets: "set bs = set bs'" "set xs = set xs'" using assms mset_eq_setD by blast+
  have "mset (filter (\<lambda>b. m_data b = a) bs) = mset (filter (\<lambda>b. m_data b = a) bs')" for a using assms(1) by (simp only: mset_filter)
  then have "length (filter (\<lambda>b. m_data b = a) bs) = length (filter (\<lambda>b. m_data b = a) bs')" for a by (rule mset_eq_length)
  moreover have "count_list xs a = count_list xs' a" for a using assms(2) by (metis count_mset)
  ultimately have "refs bs xs = refs bs' xs'" by (simp add: refs_def fun_eq_iff)
  then show ?thesis unfolding mem_ok_def sets by simp
qed

lemma mem_ok_drop: "mem_ok h (b # bs) xs \<Longrightarrow> mem_ok h bs (m_data b # xs)"
  unfolding mem_ok_def by fastforce

lemma mem_ok_lookup:
  assumes "mem_ok h bs xs" "b \<in> set bs"
  obtains d where "mem_data h (m_data b) = Some d" "fits d b" "contents h b = bytes_in d b"
  using mem_okD(1) [OF assms] by (auto simp: contents_def)

lemma contents_cong: "mem_data h (m_data b) = mem_data h' (m_data b) \<Longrightarrow> contents h b = contents h' b"
  by (simp add: contents_def)

lemma length_bytes_in: "fits d b \<Longrightarrow> length (bytes_in d b) = Buffer_GetSize b"
  by (simp add: bytes_in_def fits_def real_end_def Buffer_GetSize_def)

lemma mem_ok_globals:
  assumes "mem_ok h bs xs" "mem_data h' = mem_data h" "mem_next h' = mem_next h" "distinct (g_freeList h')"
    "set (g_freeList h') \<subseteq> set (g_freeList h)"
  shows "mem_ok h' bs xs"
  using assms(1,4,5) unfolding mem_ok_def assms(2,3) by blast

subsection \<open>Blocks\<close>

lemma put_data_simps [simp]:
  "mem_data (put_data a d h) = (mem_data h)(a := Some d)" "mem_next (put_data a d h) = mem_next h"
  "g_freeList (put_data a d h) = g_freeList h" "mem_junk (put_data a d h) = mem_junk h"
  "g_maxSize (put_data a d h) = g_maxSize h" "g_recommendedStart (put_data a d h) = g_recommendedStart h"
  by (simp_all add: put_data_def)

lemma Create_loop_ok:
  assumes "mem_ok h bs xs" "g_freeList h = rev as"
  shows "\<exists>r h1. Create_loop n as h = Some (r, h1) \<and>
    (\<forall>a. a \<in> m_data ` set bs \<union> set xs \<longrightarrow> mem_data h1 a = mem_data h a) \<and> mem_next h1 = mem_next h \<and>
    (case r of None \<Rightarrow> mem_ok h1 bs xs
     | Some a \<Rightarrow> mem_ok h1 bs (a # xs) \<and> a \<notin> m_data ` set bs \<union> set xs \<and> (\<exists>d. mem_data h1 a = Some d \<and> n \<le> m_size d \<and> m_count d = 1))"
  using assms
proof (induction as arbitrary: h)
  case Nil
  then show ?case by auto
next
  case (Cons a as)
  obtain d where d: "mem_data h a = Some d" "m_count d = 0"
    using mem_okD(7) [OF Cons.prems(1), of a] Cons.prems(2) by auto
  then have free: "a \<notin> m_data ` set bs" "a \<notin> set xs"
    using mem_okD(3) [OF Cons.prems(1) d(1)] refs_0 [of bs xs a] by auto
  have fl: "distinct (rev as)" "a \<notin> set as" "\<And>x. x \<in> set as \<Longrightarrow> \<exists>d. mem_data h x = Some d \<and> m_count d = 0"
    using mem_okD(6,7) [OF Cons.prems(1)] Cons.prems(2) by auto
  define h1 where "h1 = h\<lparr>g_freeList := rev as\<rparr>"
  have h1: "mem_ok h1 bs xs"
    using Cons.prems(2) fl unfolding h1_def by (intro mem_ok_globals [OF Cons.prems(1)]) auto
  show ?case
  proof (cases "n \<le> m_size d")
    case True
    have "mem_ok (put_data a (d\<lparr>m_count := 1\<rparr>) h1) bs (a # xs)"
    proof (rule mem_okI)
      show "\<exists>d'. mem_data (put_data a (d\<lparr>m_count := 1\<rparr>) h1) (m_data b) = Some d' \<and> fits d' b" if "b \<in> set bs" for b
        using that mem_okD(1) [OF h1 that] free by auto
      show "real_end c \<le> real_end b"
        if "b \<in> set bs" "c \<in> set bs" "m_data b = m_data c" "mem_data (put_data a (d\<lparr>m_count := 1\<rparr>) h1) (m_data b) = Some d'"
          "m_end b = m_dirtyEnd d'" for b c d'
        using that mem_okD(2) [OF h1] free by (auto split: if_splits)
      show "m_count d' = refs bs (a # xs) a' \<and> a' < mem_next (put_data a (d\<lparr>m_count := 1\<rparr>) h1)"
        if "mem_data (put_data a (d\<lparr>m_count := 1\<rparr>) h1) a' = Some d'" for a' d'
        using that mem_okD(3,4) [OF h1] d free refs_0 [of bs xs a] by (auto simp: h1_def split: if_splits)
      show "mem_data (put_data a (d\<lparr>m_count := 1\<rparr>) h1) a' \<noteq> None" if "a' \<in> set (a # xs)" for a'
        using that mem_okD(5) [OF h1] by auto
      show "distinct (g_freeList (put_data a (d\<lparr>m_count := 1\<rparr>) h1))" using fl by (simp add: h1_def)
      show "\<exists>d'. mem_data (put_data a (d\<lparr>m_count := 1\<rparr>) h1) a' = Some d' \<and> m_count d' = 0"
        if "a' \<in> set (g_freeList (put_data a (d\<lparr>m_count := 1\<rparr>) h1))" for a'
        using that fl by (auto simp: h1_def)
    qed
    then show ?thesis using True d free by (auto simp: h1_def Let_def)
  next
    case False
    let ?h2 = "h1\<lparr>mem_data := (mem_data h1)(a := None)\<rparr>"
    have del: "Deallocate a h1 = Some ?h2" using d by (simp add: Deallocate_def h1_def)
    have "mem_ok ?h2 bs xs"
      using h1 free fl(2) unfolding mem_ok_def by (auto simp: h1_def)
    then obtain r h3 where ih: "Create_loop n as ?h2 = Some (r, h3)"
      "\<forall>a. a \<in> m_data ` set bs \<union> set xs \<longrightarrow> mem_data h3 a = mem_data ?h2 a" "mem_next h3 = mem_next ?h2"
      "case r of None \<Rightarrow> mem_ok h3 bs xs
       | Some a \<Rightarrow> mem_ok h3 bs (a # xs) \<and> a \<notin> m_data ` set bs \<union> set xs \<and> (\<exists>d. mem_data h3 a = Some d \<and> n \<le> m_size d \<and> m_count d = 1)"
      using Cons.IH [of ?h2] by (auto simp: h1_def)
    moreover have "Create_loop n (a # as) h = Create_loop n as ?h2"
      using d(1) False del by (simp add: Let_def flip: h1_def)
    ultimately show ?thesis using free by (auto simp: h1_def)
  qed
qed

text \<open>A fresh block is held by the caller; the blocks in use are as before.\<close>

lemma Create_ok:
  assumes "mem_ok h bs xs"
  shows "\<exists>a h1 d. Create n h = Some (a, h1) \<and> mem_ok h1 bs (a # xs) \<and> a \<notin> m_data ` set bs \<and> a \<notin> set xs \<and>
    mem_data h1 a = Some d \<and> n \<le> m_size d \<and> m_count d = 1 \<and>
    (\<forall>a'. a' \<in> m_data ` set bs \<union> set xs \<longrightarrow> mem_data h1 a' = mem_data h a')"
proof -
  obtain r h1 where r: "Create_loop n (rev (g_freeList h)) h = Some (r, h1)" "mem_next h1 = mem_next h"
      "\<forall>a. a \<in> m_data ` set bs \<union> set xs \<longrightarrow> mem_data h1 a = mem_data h a"
      "case r of None \<Rightarrow> mem_ok h1 bs xs
       | Some a \<Rightarrow> mem_ok h1 bs (a # xs) \<and> a \<notin> m_data ` set bs \<union> set xs \<and> (\<exists>d. mem_data h1 a = Some d \<and> n \<le> m_size d \<and> m_count d = 1)"
    using Create_loop_ok [OF assms, of "rev (g_freeList h)" n] by auto
  show ?thesis
  proof (cases r)
    case None
    then have ok: "mem_ok h1 bs xs" using r(4) by simp
    define a where "a = mem_next h1"
    let ?d = "\<lparr>m_count = 1, m_size = (if n = 0 then 1 else n) + 100, m_dirtyStart = 0, m_dirtyEnd = 0,
      m_bytes = mem_junk h1\<rparr>"
    let ?h = "(put_data a ?d h1)\<lparr>mem_next := a + 1\<rparr>"
    have new: "mem_data h1 a = None" using mem_okD(4) [OF ok, of a] by (metis a_def less_irrefl option.exhaust)
    have fresh: "a \<notin> m_data ` set bs" "a \<notin> set xs" "a \<notin> set (g_freeList h1)"
      using new mem_okD(1) [OF ok] mem_okD(5,7) [OF ok, of a] by (fastforce, simp, auto)
    have "mem_ok ?h bs (a # xs)"
    proof (rule mem_okI)
      show "\<exists>d. mem_data ?h (m_data b) = Some d \<and> fits d b" if "b \<in> set bs" for b
        using that mem_okD(1) [OF ok that] fresh by auto
      show "real_end c \<le> real_end b"
        if "b \<in> set bs" "c \<in> set bs" "m_data b = m_data c" "mem_data ?h (m_data b) = Some d'" "m_end b = m_dirtyEnd d'" for b c d'
        using that mem_okD(2) [OF ok] fresh by (auto split: if_splits)
      show "m_count d' = refs bs (a # xs) a' \<and> a' < mem_next ?h" if "mem_data ?h a' = Some d'" for a' d'
        using that mem_okD(3,4) [OF ok] fresh refs_0 [of bs xs a] by (auto simp: less_Suc_eq a_def split: if_splits)
      show "mem_data ?h a' \<noteq> None" if "a' \<in> set (a # xs)" for a' using that mem_okD(5) [OF ok] by auto
      show "distinct (g_freeList ?h)" using mem_okD(6) [OF ok] by simp
      show "\<exists>d'. mem_data ?h a' = Some d' \<and> m_count d' = 0" if "a' \<in> set (g_freeList ?h)" for a'
        using that mem_okD(7) [OF ok] fresh by auto
    qed
    moreover have "Create n h = Some (a, ?h)" using r(1) None by (simp add: Create_def Allocate_def Let_def a_def)
    ultimately show ?thesis using fresh r(3) by (auto intro!: exI [of _ a] exI [of _ ?h])
  next
    case (Some a)
    then show ?thesis using r by (auto simp: Create_def)
  qed
qed

text \<open>Giving up a reference: other blocks, and the bytes of this one if it is still used, are as before.\<close>

definition same_block :: "BufferData option \<Rightarrow> BufferData option \<Rightarrow> bool" where
  "same_block x y = (map_option (\<lambda>d. d\<lparr>m_count := 0\<rparr>) x = map_option (\<lambda>d. d\<lparr>m_count := 0\<rparr>) y)"

lemma same_block_contents: "same_block (mem_data h (m_data b)) (mem_data h' (m_data b)) \<Longrightarrow> contents h b = contents h' b"
  by (cases "mem_data h (m_data b)"; cases "mem_data h' (m_data b)")
     (auto simp: same_block_def contents_def bytes_in_def dest: arg_cong [where f = m_bytes])

lemma mem_ok_count:
  assumes "mem_ok h bs (a # xs)" "mem_data h a = Some d"
  shows "mem_ok (put_data a (d\<lparr>m_count := m_count d - 1\<rparr>) h) bs xs"
proof (rule mem_okI)
  let ?h = "put_data a (d\<lparr>m_count := m_count d - 1\<rparr>) h"
  have cnt: "m_count d = Suc (refs bs xs a)" using mem_okD(3) [OF assms] by simp
  show "\<exists>d'. mem_data ?h (m_data b) = Some d' \<and> fits d' b" if "b \<in> set bs" for b
    using that mem_okD(1) [OF assms(1) that] assms(2) by (auto simp: fits_def)
  show "real_end c \<le> real_end b"
    if "b \<in> set bs" "c \<in> set bs" "m_data b = m_data c" "mem_data ?h (m_data b) = Some d'" "m_end b = m_dirtyEnd d'" for b c d'
    using that mem_okD(2) [OF assms(1)] assms(2) by (auto split: if_splits)
  show "m_count d' = refs bs xs a' \<and> a' < mem_next ?h" if "mem_data ?h a' = Some d'" for a' d'
    using that mem_okD(3,4) [OF assms(1)] assms(2) cnt by (auto split: if_splits)
  show "mem_data ?h a' \<noteq> None" if "a' \<in> set xs" for a' using that mem_okD(5) [OF assms(1), of a'] by auto
  show "distinct (g_freeList ?h)" using mem_okD(6) [OF assms(1)] by simp
  show "\<exists>d'. mem_data ?h a' = Some d' \<and> m_count d' = 0" if "a' \<in> set (g_freeList ?h)" for a'
    using that mem_okD(7) [OF assms(1), of a'] assms(2) cnt by auto
qed

lemma release_ok:
  assumes "mem_ok h bs (a # xs)"
  shows "\<exists>h1. release a h = Some h1 \<and> mem_ok h1 bs xs \<and> (\<forall>a'. a' \<noteq> a \<longrightarrow> mem_data h1 a' = mem_data h a') \<and>
    (a \<in> m_data ` set bs \<union> set xs \<longrightarrow> same_block (mem_data h1 a) (mem_data h a))"
proof -
  obtain d where d: "mem_data h a = Some d" using mem_okD(5) [OF assms, of a] by auto
  have cnt: "m_count d = Suc (refs bs xs a)" using mem_okD(3) [OF assms d] by simp
  let ?h = "put_data a (d\<lparr>m_count := m_count d - 1\<rparr>) h"
  note ok = mem_ok_count [OF assms d]
  show ?thesis
  proof (cases "m_count d - 1 = 0")
    case False
    then show ?thesis using d ok by (auto simp: release_def Let_def same_block_def)
  next
    case True
    then have free: "a \<notin> m_data ` set bs" "a \<notin> set xs" using cnt refs_0 [of bs xs a] by auto
    have nf: "a \<notin> set (g_freeList h)" using mem_okD(7) [OF assms, of a] d cnt by auto
    define h1 where "h1 = ?h\<lparr>g_maxSize := max (g_maxSize h) (m_size d)\<rparr>"
    have ok1: "mem_ok h1 bs xs" using ok nf mem_okD(6) [OF assms] by (intro mem_ok_globals [OF ok]) (auto simp: h1_def)
    have rel: "release a h = (if m_size d < g_maxSize h1 \<or> length (g_freeList h) > 1000 then Some (h1\<lparr>mem_data := (mem_data h1)(a := None)\<rparr>)
        else Some (h1\<lparr>g_freeList := g_freeList h @ [a]\<rparr>))"
      using d True by (simp add: release_def Recycle_def Deallocate_def Let_def h1_def)
    have del: "mem_ok (h1\<lparr>mem_data := (mem_data h1)(a := None)\<rparr>) bs xs"
    proof (rule mem_okI)
      let ?k = "h1\<lparr>mem_data := (mem_data h1)(a := None)\<rparr>"
      show "\<exists>d'. mem_data ?k (m_data b) = Some d' \<and> fits d' b" if "b \<in> set bs" for b
        using that mem_okD(1) [OF ok1 that] free by auto
      show "real_end c \<le> real_end b"
        if "b \<in> set bs" "c \<in> set bs" "m_data b = m_data c" "mem_data ?k (m_data b) = Some d'" "m_end b = m_dirtyEnd d'" for b c d'
        using that mem_okD(2) [OF ok1] by (auto split: if_splits)
      show "m_count d' = refs bs xs a' \<and> a' < mem_next ?k" if "mem_data ?k a' = Some d'" for a' d'
        using that mem_okD(3,4) [OF ok1] by (auto split: if_splits)
      show "mem_data ?k a' \<noteq> None" if "a' \<in> set xs" for a' using that mem_okD(5) [OF ok1] free by auto
      show "distinct (g_freeList ?k)" using mem_okD(6) [OF ok1] by simp
      show "\<exists>d'. mem_data ?k a' = Some d' \<and> m_count d' = 0" if "a' \<in> set (g_freeList ?k)" for a'
        using that mem_okD(7) [OF ok1, of a'] nf by (auto simp: h1_def)
    qed
    have push: "mem_ok (h1\<lparr>g_freeList := g_freeList h @ [a]\<rparr>) bs xs"
    proof (rule mem_okI)
      let ?k = "h1\<lparr>g_freeList := g_freeList h @ [a]\<rparr>"
      show "\<exists>d'. mem_data ?k (m_data b) = Some d' \<and> fits d' b" if "b \<in> set bs" for b
        using that mem_okD(1) [OF ok1 that] by auto
      show "real_end c \<le> real_end b"
        if "b \<in> set bs" "c \<in> set bs" "m_data b = m_data c" "mem_data ?k (m_data b) = Some d'" "m_end b = m_dirtyEnd d'" for b c d'
        using that mem_okD(2) [OF ok1] by auto
      show "m_count d' = refs bs xs a' \<and> a' < mem_next ?k" if "mem_data ?k a' = Some d'" for a' d'
        using that mem_okD(3,4) [OF ok1] by auto
      show "mem_data ?k a' \<noteq> None" if "a' \<in> set xs" for a' using that mem_okD(5) [OF ok1] by auto
      show "distinct (g_freeList ?k)" using mem_okD(6) [OF assms] nf by simp
      show "\<exists>d'. mem_data ?k a' = Some d' \<and> m_count d' = 0" if "a' \<in> set (g_freeList ?k)" for a'
        using that mem_okD(7) [OF ok1, of a'] True by (auto simp: h1_def)
    qed
    show ?thesis using rel del push free by (auto simp: h1_def split: if_splits)
  qed
qed

text \<open>A block may be changed as long as its buffers still fit; a reference may become a buffer.\<close>

lemma mem_ok_put:
  assumes "mem_ok h bs xs" "mem_data h a = Some d" "m_count d' = m_count d"
    and fit: "\<And>b. b \<in> set bs \<Longrightarrow> m_data b = a \<Longrightarrow> fits d' b"
    and last: "\<And>b c. b \<in> set bs \<Longrightarrow> c \<in> set bs \<Longrightarrow> m_data b = a \<Longrightarrow> m_data c = a \<Longrightarrow> m_end b = m_dirtyEnd d' \<Longrightarrow> real_end c \<le> real_end b"
  shows "mem_ok (put_data a d' h) bs xs"
proof (rule mem_okI)
  let ?h = "put_data a d' h"
  show "\<exists>d'. mem_data ?h (m_data b) = Some d' \<and> fits d' b" if "b \<in> set bs" for b
    using that mem_okD(1) [OF assms(1) that] fit by auto
  show "real_end c \<le> real_end b"
    if "b \<in> set bs" "c \<in> set bs" "m_data b = m_data c" "mem_data ?h (m_data b) = Some e" "m_end b = m_dirtyEnd e" for b c e
  proof (cases "m_data b = a")
    case True
    then show ?thesis using that last [of b c] by simp
  next
    case False
    then show ?thesis using that mem_okD(2) [OF assms(1), of b c e] by simp
  qed
  show "m_count e = refs bs xs a' \<and> a' < mem_next ?h" if "mem_data ?h a' = Some e" for a' e
    using that mem_okD(3,4) [OF assms(1)] assms(2,3) by (auto split: if_splits)
  show "mem_data ?h a' \<noteq> None" if "a' \<in> set xs" for a' using that mem_okD(5) [OF assms(1), of a'] by auto
  show "distinct (g_freeList ?h)" using mem_okD(6) [OF assms(1)] by simp
  show "\<exists>e. mem_data ?h a' = Some e \<and> m_count e = 0" if "a' \<in> set (g_freeList ?h)" for a'
    using that mem_okD(7) [OF assms(1), of a'] assms(2,3) by auto
qed

lemma mem_ok_adopt:
  assumes "mem_ok h bs (m_data b # xs)" "mem_data h (m_data b) = Some d" "fits d b"
    and last: "\<And>c. c \<in> set bs \<Longrightarrow> m_data c = m_data b \<Longrightarrow>
      (m_end b = m_dirtyEnd d \<longrightarrow> real_end c \<le> real_end b) \<and> (m_end c = m_dirtyEnd d \<longrightarrow> real_end b \<le> real_end c)"
  shows "mem_ok h (b # bs) xs"
proof (rule mem_okI)
  show "\<exists>d'. mem_data h (m_data c) = Some d' \<and> fits d' c" if "c \<in> set (b # bs)" for c
    using that mem_okD(1) [OF assms(1)] assms(2,3) by auto
  show "real_end c' \<le> real_end c"
    if "c \<in> set (b # bs)" "c' \<in> set (b # bs)" "m_data c = m_data c'" "mem_data h (m_data c) = Some e" "m_end c = m_dirtyEnd e" for c c' e
    using that mem_okD(2) [OF assms(1), of c c' e] assms(2) last [of c] last [of c'] by auto
  show "m_count e = refs (b # bs) xs a \<and> a < mem_next h" if "mem_data h a = Some e" for a e
    using that mem_okD(3,4) [OF assms(1) that] by auto
  show "mem_data h a \<noteq> None" if "a \<in> set xs" for a using that mem_okD(5) [OF assms(1), of a] by auto
  show "distinct (g_freeList h)" using mem_okD(6) [OF assms(1)] .
  show "\<exists>e. mem_data h a = Some e \<and> m_count e = 0" if "a \<in> set (g_freeList h)" for a
    using that mem_okD(7) [OF assms(1)] by blast
qed

lemma update_max_start_simps [simp]:
  "m_data (update_max_start b) = m_data b" "m_start (update_max_start b) = m_start b" "m_end (update_max_start b) = m_end b"
  "m_zeroAreaStart (update_max_start b) = m_zeroAreaStart b" "m_zeroAreaEnd (update_max_start b) = m_zeroAreaEnd b"
  "real_end (update_max_start b) = real_end b" "bytes_in d (update_max_start b) = bytes_in d b"
  "fits d (update_max_start b) = fits d b" "contents h (update_max_start b) = contents h b"
  by (simp_all add: update_max_start_def real_end_def bytes_in_def fits_def contents_def split: option.split)

subsection \<open>Adding bytes\<close>

lemma map_upt_shift: "map f [i..<i + n] = map (\<lambda>k. f (k + i)) [0..<n]"
  by (rule nth_equalityI) (simp_all add: add.commute)

lemma peek_ok: "mem_data h a = Some d \<Longrightarrow> i + n \<le> m_size d \<Longrightarrow> peek_bytes a i n h = Some (map (m_bytes d) [i..<i + n])"
  by (simp add: peek_bytes_def)

definition poked :: "nat \<Rightarrow> uint8 list \<Rightarrow> BufferData \<Rightarrow> BufferData" where
  "poked j ys d = d\<lparr>m_bytes := (\<lambda>k. if j \<le> k \<and> k < j + length ys then ys ! (k - j) else m_bytes d k)\<rparr>"

lemma poked_simps [simp]:
  "m_count (poked j ys d) = m_count d" "m_size (poked j ys d) = m_size d" "m_dirtyStart (poked j ys d) = m_dirtyStart d"
  "m_dirtyEnd (poked j ys d) = m_dirtyEnd d" "fits (poked j ys d) b = fits d b"
  by (simp_all add: poked_def fits_def)

lemma poked_Nil [simp]: "poked j [] d = d"
proof -
  have "(\<lambda>k. if j \<le> k \<and> k < j then [] ! (k - j) else m_bytes d k) = m_bytes d"
    by (rule ext) (simp add: not_le [symmetric] del: not_le)
  then show ?thesis by (simp add: poked_def)
qed

lemma poked_bytes:
  "i + n \<le> j \<Longrightarrow> map (m_bytes (poked j ys d)) [i..<i + n] = map (m_bytes d) [i..<i + n]"
  "j + length ys \<le> i \<Longrightarrow> map (m_bytes (poked j ys d)) [i..<i + n] = map (m_bytes d) [i..<i + n]"
  "map (m_bytes (poked j ys d)) [j..<j + length ys] = ys"
  by (auto simp: poked_def map_upt_shift intro!: nth_equalityI)

lemma poke_ok:
  assumes "mem_ok h bs xs" "mem_data h a = Some d" "j + length ys \<le> m_size d"
  shows "\<exists>h1. poke_bytes a j ys h = Some h1 \<and> mem_ok h1 bs xs \<and> mem_data h1 a = Some (poked j ys d) \<and>
    (\<forall>a'. a' \<noteq> a \<longrightarrow> mem_data h1 a' = mem_data h a')"
proof (cases "ys = []")
  case True
  then show ?thesis using assms by (simp add: poke_bytes_def)
next
  case False
  have "mem_ok (put_data a (poked j ys d) h) bs xs"
  proof (rule mem_ok_put [OF assms(1,2)])
    show "fits (poked j ys d) b" if "b \<in> set bs" "m_data b = a" for b
      using mem_okD(1) [OF assms(1) that(1)] that(2) assms(2) by auto
    show "real_end c \<le> real_end b"
      if "b \<in> set bs" "c \<in> set bs" "m_data b = a" "m_data c = a" "m_end b = m_dirtyEnd (poked j ys d)" for b c
      using that mem_okD(2) [OF assms(1), of b c d] assms(2) by simp
  qed simp
  then show ?thesis using assms(2,3) False by (simp add: poke_bytes_def poked_def)
qed

text \<open>
  A stored of a block; the bytes of a buffer are its stored before the zero area, the zeros, and the stored after it.
\<close>

definition stored :: "BufferData \<Rightarrow> nat \<Rightarrow> nat \<Rightarrow> uint8 list" where
  "stored d i n = map (m_bytes d) [i..<i + n]"

lemma length_stored [simp]: "length (stored d i n) = n"
  by (simp add: stored_def)

lemma stored_0 [simp]: "stored d i 0 = []"
  by (simp add: stored_def)

lemma stored_append: "stored d i m @ stored d (i + m) n = stored d i (m + n)"
  using upt_add_eq_append [of i "i + m" n] by (simp add: stored_def add.assoc)

lemma stored_eqI: "(\<And>k. k < n \<Longrightarrow> m_bytes d (i + k) = m_bytes e (j + k)) \<Longrightarrow> stored d i n = stored e j n"
  by (simp add: stored_def map_upt_shift add.commute)

lemma stored_poked:
  "i + n \<le> j \<Longrightarrow> stored (poked j ys d) i n = stored d i n"
  "j + length ys \<le> i \<Longrightarrow> stored (poked j ys d) i n = stored d i n"
  "stored (poked j ys d) j (length ys) = ys"
  unfolding stored_def by (simp_all only: poked_bytes)

lemma stored_poked_part:
  "k + n \<le> length ys \<Longrightarrow> stored (poked j ys d) (j + k) n = take n (drop k ys)"
  by (rule nth_equalityI) (simp_all add: stored_def poked_def)

lemma bytes_in_stored:
  "fits d b \<Longrightarrow> bytes_in d b = stored d (m_start b) (m_zeroAreaStart b - m_start b) @
     replicate (m_zeroAreaEnd b - m_zeroAreaStart b) 0 @ stored d (m_zeroAreaStart b) (m_end b - m_zeroAreaEnd b)"
  by (simp add: bytes_in_def stored_def fits_def real_end_def)

lemma internal_stored:
  assumes "fits d b"
  shows "stored d (m_start b) (GetInternalSize b) =
    stored d (m_start b) (m_zeroAreaStart b - m_start b) @ stored d (m_zeroAreaStart b) (m_end b - m_zeroAreaEnd b)"
proof -
  have "GetInternalSize b = m_zeroAreaStart b - m_start b + (m_end b - m_zeroAreaEnd b)"
    using assms by (simp add: GetInternalSize_def fits_def)
  then show ?thesis using stored_append [of d "m_start b" "m_zeroAreaStart b - m_start b"] assms by (simp add: fits_def add.commute)
qed

lemma moved_parts:
  assumes "fits d b" "stored e j (GetInternalSize b) = stored d (m_start b) (GetInternalSize b)"
  shows "stored e j (m_zeroAreaStart b - m_start b) = stored d (m_start b) (m_zeroAreaStart b - m_start b)"
    "stored e (j + (m_zeroAreaStart b - m_start b)) (m_end b - m_zeroAreaEnd b) = stored d (m_zeroAreaStart b) (m_end b - m_zeroAreaEnd b)"
proof -
  have i: "GetInternalSize b = m_zeroAreaStart b - m_start b + (m_end b - m_zeroAreaEnd b)"
    using assms(1) by (simp add: GetInternalSize_def fits_def)
  have "stored e j (m_zeroAreaStart b - m_start b) @ stored e (j + (m_zeroAreaStart b - m_start b)) (m_end b - m_zeroAreaEnd b) =
      stored d (m_start b) (m_zeroAreaStart b - m_start b) @ stored d (m_zeroAreaStart b) (m_end b - m_zeroAreaEnd b)"
    using assms(2) internal_stored [OF assms(1)] unfolding i by (simp add: stored_append)
  then show "stored e j (m_zeroAreaStart b - m_start b) = stored d (m_start b) (m_zeroAreaStart b - m_start b)"
    "stored e (j + (m_zeroAreaStart b - m_start b)) (m_end b - m_zeroAreaEnd b) = stored d (m_zeroAreaStart b) (m_end b - m_zeroAreaEnd b)"
    by simp_all
qed

text \<open>After \<open>AddAtStart\<close> the caller may write the new bytes: no other buffer has them.\<close>

definition room_front :: "nat \<Rightarrow> Buffer \<Rightarrow> Buffer list \<Rightarrow> bool" where
  "room_front n b bs \<longleftrightarrow> m_start b + n \<le> m_zeroAreaStart b \<and> (\<forall>c \<in> set bs. m_data c = m_data b \<longrightarrow> m_start b + n \<le> m_start c)"

definition room_back :: "nat \<Rightarrow> Buffer \<Rightarrow> Buffer list \<Rightarrow> bool" where
  "room_back n b bs \<longleftrightarrow> m_zeroAreaEnd b + n \<le> m_end b \<and> (\<forall>c \<in> set bs. m_data c = m_data b \<longrightarrow> real_end c + n \<le> real_end b)"

lemma contents_eq: "mem_data h (m_data b) = Some d \<Longrightarrow> contents h b = bytes_in d b"
  by (simp add: contents_def)

text \<open>The start of a move into a fresh block.\<close>

lemma move_block:
  assumes "mem_ok h (b # bs) []" "mem_data h (m_data b) = Some d" "fits d b"
    and room: "j + GetInternalSize b \<le> n"
  shows "\<exists>a h1 h2 h3 e. Create n h = Some (a, h1) \<and>
    peek_bytes (m_data b) (m_start b) (GetInternalSize b) h1 = Some (stored d (m_start b) (GetInternalSize b)) \<and>
    poke_bytes a j (stored d (m_start b) (GetInternalSize b)) h1 = Some h2 \<and> release (m_data b) h2 = Some h3 \<and>
    mem_ok h3 bs [a] \<and> mem_data h3 a = Some e \<and> n \<le> m_size e \<and> a \<notin> m_data ` set bs \<and>
    stored e j (GetInternalSize b) = stored d (m_start b) (GetInternalSize b) \<and>
    (\<forall>c \<in> set bs. same_block (mem_data h3 (m_data c)) (mem_data h (m_data c)))"
proof -
  let ?xs = "stored d (m_start b) (GetInternalSize b)"
  obtain a h1 d1 where c: "Create n h = Some (a, h1)" "mem_ok h1 (b # bs) [a]" "a \<notin> m_data ` set (b # bs)"
      "mem_data h1 a = Some d1" "n \<le> m_size d1" "\<forall>a'. a' \<in> m_data ` set (b # bs) \<longrightarrow> mem_data h1 a' = mem_data h a'"
    using Create_ok [OF assms(1), of n] by auto
  have d1: "mem_data h1 (m_data b) = Some d" using c(6) assms(2) by simp
  have "m_start b + GetInternalSize b = real_end b" using assms(3) by (simp add: GetInternalSize_def real_end_def fits_def)
  then have peek: "peek_bytes (m_data b) (m_start b) (GetInternalSize b) h1 = Some ?xs"
    using peek_ok [OF d1] assms(3) by (simp add: stored_def fits_def)
  obtain h2 where p: "poke_bytes a j ?xs h1 = Some h2" "mem_ok h2 (b # bs) [a]" "mem_data h2 a = Some (poked j ?xs d1)"
      "\<forall>a'. a' \<noteq> a \<longrightarrow> mem_data h2 a' = mem_data h1 a'"
    using poke_ok [OF c(2,4), of j ?xs] room c(5) by auto
  have ab: "a \<noteq> m_data b" using c(3) by auto
  obtain h3 where r: "release (m_data b) h2 = Some h3" "mem_ok h3 bs [a]"
      "\<forall>a'. a' \<noteq> m_data b \<longrightarrow> mem_data h3 a' = mem_data h2 a'"
      "m_data b \<in> m_data ` set bs \<union> set [a] \<longrightarrow> same_block (mem_data h3 (m_data b)) (mem_data h2 (m_data b))"
    using release_ok [OF mem_ok_drop [OF p(2)]] by blast
  have "same_block (mem_data h3 (m_data c')) (mem_data h (m_data c'))" if "c' \<in> set bs" for c'
  proof -
    have ne: "m_data c' \<noteq> a" using that c(3) by auto
    then have "mem_data h2 (m_data c') = mem_data h (m_data c')" using p(4) c(6) that by simp
    moreover have "m_data c' \<in> m_data ` set bs" using that by simp
    ultimately show ?thesis using r(3,4) ne by (cases "m_data c' = m_data b") (simp_all add: same_block_def)
  qed
  then show ?thesis using c peek p r ab stored_poked(3) [of j ?xs d1] by (auto intro!: exI [of _ a] exI [of _ h1])
qed

lemma mem_ok_update_max [simp]: "mem_ok h (update_max_start b # bs) xs = mem_ok h (b # bs) xs"
  by (simp add: mem_ok_def)

lemma stored_dirty [simp]: "stored (d\<lparr>m_dirtyStart := x, m_dirtyEnd := y\<rparr>) = stored d" "stored (d\<lparr>m_dirtyStart := x\<rparr>) = stored d"
  "stored (d\<lparr>m_dirtyEnd := y\<rparr>) = stored d"
  by (simp_all add: fun_eq_iff stored_def)

definition others_kept :: "buffer_mem \<Rightarrow> buffer_mem \<Rightarrow> Buffer list \<Rightarrow> bool" where
  "others_kept h h' bs \<longleftrightarrow> (\<forall>c \<in> set bs. contents h' c = contents h c)"

lemma others_keptI: "\<forall>c \<in> set bs. same_block (mem_data h' (m_data c)) (mem_data h (m_data c)) \<Longrightarrow> others_kept h h' bs"
  by (simp add: others_kept_def same_block_contents)

text \<open>A new buffer on a fresh block that only the caller holds, with a dirty area of its own.\<close>

lemma fresh_buffer_ok:
  assumes "mem_ok h bs [m_data b]" "mem_data h (m_data b) = Some e" "m_data b \<notin> m_data ` set bs"
    and "m_start b \<le> m_zeroAreaStart b" "m_zeroAreaStart b \<le> m_zeroAreaEnd b" "m_zeroAreaEnd b \<le> m_end b" "real_end b \<le> m_size e"
  shows "\<exists>h1. set_dirty (m_data b) (m_start b) (m_end b) h = Some h1 \<and> mem_ok h1 (b # bs) [] \<and>
    mem_data h1 (m_data b) = Some (e\<lparr>m_dirtyStart := m_start b, m_dirtyEnd := m_end b\<rparr>) \<and>
    (\<forall>c \<in> set bs. mem_data h1 (m_data c) = mem_data h (m_data c))"
proof -
  let ?e = "e\<lparr>m_dirtyStart := m_start b, m_dirtyEnd := m_end b\<rparr>"
  let ?h1 = "put_data (m_data b) ?e h"
  have none: "m_data c \<noteq> m_data b" if "c \<in> set bs" for c using that assms(3) by (metis imageI)
  have "mem_ok ?h1 bs [m_data b]" using none by (intro mem_ok_put [OF assms(1,2)]) auto
  then have "mem_ok ?h1 (b # bs) []"
    using assms none by (intro mem_ok_adopt [of _ _ _ _ ?e]) (auto simp: fits_def)
  then show ?thesis using assms(2) none by (simp add: set_dirty_def)
qed

lemma AddAtStart_ok:
  assumes "mem_ok h (b # bs) []"
  shows "\<exists>b' h' junk. Buffer_AddAtStart n b h = Some (b', h') \<and> mem_ok h' (b' # bs) [] \<and> length junk = n \<and>
    contents h' b' = junk @ contents h b \<and> others_kept h h' bs \<and> room_front n b' bs \<and>
    m_zeroAreaEnd b' - m_zeroAreaStart b' = m_zeroAreaEnd b - m_zeroAreaStart b \<and>
    (m_data b' = m_data b \<or> m_data b' \<notin> m_data ` set bs)"
proof -
  obtain d where d: "mem_data h (m_data b) = Some d" "fits d b" "contents h b = bytes_in d b"
    using mem_ok_lookup [OF assms, of b] by auto
  define dirty where "dirty \<longleftrightarrow> m_count d > 1 \<and> m_start b > m_dirtyStart d"
  have others: "m_dirtyStart d \<le> m_start c \<and> m_end c \<le> m_dirtyEnd d" if "c \<in> set bs" "m_data c = m_data b" for c
    using mem_okD(1) [OF assms, of c] that d(1) by (auto simp: fits_def)
  have alone: "m_data c \<noteq> m_data b" if "m_count d = 1" "c \<in> set bs" for c
  proof -
    have "m_data b \<notin> m_data ` set bs" using mem_okD(3) [OF assms d(1)] that refs_0 [of bs "[]" "m_data b"] by simp
    then show ?thesis using that(2) by (metis imageI)
  qed
  have count: "m_count d \<noteq> 0" using mem_okD(3) [OF assms d(1)] by simp
  show ?thesis
  proof (cases "m_start b \<ge> n \<and> \<not> dirty")
    case True
    then have clean: "m_count d = 1 \<or> m_start b = m_dirtyStart d" using d(2) count by (auto simp: dirty_def fits_def)
    let ?b = "b\<lparr>m_start := m_start b - n\<rparr>" and ?d = "d\<lparr>m_dirtyStart := m_start b - n\<rparr>"
    let ?h = "put_data (m_data b) ?d h"
    have run: "Buffer_AddAtStart n b h = Some (update_max_start ?b, ?h)"
      using d(1) True clean by (simp add: Buffer_AddAtStart_def Let_def set_dirty_def dirty_def)
    have fit: "fits ?d ?b" using d(2) True by (auto simp: fits_def real_end_def)
    have below: "m_start b \<le> m_start c" if "c \<in> set bs" "m_data c = m_data b" for c
      using clean alone others that by metis
    have "mem_ok ?h bs [m_data b]"
    proof (rule mem_ok_put [OF mem_ok_drop [OF assms] d(1)])
      show "fits ?d c" if "c \<in> set bs" "m_data c = m_data b" for c
        using mem_okD(1) [OF assms, of c] that below [OF that] d(1) True by (auto simp: fits_def)
      show "real_end c' \<le> real_end c"
        if "c \<in> set bs" "c' \<in> set bs" "m_data c = m_data b" "m_data c' = m_data b" "m_end c = m_dirtyEnd ?d" for c c'
        using mem_okD(2) [OF assms, of c c' d] that d(1) by simp
    qed simp
    moreover have re: "real_end ?b = real_end b" by (simp add: real_end_def)
    ultimately have ok: "mem_ok ?h (update_max_start ?b # bs) []"
    proof (intro mem_ok_adopt [of _ _ _ _ ?d])
      show "(m_end (update_max_start ?b) = m_dirtyEnd ?d \<longrightarrow> real_end c \<le> real_end (update_max_start ?b)) \<and>
          (m_end c = m_dirtyEnd ?d \<longrightarrow> real_end (update_max_start ?b) \<le> real_end c)"
        if "c \<in> set bs" "m_data c = m_data (update_max_start ?b)" for c
        using mem_ok_last [OF assms that(1) _ d(1)] that(2) re by simp
    qed (use fit in simp_all)
    have "bytes_in ?d ?b = stored d (m_start b - n) n @ bytes_in d b"
    proof -
      have "stored d (m_start b - n) n @ stored d (m_start b) (m_zeroAreaStart b - m_start b) =
          stored d (m_start b - n) (m_zeroAreaStart b - (m_start b - n))"
        using stored_append [of d "m_start b - n" n "m_zeroAreaStart b - m_start b"] True d(2) by (simp add: fits_def add.commute)
      then show ?thesis using bytes_in_stored [OF fit] bytes_in_stored [OF d(2)] by simp
    qed
    moreover have "others_kept h ?h bs"
      using d(1) by (simp add: others_kept_def contents_def bytes_in_def)
    moreover have "room_front n (update_max_start ?b) bs"
      using True d(2) below by (auto simp: room_front_def fits_def)
    moreover have "contents ?h (update_max_start ?b) = bytes_in ?d ?b" by (simp add: contents_def)
    ultimately show ?thesis using run ok d(3) by (intro exI [of _ "update_max_start ?b"] exI [of _ ?h] exI [of _ "stored d (m_start b - n) n"] conjI) simp_all
  next
    case False
    obtain a h1 h2 h3 e where m: "Create (GetInternalSize b + n) h = Some (a, h1)"
        "peek_bytes (m_data b) (m_start b) (GetInternalSize b) h1 = Some (stored d (m_start b) (GetInternalSize b))"
        "poke_bytes a n (stored d (m_start b) (GetInternalSize b)) h1 = Some h2" "release (m_data b) h2 = Some h3"
        "mem_ok h3 bs [a]" "mem_data h3 a = Some e" "GetInternalSize b + n \<le> m_size e" "a \<notin> m_data ` set bs"
        "stored e n (GetInternalSize b) = stored d (m_start b) (GetInternalSize b)"
        "\<forall>c \<in> set bs. same_block (mem_data h3 (m_data c)) (mem_data h (m_data c))"
      using move_block [OF assms d(1,2), of n "GetInternalSize b + n"] by auto
    let ?b = "b\<lparr>m_data := a, m_zeroAreaStart := m_zeroAreaStart b + n - m_start b, m_zeroAreaEnd := m_zeroAreaEnd b + n - m_start b,
      m_end := m_end b + n - m_start b, m_start := 0\<rparr>"
    have shape: "m_start ?b \<le> m_zeroAreaStart ?b" "m_zeroAreaStart ?b \<le> m_zeroAreaEnd ?b" "m_zeroAreaEnd ?b \<le> m_end ?b"
      "real_end ?b \<le> m_size e"
      using d(2) m(7) by (simp_all add: fits_def real_end_def GetInternalSize_def) linarith+
    obtain h4 where h4: "set_dirty a 0 (m_end ?b) h3 = Some h4" "mem_ok h4 (?b # bs) []"
        "mem_data h4 a = Some (e\<lparr>m_dirtyStart := 0, m_dirtyEnd := m_end ?b\<rparr>)" "\<forall>c \<in> set bs. mem_data h4 (m_data c) = mem_data h3 (m_data c)"
      using fresh_buffer_ok [of h3 bs ?b e] m(5,6,8) shape by auto
    have run: "Buffer_AddAtStart n b h = Some (update_max_start ?b, h4)"
      using d(1) False m h4(1) by (auto simp: Buffer_AddAtStart_def Let_def dirty_def)
    have part: "stored e n (m_zeroAreaStart b - m_start b) = stored d (m_start b) (m_zeroAreaStart b - m_start b)"
        "stored e (m_zeroAreaStart ?b) (m_end b - m_zeroAreaEnd b) = stored d (m_zeroAreaStart b) (m_end b - m_zeroAreaEnd b)"
      using moved_parts [OF d(2) m(9)] d(2) by (simp_all add: fits_def add.commute)
    have "contents h4 ?b = stored e 0 n @ contents h b"
    proof -
      have f: "fits (e\<lparr>m_dirtyStart := 0, m_dirtyEnd := m_end ?b\<rparr>) ?b" using shape by (simp add: fits_def real_end_def)
      have "stored e 0 (m_zeroAreaStart ?b) = stored e 0 n @ stored e n (m_zeroAreaStart b - m_start b)"
        using stored_append [of e 0 n "m_zeroAreaStart b - m_start b"] d(2) by (simp add: fits_def add.commute)
      then show ?thesis
        using contents_eq [of h4 ?b] h4(3) bytes_in_stored [OF f] bytes_in_stored [OF d(2)] d(2,3) part
        by (simp add: fits_def)
    qed
    moreover have "others_kept h h4 bs" using m(10) h4(4) by (intro others_keptI) simp
    moreover have "room_front n (update_max_start ?b) bs"
      using d(2) m(8) by (auto simp: room_front_def fits_def)
    moreover have "m_zeroAreaEnd ?b - m_zeroAreaStart ?b = m_zeroAreaEnd b - m_zeroAreaStart b" using d(2) by (simp add: fits_def)
    ultimately show ?thesis using run h4(2) m(8) by (intro exI [of _ "update_max_start ?b"] exI [of _ h4] exI [of _ "stored e 0 n"] conjI) simp_all
  qed
qed

lemma AddAtEnd_ok:
  assumes "mem_ok h (b # bs) []"
  shows "\<exists>b' h' junk. Buffer_AddAtEnd n b h = Some (b', h') \<and> mem_ok h' (b' # bs) [] \<and> length junk = n \<and>
    contents h' b' = contents h b @ junk \<and> others_kept h h' bs \<and> room_back n b' bs \<and>
    m_zeroAreaEnd b' - m_zeroAreaStart b' = m_zeroAreaEnd b - m_zeroAreaStart b \<and>
    (m_data b' = m_data b \<or> m_data b' \<notin> m_data ` set bs)"
proof -
  obtain d where d: "mem_data h (m_data b) = Some d" "fits d b" "contents h b = bytes_in d b"
    using mem_ok_lookup [OF assms, of b] by auto
  define dirty where "dirty \<longleftrightarrow> m_count d > 1 \<and> m_end b < m_dirtyEnd d"
  have alone: "m_data c \<noteq> m_data b" if "m_count d = 1" "c \<in> set bs" for c
  proof -
    have "m_data b \<notin> m_data ` set bs" using mem_okD(3) [OF assms d(1)] that refs_0 [of bs "[]" "m_data b"] by simp
    then show ?thesis using that(2) by (metis imageI)
  qed
  have count: "m_count d \<noteq> 0" using mem_okD(3) [OF assms d(1)] by simp
  show ?thesis
  proof (cases "GetInternalEnd b + n \<le> m_size d \<and> \<not> dirty")
    case True
    then have clean: "m_count d = 1 \<or> m_end b = m_dirtyEnd d" using d(2) count by (auto simp: dirty_def fits_def)
    let ?b = "b\<lparr>m_end := m_end b + n\<rparr>" and ?d = "d\<lparr>m_dirtyEnd := m_end b + n\<rparr>"
    let ?h = "put_data (m_data b) ?d h"
    have re: "real_end ?b = real_end b + n" "GetInternalEnd b = real_end b" using d(2)
      by (simp_all add: real_end_def fits_def GetInternalEnd_def)
    have run: "Buffer_AddAtEnd n b h = Some (update_max_start ?b, ?h)"
      using d(1) True clean by (simp add: Buffer_AddAtEnd_def Let_def set_dirty_def dirty_def)
    have fit: "fits ?d ?b" using d(2) True re by (simp add: fits_def)
    have before: "real_end c \<le> real_end b" "m_end c \<le> m_end b" if "c \<in> set bs" "m_data c = m_data b" for c
    proof -
      have "m_end b = m_dirtyEnd d" using clean alone that by metis
      then show "real_end c \<le> real_end b" "m_end c \<le> m_end b"
        using mem_ok_last [OF assms that d(1)] mem_okD(1) [OF assms, of c] that d(1) by (auto simp: fits_def)
    qed
    have eqn: "m_end c = m_end b + n \<Longrightarrow> n = 0" if "c \<in> set bs" "m_data c = m_data b" for c
      using before(2) [OF that] by simp
    have "mem_ok ?h bs [m_data b]"
    proof (rule mem_ok_put [OF mem_ok_drop [OF assms] d(1)])
      show "fits ?d c" if "c \<in> set bs" "m_data c = m_data b" for c
        using mem_okD(1) [OF assms, of c] that before [OF that] d(1) by (auto simp: fits_def)
      show "real_end c' \<le> real_end c"
        if h: "c \<in> set bs" "c' \<in> set bs" "m_data c = m_data b" "m_data c' = m_data b" "m_end c = m_dirtyEnd ?d" for c c'
      proof -
        have "m_end c = m_dirtyEnd d"
          using h(5) eqn [OF h(1,3)] before(2) [OF h(1,3)] mem_okD(1) [OF assms, of b] d(1) clean alone h(1,3) by fastforce
        then show ?thesis using mem_okD(2) [OF assms, of c c' d] h d(1) by simp
      qed
    qed simp
    then have ok: "mem_ok ?h (update_max_start ?b # bs) []"
    proof (intro mem_ok_adopt [of _ _ _ _ ?d])
      show "(m_end (update_max_start ?b) = m_dirtyEnd ?d \<longrightarrow> real_end c \<le> real_end (update_max_start ?b)) \<and>
          (m_end c = m_dirtyEnd ?d \<longrightarrow> real_end (update_max_start ?b) \<le> real_end c)"
        if h: "c \<in> set bs" "m_data c = m_data (update_max_start ?b)" for c
      proof -
        have c: "c \<in> set bs" "m_data c = m_data b" using h by simp_all
        have "m_end b = m_dirtyEnd d" using clean alone c by metis
        then have "m_end c = m_end b + n \<Longrightarrow> real_end b + n \<le> real_end c"
          using eqn [OF c] mem_ok_last [OF assms c d(1)] by simp
        then show ?thesis using before(1) [OF c] re(1) by simp
      qed
    qed (use fit in simp_all)
    have "bytes_in ?d ?b = bytes_in d b @ stored d (real_end b) n"
      using stored_append [of d "m_zeroAreaStart b" "m_end b - m_zeroAreaEnd b" n] bytes_in_stored [OF fit] bytes_in_stored [OF d(2)] d(2)
      by (simp add: fits_def real_end_def)
    moreover have "others_kept h ?h bs"
      using d(1) by (simp add: others_kept_def contents_def bytes_in_def)
    moreover have "room_back n (update_max_start ?b) bs"
      using d(2) before re(1) by (auto simp: room_back_def fits_def)
    moreover have "contents ?h (update_max_start ?b) = bytes_in ?d ?b" by (simp add: contents_def)
    ultimately show ?thesis using run ok d(3) by (intro exI [of _ "update_max_start ?b"] exI [of _ ?h] exI [of _ "stored d (real_end b) n"] conjI) simp_all
  next
    case False
    obtain a h1 h2 h3 e where m: "Create (GetInternalSize b + n) h = Some (a, h1)"
        "peek_bytes (m_data b) (m_start b) (GetInternalSize b) h1 = Some (stored d (m_start b) (GetInternalSize b))"
        "poke_bytes a 0 (stored d (m_start b) (GetInternalSize b)) h1 = Some h2" "release (m_data b) h2 = Some h3"
        "mem_ok h3 bs [a]" "mem_data h3 a = Some e" "GetInternalSize b + n \<le> m_size e" "a \<notin> m_data ` set bs"
        "stored e 0 (GetInternalSize b) = stored d (m_start b) (GetInternalSize b)"
        "\<forall>c \<in> set bs. same_block (mem_data h3 (m_data c)) (mem_data h (m_data c))"
      using move_block [OF assms d(1,2), of 0 "GetInternalSize b + n"] by auto
    let ?b = "b\<lparr>m_data := a, m_zeroAreaStart := m_zeroAreaStart b - m_start b, m_zeroAreaEnd := m_zeroAreaEnd b - m_start b,
      m_end := m_end b - m_start b + n, m_start := 0\<rparr>"
    have shape: "m_start ?b \<le> m_zeroAreaStart ?b" "m_zeroAreaStart ?b \<le> m_zeroAreaEnd ?b" "m_zeroAreaEnd ?b \<le> m_end ?b"
      "real_end ?b \<le> m_size e"
      using d(2) m(7) by (simp_all add: fits_def real_end_def GetInternalSize_def) linarith+
    obtain h4 where h4: "set_dirty a 0 (m_end ?b) h3 = Some h4" "mem_ok h4 (?b # bs) []"
        "mem_data h4 a = Some (e\<lparr>m_dirtyStart := 0, m_dirtyEnd := m_end ?b\<rparr>)" "\<forall>c \<in> set bs. mem_data h4 (m_data c) = mem_data h3 (m_data c)"
      using fresh_buffer_ok [of h3 bs ?b e] m(5,6,8) shape by auto
    have run: "Buffer_AddAtEnd n b h = Some (update_max_start ?b, h4)"
      using d(1) False m h4(1) by (auto simp: Buffer_AddAtEnd_def Let_def dirty_def)
    have part: "stored e 0 (m_zeroAreaStart b - m_start b) = stored d (m_start b) (m_zeroAreaStart b - m_start b)"
        "stored e (m_zeroAreaStart ?b) (m_end b - m_zeroAreaEnd b) = stored d (m_zeroAreaStart b) (m_end b - m_zeroAreaEnd b)"
      using moved_parts [OF d(2) m(9)] d(2) by (simp_all add: fits_def)
    let ?junk = "stored e (real_end b - m_start b) n"
    have "contents h4 ?b = contents h b @ ?junk"
    proof -
      have f: "fits (e\<lparr>m_dirtyStart := 0, m_dirtyEnd := m_end ?b\<rparr>) ?b" using shape by (simp add: fits_def real_end_def)
      have "stored e (m_zeroAreaStart ?b) (m_end ?b - m_zeroAreaEnd ?b) =
          stored e (m_zeroAreaStart ?b) (m_end b - m_zeroAreaEnd b) @ ?junk"
        using stored_append [of e "m_zeroAreaStart ?b" "m_end b - m_zeroAreaEnd b" n] d(2) by (simp add: fits_def real_end_def add.commute)
      moreover have "m_zeroAreaEnd ?b - m_zeroAreaStart ?b = m_zeroAreaEnd b - m_zeroAreaStart b"
        using d(2) by (simp add: fits_def)
      ultimately show ?thesis
        using contents_eq [of h4 ?b] h4(3) bytes_in_stored [OF f] bytes_in_stored [OF d(2)] d(3) part
        by simp
    qed
    moreover have "others_kept h h4 bs" using m(10) h4(4) by (intro others_keptI) simp
    moreover have "room_back n (update_max_start ?b) bs"
      using d(2) m(8) by (auto simp: room_back_def fits_def)
    moreover have "m_zeroAreaEnd ?b - m_zeroAreaStart ?b = m_zeroAreaEnd b - m_zeroAreaStart b" using d(2) by (simp add: fits_def)
    ultimately show ?thesis using run h4(2) m(8) by (intro exI [of _ "update_max_start ?b"] exI [of _ h4] exI [of _ ?junk] conjI) simp_all
  qed
qed

end
