(* ===== verification/Buffer_Refinement.thy ===== *)
theory Buffer_Refinement
  imports Buffer_Correct
begin

text \<open>
  The operations of \<open>Buffer\<close> on the bytes of live buffers, continued from \<^theory_text>\<open>Buffer_Correct\<close>: removal,
  copies, assignment, destruction, reading and writing through iterators.
\<close>

subsection \<open>Removing bytes\<close>

lemma drop_stored: "drop k (stored d i n) = stored d (i + k) (n - k)"
  by (rule nth_equalityI) (simp_all add: stored_def add.assoc)

lemma take_stored: "take k (stored d i n) = stored d i (min k n)"
  by (rule nth_equalityI) (simp_all add: stored_def)

lemma mem_ok_replace:
  assumes "mem_ok h (b # bs) xs" "m_data b' = m_data b" "mem_data h (m_data b) = Some d" "fits d b'"
    and "real_end b' \<le> real_end b" "m_end b' = m_end b \<Longrightarrow> real_end b' = real_end b" "m_end b' \<le> m_end b"
  shows "mem_ok h (b' # bs) xs"
proof (rule mem_ok_adopt)
  show "mem_ok h bs (m_data b' # xs)" using mem_ok_drop [OF assms(1)] assms(2) by simp
  show "mem_data h (m_data b') = Some d" "fits d b'" using assms by simp_all
  have fit: "fits d b" using mem_okD(1) [OF assms(1), of b] assms(3) by auto
  show "(m_end b' = m_dirtyEnd d \<longrightarrow> real_end c \<le> real_end b') \<and> (m_end c = m_dirtyEnd d \<longrightarrow> real_end b' \<le> real_end c)"
    if "c \<in> set bs" "m_data c = m_data b'" for c
    using mem_ok_last [OF assms(1) that(1) _ assms(3)] that(2) assms(2,5-7) fit by (auto simp: fits_def)
qed

lemma RemoveAtStart_shape:
  assumes "fits d b"
  shows "m_data (Buffer_RemoveAtStart n b) = m_data b" "fits d (Buffer_RemoveAtStart n b)"
    "real_end (Buffer_RemoveAtStart n b) = real_end b" "m_end (Buffer_RemoveAtStart n b) \<le> m_end b"
    "bytes_in d (Buffer_RemoveAtStart n b) = drop n (bytes_in d b)"
proof -
  have s: "m_start b \<le> m_zeroAreaStart b" "m_zeroAreaStart b \<le> m_zeroAreaEnd b" "m_zeroAreaEnd b \<le> m_end b"
    "real_end b \<le> m_size d" "m_dirtyStart d \<le> m_start b" "m_end b \<le> m_dirtyEnd d"
    using assms by (simp_all add: fits_def)
  consider "m_start b + n \<le> m_zeroAreaStart b" | "m_zeroAreaStart b < m_start b + n" "m_start b + n \<le> m_zeroAreaEnd b"
    | "m_zeroAreaEnd b < m_start b + n" "m_start b + n \<le> m_end b" | "m_end b < m_start b + n" by linarith
  then have all: "m_data (Buffer_RemoveAtStart n b) = m_data b \<and> fits d (Buffer_RemoveAtStart n b) \<and>
    real_end (Buffer_RemoveAtStart n b) = real_end b \<and> m_end (Buffer_RemoveAtStart n b) \<le> m_end b \<and>
    bytes_in d (Buffer_RemoveAtStart n b) = drop n (bytes_in d b)"
  proof cases
    case 1
    let ?b = "b\<lparr>m_start := m_start b + n\<rparr>"
    have r: "Buffer_RemoveAtStart n b = update_max_start ?b" using 1 by (simp add: Buffer_RemoveAtStart_def Let_def)
    have f: "fits d ?b" using 1 s by (simp add: fits_def real_end_def)
    show ?thesis unfolding r using f s 1 bytes_in_stored [OF f] bytes_in_stored [OF assms]
      by (simp add: real_end_def drop_stored)
  next
    case 2
    define k where "k = m_start b + n - m_zeroAreaStart b"
    let ?b = "b\<lparr>m_start := m_zeroAreaStart b, m_zeroAreaEnd := m_zeroAreaEnd b - k, m_end := m_end b - k\<rparr>"
    have r: "Buffer_RemoveAtStart n b = update_max_start ?b" using 2 by (simp add: Buffer_RemoveAtStart_def Let_def k_def)
    have k: "n = m_zeroAreaStart b - m_start b + k" "k \<le> m_zeroAreaEnd b - m_zeroAreaStart b" using 2 s by (simp_all add: k_def)
    have z: "m_end b - k - (m_zeroAreaEnd b - k) = m_end b - m_zeroAreaEnd b"
      "m_zeroAreaEnd b - k - m_zeroAreaStart b = m_zeroAreaEnd b - m_zeroAreaStart b - k" using k s by linarith+
    have re: "real_end ?b = real_end b" using z(1) by (simp add: real_end_def)
    have f: "fits d ?b" unfolding fits_def re using s k(2) by simp linarith
    have "drop n (bytes_in d b) = replicate (m_zeroAreaEnd b - m_zeroAreaStart b - k) 0 @ stored d (m_zeroAreaStart b) (m_end b - m_zeroAreaEnd b)"
      unfolding k(1) using k(2) bytes_in_stored [OF assms] by simp
    then show ?thesis unfolding r using f re bytes_in_stored [OF f] z by simp
  next
    case 3
    define z where "z = m_zeroAreaEnd b - m_zeroAreaStart b"
    define k where "k = m_start b + n - m_zeroAreaEnd b"
    define p where "p = m_zeroAreaStart b + k"
    let ?b = "b\<lparr>m_start := p, m_end := m_end b - z, m_zeroAreaStart := p, m_zeroAreaEnd := p\<rparr>"
    have p: "m_start b + n - z = p" "n = (m_zeroAreaStart b - m_start b + z) + k" using 3 s by (simp_all add: z_def k_def p_def)
    have r: "Buffer_RemoveAtStart n b = update_max_start ?b" using 3 s p(1) by (simp add: Buffer_RemoveAtStart_def Let_def z_def)
    have e: "m_end b - z - p = m_end b - m_zeroAreaEnd b - k" "p \<le> m_end b - z" "m_start b \<le> p"
      using 3 s unfolding z_def k_def p_def by linarith+
    have re: "real_end ?b = real_end b" using 3 s e(2) by (simp add: real_end_def z_def)
    have f: "fits d ?b" unfolding fits_def re using s e(2,3) by simp
    have "drop n (bytes_in d b) = stored d p (m_end b - m_zeroAreaEnd b - k)"
      unfolding p(2) using bytes_in_stored [OF assms] by (simp add: drop_stored z_def p_def)
    then show ?thesis unfolding r using f re bytes_in_stored [OF f] e(1) by simp
  next
    case 4
    define e where "e = m_end b - (m_zeroAreaEnd b - m_zeroAreaStart b)"
    let ?b = "b\<lparr>m_end := e, m_start := e, m_zeroAreaEnd := e, m_zeroAreaStart := e\<rparr>"
    have r: "Buffer_RemoveAtStart n b = update_max_start ?b" using 4 s by (simp add: Buffer_RemoveAtStart_def Let_def e_def)
    have re: "real_end ?b = real_end b" "e \<le> m_end b" "m_start b \<le> e" using s by (simp_all add: real_end_def e_def)
    have f: "fits d ?b" unfolding fits_def re using s re by simp
    have "length (bytes_in d b) \<le> n" using 4 length_bytes_in [OF assms] by (simp add: Buffer_GetSize_def)
    then show ?thesis unfolding r using f re bytes_in_stored [OF f] by simp
  qed
  then show "m_data (Buffer_RemoveAtStart n b) = m_data b" "fits d (Buffer_RemoveAtStart n b)"
    "real_end (Buffer_RemoveAtStart n b) = real_end b" "m_end (Buffer_RemoveAtStart n b) \<le> m_end b"
    "bytes_in d (Buffer_RemoveAtStart n b) = drop n (bytes_in d b)" by blast+
qed

lemma RemoveAtEnd_shape:
  assumes "fits d b"
  shows "m_data (Buffer_RemoveAtEnd n b) = m_data b" "fits d (Buffer_RemoveAtEnd n b)"
    "real_end (Buffer_RemoveAtEnd n b) \<le> real_end b" "m_end (Buffer_RemoveAtEnd n b) \<le> m_end b"
    "m_end (Buffer_RemoveAtEnd n b) = m_end b \<Longrightarrow> real_end (Buffer_RemoveAtEnd n b) = real_end b"
    "bytes_in d (Buffer_RemoveAtEnd n b) = take (length (bytes_in d b) - n) (bytes_in d b)"
proof -
  have s: "m_start b \<le> m_zeroAreaStart b" "m_zeroAreaStart b \<le> m_zeroAreaEnd b" "m_zeroAreaEnd b \<le> m_end b"
    "real_end b \<le> m_size d" "m_dirtyStart d \<le> m_start b" "m_end b \<le> m_dirtyEnd d"
    using assms by (simp_all add: fits_def)
  define e where "e = m_end b - min n (m_end b - m_start b)"
  have keep: "length (bytes_in d b) - n = e - m_start b" using s length_bytes_in [OF assms] by (simp add: Buffer_GetSize_def min_def add.commute e_def)
  have e: "m_start b \<le> e" "e \<le> m_end b" using s by (simp_all add: e_def)
  consider "m_zeroAreaEnd b < e" | "m_zeroAreaStart b < e" "e \<le> m_zeroAreaEnd b" | "m_start b < e" "e \<le> m_zeroAreaStart b"
    | "e = m_start b" using e by linarith
  then have all: "m_data (Buffer_RemoveAtEnd n b) = m_data b \<and> fits d (Buffer_RemoveAtEnd n b) \<and>
    real_end (Buffer_RemoveAtEnd n b) \<le> real_end b \<and> m_end (Buffer_RemoveAtEnd n b) \<le> m_end b \<and>
    (m_end (Buffer_RemoveAtEnd n b) = m_end b \<longrightarrow> real_end (Buffer_RemoveAtEnd n b) = real_end b) \<and>
    bytes_in d (Buffer_RemoveAtEnd n b) = take (e - m_start b) (bytes_in d b)"
  proof cases
    case 1
    let ?b = "b\<lparr>m_end := e\<rparr>"
    have r: "Buffer_RemoveAtEnd n b = update_max_start ?b" using 1 by (simp add: Buffer_RemoveAtEnd_def Let_def e_def)
    have f: "fits d ?b" using 1 s e by (simp add: fits_def real_end_def)
    have "e - m_start b = (m_zeroAreaStart b - m_start b) + ((m_zeroAreaEnd b - m_zeroAreaStart b) + (e - m_zeroAreaEnd b))"
      "min (e - m_zeroAreaEnd b) (m_end b - m_zeroAreaEnd b) = e - m_zeroAreaEnd b"
      using 1 s e by linarith+
    then show ?thesis unfolding r using f s e 1 bytes_in_stored [OF f] bytes_in_stored [OF assms]
      by (simp add: real_end_def take_stored)
  next
    case 2
    let ?b = "b\<lparr>m_end := e, m_zeroAreaEnd := e\<rparr>"
    have r: "Buffer_RemoveAtEnd n b = update_max_start ?b" using 2 by (simp add: Buffer_RemoveAtEnd_def Let_def e_def)
    have f: "fits d ?b" using 2 s e by (simp add: fits_def real_end_def)
    have "e - m_start b = (m_zeroAreaStart b - m_start b) + (e - m_zeroAreaStart b)"
      "min (e - m_zeroAreaStart b) (m_zeroAreaEnd b - m_zeroAreaStart b) = e - m_zeroAreaStart b"
      "e - m_zeroAreaStart b - (m_zeroAreaEnd b - m_zeroAreaStart b) = 0" "e = m_end b \<longrightarrow> m_end b = m_zeroAreaEnd b"
      using 2 s e by linarith+
    then show ?thesis unfolding r using f s e 2 bytes_in_stored [OF f] bytes_in_stored [OF assms]
      by (simp add: real_end_def take_stored)
  next
    case 3
    let ?b = "b\<lparr>m_end := e, m_zeroAreaEnd := e, m_zeroAreaStart := e\<rparr>"
    have r: "Buffer_RemoveAtEnd n b = update_max_start ?b" using 3 s by (simp add: Buffer_RemoveAtEnd_def Let_def e_def)
    have f: "fits d ?b" using 3 s e by (simp add: fits_def real_end_def)
    have "min (e - m_start b) (m_zeroAreaStart b - m_start b) = e - m_start b" "e - m_start b - (m_zeroAreaStart b - m_start b) = 0"
      "e = m_end b \<longrightarrow> m_zeroAreaStart b = m_end b"
      using 3 s e by linarith+
    then show ?thesis unfolding r using f s e 3 bytes_in_stored [OF f] bytes_in_stored [OF assms]
      by (simp add: real_end_def take_stored)
  next
    case 4
    let ?b = "b\<lparr>m_end := m_start b, m_zeroAreaEnd := m_start b, m_zeroAreaStart := m_start b\<rparr>"
    have r: "Buffer_RemoveAtEnd n b = update_max_start ?b" using 4 s by (simp add: Buffer_RemoveAtEnd_def Let_def e_def)
    have f: "fits d ?b" using s e by (simp add: fits_def real_end_def)
    show ?thesis unfolding r using f s e 4 bytes_in_stored [OF f] by (simp add: real_end_def)
  qed
  then show "m_data (Buffer_RemoveAtEnd n b) = m_data b" "fits d (Buffer_RemoveAtEnd n b)"
    "real_end (Buffer_RemoveAtEnd n b) \<le> real_end b" "m_end (Buffer_RemoveAtEnd n b) \<le> m_end b"
    "m_end (Buffer_RemoveAtEnd n b) = m_end b \<Longrightarrow> real_end (Buffer_RemoveAtEnd n b) = real_end b"
    "bytes_in d (Buffer_RemoveAtEnd n b) = take (length (bytes_in d b) - n) (bytes_in d b)"
    unfolding keep by blast+
qed

lemma RemoveAtStart_ok:
  assumes "mem_ok h (b # bs) xs"
  shows "mem_ok h (Buffer_RemoveAtStart n b # bs) xs \<and> contents h (Buffer_RemoveAtStart n b) = drop n (contents h b)"
proof -
  obtain d where d: "mem_data h (m_data b) = Some d" "fits d b" "contents h b = bytes_in d b"
    using mem_ok_lookup [OF assms, of b] by auto
  note r = RemoveAtStart_shape [OF d(2), of n]
  show ?thesis using mem_ok_replace [OF assms r(1) d(1) r(2)] r d contents_eq [of h "Buffer_RemoveAtStart n b" d] by simp
qed

lemma RemoveAtEnd_ok:
  assumes "mem_ok h (b # bs) xs"
  shows "mem_ok h (Buffer_RemoveAtEnd n b # bs) xs \<and>
    contents h (Buffer_RemoveAtEnd n b) = take (length (contents h b) - n) (contents h b)"
proof -
  obtain d where d: "mem_data h (m_data b) = Some d" "fits d b" "contents h b = bytes_in d b"
    using mem_ok_lookup [OF assms, of b] by auto
  note r = RemoveAtEnd_shape [OF d(2), of n]
  show ?thesis using mem_ok_replace [OF assms r(1) d(1) r(2-3) r(5,4)] r(1,6) d contents_eq [of h "Buffer_RemoveAtEnd n b" d] by simp
qed

subsection \<open>Copying, assigning and destroying\<close>

lemma retain_ok:
  assumes "mem_ok h bs xs" "mem_data h a = Some d" "a \<in> m_data ` set bs \<union> set xs"
  shows "\<exists>h1. retain a h = Some h1 \<and> mem_ok h1 bs (a # xs) \<and> (\<forall>a'. same_block (mem_data h1 a') (mem_data h a'))"
proof -
  let ?h = "put_data a (d\<lparr>m_count := m_count d + 1\<rparr>) h"
  have "mem_ok ?h bs (a # xs)"
  proof (rule mem_okI)
    show "\<exists>d'. mem_data ?h (m_data b) = Some d' \<and> fits d' b" if "b \<in> set bs" for b
      using that mem_okD(1) [OF assms(1) that] assms(2) by (auto simp: fits_def)
    show "real_end c \<le> real_end b"
      if "b \<in> set bs" "c \<in> set bs" "m_data b = m_data c" "mem_data ?h (m_data b) = Some d'" "m_end b = m_dirtyEnd d'" for b c d'
      using that mem_okD(2) [OF assms(1)] assms(2) by (auto split: if_splits)
    show "m_count d' = refs bs (a # xs) a' \<and> a' < mem_next ?h" if "mem_data ?h a' = Some d'" for a' d'
      using that mem_okD(3,4) [OF assms(1)] assms(2) by (auto split: if_splits)
    show "mem_data ?h a' \<noteq> None" if "a' \<in> set (a # xs)" for a' using that mem_okD(5) [OF assms(1), of a'] by auto
    show "distinct (g_freeList ?h)" using mem_okD(6) [OF assms(1)] by simp
    show "\<exists>d'. mem_data ?h a' = Some d' \<and> m_count d' = 0" if "a' \<in> set (g_freeList ?h)" for a'
      using that mem_okD(7) [OF assms(1), of a'] mem_okD(3) [OF assms(1,2)] assms(2,3) refs_0 [of bs xs a] by fastforce
  qed
  then show ?thesis using assms(2) by (simp add: retain_def same_block_def)
qed

lemma same_block_refl: "same_block x x" by (simp add: same_block_def)

lemma copy_ok:
  assumes "mem_ok h (b # bs) []"
  shows "\<exists>b' h'. Buffer_copy b h = Some (b', h') \<and> mem_ok h' (b' # b # bs) [] \<and> contents h' b' = contents h b \<and>
    others_kept h h' (b # bs)"
proof -
  obtain d where d: "mem_data h (m_data b) = Some d" "fits d b" using mem_ok_lookup [OF assms, of b] by auto
  obtain h1 where h1: "retain (m_data b) h = Some h1" "mem_ok h1 (b # bs) [m_data b]" "\<forall>a'. same_block (mem_data h1 a') (mem_data h a')"
    using retain_ok [OF assms d(1)] by auto
  let ?b = "b\<lparr>m_maxZeroAreaStart := m_zeroAreaStart b\<rparr>"
  obtain e where e: "mem_data h1 (m_data b) = Some e" "fits e b" using mem_okD(1) [OF h1(2), of b] by auto
  have same: "real_end ?b = real_end b" by (simp add: real_end_def)
  have "mem_ok h1 (?b # b # bs) []"
  proof (rule mem_ok_adopt)
    show "mem_ok h1 (b # bs) [m_data ?b]" using h1(2) by simp
    show "mem_data h1 (m_data ?b) = Some e" "fits e ?b" using e same by (simp_all add: fits_def)
    show "(m_end ?b = m_dirtyEnd e \<longrightarrow> real_end c \<le> real_end ?b) \<and> (m_end c = m_dirtyEnd e \<longrightarrow> real_end ?b \<le> real_end c)"
      if "c \<in> set (b # bs)" "m_data c = m_data ?b" for c
      using mem_ok_last [OF h1(2), of c e] that e(1) same by auto
  qed
  moreover have "contents h1 ?b = contents h b"
  proof -
    have "contents h1 ?b = contents h ?b" using h1(3) by (simp add: same_block_contents)
    also have "contents h ?b = contents h b" using d(1) by (simp add: contents_def bytes_in_def real_end_def)
    finally show ?thesis .
  qed
  moreover have "others_kept h h1 (b # bs)" using h1(3) by (intro others_keptI) simp
  ultimately show ?thesis using h1(1) by (simp add: Buffer_copy_def)
qed

lemma mem_ok_recommended [simp]: "mem_ok (h\<lparr>g_recommendedStart := x\<rparr>) bs xs = mem_ok h bs xs"
  by (simp add: mem_ok_def)

lemma contents_recommended [simp]: "contents (h\<lparr>g_recommendedStart := x\<rparr>) b = contents h b"
  by (simp add: contents_def)

lemma others_kept_recommended [simp]:
  "others_kept (h\<lparr>g_recommendedStart := x\<rparr>) h' bs = others_kept h h' bs"
  "others_kept h (h'\<lparr>g_recommendedStart := x\<rparr>) bs = others_kept h h' bs"
  by (simp_all add: others_kept_def)

lemma others_kept_refl [simp]: "others_kept h h bs"
  by (simp add: others_kept_def)

lemma others_kept_trans: "others_kept h h1 bs \<Longrightarrow> others_kept h1 h2 bs \<Longrightarrow> others_kept h h2 bs"
  by (simp add: others_kept_def)

lemma others_kept_Cons [simp]: "others_kept h h' (b # bs) \<longleftrightarrow> contents h' b = contents h b \<and> others_kept h h' bs"
  by (simp add: others_kept_def)

lemma release_kept:
  assumes "mem_ok h bs (a # xs)"
  shows "\<exists>h1. release a h = Some h1 \<and> mem_ok h1 bs xs \<and> others_kept h h1 bs \<and>
    (\<forall>x \<in> set xs. same_block (mem_data h1 x) (mem_data h x))"
proof -
  obtain h1 where r: "release a h = Some h1" "mem_ok h1 bs xs" "\<forall>a'. a' \<noteq> a \<longrightarrow> mem_data h1 a' = mem_data h a'"
    "a \<in> m_data ` set bs \<union> set xs \<longrightarrow> same_block (mem_data h1 a) (mem_data h a)"
    using release_ok [OF assms] by blast
  have "same_block (mem_data h1 x) (mem_data h x)" if "x \<in> m_data ` set bs \<union> set xs" for x
    using r(3,4) that same_block_refl by (cases "x = a") auto
  then show ?thesis using r(1,2) by (auto intro!: others_keptI)
qed

lemma destroy_ok:
  assumes "mem_ok h (b # bs) []"
  shows "\<exists>h'. Buffer_destroy b h = Some h' \<and> mem_ok h' bs [] \<and> others_kept h h' bs"
  using release_kept [of "h\<lparr>g_recommendedStart := max (g_recommendedStart h) (m_maxZeroAreaStart b)\<rparr>" bs "m_data b" "[]"]
    mem_ok_drop [OF assms] by (auto simp: Buffer_destroy_def)

lemma mem_ok_duplicate:
  assumes "mem_ok h (o' # bs) (m_data o' # xs)" shows "mem_ok h (o' # o' # bs) xs"
proof -
  obtain e where e: "mem_data h (m_data o') = Some e" "fits e o'" using mem_okD(1) [OF assms, of o'] by auto
  show ?thesis
    by (rule mem_ok_adopt [OF assms e]) (use mem_ok_last [OF assms _ _ e(1)] in auto)
qed

lemma mem_ok_swap: "mem_ok h (b # c # bs) xs = mem_ok h (c # b # bs) xs" "mem_ok h bs (x # y # xs) = mem_ok h bs (y # x # xs)"
  by (rule mem_ok_perm; simp)+

lemma assign_ok:
  assumes "mem_ok h (b # o' # bs) []"
  shows "\<exists>h'. Buffer_assign b o' h = Some (o', h') \<and> mem_ok h' (o' # o' # bs) [] \<and> others_kept h h' (o' # bs)"
proof (cases "m_data b = m_data o'")
  case True
  then have "mem_ok h (o' # bs) [m_data o']" using mem_ok_drop [OF assms] by simp
  then show ?thesis using True mem_ok_duplicate by (simp add: Buffer_assign_def)
next
  case False
  obtain h1 where h1: "release (m_data b) h = Some h1" "mem_ok h1 (o' # bs) []" "others_kept h h1 (o' # bs)"
    using release_kept [OF mem_ok_drop [OF assms]] by blast
  obtain d where d: "mem_data h1 (m_data o') = Some d" using mem_okD(1) [OF h1(2), of o'] by auto
  obtain h2 where h2: "retain (m_data o') h1 = Some h2" "mem_ok h2 (o' # bs) [m_data o']" "\<forall>a'. same_block (mem_data h2 a') (mem_data h1 a')"
    using retain_ok [OF h1(2) d] by auto
  have "others_kept h1 h2 (o' # bs)" using h2(3) by (intro others_keptI) simp
  then show ?thesis using h1 h2 False mem_ok_duplicate others_kept_trans [OF h1(3)] by (auto simp: Buffer_assign_def)
qed

lemma assign_temporary_ok:
  assumes "mem_ok h (tmp # b # bs) []"
  shows "\<exists>h'. assign_temporary b tmp h = Some (tmp, h') \<and> mem_ok h' (tmp # bs) [] \<and> others_kept h h' (tmp # bs)"
proof -
  obtain h1 where h1: "Buffer_assign b tmp h = Some (tmp, h1)" "mem_ok h1 (tmp # tmp # bs) []" "others_kept h h1 (tmp # bs)"
    using assign_ok [of h b tmp bs] assms mem_ok_swap(1) by blast
  obtain h2 where "Buffer_destroy tmp h1 = Some h2" "mem_ok h2 (tmp # bs) []" "others_kept h1 h2 (tmp # bs)"
    using destroy_ok [OF h1(2)] by blast
  then show ?thesis using h1 others_kept_trans by (auto simp: assign_temporary_def)
qed

lemma Initialize_ok:
  assumes "mem_ok h bs []"
  shows "\<exists>b h'. Buffer_Initialize n h = Some (b, h') \<and> mem_ok h' (b # bs) [] \<and> contents h' b = replicate n 0 \<and>
    others_kept h h' bs \<and> m_data b \<notin> m_data ` set bs \<and> m_zeroAreaEnd b - m_zeroAreaStart b = n"
proof -
  obtain a h1 d where c: "Create 0 h = Some (a, h1)" "mem_ok h1 bs [a]" "a \<notin> m_data ` set bs" "mem_data h1 a = Some d"
      "\<forall>a'. a' \<in> m_data ` set bs \<longrightarrow> mem_data h1 a' = mem_data h a'"
    using Create_ok [OF assms, of 0] by auto
  define s where "s = min (m_size d) (g_recommendedStart h1)"
  let ?b = "\<lparr>m_data = a, m_maxZeroAreaStart = s, m_zeroAreaStart = s, m_zeroAreaEnd = s + n, m_start = s, m_end = s + n\<rparr>"
  obtain h2 where h2: "set_dirty a s (s + n) h1 = Some h2" "mem_ok h2 (?b # bs) []"
      "mem_data h2 a = Some (d\<lparr>m_dirtyStart := s, m_dirtyEnd := s + n\<rparr>)" "\<forall>c \<in> set bs. mem_data h2 (m_data c) = mem_data h1 (m_data c)"
    using fresh_buffer_ok [of h1 bs ?b d] c by (auto simp: real_end_def s_def)
  have "contents h2 ?b = replicate n 0" using h2(3) by (simp add: contents_def bytes_in_def real_end_def)
  moreover have "others_kept h h2 bs" using h2(4) c(5) by (intro others_keptI) (simp add: same_block_refl)
  ultimately show ?thesis using c h2 by (auto simp: Buffer_Initialize_def Let_def s_def)
qed

lemma length_contents: "mem_ok h bs xs \<Longrightarrow> b \<in> set bs \<Longrightarrow> length (contents h b) = Buffer_GetSize b"
  by (auto elim!: mem_ok_lookup simp: length_bytes_in)

lemma CreateFragment_ok:
  assumes "mem_ok h (b # bs) []" "start + len \<le> Buffer_GetSize b" "Buffer_GetSize b < 2 ^ 32"
  shows "\<exists>b' h'. Buffer_CreateFragment start len b h = Some (b', h') \<and> mem_ok h' (b' # b # bs) [] \<and>
    contents h' b' = take len (drop start (contents h b)) \<and> others_kept h h' (b # bs)"
proof -
  obtain t h1 where t: "Buffer_copy b h = Some (t, h1)" "mem_ok h1 (t # b # bs) []" "contents h1 t = contents h b" "others_kept h h1 (b # bs)"
    using copy_ok [OF assms(1)] by blast
  let ?n = "Buffer_GetSize b - (start + len)"
  have n: "nat ((int (Buffer_GetSize b) - int (start + len)) mod 2 ^ 32) = ?n"
  proof -
    have "(int (Buffer_GetSize b) - int (start + len)) mod 2 ^ 32 = int ?n" using assms(2,3) by (simp add: of_nat_diff)
    then show ?thesis by (simp only: nat_int)
  qed
  note r1 = RemoveAtStart_ok [OF t(2), of start]
  note r2 = RemoveAtEnd_ok [OF conjunct1 [OF r1], of ?n]
  have "length (contents h b) = Buffer_GetSize b" using length_contents [OF assms(1)] by simp
  then have "contents h1 (Buffer_RemoveAtEnd ?n (Buffer_RemoveAtStart start t)) = take len (drop start (contents h b))"
    using r1 r2 t(3) assms(2) by (simp add: min_def)
  then show ?thesis using t r2 unfolding Buffer_CreateFragment_def n by simp
qed

subsection \<open>Writing the new bytes\<close>

definition overwrite :: "nat \<Rightarrow> 'a list \<Rightarrow> 'a list \<Rightarrow> 'a list" where
  "overwrite k ys xs = take k xs @ ys @ drop (k + length ys) xs"

lemma length_overwrite [simp]: "k + length ys \<le> length xs \<Longrightarrow> length (overwrite k ys xs) = length xs"
  by (simp add: overwrite_def)

lemma overwrite_overwrite: "k + length ys \<le> length xs \<Longrightarrow> overwrite (k + length ys) zs (overwrite k ys xs) = overwrite k (ys @ zs) xs"
  by (simp add: overwrite_def min_absorb2 ac_simps)

lemma overwrite_whole: "length ys = length xs \<Longrightarrow> overwrite 0 ys (xs @ zs) = ys @ zs" "length ys = length xs \<Longrightarrow> overwrite (length zs) ys (zs @ xs) = zs @ ys"
  by (simp_all add: overwrite_def)

lemma overwrite_Nil [simp]: "overwrite k [] xs = xs"
  by (simp add: overwrite_def)

lemma overwrite_append1: "k + length ys \<le> length xs \<Longrightarrow> overwrite k ys xs @ zs = overwrite k ys (xs @ zs)"
  by (simp add: overwrite_def)

lemma overwrite_append2: "zs @ overwrite k ys xs = overwrite (length zs + k) ys (zs @ xs)"
  by (simp add: overwrite_def)

lemma stored_poked_apart: "i + n \<le> j \<or> j + length ys \<le> i \<Longrightarrow> stored (poked j ys d) i n = stored d i n"
  using stored_poked(1,2) by blast

lemma stored_poked_mid:
  assumes "i \<le> j" "j + length ys \<le> i + n"
  shows "stored (poked j ys d) i n = overwrite (j - i) ys (stored d i n)"
proof (rule nth_equalityI)
  show "length (stored (poked j ys d) i n) = length (overwrite (j - i) ys (stored d i n))" using assms by simp
  show "stored (poked j ys d) i n ! k = overwrite (j - i) ys (stored d i n) ! k" if "k < length (stored (poked j ys d) i n)" for k
    using that assms by (auto simp: stored_def poked_def overwrite_def nth_append add.commute)
qed

text \<open>An iterator \<open>k\<close> bytes into a buffer.\<close>

definition iter_at :: "nat \<Rightarrow> Buffer \<Rightarrow> buffer_iter" where
  "iter_at k b = (Buffer_Begin b)\<lparr>i_current := m_start b + k\<rparr>"

lemma iter_at_simps [simp]:
  "i_zeroStart (iter_at k b) = m_zeroAreaStart b" "i_zeroEnd (iter_at k b) = m_zeroAreaEnd b" "i_dataStart (iter_at k b) = m_start b"
  "i_dataEnd (iter_at k b) = m_end b" "i_current (iter_at k b) = m_start b + k" "i_data (iter_at k b) = m_data b"
  "zero_size (iter_at k b) = m_zeroAreaEnd b - m_zeroAreaStart b" "iter_at k b\<lparr>i_current := m_start b + k'\<rparr> = iter_at k' b"
  by (simp_all add: iter_at_def Buffer_Begin_def zero_size_def)

lemma Begin_iter_at: "Buffer_Begin b = iter_at 0 b"
  by (simp add: iter_at_def Buffer_Begin_def)

lemma End_iter_at: "m_start b \<le> m_end b \<Longrightarrow> Buffer_End b = iter_at (Buffer_GetSize b) b"
  by (simp add: iter_at_def Buffer_End_def Buffer_GetSize_def)

lemma Prev_End:
  assumes "fits d b" "n \<le> Buffer_GetSize b"
  shows "Iterator_Prev n (Buffer_End b) = Some (iter_at (Buffer_GetSize b - n) b)"
proof -
  have "m_start b + Buffer_GetSize b - n = m_start b + (Buffer_GetSize b - n)" using assms(2) by simp
  then show ?thesis using assms by (simp add: End_iter_at fits_def Iterator_Prev_def)
qed

text \<open>Writing stored bytes that no other buffer has.\<close>

lemma write_at_ok:
  assumes "mem_ok h (b # bs) []" "mem_data h (m_data b) = Some d"
    and "m_start b \<le> j" "j + length ys \<le> real_end b" "j + length ys \<le> m_zeroAreaStart b \<or> m_zeroAreaStart b \<le> j"
    and apart: "\<And>c. c \<in> set bs \<Longrightarrow> m_data c = m_data b \<Longrightarrow> j + length ys \<le> m_start c \<or> real_end c \<le> j"
  shows "\<exists>h'. write_at j ys (iter_at k b) h = Some (iter_at (k + length ys) b, h') \<and> mem_ok h' (b # bs) [] \<and>
    contents h' b = overwrite (if j + length ys \<le> m_zeroAreaStart b then j - m_start b else j - m_start b + (m_zeroAreaEnd b - m_zeroAreaStart b))
      ys (contents h b) \<and> others_kept h h' bs"
proof -
  have f: "fits d b" "contents h b = bytes_in d b" using mem_okD(1) [OF assms(1), of b] assms(2) by (auto simp: contents_def)
  obtain h' where h': "poke_bytes (m_data b) j ys h = Some h'" "mem_ok h' (b # bs) []" "mem_data h' (m_data b) = Some (poked j ys d)"
      "\<forall>a'. a' \<noteq> m_data b \<longrightarrow> mem_data h' a' = mem_data h a'"
    using poke_ok [OF assms(1,2), of j ys] assms(4) f(1) by (auto simp: fits_def)
  have fp: "fits (poked j ys d) b" using f(1) by simp
  have own: "bytes_in (poked j ys d) b = overwrite (if j + length ys \<le> m_zeroAreaStart b then j - m_start b
      else j - m_start b + (m_zeroAreaEnd b - m_zeroAreaStart b)) ys (bytes_in d b)"
  proof (cases "j + length ys \<le> m_zeroAreaStart b")
    case True
    then have "stored (poked j ys d) (m_zeroAreaStart b) (m_end b - m_zeroAreaEnd b) = stored d (m_zeroAreaStart b) (m_end b - m_zeroAreaEnd b)"
      by (rule stored_poked(2))
    moreover have "stored (poked j ys d) (m_start b) (m_zeroAreaStart b - m_start b) =
        overwrite (j - m_start b) ys (stored d (m_start b) (m_zeroAreaStart b - m_start b))"
      using True assms(3) by (intro stored_poked_mid) simp_all
    ultimately show ?thesis
      using True assms(3) unfolding bytes_in_stored [OF fp] bytes_in_stored [OF f(1)] by (simp add: overwrite_append1)
  next
    case False
    then have j: "m_zeroAreaStart b \<le> j" using assms(5) by simp
    then have "stored (poked j ys d) (m_start b) (m_zeroAreaStart b - m_start b) = stored d (m_start b) (m_zeroAreaStart b - m_start b)"
      using f(1) by (intro stored_poked(1)) (simp add: fits_def)
    moreover have "stored (poked j ys d) (m_zeroAreaStart b) (m_end b - m_zeroAreaEnd b) =
        overwrite (j - m_zeroAreaStart b) ys (stored d (m_zeroAreaStart b) (m_end b - m_zeroAreaEnd b))"
      using j assms(4) by (intro stored_poked_mid) (simp_all add: real_end_def)
    moreover have "j - m_start b + (m_zeroAreaEnd b - m_zeroAreaStart b) =
        m_zeroAreaStart b - m_start b + (m_zeroAreaEnd b - m_zeroAreaStart b + (j - m_zeroAreaStart b))"
      using j f(1) by (simp add: fits_def)
    ultimately show ?thesis
      using False unfolding bytes_in_stored [OF fp] bytes_in_stored [OF f(1)] by (simp add: overwrite_append2 ac_simps)
  qed
  have "contents h' c = contents h c" if "c \<in> set bs" for c
  proof (cases "m_data c = m_data b")
    case True
    have fc: "fits d c" using mem_okD(1) [OF assms(1), of c] that True assms(2) by auto
    have "stored (poked j ys d) (m_start c) (m_zeroAreaStart c - m_start c) = stored d (m_start c) (m_zeroAreaStart c - m_start c)"
      "stored (poked j ys d) (m_zeroAreaStart c) (m_end c - m_zeroAreaEnd c) = stored d (m_zeroAreaStart c) (m_end c - m_zeroAreaEnd c)"
      using apart [OF that True] fc by (auto simp: fits_def real_end_def intro!: stored_poked_apart)
    then show ?thesis using True h'(3) assms(2) fc bytes_in_stored [of d c] bytes_in_stored [of "poked j ys d" c]
      by (simp add: contents_def)
  next
    case False
    then show ?thesis using h'(4) by (simp add: contents_def)
  qed
  then show ?thesis using h' own f(2) by (simp add: write_at_def others_kept_def contents_def add.assoc)
qed

lemma front_write_at:
  assumes "mem_ok h (b # bs) []" "room_front n b bs" "k + length ys \<le> n"
  shows "\<exists>h'. write_at (m_start b + k) ys (iter_at k b) h = Some (iter_at (k + length ys) b, h') \<and> mem_ok h' (b # bs) [] \<and>
    contents h' b = overwrite k ys (contents h b) \<and> others_kept h h' bs"
proof -
  obtain d where d: "mem_data h (m_data b) = Some d" "fits d b" using mem_ok_lookup [OF assms(1), of b] by auto
  have "m_start b + k + length ys \<le> m_zeroAreaStart b" using assms(2,3) by (simp add: room_front_def)
  moreover have "m_start b + k + length ys \<le> real_end b" using calculation by (simp add: real_end_def)
  moreover have "m_start b + k + length ys \<le> m_start c" if "c \<in> set bs" "m_data c = m_data b" for c
    using assms(2,3) that by (auto simp: room_front_def)
  ultimately show ?thesis using write_at_ok [OF assms(1) d(1), of "m_start b + k" ys k] by auto
qed

lemma back_write_at:
  assumes "mem_ok h (b # bs) []" "room_back n b bs" "length ys = n"
  shows "\<exists>h'. write_at (real_end b - n) ys (iter_at k b) h = Some (iter_at (k + n) b, h') \<and> mem_ok h' (b # bs) [] \<and>
    contents h' b = take (length (contents h b) - n) (contents h b) @ ys \<and> others_kept h h' bs"
proof -
  obtain d where d: "mem_data h (m_data b) = Some d" "fits d b" "contents h b = bytes_in d b"
    using mem_ok_lookup [OF assms(1), of b] by auto
  have len: "length (contents h b) = Buffer_GetSize b" using length_contents [OF assms(1)] by simp
  have n: "m_zeroAreaEnd b + n \<le> m_end b" using assms(2) by (simp add: room_back_def)
  then have j: "m_zeroAreaStart b \<le> real_end b - n" "real_end b - n + n = real_end b" by (simp_all add: real_end_def)
  have pos: "(if real_end b - n + length ys \<le> m_zeroAreaStart b then real_end b - n - m_start b
      else real_end b - n - m_start b + (m_zeroAreaEnd b - m_zeroAreaStart b)) = length (contents h b) - n \<or> ys = []"
    using n d(2) assms(3) unfolding len by (cases "n = 0") (auto simp: real_end_def fits_def Buffer_GetSize_def)
  have "m_start b \<le> real_end b - n" using j(1) d(2) by (simp add: fits_def)
  moreover have "real_end c \<le> real_end b - n" if "c \<in> set bs" "m_data c = m_data b" for c
    using assms(2) that by (auto simp: room_back_def)
  ultimately obtain h' where h': "write_at (real_end b - n) ys (iter_at k b) h = Some (iter_at (k + length ys) b, h')" "mem_ok h' (b # bs) []"
      "contents h' b = overwrite (if real_end b - n + length ys \<le> m_zeroAreaStart b then real_end b - n - m_start b
        else real_end b - n - m_start b + (m_zeroAreaEnd b - m_zeroAreaStart b)) ys (contents h b)" "others_kept h h' bs"
    using write_at_ok [OF assms(1) d(1), of "real_end b - n" ys k] j assms(3) by auto
  have "n \<le> length (contents h b)" using n d(2) unfolding len by (simp add: Buffer_GetSize_def fits_def) linarith
  then have "overwrite (length (contents h b) - n) ys (contents h b) = take (length (contents h b) - n) (contents h b) @ ys"
    using assms(3) by (simp add: overwrite_def)
  then have "contents h' b = take (length (contents h b) - n) (contents h b) @ ys"
    using h'(3) pos assms(3) by auto
  then show ?thesis using h' assms(3) by auto
qed

end
