(* ===== verification/Buffer_Operations.thy ===== *)
theory Buffer_Operations
  imports Buffer_Refinement
begin

text \<open>
  What packets do with their buffers: prepending and appending bytes, reading and copying out.
\<close>

subsection \<open>Prepending and appending\<close>

lemma Iterator_Write_front:
  assumes "mem_ok h (b # bs) []" "room_front n b bs" "length ys = n"
  shows "\<exists>h'. Iterator_Write ys (Buffer_Begin b) h = Some (iter_at n b, h') \<and> mem_ok h' (b # bs) [] \<and>
    contents h' b = overwrite 0 ys (contents h b) \<and> others_kept h h' bs"
proof -
  obtain d where d: "fits d b" using mem_ok_lookup [OF assms(1), of b] by auto
  have "CheckNoZero (m_start b) n (iter_at 0 b)"
    using assms(2) d by (auto simp: CheckNoZero_def room_front_def fits_def)
  then have "Iterator_Write ys (Buffer_Begin b) h = write_at (m_start b + 0) ys (iter_at 0 b) h"
    using assms(3) d by (simp add: Begin_iter_at Iterator_Write_def fits_def)
  then show ?thesis using front_write_at [OF assms(1,2), of 0 ys] assms(3) by auto
qed

lemma WriteU8_len_front:
  assumes "mem_ok h (b # bs) []" "room_front n b bs"
  shows "\<exists>h'. WriteU8_len v n (Buffer_Begin b) h = Some (iter_at n b, h') \<and> mem_ok h' (b # bs) [] \<and>
    contents h' b = overwrite 0 (replicate n v) (contents h b) \<and> others_kept h h' bs"
proof -
  obtain d where d: "fits d b" using mem_ok_lookup [OF assms(1), of b] by auto
  have "CheckNoZero (m_start b) (m_start b + n) (iter_at 0 b)"
    using assms(2) d by (auto simp: CheckNoZero_def room_front_def fits_def)
  then have "WriteU8_len v n (Buffer_Begin b) h = write_at (m_start b + 0) (replicate n v) (iter_at 0 b) h"
    using d by (simp add: Begin_iter_at WriteU8_len_def fits_def)
  then show ?thesis using front_write_at [OF assms(1,2), of 0 "replicate n v"] by auto
qed

lemma Iterator_Write_back:
  assumes "mem_ok h (b # bs) []" "room_back n b bs" "length ys = n"
  shows "\<exists>i h'. Iterator_Prev n (Buffer_End b) = Some i \<and> Iterator_Write ys i h = Some (iter_at (Buffer_GetSize b) b, h') \<and>
    mem_ok h' (b # bs) [] \<and> contents h' b = take (length (contents h b) - n) (contents h b) @ ys \<and> others_kept h h' bs"
proof -
  obtain d where d: "fits d b" using mem_ok_lookup [OF assms(1), of b] by auto
  let ?i = "iter_at (Buffer_GetSize b - n) b"
  have s: "m_start b \<le> m_zeroAreaStart b" "m_zeroAreaStart b \<le> m_zeroAreaEnd b" "m_zeroAreaEnd b + n \<le> m_end b"
    using d assms(2) by (simp_all add: fits_def room_back_def)
  then have n: "n \<le> Buffer_GetSize b" "m_start b + (Buffer_GetSize b - n) = m_end b - n" by (simp_all add: Buffer_GetSize_def)
  have "CheckNoZero (m_end b - n) n ?i" using s by (auto simp: CheckNoZero_def)
  moreover have "(if m_end b - n \<le> m_zeroAreaStart b then m_end b - n else m_end b - n - (m_zeroAreaEnd b - m_zeroAreaStart b)) = real_end b - n"
    using s by (auto simp: real_end_def)
  ultimately have "Iterator_Write ys ?i h = write_at (real_end b - n) ys ?i h"
    using assms(3) n(2) by (auto simp: Iterator_Write_def)
  moreover have "Buffer_GetSize b - n + n = Buffer_GetSize b" using n(1) by simp
  ultimately show ?thesis
    using back_write_at [OF assms, of "Buffer_GetSize b - n"] Prev_End [OF d n(1)] by auto
qed

text \<open>A header of known bytes, as the packet constructor and \<open>AddHeader\<close> put it in front.\<close>

definition push_front :: "uint8 list \<Rightarrow> Buffer \<Rightarrow> buffer_mem \<Rightarrow> (Buffer \<times> buffer_mem) option" where
  "push_front xs b h =
     do { (b1, h1) \<leftarrow> Buffer_AddAtStart (length xs) b h;
          (_, h2) \<leftarrow> Iterator_Write xs (Buffer_Begin b1) h1;
          Some (b1, h2) }"

definition push_back :: "uint8 list \<Rightarrow> Buffer \<Rightarrow> buffer_mem \<Rightarrow> (Buffer \<times> buffer_mem) option" where
  "push_back xs b h =
     do { (b1, h1) \<leftarrow> Buffer_AddAtEnd (length xs) b h;
          i \<leftarrow> Iterator_Prev (length xs) (Buffer_End b1);
          (_, h2) \<leftarrow> Iterator_Write xs i h1;
          Some (b1, h2) }"

lemma push_front_ok:
  assumes "mem_ok h (b # bs) []"
  shows "\<exists>b' h'. push_front xs b h = Some (b', h') \<and> mem_ok h' (b' # bs) [] \<and> contents h' b' = xs @ contents h b \<and>
    others_kept h h' bs \<and> m_zeroAreaEnd b' - m_zeroAreaStart b' = m_zeroAreaEnd b - m_zeroAreaStart b"
proof -
  obtain b1 h1 junk where a: "Buffer_AddAtStart (length xs) b h = Some (b1, h1)" "mem_ok h1 (b1 # bs) []" "length junk = length xs"
      "contents h1 b1 = junk @ contents h b" "others_kept h h1 bs" "room_front (length xs) b1 bs"
      "m_zeroAreaEnd b1 - m_zeroAreaStart b1 = m_zeroAreaEnd b - m_zeroAreaStart b"
    using AddAtStart_ok [OF assms, of "length xs"] by blast
  obtain h2 where w: "Iterator_Write xs (Buffer_Begin b1) h1 = Some (iter_at (length xs) b1, h2)" "mem_ok h2 (b1 # bs) []"
      "contents h2 b1 = overwrite 0 xs (contents h1 b1)" "others_kept h1 h2 bs"
    using Iterator_Write_front [OF a(2,6)] by auto
  then show ?thesis using a others_kept_trans [OF a(5) w(4)] by (simp add: push_front_def overwrite_whole)
qed

lemma push_back_ok:
  assumes "mem_ok h (b # bs) []"
  shows "\<exists>b' h'. push_back xs b h = Some (b', h') \<and> mem_ok h' (b' # bs) [] \<and> contents h' b' = contents h b @ xs \<and>
    others_kept h h' bs \<and> m_zeroAreaEnd b' - m_zeroAreaStart b' = m_zeroAreaEnd b - m_zeroAreaStart b"
proof -
  obtain b1 h1 junk where a: "Buffer_AddAtEnd (length xs) b h = Some (b1, h1)" "mem_ok h1 (b1 # bs) []" "length junk = length xs"
      "contents h1 b1 = contents h b @ junk" "others_kept h h1 bs" "room_back (length xs) b1 bs"
      "m_zeroAreaEnd b1 - m_zeroAreaStart b1 = m_zeroAreaEnd b - m_zeroAreaStart b"
    using AddAtEnd_ok [OF assms, of "length xs"] by blast
  obtain i h2 where w: "Iterator_Prev (length xs) (Buffer_End b1) = Some i"
      "Iterator_Write xs i h1 = Some (iter_at (Buffer_GetSize b1) b1, h2)" "mem_ok h2 (b1 # bs) []"
      "contents h2 b1 = take (length (contents h1 b1) - length xs) (contents h1 b1) @ xs" "others_kept h1 h2 bs"
    using Iterator_Write_back [OF a(2,6)] by blast
  then show ?thesis using a others_kept_trans [OF a(5) w(5)] by (simp add: push_back_def)
qed

subsection \<open>Reading\<close>

text \<open>The stored parts of a buffer as parts of its bytes.\<close>

lemma peek_parts:
  assumes "mem_ok h bs xs" "b \<in> set bs"
  shows "n \<le> m_zeroAreaStart b - m_start b \<Longrightarrow> peek_bytes (m_data b) (m_start b) n h = Some (take n (contents h b))"
    "k + n \<le> m_end b - m_zeroAreaEnd b \<Longrightarrow>
       peek_bytes (m_data b) (m_zeroAreaStart b + k) n h = Some (take n (drop (m_zeroAreaEnd b - m_start b + k) (contents h b)))"
    "n \<le> m_zeroAreaEnd b - m_zeroAreaStart b \<Longrightarrow> take n (drop (m_zeroAreaStart b - m_start b) (contents h b)) = replicate n 0"
proof -
  obtain d where d: "mem_data h (m_data b) = Some d" "fits d b" "contents h b = bytes_in d b"
    using mem_ok_lookup [OF assms] by auto
  have s: "m_start b \<le> m_zeroAreaStart b" "m_zeroAreaStart b \<le> m_zeroAreaEnd b" "m_zeroAreaEnd b \<le> m_end b" "real_end b \<le> m_size d"
    using d(2) by (simp_all add: fits_def)
  have c: "contents h b = stored d (m_start b) (m_zeroAreaStart b - m_start b) @
      replicate (m_zeroAreaEnd b - m_zeroAreaStart b) 0 @ stored d (m_zeroAreaStart b) (m_end b - m_zeroAreaEnd b)"
    using d(3) bytes_in_stored [OF d(2)] by simp
  show "peek_bytes (m_data b) (m_start b) n h = Some (take n (contents h b))" if "n \<le> m_zeroAreaStart b - m_start b"
    using that s peek_ok [OF d(1), of "m_start b" n] unfolding c
    by (simp add: take_stored real_end_def min_absorb1) (simp add: stored_def)
  show "peek_bytes (m_data b) (m_zeroAreaStart b + k) n h = Some (take n (drop (m_zeroAreaEnd b - m_start b + k) (contents h b)))"
    if "k + n \<le> m_end b - m_zeroAreaEnd b"
  proof -
    have "m_zeroAreaEnd b - m_start b + k = m_zeroAreaStart b - m_start b + (m_zeroAreaEnd b - m_zeroAreaStart b + k)" using s by simp
    then have "take n (drop (m_zeroAreaEnd b - m_start b + k) (contents h b)) = stored d (m_zeroAreaStart b + k) n"
      using that unfolding c by (simp add: drop_stored take_stored min_absorb1)
    moreover have "m_zeroAreaStart b + k + n \<le> m_size d" using that s by (simp add: real_end_def)
    ultimately show ?thesis using peek_ok [OF d(1), of "m_zeroAreaStart b + k" n] by (simp add: stored_def)
  qed
  show "take n (drop (m_zeroAreaStart b - m_start b) (contents h b)) = replicate n 0" if "n \<le> m_zeroAreaEnd b - m_zeroAreaStart b"
    using that unfolding c by (simp add: min_absorb1)
qed

lemma PeekU8_ok:
  assumes "mem_ok h bs xs" "b \<in> set bs" "k < Buffer_GetSize b"
  shows "PeekU8 (iter_at k b) h = Some (contents h b ! k)"
proof -
  obtain d where d: "mem_data h (m_data b) = Some d" "fits d b" using mem_ok_lookup [OF assms(1,2)] by auto
  have s: "m_start b \<le> m_zeroAreaStart b" "m_zeroAreaStart b \<le> m_zeroAreaEnd b" "m_zeroAreaEnd b \<le> m_end b"
    using d(2) by (simp_all add: fits_def)
  have len: "length (contents h b) = m_end b - m_start b" using length_contents [OF assms(1,2)] by (simp add: Buffer_GetSize_def)
  have k: "k < length (contents h b)" using assms(3) len by (simp add: Buffer_GetSize_def)
  have hd: "hd (take (Suc 0) (drop k (contents h b))) = contents h b ! k" using k by (simp add: hd_drop_conv_nth)
  have c: "contents h b = stored d (m_start b) (m_zeroAreaStart b - m_start b) @
      replicate (m_zeroAreaEnd b - m_zeroAreaStart b) 0 @ stored d (m_zeroAreaStart b) (m_end b - m_zeroAreaEnd b)"
    using bytes_in_stored [OF d(2)] d(1) by (simp add: contents_def)
  consider "m_start b + k < m_zeroAreaStart b" | "m_zeroAreaStart b \<le> m_start b + k" "m_start b + k < m_zeroAreaEnd b"
    | "m_zeroAreaEnd b \<le> m_start b + k" by linarith
  then show ?thesis
  proof cases
    case 1
    then have in1: "m_start b + k + 1 \<le> m_size d" "k < m_zeroAreaStart b - m_start b" using d(2) by (simp_all add: fits_def real_end_def)
    then have "peek_bytes (m_data b) (m_start b + k) 1 h = Some [contents h b ! k]"
      using peek_ok [OF d(1) in1(1)] unfolding c by (simp add: nth_append) (simp add: stored_def)
    then show ?thesis using 1 s k len by (simp add: PeekU8_def)
  next
    case 2
    then have "contents h b ! k = 0" using s unfolding c by (auto simp: nth_append)
    then show ?thesis using 2 s k len by (simp add: PeekU8_def)
  next
    case 3
    obtain j where j: "m_start b + k = m_zeroAreaEnd b + j" using 3 le_Suc_ex by blast
    then have "peek_bytes (m_data b) (m_zeroAreaStart b + j) 1 h = Some (take 1 (drop (m_zeroAreaEnd b - m_start b + j) (contents h b)))"
      using k len s by (intro peek_parts(2) [OF assms(1,2)]) simp
    moreover have "m_zeroAreaEnd b - m_start b + j = k" using j s by simp
    moreover have "m_start b + k - (m_zeroAreaEnd b - m_zeroAreaStart b) = m_zeroAreaStart b + j" using j s by simp
    ultimately show ?thesis using 3 s k len hd by (simp add: PeekU8_def)
  qed
qed

lemma ReadU8_ok:
  assumes "mem_ok h bs xs" "b \<in> set bs" "k < Buffer_GetSize b"
  shows "ReadU8 (iter_at k b) h = Some (contents h b ! k, iter_at (k + 1) b)"
  using PeekU8_ok [OF assms] by (simp add: ReadU8_def add.assoc)

lemma Iterator_Read_ok:
  assumes "mem_ok h bs xs" "b \<in> set bs" "k + n \<le> Buffer_GetSize b"
  shows "Iterator_Read n (iter_at k b) h = Some (take n (drop k (contents h b)), iter_at (k + n) b)"
  using assms(3)
proof (induction n arbitrary: k)
  case (Suc n)
  have len: "length (contents h b) = Buffer_GetSize b" using length_contents [OF assms(1,2)] .
  then have "drop k (contents h b) = contents h b ! k # drop (Suc k) (contents h b)"
    using Suc.prems by (intro Cons_nth_drop_Suc [symmetric]) simp
  then show ?case using ReadU8_ok [OF assms(1,2), of k] Suc.IH [of "k + 1"] Suc.prems by simp
qed simp

lemma three_parts: "take z (drop p xs) = ys \<Longrightarrow> take p xs @ ys @ drop (p + z) xs = xs"
  by (metis append_take_drop_id drop_drop add.commute)

lemma copy_zeroes_eq: "copy_zeroes n = replicate n 0"
proof (induction n rule: copy_zeroes.induct)
  case (1 n)
  show ?case
  proof (cases "n > 0")
    case True
    then have "copy_zeroes n = replicate (min n 1000) 0 @ copy_zeroes (n - min n 1000)" by (subst copy_zeroes.simps) (simp add: Let_def)
    then show ?thesis using 1 [OF True] by (simp add: replicate_add [symmetric])
  qed (simp add: copy_zeroes.simps)
qed

lemma CopyData_ok:
  assumes "mem_ok h bs xs" "b \<in> set bs"
  shows "Buffer_CopyData n b h = Some (take n (contents h b))"
proof -
  obtain d where d: "mem_data h (m_data b) = Some d" "fits d b" using mem_ok_lookup [OF assms] by auto
  have s: "m_start b \<le> m_zeroAreaStart b" "m_zeroAreaStart b \<le> m_zeroAreaEnd b" "m_zeroAreaEnd b \<le> m_end b"
    using d(2) by (simp_all add: fits_def)
  define p where "p = m_zeroAreaStart b - m_start b"
  define z where "z = m_zeroAreaEnd b - m_zeroAreaStart b"
  define q where "q = m_end b - m_zeroAreaEnd b"
  have len: "length (contents h b) = p + z + q"
    using length_contents [OF assms] s by (simp add: Buffer_GetSize_def p_def z_def q_def)
  have split: "contents h b = take p (contents h b) @ replicate z 0 @ drop (p + z) (contents h b)"
  proof -
    have "take z (drop p (contents h b)) = replicate z 0" using peek_parts(3) [OF assms, of z] by (simp add: p_def z_def)
    then show ?thesis using three_parts [of z p "contents h b" "replicate z 0"] by simp
  qed
  have first: "peek_bytes (m_data b) (m_start b) (min p n) h = Some (take (min p n) (contents h b))"
    by (rule peek_parts(1) [OF assms]) (simp add: p_def)
  have last: "peek_bytes (m_data b) (m_zeroAreaStart b) (min q m) h = Some (take m (drop (p + z) (contents h b)))" for m
  proof -
    have "m_zeroAreaEnd b - m_start b = p + z" using s by (simp add: p_def z_def)
    then have "peek_bytes (m_data b) (m_zeroAreaStart b) (min q m) h = Some (take (min q m) (drop (p + z) (contents h b)))"
      using peek_parts(2) [OF assms, of 0 "min q m"] by (simp add: q_def)
    moreover have "take (min q m) (drop (p + z) (contents h b)) = take m (drop (p + z) (contents h b))"
      using len by (simp add: min_def)
    ultimately show ?thesis by simp
  qed
  have cases: "take n (contents h b) = (if n \<le> p then take n (contents h b)
      else if n \<le> p + z then take p (contents h b) @ replicate (n - p) 0
      else take p (contents h b) @ replicate z 0 @ take (n - p - z) (drop (p + z) (contents h b)))"
  proof -
    have "p \<le> length (contents h b)" using len by simp
    then show ?thesis by (subst (1) split) (auto simp: min_def)
  qed
  show ?thesis
    using first last [of "n - p - z"] cases unfolding Buffer_CopyData_def p_def [symmetric] z_def [symmetric] q_def [symmetric]
    by (auto simp: Let_def copy_zeroes_eq min_def)
qed

subsection \<open>Full copies\<close>

lemma CreateFullCopy_ok:
  assumes "mem_ok h (b # bs) []"
  shows "\<exists>t h'. Buffer_CreateFullCopy b h = Some (t, h') \<and> mem_ok h' (t # b # bs) [] \<and> contents h' t = contents h b \<and>
    others_kept h h' (b # bs) \<and> m_zeroAreaEnd t - m_zeroAreaStart t = 0 \<and>
    (m_data t = m_data b \<or> m_data t \<notin> m_data ` set (b # bs))"
proof (cases "m_zeroAreaEnd b - m_zeroAreaStart b = 0")
  case True
  obtain t h' where t: "Buffer_copy b h = Some (t, h')" "mem_ok h' (t # b # bs) []" "contents h' t = contents h b" "others_kept h h' (b # bs)"
    using copy_ok [OF assms] by blast
  moreover have "m_data t = m_data b \<and> m_zeroAreaEnd t = m_zeroAreaEnd b \<and> m_zeroAreaStart t = m_zeroAreaStart b"
    using t(1) by (auto simp: Buffer_copy_def bind_eq_Some_conv)
  ultimately show ?thesis using True by (simp add: Buffer_CreateFullCopy_def)
next
  case False
  define p where "p = m_zeroAreaStart b - m_start b"
  define z where "z = m_zeroAreaEnd b - m_zeroAreaStart b"
  define q where "q = m_end b - m_zeroAreaEnd b"
  let ?C = "contents h b"
  obtain d where d: "fits d b" using mem_ok_lookup [OF assms, of b] by auto
  have len: "length ?C = p + z + q" and start: "m_zeroAreaEnd b - m_start b = p + z"
    using length_contents [OF assms, of b] d by (simp_all add: Buffer_GetSize_def p_def z_def q_def fits_def)
  obtain t0 h1 where i: "Buffer_Initialize 0 h = Some (t0, h1)" "mem_ok h1 (t0 # b # bs) []" "contents h1 t0 = []"
      "others_kept h h1 (b # bs)" "m_data t0 \<notin> m_data ` set (b # bs)" "m_zeroAreaEnd t0 - m_zeroAreaStart t0 = 0"
    using Initialize_ok [OF assms, of 0] by auto
  obtain t1 h2 junk1 where a: "Buffer_AddAtStart z t0 h1 = Some (t1, h2)" "mem_ok h2 (t1 # b # bs) []" "length junk1 = z"
      "contents h2 t1 = junk1 @ contents h1 t0" "others_kept h1 h2 (b # bs)" "room_front z t1 (b # bs)"
      "m_zeroAreaEnd t1 - m_zeroAreaStart t1 = m_zeroAreaEnd t0 - m_zeroAreaStart t0"
      "m_data t1 = m_data t0 \<or> m_data t1 \<notin> m_data ` set (b # bs)"
    using AddAtStart_ok [OF i(2), of z] by blast
  obtain h3 where w1: "WriteU8_len 0 z (Buffer_Begin t1) h2 = Some (iter_at z t1, h3)" "mem_ok h3 (t1 # b # bs) []"
      "contents h3 t1 = overwrite 0 (replicate z 0) (contents h2 t1)" "others_kept h2 h3 (b # bs)"
    using WriteU8_len_front [OF a(2,6)] by blast
  obtain t2 h4 junk2 where a2: "Buffer_AddAtStart p t1 h3 = Some (t2, h4)" "mem_ok h4 (t2 # b # bs) []" "length junk2 = p"
      "contents h4 t2 = junk2 @ contents h3 t1" "others_kept h3 h4 (b # bs)" "room_front p t2 (b # bs)"
      "m_zeroAreaEnd t2 - m_zeroAreaStart t2 = m_zeroAreaEnd t1 - m_zeroAreaStart t1"
      "m_data t2 = m_data t1 \<or> m_data t2 \<notin> m_data ` set (b # bs)"
    using AddAtStart_ok [OF w1(2), of p] by blast
  have b4: "contents h4 b = ?C" using i(4) a(5) w1(4) a2(5) by simp
  have x: "peek_bytes (m_data b) (m_start b) p h4 = Some (take p ?C)"
    using peek_parts(1) [OF a2(2), of b p] b4 by (simp add: p_def)
  obtain h5 where w2: "Iterator_Write (take p ?C) (Buffer_Begin t2) h4 = Some (iter_at p t2, h5)" "mem_ok h5 (t2 # b # bs) []"
      "contents h5 t2 = overwrite 0 (take p ?C) (contents h4 t2)" "others_kept h4 h5 (b # bs)"
    using Iterator_Write_front [OF a2(2,6), of "take p ?C"] len by auto
  obtain t3 h6 junk3 where a3: "Buffer_AddAtEnd q t2 h5 = Some (t3, h6)" "mem_ok h6 (t3 # b # bs) []" "length junk3 = q"
      "contents h6 t3 = contents h5 t2 @ junk3" "others_kept h5 h6 (b # bs)" "room_back q t3 (b # bs)"
      "m_zeroAreaEnd t3 - m_zeroAreaStart t3 = m_zeroAreaEnd t2 - m_zeroAreaStart t2"
      "m_data t3 = m_data t2 \<or> m_data t3 \<notin> m_data ` set (b # bs)"
    using AddAtEnd_ok [OF w2(2), of q] by blast
  have b6: "contents h6 b = ?C" using b4 w2(4) a3(5) by simp
  have y: "peek_bytes (m_data b) (m_zeroAreaStart b) q h6 = Some (drop (p + z) ?C)"
    using peek_parts(2) [OF a3(2), of b 0 q] b6 len start by (simp add: q_def)
  obtain k h7 where w3: "Iterator_Prev q (Buffer_End t3) = Some k"
      "Iterator_Write (drop (p + z) ?C) k h6 = Some (iter_at (Buffer_GetSize t3) t3, h7)" "mem_ok h7 (t3 # b # bs) []"
      "contents h7 t3 = take (length (contents h6 t3) - q) (contents h6 t3) @ drop (p + z) ?C" "others_kept h6 h7 (b # bs)"
    using Iterator_Write_back [OF a3(2,6), of "drop (p + z) ?C"] len by auto
  have "contents h7 t3 = ?C"
  proof -
    have "contents h3 t1 = replicate z 0" using w1(3) a(3,4) i(3) by (simp add: overwrite_def)
    moreover have "contents h5 t2 = take p ?C @ contents h3 t1"
      using w2(3) a2(3,4) len by (simp add: overwrite_whole)
    moreover have "take z (drop p ?C) = replicate z 0"
      using peek_parts(3) [OF assms, of b z] by (simp add: p_def z_def)
    moreover have "contents h7 t3 = contents h5 t2 @ drop (p + z) ?C" using w3(4) a3(3,4) by simp
    ultimately show ?thesis using three_parts [of z p ?C "replicate z 0"] by simp
  qed
  moreover have "others_kept h h7 (b # bs)" using i(4) a(5) w1(4) a2(5) w2(4) a3(5) w3(5) by (simp add: others_kept_def)
  moreover have "m_data t3 \<notin> m_data ` set (b # bs)" using i(5) a(8) a2(8) a3(8) by metis
  moreover have "Buffer_CreateFullCopy b h = Some (t3, h7)"
    using False i(1) a(1) w1(1) a2(1) x w2(1) a3(1) w3(1) y w3(2)
    unfolding Buffer_CreateFullCopy_def Let_def p_def [symmetric] z_def [symmetric] q_def [symmetric] by simp
  ultimately show ?thesis using w3(3) i(6) a(7) a2(7) a3(7) by simp
qed

end
