(* ===== verification/Buffer_Numbers.thy ===== *)
theory Buffer_Numbers
  imports Buffer_Operations
begin

unbundle bit_operations_syntax

text \<open>
  Numbers in buffers: the iterator's reads and writes of 16, 32 and 64 bits in host, network and
  least-significant-byte-first order, and the Internet checksum (\<open>buffer.cc\<close> and the inline functions of
  \<open>buffer.h\<close>).
\<close>

subsection \<open>Writing\<close>

text \<open>A sequence of \<open>WriteU8\<close>, and the sequence that shifts the number by a byte between the writes.\<close>

fun WriteU8s :: "uint8 list \<Rightarrow> buffer_iter \<Rightarrow> buffer_mem \<Rightarrow> (buffer_iter \<times> buffer_mem) option" where
  "WriteU8s [] it h = Some (it, h)"
| "WriteU8s (x # xs) it h = do { (it1, h1) \<leftarrow> WriteU8 x it h; WriteU8s xs it1 h1 }"

fun le_bytes :: "nat \<Rightarrow> 'a::len word \<Rightarrow> uint8 list" where
  "le_bytes 0 data = []"
| "le_bytes (Suc n) data = ucast (data AND 0xff) # le_bytes n (drop_bit 8 data)"

definition byte_at :: "nat \<Rightarrow> 'a::len word \<Rightarrow> uint8" where
  "byte_at k data = ucast (drop_bit k data AND 0xff)"

definition WriteU16 :: "uint16 \<Rightarrow> buffer_iter \<Rightarrow> buffer_mem \<Rightarrow> (buffer_iter \<times> buffer_mem) option" where
  "WriteU16 data = WriteU8s (le_bytes 2 data)"

definition WriteU32 :: "uint32 \<Rightarrow> buffer_iter \<Rightarrow> buffer_mem \<Rightarrow> (buffer_iter \<times> buffer_mem) option" where
  "WriteU32 data = WriteU8s (le_bytes 4 data)"

definition WriteU64 :: "uint64 \<Rightarrow> buffer_iter \<Rightarrow> buffer_mem \<Rightarrow> (buffer_iter \<times> buffer_mem) option" where
  "WriteU64 data = WriteU8s (le_bytes 8 data)"

definition WriteHtolsbU16 :: "uint16 \<Rightarrow> buffer_iter \<Rightarrow> buffer_mem \<Rightarrow> (buffer_iter \<times> buffer_mem) option" where
  "WriteHtolsbU16 data = WriteU8s [byte_at 0 data, byte_at 8 data]"

definition WriteHtolsbU32 :: "uint32 \<Rightarrow> buffer_iter \<Rightarrow> buffer_mem \<Rightarrow> (buffer_iter \<times> buffer_mem) option" where
  "WriteHtolsbU32 data = WriteU8s [byte_at 0 data, byte_at 8 data, byte_at 16 data, byte_at 24 data]"

definition WriteHtolsbU64 :: "uint64 \<Rightarrow> buffer_iter \<Rightarrow> buffer_mem \<Rightarrow> (buffer_iter \<times> buffer_mem) option" where
  "WriteHtolsbU64 data =
     WriteU8s [byte_at 0 data, byte_at 8 data, byte_at 16 data, byte_at 24 data,
               byte_at 32 data, byte_at 40 data, byte_at 48 data, byte_at 56 data]"

definition WriteHtonU64 :: "uint64 \<Rightarrow> buffer_iter \<Rightarrow> buffer_mem \<Rightarrow> (buffer_iter \<times> buffer_mem) option" where
  "WriteHtonU64 data =
     WriteU8s [byte_at 56 data, byte_at 48 data, byte_at 40 data, byte_at 32 data,
               byte_at 24 data, byte_at 16 data, byte_at 8 data, byte_at 0 data]"

definition WriteHtonU16 :: "uint16 \<Rightarrow> buffer_iter \<Rightarrow> buffer_mem \<Rightarrow> (buffer_iter \<times> buffer_mem) option" where
  "WriteHtonU16 data it h =
     (if \<not> CheckNoZero (i_current it) (i_current it + 2) it then None
      else if i_current it + 2 \<le> i_zeroStart it then write_at (i_current it) [byte_at 8 data, byte_at 0 data] it h
      else write_at (i_current it - zero_size it) [byte_at 8 data, byte_at 0 data] it h)"

definition WriteHtonU32 :: "uint32 \<Rightarrow> buffer_iter \<Rightarrow> buffer_mem \<Rightarrow> (buffer_iter \<times> buffer_mem) option" where
  "WriteHtonU32 data it h =
     (let xs = [byte_at 24 data, byte_at 16 data, byte_at 8 data, byte_at 0 data]
      in if \<not> CheckNoZero (i_current it) (i_current it + 4) it then None
         else if i_current it + 4 \<le> i_zeroStart it then write_at (i_current it) xs it h
         else write_at (i_current it - zero_size it) xs it h)"

subsection \<open>Reading\<close>

text \<open>\<open>data = last byte; data <<= 8; data |= the byte before it\<close>, and so on; or from the first byte.\<close>

definition from_le :: "uint8 list \<Rightarrow> 'a::len word" where
  "from_le xs = foldr (\<lambda>b d. push_bit 8 d OR ucast b) xs 0"

definition from_be :: "uint8 list \<Rightarrow> 'a::len word" where
  "from_be xs = foldl (\<lambda>d b. push_bit 8 d OR ucast b) 0 xs"

definition ReadU16 :: "buffer_iter \<Rightarrow> buffer_mem \<Rightarrow> (uint16 \<times> buffer_iter) option" where
  "ReadU16 it h = do { (xs, it1) \<leftarrow> Iterator_Read 2 it h; Some (from_le xs, it1) }"

definition ReadU32 :: "buffer_iter \<Rightarrow> buffer_mem \<Rightarrow> (uint32 \<times> buffer_iter) option" where
  "ReadU32 it h = do { (xs, it1) \<leftarrow> Iterator_Read 4 it h; Some (from_le xs, it1) }"

definition ReadU64 :: "buffer_iter \<Rightarrow> buffer_mem \<Rightarrow> (uint64 \<times> buffer_iter) option" where
  "ReadU64 it h = do { (xs, it1) \<leftarrow> Iterator_Read 8 it h; Some (from_le xs, it1) }"

definition ReadLsbtohU16 :: "buffer_iter \<Rightarrow> buffer_mem \<Rightarrow> (uint16 \<times> buffer_iter) option" where
  "ReadLsbtohU16 it h = do { (xs, it1) \<leftarrow> Iterator_Read 2 it h; Some (from_le xs, it1) }"

definition ReadLsbtohU32 :: "buffer_iter \<Rightarrow> buffer_mem \<Rightarrow> (uint32 \<times> buffer_iter) option" where
  "ReadLsbtohU32 it h = do { (xs, it1) \<leftarrow> Iterator_Read 4 it h; Some (from_le xs, it1) }"

definition ReadLsbtohU64 :: "buffer_iter \<Rightarrow> buffer_mem \<Rightarrow> (uint64 \<times> buffer_iter) option" where
  "ReadLsbtohU64 it h = do { (xs, it1) \<leftarrow> Iterator_Read 8 it h; Some (from_le xs, it1) }"

definition SlowReadNtohU16 :: "buffer_iter \<Rightarrow> buffer_mem \<Rightarrow> (uint16 \<times> buffer_iter) option" where
  "SlowReadNtohU16 it h = do { (xs, it1) \<leftarrow> Iterator_Read 2 it h; Some (from_be xs, it1) }"

definition SlowReadNtohU32 :: "buffer_iter \<Rightarrow> buffer_mem \<Rightarrow> (uint32 \<times> buffer_iter) option" where
  "SlowReadNtohU32 it h = do { (xs, it1) \<leftarrow> Iterator_Read 4 it h; Some (from_be xs, it1) }"

definition ReadNtohU64 :: "buffer_iter \<Rightarrow> buffer_mem \<Rightarrow> (uint64 \<times> buffer_iter) option" where
  "ReadNtohU64 it h = do { (xs, it1) \<leftarrow> Iterator_Read 8 it h; Some (from_be xs, it1) }"

text \<open>The fast paths read the memory without checking the end of the data.\<close>

definition ReadNtohU16 :: "buffer_iter \<Rightarrow> buffer_mem \<Rightarrow> (uint16 \<times> buffer_iter) option" where
  "ReadNtohU16 it h =
     (if i_current it + 2 \<le> i_zeroStart it
      then do { xs \<leftarrow> peek_bytes (i_data it) (i_current it) 2 h; Some (from_be xs, it\<lparr>i_current := i_current it + 2\<rparr>) }
      else if i_current it \<ge> i_zeroEnd it
      then do { xs \<leftarrow> peek_bytes (i_data it) (i_current it - zero_size it) 2 h; Some (from_be xs, it\<lparr>i_current := i_current it + 2\<rparr>) }
      else SlowReadNtohU16 it h)"

definition ReadNtohU32 :: "buffer_iter \<Rightarrow> buffer_mem \<Rightarrow> (uint32 \<times> buffer_iter) option" where
  "ReadNtohU32 it h =
     (if i_current it + 4 \<le> i_zeroStart it
      then do { xs \<leftarrow> peek_bytes (i_data it) (i_current it) 4 h; Some (from_be xs, it\<lparr>i_current := i_current it + 4\<rparr>) }
      else if i_current it \<ge> i_zeroEnd it
      then do { xs \<leftarrow> peek_bytes (i_data it) (i_current it - zero_size it) 4 h; Some (from_be xs, it\<lparr>i_current := i_current it + 4\<rparr>) }
      else SlowReadNtohU32 it h)"

definition iter_GetSize :: "buffer_iter \<Rightarrow> nat" where
  "iter_GetSize it = i_dataEnd it - i_dataStart it"

definition iter_GetRemainingSize :: "buffer_iter \<Rightarrow> nat" where
  "iter_GetRemainingSize it = i_dataEnd it - i_current it"

definition iter_GetDistanceFrom :: "buffer_iter \<Rightarrow> buffer_iter \<Rightarrow> nat option" where
  "iter_GetDistanceFrom o' it =
     (if i_data it \<noteq> i_data o' then None
      else let diff = int (i_current it) - int (i_current o') in Some (if diff < 0 then nat (- diff) else nat diff))"

subsection \<open>The Internet checksum\<close>

fun checksum_words :: "nat \<Rightarrow> uint32 \<Rightarrow> buffer_iter \<Rightarrow> buffer_mem \<Rightarrow> (uint32 \<times> buffer_iter) option" where
  "checksum_words 0 acc it h = Some (acc, it)"
| "checksum_words (Suc n) acc it h = do { (v, it1) \<leftarrow> ReadU16 it h; checksum_words n (acc + ucast v) it1 h }"

lemma low_word: "unat (s AND 0xffff) = unat s mod 65536" for s :: uint32
proof -
  have "(0xffff :: uint32) = mask 16" by (simp add: mask_eq_exp_minus_1)
  then have "s AND 0xffff = s mod 2 ^ 16" by (simp only: take_bit_eq_mask [symmetric] take_bit_eq_mod)
  then show ?thesis by (simp add: unat_mod_distrib)
qed

lemma high_word: "unat (drop_bit 16 s) = unat s div 65536" for s :: uint32
  by (simp add: drop_bit_eq_div unat_div_distrib)

lemma fold_words: "unat ((s AND 0xffff) + drop_bit 16 s) = unat s mod 65536 + unat s div 65536" for s :: uint32
proof -
  have "unat s < 4294967296" using unsigned_less [of s, where ?'a = nat] by simp
  then have "unat s div 65536 < 65536" by (simp add: less_mult_imp_div_less)
  moreover have "unat s mod 65536 < 65536" by simp
  ultimately have "unat s mod 65536 + unat s div 65536 < 4294967296" by linarith
  then show ?thesis by (simp add: unat_word_ariths low_word high_word)
qed

lemma fold_less: "0 < u div 65536 \<Longrightarrow> u mod 65536 + u div 65536 < u" for u :: nat
  using div_mult_mod_eq [of u 65536] by linarith

function checksum_fold :: "uint32 \<Rightarrow> uint32" where
  "checksum_fold s = (if drop_bit 16 s \<noteq> 0 then checksum_fold ((s AND 0xffff) + drop_bit 16 s) else s)"
  by auto
termination
proof (relation "measure unat")
  show "((s AND 0xffff) + drop_bit 16 s, s) \<in> measure unat" if "drop_bit 16 s \<noteq> 0" for s :: uint32
  proof -
    have "0 < unat s div 65536" using that high_word [of s] by (metis neq0_conv unat_eq_zero)
    then show ?thesis using fold_less by (simp add: fold_words)
  qed
qed simp

declare checksum_fold.simps [simp del]

definition CalculateIpChecksum_from :: "uint16 \<Rightarrow> uint32 \<Rightarrow> buffer_iter \<Rightarrow> buffer_mem \<Rightarrow> (uint16 \<times> buffer_iter) option" where
  "CalculateIpChecksum_from sz initialChecksum it h =
     do { (acc, it1) \<leftarrow> checksum_words (unat sz div 2) initialChecksum it h;
          (acc, it2) \<leftarrow> (if sz AND 1 \<noteq> 0 then do { (v, it2) \<leftarrow> ReadU8 it1 h; Some (acc + ucast v, it2) } else Some (acc, it1));
          Some (ucast (NOT (checksum_fold acc)), it2) }"

definition CalculateIpChecksum :: "uint16 \<Rightarrow> buffer_iter \<Rightarrow> buffer_mem \<Rightarrow> (uint16 \<times> buffer_iter) option" where
  "CalculateIpChecksum sz = CalculateIpChecksum_from sz 0"

subsection \<open>Bytes of a number\<close>

lemma from_le_Cons: "from_le (b # bs) = push_bit 8 (from_le bs) OR ucast b"
  by (simp add: from_le_def)

lemma low_byte: "ucast (ucast (d AND 0xff) :: uint8) = take_bit 8 d" for d :: "'a::len word"
proof -
  have "d AND 0xff = take_bit 8 d" by (simp add: take_bit_eq_mask mask_eq_exp_minus_1)
  then show ?thesis by (simp add: unsigned_ucast_eq)
qed

lemma from_le_bytes: "from_le (le_bytes n d) = take_bit (8 * n) d" for d :: "'a::len word"
proof (induction n arbitrary: d)
  case (Suc n)
  have "push_bit 8 (take_bit (8 * n) (drop_bit 8 d)) OR take_bit 8 d = take_bit (8 * Suc n) d"
    by (rule bit_eqI) (auto simp: bit_simps)
  then show ?case by (simp add: from_le_Cons Suc low_byte)
qed (simp add: from_le_def)

lemma length_le_bytes [simp]: "length (le_bytes n d) = n"
  by (induction n arbitrary: d) auto

lemma from_be_rev: "from_be xs = from_le (rev xs)"
  by (simp add: from_be_def from_le_def foldr_conv_foldl)

lemma le_bytes_eq:
  "le_bytes n d = map (\<lambda>k. byte_at (8 * k) d) [0..<n]" for d :: "'a::len word"
proof (induction n arbitrary: d)
  case (Suc n)
  have "byte_at (8 * k) (drop_bit 8 d) = byte_at (8 * Suc k) d" for k by (simp add: byte_at_def add.commute)
  then have "le_bytes (Suc n) d = byte_at 0 d # map (\<lambda>k. byte_at (8 * Suc k) d) [0..<n]"
    by (simp add: Suc byte_at_def)
  also have "\<dots> = map (\<lambda>k. byte_at (8 * k) d) [0..<Suc n]"
    by (simp only: upt_conv_Cons [of 0 "Suc n"] map_Suc_upt [symmetric]) simp
  finally show ?case .
qed simp

subsection \<open>Writing into the front of a buffer\<close>

text \<open>An operation that writes the bytes \<open>xs\<close> where the iterator stands, in the part only this buffer has.\<close>

definition writes :: "uint8 list \<Rightarrow> (buffer_iter \<Rightarrow> buffer_mem \<Rightarrow> (buffer_iter \<times> buffer_mem) option) \<Rightarrow> bool" where
  "writes xs f \<longleftrightarrow>
     (\<forall>h b bs n k. mem_ok h (b # bs) [] \<and> room_front n b bs \<and> k + length xs \<le> n \<longrightarrow>
        (\<exists>h'. f (iter_at k b) h = Some (iter_at (k + length xs) b, h') \<and> mem_ok h' (b # bs) [] \<and>
           contents h' b = overwrite k xs (contents h b) \<and> others_kept h h' bs))"

lemma writesD:
  assumes "writes xs f" "mem_ok h (b # bs) []" "room_front n b bs" "k + length xs \<le> n"
  obtains h' where "f (iter_at k b) h = Some (iter_at (k + length xs) b, h')" "mem_ok h' (b # bs) []"
    "contents h' b = overwrite k xs (contents h b)" "others_kept h h' bs"
  using assms unfolding writes_def by blast

lemma writes_bind:
  assumes "writes xs f" "writes ys g"
  shows "writes (xs @ ys) (\<lambda>it h. f it h \<bind> (\<lambda>(it1, h1). g it1 h1))"
  unfolding writes_def
proof (intro allI impI)
  fix h b bs n k
  assume a: "mem_ok h (b # bs) [] \<and> room_front n b bs \<and> k + length (xs @ ys) \<le> n"
  obtain h1 where h1: "f (iter_at k b) h = Some (iter_at (k + length xs) b, h1)" "mem_ok h1 (b # bs) []"
      "contents h1 b = overwrite k xs (contents h b)" "others_kept h h1 bs"
    by (rule writesD [OF assms(1), of h b bs n k]) (use a in auto)
  obtain h2 where h2: "g (iter_at (k + length xs) b) h1 = Some (iter_at (k + length xs + length ys) b, h2)" "mem_ok h2 (b # bs) []"
      "contents h2 b = overwrite (k + length xs) ys (contents h1 b)" "others_kept h1 h2 bs"
    by (rule writesD [OF assms(2) h1(2), of n "k + length xs"]) (use a in auto)
  obtain d where d: "fits d b" using mem_ok_lookup [OF conjunct1 [OF a], of b] by auto
  have "length (contents h b) = Buffer_GetSize b" using length_contents [of h "b # bs" "[]" b] a by simp
  moreover have "n \<le> Buffer_GetSize b" using a d by (auto simp: room_front_def fits_def Buffer_GetSize_def)
  ultimately have "contents h2 b = overwrite k (xs @ ys) (contents h b)"
    using h1(3) h2(3) overwrite_overwrite [of k xs "contents h b" ys] a by simp
  then show "\<exists>h'. f (iter_at k b) h \<bind> (\<lambda>(it1, h1). g it1 h1) = Some (iter_at (k + length (xs @ ys)) b, h') \<and>
      mem_ok h' (b # bs) [] \<and> contents h' b = overwrite k (xs @ ys) (contents h b) \<and> others_kept h h' bs"
    using h1(1) h2 others_kept_trans [OF h1(4) h2(4)] by (simp add: add.assoc)
qed

lemma writes_Nil: "writes [] (\<lambda>it h. Some (it, h))"
  by (simp add: writes_def)

lemma writes_front:
  assumes "\<And>it h k b. k + length xs \<le> m_zeroAreaStart b - m_start b \<Longrightarrow> m_start b \<le> m_zeroAreaStart b \<Longrightarrow>
      m_zeroAreaStart b \<le> m_zeroAreaEnd b \<Longrightarrow> m_zeroAreaEnd b \<le> m_end b \<Longrightarrow>
      f (iter_at k b) h = write_at (m_start b + k) xs (iter_at k b) h"
  shows "writes xs f"
  unfolding writes_def
proof (intro allI impI)
  fix h b bs n k
  assume a: "mem_ok h (b # bs) [] \<and> room_front n b bs \<and> k + length xs \<le> n"
  obtain d where d: "fits d b" using mem_ok_lookup [OF conjunct1 [OF a], of b] by auto
  have "f (iter_at k b) h = write_at (m_start b + k) xs (iter_at k b) h"
    using a d by (intro assms) (auto simp: room_front_def fits_def)
  then show "\<exists>h'. f (iter_at k b) h = Some (iter_at (k + length xs) b, h') \<and> mem_ok h' (b # bs) [] \<and>
      contents h' b = overwrite k xs (contents h b) \<and> others_kept h h' bs"
    using front_write_at [of h b bs n k xs] a by simp
qed

named_theorems writes_intros \<open>what the writing operations write\<close>

lemma writes_WriteU8 [writes_intros]: "writes [x] (WriteU8 x)"
  by (rule writes_front) (auto simp: WriteU8_def Iterator_Check_def)

lemma writes_WriteU8s [writes_intros]: "writes xs (WriteU8s xs)"
proof (induction xs)
  case Nil
  show ?case using writes_Nil by (simp add: fun_eq_iff)
next
  case (Cons x xs)
  have "writes ([x] @ xs) (\<lambda>it h. WriteU8 x it h \<bind> (\<lambda>(it1, h1). WriteU8s xs it1 h1))"
    by (rule writes_bind [OF writes_WriteU8 Cons])
  then show ?case by (simp add: fun_eq_iff)
qed

definition be16 :: "uint16 \<Rightarrow> uint8 list" where
  "be16 x = [byte_at 8 x, byte_at 0 x]"

definition be32 :: "uint32 \<Rightarrow> uint8 list" where
  "be32 x = [byte_at 24 x, byte_at 16 x, byte_at 8 x, byte_at 0 x]"

lemma length_be [simp]: "length (be16 x) = 2" "length (be32 y) = 4"
  by (simp_all add: be16_def be32_def)

lemma writes_WriteU16 [writes_intros]: "writes (le_bytes 2 x) (WriteU16 x)"
  unfolding WriteU16_def by (rule writes_WriteU8s)

lemma writes_WriteHtonU16 [writes_intros]: "writes (be16 x) (WriteHtonU16 x)"
  by (rule writes_front) (auto simp: WriteHtonU16_def CheckNoZero_def be16_def)

lemma writes_WriteHtonU32 [writes_intros]: "writes (be32 x) (WriteHtonU32 x)"
  by (rule writes_front) (auto simp: WriteHtonU32_def CheckNoZero_def be32_def Let_def)

subsection \<open>Reading anywhere\<close>

lemma peek_front:
  assumes "mem_ok h bs xs" "b \<in> set bs" "k + n \<le> m_zeroAreaStart b - m_start b"
  shows "peek_bytes (m_data b) (m_start b + k) n h = Some (take n (drop k (contents h b)))"
proof -
  obtain d where d: "mem_data h (m_data b) = Some d" "fits d b" "contents h b = bytes_in d b"
    using mem_ok_lookup [OF assms(1,2)] by auto
  have "take n (drop k (contents h b)) = stored d (m_start b + k) n"
    using assms(3) unfolding d(3) bytes_in_stored [OF d(2)] by (simp add: drop_stored take_stored min_absorb1)
  moreover have "m_start b + k + n \<le> m_size d" using d(2) assms(3) by (auto simp: fits_def real_end_def)
  ultimately show ?thesis using peek_ok [OF d(1), of "m_start b + k" n] by (simp add: stored_def)
qed

lemma peek_back:
  assumes "mem_ok h bs xs" "b \<in> set bs" "m_zeroAreaEnd b \<le> m_start b + k" "k + n \<le> Buffer_GetSize b"
  shows "peek_bytes (m_data b) (m_start b + k - (m_zeroAreaEnd b - m_zeroAreaStart b)) n h = Some (take n (drop k (contents h b)))"
proof -
  obtain d where d: "fits d b" using mem_ok_lookup [OF assms(1,2)] by auto
  obtain j where j: "m_start b + k = m_zeroAreaEnd b + j" using assms(3) le_Suc_ex by blast
  have "peek_bytes (m_data b) (m_zeroAreaStart b + j) n h = Some (take n (drop (m_zeroAreaEnd b - m_start b + j) (contents h b)))"
    using assms(4) j d unfolding fits_def Buffer_GetSize_def by (intro peek_parts(2) [OF assms(1,2)]) linarith
  moreover have "m_zeroAreaEnd b - m_start b + j = k" "m_start b + k - (m_zeroAreaEnd b - m_zeroAreaStart b) = m_zeroAreaStart b + j"
    using j d by (simp_all add: fits_def)
  ultimately show ?thesis by simp
qed

text \<open>The bytes that an iterator sees.\<close>

lemma SlowReadNtoh_ok:
  assumes "mem_ok h bs xs" "b \<in> set bs"
  shows "k + 2 \<le> Buffer_GetSize b \<Longrightarrow> SlowReadNtohU16 (iter_at k b) h = Some (from_be (take 2 (drop k (contents h b))), iter_at (k + 2) b)"
    "k + 4 \<le> Buffer_GetSize b \<Longrightarrow> SlowReadNtohU32 (iter_at k b) h = Some (from_be (take 4 (drop k (contents h b))), iter_at (k + 4) b)"
  using Iterator_Read_ok [OF assms] by (simp_all add: SlowReadNtohU16_def SlowReadNtohU32_def)

lemma ReadNtoh_ok:
  assumes "mem_ok h bs xs" "b \<in> set bs"
  shows "k + 2 \<le> Buffer_GetSize b \<Longrightarrow> ReadNtohU16 (iter_at k b) h = Some (from_be (take 2 (drop k (contents h b))), iter_at (k + 2) b)"
    "k + 4 \<le> Buffer_GetSize b \<Longrightarrow> ReadNtohU32 (iter_at k b) h = Some (from_be (take 4 (drop k (contents h b))), iter_at (k + 4) b)"
  using peek_front [OF assms, of k] peek_back [OF assms, of k] SlowReadNtoh_ok [OF assms, of k]
  by (auto simp: ReadNtohU16_def ReadNtohU32_def add.assoc)

lemma ReadU16_ok:
  assumes "mem_ok h bs xs" "b \<in> set bs" "k + 2 \<le> Buffer_GetSize b"
  shows "ReadU16 (iter_at k b) h = Some (from_le (take 2 (drop k (contents h b))), iter_at (k + 2) b)"
  using Iterator_Read_ok [OF assms] by (simp add: ReadU16_def)

end
