(* ===== verification/Buffer_Simulation.thy ===== *)
theory Buffer_Simulation
  imports Buffer_Operations
begin

text \<open>
  Concatenation of buffers, and the simulation: arbitrary sequences of the operations on many buffers that share
  blocks behave as operations on independent lists of bytes.
\<close>

subsection \<open>Concatenation\<close>

lemma plain_write_at:
  assumes "mem_ok h (b # bs) []" "m_zeroAreaEnd b - m_zeroAreaStart b = 0" "room_back n b bs" "k + length ys \<le> n"
  shows "\<exists>h'. write_at (m_start b + (Buffer_GetSize b - n + k)) ys (iter_at (Buffer_GetSize b - n + k) b) h =
      Some (iter_at (Buffer_GetSize b - n + (k + length ys)) b, h') \<and> mem_ok h' (b # bs) [] \<and>
    contents h' b = overwrite (Buffer_GetSize b - n + k) ys (contents h b) \<and> others_kept h h' bs"
proof -
  obtain d where d: "mem_data h (m_data b) = Some d" "fits d b" using mem_ok_lookup [OF assms(1), of b] by auto
  have s: "m_start b \<le> m_zeroAreaStart b" "m_zeroAreaEnd b = m_zeroAreaStart b" "m_zeroAreaStart b + n \<le> m_end b"
    using d(2) assms(2,3) by (simp_all add: fits_def room_back_def)
  let ?j = "m_start b + (Buffer_GetSize b - n + k)"
  have j: "m_zeroAreaStart b \<le> ?j" "?j + length ys \<le> real_end b" "real_end b = m_end b" "real_end b - n \<le> ?j" "m_start b \<le> ?j"
    using s assms(4) by (simp_all add: real_end_def Buffer_GetSize_def)
  have apart: "?j + length ys \<le> m_start c \<or> real_end c \<le> ?j" if "c \<in> set bs" "m_data c = m_data b" for c
  proof -
    have "real_end c + n \<le> real_end b" using assms(3) that by (simp add: room_back_def)
    then show ?thesis using j(4) by linarith
  qed
  have pos: "(if ?j + length ys \<le> m_zeroAreaStart b then ?j - m_start b else ?j - m_start b + (m_zeroAreaEnd b - m_zeroAreaStart b)) =
      Buffer_GetSize b - n + k" using s(2) by simp
  show ?thesis using write_at_ok [OF assms(1) d(1) j(5,2) disjI2 [OF j(1)] apart, of "Buffer_GetSize b - n + k"]
    unfolding pos by (simp only: add.assoc)
qed

lemma Write_range_steps:
  assumes "\<not> (i_data s \<noteq> i_data e \<or> i_current e < i_current s \<or> i_zeroStart s \<noteq> i_zeroStart e \<or> i_zeroEnd s \<noteq> i_zeroEnd e \<or> i_data it = i_data s)"
    "n = i_current e - i_current s" "CheckNoZero (i_current it) (i_current it + n) it"
    "n1 = (if i_current s \<le> i_zeroStart s then min n (i_zeroStart s - i_current s) else 0)"
    "n2 = (if i_current s + n1 \<le> i_zeroEnd s then min (n - n1) (i_zeroEnd s - (i_current s + n1)) else 0)"
    "n3 = min (n - n1 - n2) (i_dataEnd s - (i_current s + n1 + n2))"
    "peek_bytes (i_data s) (i_current s) n1 h = Some xs1" "write_at (i_current it) xs1 it h = Some (it1, h1)"
    "write_at (i_current it1) (replicate n2 0) it1 h1 = Some (it2, h2)"
    "peek_bytes (i_data s) (i_current s + n1 + n2 - zero_size s) n3 h2 = Some xs3"
  shows "Iterator_Write_range s e it h = write_at (i_current it2) xs3 it2 h2"
  unfolding Iterator_Write_range_def Let_def assms(2) [symmetric] assms(4) [symmetric] assms(5) [symmetric] assms(6) [symmetric] if_not_P [OF assms(1)]
  using assms(3,7-10) by simp

lemma Write_range_ok:
  assumes "mem_ok h (b # o' # bs) []" "m_zeroAreaEnd b - m_zeroAreaStart b = 0" "room_back (Buffer_GetSize o') b (o' # bs)"
    "m_data b \<noteq> m_data o'"
  shows "\<exists>i it h'. Iterator_Prev (Buffer_GetSize o') (Buffer_End b) = Some i \<and>
    Iterator_Write_range (Buffer_Begin o') (Buffer_End o') i h = Some (it, h') \<and> mem_ok h' (b # o' # bs) [] \<and>
    contents h' b = take (length (contents h b) - Buffer_GetSize o') (contents h b) @ contents h o' \<and> others_kept h h' (o' # bs)"
proof -
  define n where "n = Buffer_GetSize o'"
  define p where "p = m_zeroAreaStart o' - m_start o'"
  define z where "z = m_zeroAreaEnd o' - m_zeroAreaStart o'"
  define q where "q = m_end o' - m_zeroAreaEnd o'"
  define m where "m = Buffer_GetSize b - n"
  let ?C = "contents h o'"
  obtain d where d: "fits d b" using mem_ok_lookup [OF assms(1), of b] by auto
  obtain e where e: "fits e o'" using mem_ok_lookup [OF assms(1), of o'] by auto
  have o': "m_start o' \<le> m_zeroAreaStart o'" "m_zeroAreaStart o' \<le> m_zeroAreaEnd o'" "m_zeroAreaEnd o' \<le> m_end o'" "n = p + z + q"
    "m_zeroAreaEnd o' - m_start o' = p + z" using e by (simp_all add: fits_def n_def p_def z_def q_def Buffer_GetSize_def)
  have len: "length ?C = n" "length (contents h b) = Buffer_GetSize b" using length_contents [OF assms(1)] by (simp_all add: n_def)
  have room: "room_back n b (o' # bs)" using assms(3) by (simp add: n_def)
  have s: "n \<le> Buffer_GetSize b" "m_start b + Buffer_GetSize b = m_end b" "m_zeroAreaEnd b \<le> m_start b + m" "m_zeroAreaStart b = m_zeroAreaEnd b"
    using room d assms(2) by (simp_all add: room_back_def fits_def Buffer_GetSize_def m_def) linarith+
  have prev: "Iterator_Prev n (Buffer_End b) = Some (iter_at m b)" using Prev_End [OF d s(1)] by (simp add: m_def)
  have check: "CheckNoZero (m_start b + m) (m_start b + m + n) (iter_at m b)"
    using s d by (auto simp: CheckNoZero_def m_def fits_def)
  have x: "peek_bytes (m_data o') (m_start o') p h = Some (take p ?C)"
    by (rule peek_parts(1) [OF assms(1)]) (simp_all add: p_def)
  obtain h1 where w1: "write_at (m_start b + (m + 0)) (take p ?C) (iter_at (m + 0) b) h = Some (iter_at (m + (0 + length (take p ?C))) b, h1)"
      "mem_ok h1 (b # o' # bs) []" "contents h1 b = overwrite (m + 0) (take p ?C) (contents h b)" "others_kept h h1 (o' # bs)"
    using plain_write_at [OF assms(1,2) room, of 0 "take p ?C"] o'(4) len(1) unfolding m_def by auto
  obtain h2 where w2: "write_at (m_start b + (m + p)) (replicate z 0) (iter_at (m + p) b) h1 = Some (iter_at (m + (p + length (replicate z (0 :: uint8)))) b, h2)"
      "mem_ok h2 (b # o' # bs) []" "contents h2 b = overwrite (m + p) (replicate z 0) (contents h1 b)" "others_kept h1 h2 (o' # bs)"
    using plain_write_at [OF w1(2) assms(2) room, of p "replicate z 0"] o'(4) unfolding m_def by auto
  have o2: "contents h2 o' = ?C" using w1(4) w2(4) by simp
  have y: "peek_bytes (m_data o') (m_zeroAreaStart o') q h2 = Some (drop (p + z) ?C)"
    using peek_parts(2) [OF w2(2), of o' 0 q] o2 o'(4,5) len(1) by (simp add: q_def)
  obtain h3 where w3: "write_at (m_start b + (m + (p + z))) (drop (p + z) ?C) (iter_at (m + (p + z)) b) h2 =
      Some (iter_at (m + (p + z + length (drop (p + z) ?C))) b, h3)"
      "mem_ok h3 (b # o' # bs) []" "contents h3 b = overwrite (m + (p + z)) (drop (p + z) ?C) (contents h2 b)" "others_kept h2 h3 (o' # bs)"
    using plain_write_at [OF w2(2) assms(2) room, of "p + z" "drop (p + z) ?C"] o'(4) len(1) unfolding m_def by auto
  have "contents h3 b = take m (contents h b) @ ?C"
  proof -
    have zero: "take z (drop p ?C) = replicate z 0"
      using peek_parts(3) [OF assms(1), of o' z] by (simp add: p_def z_def)
    have lp: "length (take p ?C) = p" using len o'(4) by simp
    have fit: "m + p \<le> length (contents h b)" "m + (p + z) \<le> length (contents h b)" "m + n = length (contents h b)"
      using len s(1) o'(4) by (simp_all add: m_def)
    have 1: "contents h1 b = overwrite m (take p ?C) (contents h b)" using w1(3) by simp
    have 2: "contents h2 b = overwrite m (take p ?C @ replicate z 0) (contents h b)"
      using w2(3) 1 overwrite_overwrite [of m "take p ?C" "contents h b" "replicate z 0"] lp fit by simp
    have 3: "contents h3 b = overwrite m ((take p ?C @ replicate z 0) @ drop (p + z) ?C) (contents h b)"
      using w3(3) 2 overwrite_overwrite [of m "take p ?C @ replicate z 0" "contents h b" "drop (p + z) ?C"] lp fit by simp
    have "(take p ?C @ replicate z 0) @ drop (p + z) ?C = ?C"
      using three_parts [OF zero] by simp
    then show ?thesis using 3 fit(3) len(1) by (simp add: overwrite_def)
  qed
  moreover have "Iterator_Write_range (Buffer_Begin o') (Buffer_End o') (iter_at m b) h =
      Some (iter_at (m + (p + z + length (drop (p + z) ?C))) b, h3)"
  proof -
    let ?s = "Buffer_Begin o'" and ?e = "Buffer_End o'"
    have f: "i_data ?s = m_data o'" "i_data ?e = m_data o'" "i_current ?e - i_current ?s = n" "\<not> i_current ?e < i_current ?s"
      "i_zeroStart ?s = m_zeroAreaStart o'" "i_zeroStart ?e = m_zeroAreaStart o'" "i_zeroEnd ?s = m_zeroAreaEnd o'"
      "i_zeroEnd ?e = m_zeroAreaEnd o'" "i_current ?s = m_start o'" "i_dataEnd ?s = m_end o'" "zero_size ?s = z"
      using o'(1-3) by (simp_all add: Buffer_Begin_def Buffer_End_def zero_size_def n_def Buffer_GetSize_def z_def)
    have zs: "m_zeroAreaStart o' = m_start o' + p" using o'(1) unfolding p_def by linarith
    have ze: "m_zeroAreaEnd o' = m_start o' + p + z" using o'(2) zs unfolding z_def by linarith
    have en: "m_end o' = m_start o' + p + z + q" using o'(3) ze unfolding q_def by linarith
    have n1: "(if m_start o' \<le> m_zeroAreaStart o' then min n (m_zeroAreaStart o' - m_start o') else 0) = p"
      unfolding zs o'(4) by simp
    have n2: "(if m_start o' + p \<le> m_zeroAreaEnd o' then min (n - p) (m_zeroAreaEnd o' - (m_start o' + p)) else 0) = z"
      unfolding ze o'(4) by simp
    have n3: "min (n - p - z) (m_end o' - (m_start o' + p + z)) = q" and at: "m_start o' + p + z - z = m_zeroAreaStart o'"
      unfolding en o'(4) zs by simp_all
    have lp: "length (take p ?C) = p" using len(1) o'(4) by simp
    have cur: "i_current (iter_at (m + p) b) = m_start b + (m + p)" "i_current (iter_at (m + (p + z)) b) = m_start b + (m + (p + z))"
      by simp_all
    have "Iterator_Write_range ?s ?e (iter_at m b) h = write_at (i_current (iter_at (m + (p + z)) b)) (drop (p + z) ?C) (iter_at (m + (p + z)) b) h2"
    proof (rule Write_range_steps [where n = n and ?n1.0 = p and ?n2.0 = z and ?n3.0 = q])
      show "write_at (i_current (iter_at m b)) (take p ?C) (iter_at m b) h = Some (iter_at (m + p) b, h1)"
        using w1(1) lp by simp
      show "write_at (i_current (iter_at (m + p) b)) (replicate z 0) (iter_at (m + p) b) h1 = Some (iter_at (m + (p + z)) b, h2)"
        using w2(1) unfolding cur length_replicate .
      show "peek_bytes (i_data ?s) (i_current ?s) p h = Some (take p ?C)" using x unfolding f .
      show "peek_bytes (i_data ?s) (i_current ?s + p + z - zero_size ?s) q h2 = Some (drop (p + z) ?C)" using y unfolding f at .
      show "p = (if i_current ?s \<le> i_zeroStart ?s then min n (i_zeroStart ?s - i_current ?s) else 0)" unfolding f n1 ..
      show "z = (if i_current ?s + p \<le> i_zeroEnd ?s then min (n - p) (i_zeroEnd ?s - (i_current ?s + p)) else 0)" unfolding f n2 ..
      show "q = min (n - p - z) (i_dataEnd ?s - (i_current ?s + p + z))" unfolding f n3 ..
      show "n = i_current ?e - i_current ?s" by (rule f(3) [symmetric])
      show "CheckNoZero (i_current (iter_at m b)) (i_current (iter_at m b) + n) (iter_at m b)" using check by (simp only: iter_at_simps)
      show "\<not> (i_data ?s \<noteq> i_data ?e \<or> i_current ?e < i_current ?s \<or> i_zeroStart ?s \<noteq> i_zeroStart ?e \<or>
          i_zeroEnd ?s \<noteq> i_zeroEnd ?e \<or> i_data (iter_at m b) = i_data ?s)" using f assms(4) by simp
    qed
    then show ?thesis using w3(1) unfolding cur by simp
  qed
  moreover have "others_kept h h3 (o' # bs)" using w1(4) w2(4) w3(4) by (simp add: others_kept_def)
  ultimately show ?thesis using prev w3(2) unfolding n_def [symmetric] m_def len(2) by blast
qed

text \<open>The path that only counts zeroes, and the path that copies.\<close>

lemma grow_zero_area_ok:
  fixes z :: nat and b :: Buffer
  assumes "mem_ok h (b # bs) []" "mem_data h (m_data b) = Some d" "m_count d = 1" "m_end b = m_dirtyEnd d"
    "m_end b = m_zeroAreaEnd b \<or> m_zeroAreaStart b = m_zeroAreaEnd b"
  defines "zs \<equiv> if m_zeroAreaStart b = m_zeroAreaEnd b then m_end b else m_zeroAreaStart b"
  defines "b1 \<equiv> b\<lparr>m_zeroAreaStart := zs, m_zeroAreaEnd := m_end b + z, m_end := m_end b + z\<rparr>"
  shows "\<exists>h1. set_dirty (m_data b) (m_dirtyStart d) (m_zeroAreaEnd b1) h = Some h1 \<and> mem_ok h1 (b1 # bs) [] \<and>
    contents h1 b1 = contents h b @ replicate z 0 \<and> others_kept h h1 bs"
proof -
  let ?d = "d\<lparr>m_dirtyStart := m_dirtyStart d, m_dirtyEnd := m_zeroAreaEnd b1\<rparr>"
  let ?h = "put_data (m_data b) ?d h"
  have fit: "fits d b" using mem_okD(1) [OF assms(1), of b] assms(2) by auto
  have alone: "m_data c \<noteq> m_data b" if "c \<in> set bs" for c
  proof -
    have "m_data b \<notin> m_data ` set bs" using mem_okD(3) [OF assms(1,2)] assms(3) refs_0 [of bs "[]" "m_data b"] by simp
    then show ?thesis using that by (metis imageI)
  qed
  have fit1: "fits ?d b1" using fit assms(5) by (auto simp: fits_def b1_def zs_def real_end_def)
  have "mem_ok ?h bs [m_data b]"
    using alone by (intro mem_ok_put [OF mem_ok_drop [OF assms(1)] assms(2)]) auto
  then have "mem_ok ?h (b1 # bs) []"
    using fit1 alone by (intro mem_ok_adopt [of _ _ _ _ ?d]) (auto simp: b1_def)
  moreover have "bytes_in ?d b1 = bytes_in d b @ replicate z 0"
  proof (cases "m_zeroAreaStart b = m_zeroAreaEnd b")
    case True
    then have "stored d (m_start b) (m_end b - m_start b) =
        stored d (m_start b) (m_zeroAreaStart b - m_start b) @ stored d (m_zeroAreaStart b) (m_end b - m_zeroAreaEnd b)"
      using stored_append [of d "m_start b" "m_zeroAreaStart b - m_start b" "m_end b - m_zeroAreaEnd b"] fit by (simp add: fits_def)
    then show ?thesis
      using True bytes_in_stored [OF fit1] bytes_in_stored [OF fit] by (simp add: b1_def zs_def)
  next
    case False
    then have "m_end b = m_zeroAreaEnd b" "m_end b + z - m_zeroAreaStart b = (m_zeroAreaEnd b - m_zeroAreaStart b) + z"
      using assms(5) fit by (auto simp: fits_def)
    then show ?thesis
      using False bytes_in_stored [OF fit1] bytes_in_stored [OF fit] by (simp add: b1_def zs_def replicate_add)
  qed
  moreover have "others_kept h ?h bs" using alone by (simp add: others_kept_def contents_def)
  moreover have "contents ?h b1 = bytes_in ?d b1" by (simp add: contents_def b1_def)
  moreover have "set_dirty (m_data b) (m_dirtyStart d) (m_zeroAreaEnd b1) h = Some ?h" using assms(2) by (simp add: set_dirty_def)
  ultimately show ?thesis using assms(2) by (auto simp: contents_eq)
qed

definition counts_zeroes :: "buffer_mem \<Rightarrow> Buffer \<Rightarrow> Buffer \<Rightarrow> bool" where
  "counts_zeroes h b o' \<longleftrightarrow>
     (case mem_data h (m_data b) of None \<Rightarrow> False
      | Some d \<Rightarrow> m_count d = 1 \<and> (m_end b = m_zeroAreaEnd b \<or> m_zeroAreaStart b = m_zeroAreaEnd b) \<and>
          m_end b = m_dirtyEnd d \<and> m_start o' = m_zeroAreaStart o' \<and> m_zeroAreaEnd o' - m_zeroAreaStart o' > 0)"

definition can_append :: "buffer_mem \<Rightarrow> Buffer \<Rightarrow> Buffer \<Rightarrow> bool" where
  "can_append h b o' \<longleftrightarrow> m_data b \<noteq> m_data o' \<and> (counts_zeroes h b o' \<longrightarrow> m_end o' = m_zeroAreaEnd o')"

lemma append_ok:
  assumes "mem_ok h (b # o' # bs) []" "can_append h b o'"
  shows "\<exists>b' h'. Buffer_append o' b h = Some (b', h') \<and> mem_ok h' (b' # o' # bs) [] \<and>
    contents h' b' = contents h b @ contents h o' \<and> others_kept h h' (o' # bs)"
proof (cases "counts_zeroes h b o'")
  case True
  obtain d where d: "mem_data h (m_data b) = Some d" "m_count d = 1" "m_end b = m_dirtyEnd d"
      "m_end b = m_zeroAreaEnd b \<or> m_zeroAreaStart b = m_zeroAreaEnd b" "m_start o' = m_zeroAreaStart o'" "m_zeroAreaEnd o' - m_zeroAreaStart o' > 0"
    using True by (auto simp: counts_zeroes_def split: option.splits)
  have o': "m_end o' = m_zeroAreaEnd o'" "m_data b \<noteq> m_data o'" using assms(2) True by (auto simp: can_append_def)
  define z where "z = m_zeroAreaEnd o' - m_zeroAreaStart o'"
  define zs where "zs = (if m_zeroAreaStart b = m_zeroAreaEnd b then m_end b else m_zeroAreaStart b)"
  define b1 where "b1 = b\<lparr>m_zeroAreaStart := zs, m_zeroAreaEnd := m_end b + z, m_end := m_end b + z\<rparr>"
  obtain h1 where h1: "set_dirty (m_data b) (m_dirtyStart d) (m_zeroAreaEnd b1) h = Some h1" "mem_ok h1 (b1 # o' # bs) []"
      "contents h1 b1 = contents h b @ replicate z 0" "others_kept h h1 (o' # bs)"
    using grow_zero_area_ok [OF assms(1) d(1-4), of z] unfolding b1_def zs_def by blast
  obtain b2 h2 junk where a: "Buffer_AddAtEnd 0 b1 h1 = Some (b2, h2)" "mem_ok h2 (b2 # o' # bs) []" "length junk = 0"
      "contents h2 b2 = contents h1 b1 @ junk" "others_kept h1 h2 (o' # bs)" "room_back 0 b2 (o' # bs)"
      "m_data b2 = m_data b1 \<or> m_data b2 \<notin> m_data ` set (o' # bs)"
    using AddAtEnd_ok [OF h1(2), of 0] by blast
  have "contents h o' = replicate z 0"
  proof -
    obtain e where e: "fits e o'" "contents h o' = bytes_in e o'" using mem_ok_lookup [OF assms(1), of o'] by auto
    then show ?thesis using bytes_in_stored [OF e(1)] d(5) o'(1) by (simp add: z_def)
  qed
  moreover have "m_data b2 \<noteq> m_data o'" using a(7) o'(2) by (auto simp: b1_def)
  moreover obtain e2 where "fits e2 b2" using mem_ok_lookup [OF a(2), of b2] by auto
  ultimately have "Iterator_Write_range (Buffer_End o') (Buffer_End o') (Buffer_End b2) h2 = Some (Buffer_End b2, h2)"
    using d(6) o'(1)
    by (auto simp: Iterator_Write_range_def Buffer_End_def Buffer_Begin_def CheckNoZero_def fits_def Let_def peek_bytes_def write_at_def poke_bytes_def)
  moreover have "Iterator_Prev 0 (Buffer_End c) = Some (Buffer_End c)" for c by (simp add: Iterator_Prev_def)
  ultimately have "Buffer_append o' b h = Some (b2, h2)"
    using d o'(1) h1(1) a(1) unfolding Buffer_append_def b1_def zs_def z_def by (simp add: Let_def)
  then show ?thesis using a(2-5) h1(3,4) \<open>contents h o' = replicate z 0\<close> others_kept_trans [OF h1(4) a(5)] by auto
next
  case False
  let ?n = "Buffer_GetSize o'"
  obtain d where d: "mem_data h (m_data b) = Some d" using mem_ok_lookup [OF assms(1), of b] by auto
  have neq: "m_data b \<noteq> m_data o'" using assms(2) by (simp add: can_append_def)
  obtain t h1 where t: "Buffer_CreateFullCopy b h = Some (t, h1)" "mem_ok h1 (t # b # o' # bs) []" "contents h1 t = contents h b"
      "others_kept h h1 (b # o' # bs)" "m_zeroAreaEnd t - m_zeroAreaStart t = 0" "m_data t = m_data b \<or> m_data t \<notin> m_data ` set (b # o' # bs)"
    using CreateFullCopy_ok [OF assms(1)] by blast
  obtain h2 where h2: "assign_temporary b t h1 = Some (t, h2)" "mem_ok h2 (t # o' # bs) []" "others_kept h1 h2 (t # o' # bs)"
    using assign_temporary_ok [OF t(2)] by blast
  obtain b2 h3 junk where a: "Buffer_AddAtEnd ?n t h2 = Some (b2, h3)" "mem_ok h3 (b2 # o' # bs) []" "length junk = ?n"
      "contents h3 b2 = contents h2 t @ junk" "others_kept h2 h3 (o' # bs)" "room_back ?n b2 (o' # bs)"
      "m_zeroAreaEnd b2 - m_zeroAreaStart b2 = m_zeroAreaEnd t - m_zeroAreaStart t"
      "m_data b2 = m_data t \<or> m_data b2 \<notin> m_data ` set (o' # bs)"
    using AddAtEnd_ok [OF h2(2), of ?n] by blast
  have "m_data b2 \<noteq> m_data o'" using a(8) t(6) neq by auto
  then obtain i it h4 where w: "Iterator_Prev ?n (Buffer_End b2) = Some i"
      "Iterator_Write_range (Buffer_Begin o') (Buffer_End o') i h3 = Some (it, h4)" "mem_ok h4 (b2 # o' # bs) []"
      "contents h4 b2 = take (length (contents h3 b2) - ?n) (contents h3 b2) @ contents h3 o'" "others_kept h3 h4 (o' # bs)"
    using Write_range_ok [OF a(2) _ a(6)] a(7) t(5) by auto
  have slow: "\<not> (m_count d = 1 \<and> (m_end b = m_zeroAreaEnd b \<or> m_zeroAreaStart b = m_zeroAreaEnd b) \<and>
      m_end b = m_dirtyEnd d \<and> m_start o' = m_zeroAreaStart o' \<and> m_zeroAreaEnd o' - m_zeroAreaStart o' > 0)"
    using False unfolding counts_zeroes_def d option.case .
  have "Buffer_append o' b h = Some (b2, h4)"
    by (simp only: Buffer_append_def d Option.bind_lunit if_not_P [OF slow] t(1) h2(1) a(1) w(1,2) prod.case)
  moreover have "contents h4 b2 = contents h b @ contents h o'"
    using w(4) a(3-5) h2(3) t(3,4) by simp
  moreover have "others_kept h h4 (o' # bs)" using t(4) h2(3) a(5) w(5) by (simp add: others_kept_def)
  ultimately show ?thesis using w(3) by blast
qed

subsection \<open>Sequences of operations\<close>

datatype buf_op =
    NewBuffer nat
  | PushFront nat "uint8 list"
  | PushBack nat "uint8 list"
  | DropFront nat nat
  | DropBack nat nat
  | CopyBuffer nat
  | CutBuffer nat nat nat
  | FillZeroes nat
  | DestroyBuffer nat

fun buf_step :: "buf_op \<Rightarrow> Buffer list \<times> buffer_mem \<Rightarrow> (Buffer list \<times> buffer_mem) option" where
  "buf_step (NewBuffer n) (bs, h) = do { (b, h1) \<leftarrow> Buffer_Initialize n h; Some (bs @ [b], h1) }"
| "buf_step (PushFront i xs) (bs, h) = do { (b, h1) \<leftarrow> push_front xs (bs ! i) h; Some (bs[i := b], h1) }"
| "buf_step (PushBack i xs) (bs, h) = do { (b, h1) \<leftarrow> push_back xs (bs ! i) h; Some (bs[i := b], h1) }"
| "buf_step (DropFront i n) (bs, h) = Some (bs[i := Buffer_RemoveAtStart n (bs ! i)], h)"
| "buf_step (DropBack i n) (bs, h) = Some (bs[i := Buffer_RemoveAtEnd n (bs ! i)], h)"
| "buf_step (CopyBuffer i) (bs, h) = do { (b, h1) \<leftarrow> Buffer_copy (bs ! i) h; Some (bs @ [b], h1) }"
| "buf_step (CutBuffer i start len) (bs, h) = do { (b, h1) \<leftarrow> Buffer_CreateFragment start len (bs ! i) h; Some (bs @ [b], h1) }"
| "buf_step (FillZeroes i) (bs, h) = do { (b, h1) \<leftarrow> Buffer_TransformIntoRealBuffer (bs ! i) h; Some (bs[i := b], h1) }"
| "buf_step (DestroyBuffer i) (bs, h) = do { h1 \<leftarrow> Buffer_destroy (bs ! i) h; Some (take i bs @ drop (Suc i) bs, h1) }"

text \<open>The same operations on independent lists of bytes; \<^const>\<open>None\<close> when an operation names no buffer.\<close>

fun list_step :: "buf_op \<Rightarrow> uint8 list list \<Rightarrow> uint8 list list option" where
  "list_step (NewBuffer n) ys = Some (ys @ [replicate n 0])"
| "list_step (PushFront i xs) ys = (if i < length ys then Some (ys[i := xs @ ys ! i]) else None)"
| "list_step (PushBack i xs) ys = (if i < length ys then Some (ys[i := ys ! i @ xs]) else None)"
| "list_step (DropFront i n) ys = (if i < length ys then Some (ys[i := drop n (ys ! i)]) else None)"
| "list_step (DropBack i n) ys = (if i < length ys then Some (ys[i := take (length (ys ! i) - n) (ys ! i)]) else None)"
| "list_step (CopyBuffer i) ys = (if i < length ys then Some (ys @ [ys ! i]) else None)"
| "list_step (CutBuffer i start len) ys =
     (if i < length ys \<and> start + len \<le> length (ys ! i) \<and> length (ys ! i) < 2 ^ 32
      then Some (ys @ [take len (drop start (ys ! i))]) else None)"
| "list_step (FillZeroes i) ys = (if i < length ys then Some ys else None)"
| "list_step (DestroyBuffer i) ys = (if i < length ys then Some (take i ys @ drop (Suc i) ys) else None)"

fun run_steps :: "('a \<Rightarrow> 's \<Rightarrow> 's option) \<Rightarrow> 'a list \<Rightarrow> 's \<Rightarrow> 's option" where
  "run_steps f [] s = Some s"
| "run_steps f (x # xs) s = do { s1 \<leftarrow> f x s; run_steps f xs s1 }"

definition represents :: "buffer_mem \<Rightarrow> Buffer list \<Rightarrow> uint8 list list \<Rightarrow> bool" where
  "represents h bs ys \<longleftrightarrow> mem_ok h bs [] \<and> map (contents h) bs = ys"

definition others :: "nat \<Rightarrow> 'a list \<Rightarrow> 'a list" where
  "others i xs = take i xs @ drop (Suc i) xs"

lemma mset_others: "i < length xs \<Longrightarrow> mset (xs ! i # others i xs) = mset xs"
  "i < length xs \<Longrightarrow> mset (x # others i xs) = mset (xs[i := x])"
  by (simp_all add: others_def upd_conv_take_nth_drop) (metis add_mset_add_single id_take_nth_drop mset.simps(2) mset_append union_mset_add_mset_right)

lemma represents_at:
  assumes "represents h bs ys" "i < length ys"
  shows "i < length bs" "mem_ok h (bs ! i # others i bs) []" "contents h (bs ! i) = ys ! i" "length (ys ! i) = Buffer_GetSize (bs ! i)"
proof -
  show i: "i < length bs" and c: "contents h (bs ! i) = ys ! i" using assms by (auto simp: represents_def)
  show "mem_ok h (bs ! i # others i bs) []"
    using assms(1) mem_ok_perm [OF mset_others(1) [OF i], of "[]" "[]" h] by (simp add: represents_def)
  show "length (ys ! i) = Buffer_GetSize (bs ! i)"
    using assms(1) i c length_contents [of h bs "[]" "bs ! i"] by (simp add: represents_def)
qed

lemma kept_map: "others_kept h h' bs \<Longrightarrow> map (contents h') bs = map (contents h) bs"
  by (simp add: others_kept_def)

lemma represents_update:
  assumes "represents h bs ys" "i < length ys" "mem_ok h' (b # others i bs) []" "contents h' b = y" "others_kept h h' (others i bs)"
  shows "represents h' (bs[i := b]) (ys[i := y])"
proof -
  have i: "i < length bs" using represents_at(1) [OF assms(1,2)] .
  have "map (contents h') (bs[i := b]) = (map (contents h) bs)[i := y]"
    using kept_map [OF assms(5)] assms(4) i by (simp add: others_def upd_conv_take_nth_drop take_map drop_map)
  then show ?thesis
    using assms(1,3) mem_ok_perm [OF mset_others(2) [OF i], of "[]" "[]" h' b] by (simp add: represents_def)
qed

lemma represents_new:
  assumes "represents h bs ys" "mem_ok h' (b # cs) []" "mset cs = mset bs" "contents h' b = y" "others_kept h h' cs"
  shows "represents h' (bs @ [b]) (ys @ [y])"
proof -
  have "others_kept h h' bs" using assms(5) mset_eq_setD [OF assms(3)] by (simp add: others_kept_def)
  moreover have "mem_ok h' (bs @ [b]) []" using assms(2,3) mem_ok_perm [of "b # cs" "bs @ [b]" "[]" "[]" h'] by simp
  ultimately show ?thesis using assms(1,4) kept_map by (auto simp: represents_def)
qed

lemma TransformIntoRealBuffer_ok:
  assumes "mem_ok h (b # bs) []"
  shows "\<exists>t h'. Buffer_TransformIntoRealBuffer b h = Some (t, h') \<and> mem_ok h' (t # bs) [] \<and> contents h' t = contents h b \<and>
    others_kept h h' bs \<and> m_zeroAreaEnd t - m_zeroAreaStart t = 0"
proof -
  obtain t h1 where t: "Buffer_CreateFullCopy b h = Some (t, h1)" "mem_ok h1 (t # b # bs) []" "contents h1 t = contents h b"
      "others_kept h h1 (b # bs)" "m_zeroAreaEnd t - m_zeroAreaStart t = 0"
    using CreateFullCopy_ok [OF assms] by blast
  obtain h2 where h2: "assign_temporary b t h1 = Some (t, h2)" "mem_ok h2 (t # bs) []" "others_kept h1 h2 (t # bs)"
    using assign_temporary_ok [OF t(2)] by blast
  then show ?thesis using t others_kept_trans [of h h1 bs h2] by (auto simp: Buffer_TransformIntoRealBuffer_def)
qed

lemma buf_step_sim:
  assumes "represents h bs ys" "list_step op ys = Some ys'"
  shows "\<exists>bs' h'. buf_step op (bs, h) = Some (bs', h') \<and> represents h' bs' ys'"
proof (cases op)
  case (NewBuffer n)
  then show ?thesis
    using assms represents_new [OF assms(1), of _ _ bs] Initialize_ok [of h bs n] by (fastforce simp: represents_def)
next
  case (PushFront i xs)
  then show ?thesis
    using assms push_front_ok [of h "bs ! i" "others i bs" xs] represents_at [OF assms(1), of i] represents_update [OF assms(1), of i]
    by (fastforce split: if_splits)
next
  case (PushBack i xs)
  then show ?thesis
    using assms push_back_ok [of h "bs ! i" "others i bs" xs] represents_at [OF assms(1), of i] represents_update [OF assms(1), of i]
    by (fastforce split: if_splits)
next
  case (DropFront i n)
  then show ?thesis
    using assms RemoveAtStart_ok [of h "bs ! i" "others i bs" "[]" n] represents_at [OF assms(1), of i]
      represents_update [OF assms(1), of i h] by (auto split: if_splits)
next
  case (DropBack i n)
  then show ?thesis
    using assms RemoveAtEnd_ok [of h "bs ! i" "others i bs" "[]" n] represents_at [OF assms(1), of i]
      represents_update [OF assms(1), of i h] by (auto split: if_splits)
next
  case (CopyBuffer i)
  then show ?thesis
    using assms copy_ok [of h "bs ! i" "others i bs"] represents_at [OF assms(1), of i]
      represents_new [OF assms(1), of _ _ "bs ! i # others i bs"] mset_others(1) [of i bs] by (fastforce split: if_splits)
next
  case (CutBuffer i start len)
  then show ?thesis
    using assms CreateFragment_ok [of h "bs ! i" "others i bs" start len] represents_at [OF assms(1), of i]
      represents_new [OF assms(1), of _ _ "bs ! i # others i bs"] mset_others(1) [of i bs] by (fastforce split: if_splits)
next
  case (FillZeroes i)
  then show ?thesis
    using assms TransformIntoRealBuffer_ok [of h "bs ! i" "others i bs"] represents_at [OF assms(1), of i]
      represents_update [OF assms(1), of i] by (fastforce split: if_splits)
next
  case (DestroyBuffer i)
  then have i: "i < length ys" "ys' = others i ys" using assms(2) by (auto simp: others_def split: if_splits)
  obtain h' where h': "Buffer_destroy (bs ! i) h = Some h'" "mem_ok h' (others i bs) []" "others_kept h h' (others i bs)"
    using destroy_ok [OF represents_at(2) [OF assms(1) i(1)]] by blast
  have "map (contents h') (others i bs) = ys'"
    using kept_map [OF h'(3)] assms(1) i(2) by (auto simp: others_def take_map drop_map represents_def)
  then show ?thesis using h' DestroyBuffer by (simp add: represents_def others_def)
qed

end
