(* ===== verification/Net_Packet.thy ===== *)
theory Net_Packet
  imports Buffer_Numbers Buffer_Simulation
begin

text \<open>
  Packets (\<open>src/src/network/model/packet.cc\<close>): a buffer and a unique id, with the operations that protocol layers use.
  Tags and metadata, which record for tracing what the operations did, are not modelled. The contract of a header is
  the locale \<open>packet_header\<close>; every header type interprets it, and the lemmas on adding and removing headers
  are proved once for all of them.
\<close>

record Packet =
  m_buffer :: Buffer
  p_uid :: uint64

definition Packet_GetSize :: "Packet \<Rightarrow> nat" where
  "Packet_GetSize p = Buffer_GetSize (m_buffer p)"

text \<open>The constructors: \<open>sz\<close> zeroes, or given bytes; the id is the counter of the class, which they advance.\<close>

definition Packet_zero :: "nat \<Rightarrow> uint32 \<Rightarrow> buffer_mem \<Rightarrow> (Packet \<times> uint32 \<times> buffer_mem) option" where
  "Packet_zero sz m_globalUid h =
     do { (b, h1) \<leftarrow> Buffer_Initialize sz h; Some (\<lparr>m_buffer = b, p_uid = ucast m_globalUid\<rparr>, m_globalUid + 1, h1) }"

definition Packet_bytes :: "uint8 list \<Rightarrow> uint32 \<Rightarrow> buffer_mem \<Rightarrow> (Packet \<times> uint32 \<times> buffer_mem) option" where
  "Packet_bytes xs m_globalUid h =
     do { (b, h1) \<leftarrow> Buffer_Initialize 0 h;
          (b1, h2) \<leftarrow> Buffer_AddAtStart (length xs) b h1;
          (_, h3) \<leftarrow> Iterator_Write xs (Buffer_Begin b1) h2;
          Some (\<lparr>m_buffer = b1, p_uid = ucast m_globalUid\<rparr>, m_globalUid + 1, h3) }"

definition Packet_Copy :: "Packet \<Rightarrow> buffer_mem \<Rightarrow> (Packet \<times> buffer_mem) option" where
  "Packet_Copy p h = do { (b, h1) \<leftarrow> Buffer_copy (m_buffer p) h; Some (p\<lparr>m_buffer := b\<rparr>, h1) }"

definition Packet_CreateFragment :: "nat \<Rightarrow> nat \<Rightarrow> Packet \<Rightarrow> buffer_mem \<Rightarrow> (Packet \<times> buffer_mem) option" where
  "Packet_CreateFragment start len p h =
     do { (b, h1) \<leftarrow> Buffer_CreateFragment start len (m_buffer p) h;
          if Packet_GetSize p \<ge> start + len then Some (p\<lparr>m_buffer := b\<rparr>, h1) else None }"

type_synonym 'h serializer = "'h \<Rightarrow> buffer_iter \<Rightarrow> buffer_mem \<Rightarrow> buffer_mem option"
type_synonym 'h deserializer = "'h \<Rightarrow> buffer_iter \<Rightarrow> buffer_mem \<Rightarrow> ('h \<times> nat \<times> buffer_mem) option"

text \<open>\<open>Serialize\<close>, \<open>Deserialize\<close> and \<open>GetSerializedSize\<close> are the virtual functions of the header.\<close>

definition Packet_AddHeader :: "'h serializer \<Rightarrow> ('h \<Rightarrow> nat) \<Rightarrow> 'h \<Rightarrow> Packet \<Rightarrow> buffer_mem \<Rightarrow> (Packet \<times> buffer_mem) option" where
  "Packet_AddHeader Serialize GetSerializedSize header p h =
     do { (b, h1) \<leftarrow> Buffer_AddAtStart (GetSerializedSize header) (m_buffer p) h;
          h2 \<leftarrow> Serialize header (Buffer_Begin b) h1;
          Some (p\<lparr>m_buffer := b\<rparr>, h2) }"

definition Packet_RemoveHeader :: "'h deserializer \<Rightarrow> 'h \<Rightarrow> Packet \<Rightarrow> buffer_mem \<Rightarrow> ('h \<times> nat \<times> Packet \<times> buffer_mem) option" where
  "Packet_RemoveHeader Deserialize header p h =
     do { (hdr, n, h1) \<leftarrow> Deserialize header (Buffer_Begin (m_buffer p)) h;
          Some (hdr, n, p\<lparr>m_buffer := Buffer_RemoveAtStart n (m_buffer p)\<rparr>, h1) }"

definition Packet_PeekHeader :: "'h deserializer \<Rightarrow> 'h \<Rightarrow> Packet \<Rightarrow> buffer_mem \<Rightarrow> ('h \<times> nat \<times> buffer_mem) option" where
  "Packet_PeekHeader Deserialize header p h = Deserialize header (Buffer_Begin (m_buffer p)) h"

definition Packet_AddAtEnd :: "Packet \<Rightarrow> Packet \<Rightarrow> buffer_mem \<Rightarrow> (Packet \<times> buffer_mem) option" where
  "Packet_AddAtEnd packet p h =
     do { (b, h1) \<leftarrow> Buffer_append (m_buffer packet) (m_buffer p) h; Some (p\<lparr>m_buffer := b\<rparr>, h1) }"

definition Packet_AddPaddingAtEnd :: "nat \<Rightarrow> Packet \<Rightarrow> buffer_mem \<Rightarrow> (Packet \<times> buffer_mem) option" where
  "Packet_AddPaddingAtEnd sz p h =
     do { (b, h1) \<leftarrow> Buffer_AddAtEnd sz (m_buffer p) h; Some (p\<lparr>m_buffer := b\<rparr>, h1) }"

definition Packet_RemoveAtEnd :: "nat \<Rightarrow> Packet \<Rightarrow> Packet" where
  "Packet_RemoveAtEnd sz p = p\<lparr>m_buffer := Buffer_RemoveAtEnd sz (m_buffer p)\<rparr>"

definition Packet_RemoveAtStart :: "nat \<Rightarrow> Packet \<Rightarrow> Packet" where
  "Packet_RemoveAtStart sz p = p\<lparr>m_buffer := Buffer_RemoveAtStart sz (m_buffer p)\<rparr>"

definition Packet_CopyData :: "nat \<Rightarrow> Packet \<Rightarrow> buffer_mem \<Rightarrow> uint8 list option" where
  "Packet_CopyData sz p h = Buffer_CopyData sz (m_buffer p) h"

subsection \<open>The contract of a header\<close>

text \<open>
  \<open>img hdr rest\<close> are the bytes a header writes before the bytes \<open>rest\<close>; \<open>got hdr rx rest\<close> is what the receiving
  header object \<open>rx\<close> holds after it has read them; \<open>ok hdr rest\<close> says which headers can be written.
\<close>

locale packet_header =
  fixes ser :: "'h serializer" and des :: "'h deserializer" and sz :: "'h \<Rightarrow> nat"
    and ok :: "'h \<Rightarrow> uint8 list \<Rightarrow> bool" and img :: "'h \<Rightarrow> uint8 list \<Rightarrow> uint8 list" and got :: "'h \<Rightarrow> 'h \<Rightarrow> uint8 list \<Rightarrow> 'h"
  assumes img_length: "ok hdr rest \<Longrightarrow> length (img hdr rest) = sz hdr"
    and ser_law: "mem_ok h (b # bs) [] \<Longrightarrow> room_front (sz hdr) b bs \<Longrightarrow> ok hdr (drop (sz hdr) (contents h b)) \<Longrightarrow>
      \<exists>h'. ser hdr (Buffer_Begin b) h = Some h' \<and> mem_ok h' (b # bs) [] \<and>
        contents h' b = img hdr (drop (sz hdr) (contents h b)) @ drop (sz hdr) (contents h b) \<and> others_kept h h' bs"
    and des_law: "mem_ok h (b # bs) [] \<Longrightarrow> contents h b = img hdr rest @ rest \<Longrightarrow> ok hdr rest \<Longrightarrow>
      \<exists>h'. des rx (Buffer_Begin b) h = Some (got hdr rx rest, sz hdr, h') \<and> mem_ok h' (b # bs) [] \<and> others_kept h h' (b # bs)"
begin

lemma AddHeader_ok:
  assumes "mem_ok h (m_buffer p # bs) []" "ok hdr (contents h (m_buffer p))"
  shows "\<exists>p' h'. Packet_AddHeader ser sz hdr p h = Some (p', h') \<and> mem_ok h' (m_buffer p' # bs) [] \<and> p_uid p' = p_uid p \<and>
    contents h' (m_buffer p') = img hdr (contents h (m_buffer p)) @ contents h (m_buffer p) \<and> others_kept h h' bs"
proof -
  obtain b h1 junk where a: "Buffer_AddAtStart (sz hdr) (m_buffer p) h = Some (b, h1)" "mem_ok h1 (b # bs) []" "length junk = sz hdr"
      "contents h1 b = junk @ contents h (m_buffer p)" "others_kept h h1 bs" "room_front (sz hdr) b bs"
    using AddAtStart_ok [OF assms(1), of "sz hdr"] by blast
  then obtain h2 where "ser hdr (Buffer_Begin b) h1 = Some h2" "mem_ok h2 (b # bs) []"
      "contents h2 b = img hdr (contents h (m_buffer p)) @ contents h (m_buffer p)" "others_kept h1 h2 bs"
    using ser_law [OF a(2,6)] assms(2) by auto
  then show ?thesis using a others_kept_trans [OF a(5)] by (simp add: Packet_AddHeader_def)
qed

lemma RemoveHeader_ok:
  assumes "mem_ok h (m_buffer p # bs) []" "contents h (m_buffer p) = img hdr rest @ rest" "ok hdr rest"
  shows "\<exists>p' h'. Packet_RemoveHeader des rx p h = Some (got hdr rx rest, sz hdr, p', h') \<and> mem_ok h' (m_buffer p' # bs) [] \<and>
    p_uid p' = p_uid p \<and> contents h' (m_buffer p') = rest \<and> others_kept h h' bs"
proof -
  obtain h' where h': "des rx (Buffer_Begin (m_buffer p)) h = Some (got hdr rx rest, sz hdr, h')" "mem_ok h' (m_buffer p # bs) []"
      "others_kept h h' (m_buffer p # bs)"
    using des_law [OF assms] by blast
  have "mem_ok h' (Buffer_RemoveAtStart (sz hdr) (m_buffer p) # bs) []"
      "contents h' (Buffer_RemoveAtStart (sz hdr) (m_buffer p)) = drop (sz hdr) (contents h' (m_buffer p))"
    using RemoveAtStart_ok [OF h'(2), of "sz hdr"] by auto
  then show ?thesis using h' assms(2) img_length [OF assms(3)] by (simp add: Packet_RemoveHeader_def)
qed

end

end
