(* ===== verification/Internet_Checksum.thy ===== *)
theory Internet_Checksum
  imports Buffer_Numbers
begin

unbundle bit_operations_syntax

text \<open>
  The Internet checksum of \<open>Buffer::Iterator::CalculateIpChecksum\<close> as a function of the bytes: the one's complement of
  the sum of the 16-bit words modulo 65535, and what storing it in the checksummed bytes does.
\<close>

subsection \<open>Sums of words\<close>

fun word_sum :: "uint8 list \<Rightarrow> nat" where
  "word_sum [] = 0"
| "word_sum [a] = unat a"
| "word_sum (a # b # xs) = unat a + 256 * unat b + word_sum xs"

lemma byte_less: "unat b < 256" for b :: uint8
  using unsigned_less [of b, where ?'a = nat] by simp

lemma word_sum_bound: "word_sum xs \<le> 65535 * ((length xs + 1) div 2)"
proof (induction xs rule: word_sum.induct)
  case (2 a)
  then show ?case using byte_less [of a] by simp
next
  case (3 a b xs)
  have "word_sum (a # b # xs) \<le> 65535 + 65535 * ((length xs + 1) div 2)" using 3 byte_less [of a] byte_less [of b] by simp
  then show ?case by simp
qed simp

lemma word_sum_append: "even (length xs) \<Longrightarrow> word_sum (xs @ ys) = word_sum xs + word_sum ys"
  by (induction xs rule: word_sum.induct) auto

lemma from_le_pair: "from_le [a, b] = (of_nat (unat a + 256 * unat b) :: uint16)" "unat a + 256 * unat b < 65536"
proof -
  show less: "unat a + 256 * unat b < 65536" using byte_less [of a] byte_less [of b] by simp
  have disj: "push_bit 8 (ucast b) AND (ucast a :: uint16) = 0"
    by (rule bit_eqI) (auto simp: bit_simps dest: bit_imp_le_length)
  have "from_le [a, b] = push_bit 8 (ucast b) OR (ucast a :: uint16)" by (simp add: from_le_def)
  also have "\<dots> = push_bit 8 (ucast b) + ucast a" using disj by (simp add: disjunctive_add_eq_or)
  also have "\<dots> = of_nat (unat a + 256 * unat b)" by (simp add: push_bit_eq_mult of_nat_unat)
  finally show "from_le [a, b] = (of_nat (unat a + 256 * unat b) :: uint16)" .
qed

lemma unat_from_le_pair: "unat (from_le [a, b] :: uint16) = unat a + 256 * unat b"
  unfolding from_le_pair(1) unsigned_of_nat using from_le_pair(2) [of a b] by (simp add: take_bit_nat_eq_self)

subsection \<open>Folding\<close>

definition fold_value :: "nat \<Rightarrow> nat" where
  "fold_value u = (if u = 0 then 0 else (u - 1) mod 65535 + 1)"

lemma fold_value_step: "0 < u div 65536 \<Longrightarrow> fold_value (u mod 65536 + u div 65536) = fold_value u"
proof -
  assume q: "0 < u div 65536"
  define a where "a = u mod 65536 + u div 65536"
  have u: "u = a + 65535 * (u div 65536)" using div_mult_mod_eq [of u 65536] by (simp add: a_def)
  have a: "0 < a" using q by (simp add: a_def)
  then have "u - 1 = (a - 1) + 65535 * (u div 65536)" using u by linarith
  then have "(u - 1) mod 65535 = (a - 1) mod 65535" by simp
  then show ?thesis using a u by (simp add: fold_value_def a_def [symmetric])
qed

lemma unat_checksum_fold: "unat (checksum_fold s) = fold_value (unat s)"
proof (induction s rule: checksum_fold.induct)
  case (1 s)
  show ?case
  proof (cases "drop_bit 16 s = 0")
    case True
    then have "unat s div 65536 = 0" using high_word [of s] by simp
    then have "unat s < 65536" by (simp add: div_eq_0_iff)
    then show ?thesis using True by (subst checksum_fold.simps) (auto simp: fold_value_def)
  next
    case False
    then have "0 < unat s div 65536" using high_word [of s] by (metis neq0_conv unat_eq_zero)
    then show ?thesis using 1 [OF False] False fold_value_step [of "unat s"] by (subst checksum_fold.simps) (simp add: fold_words)
  qed
qed

definition ip_checksum :: "nat \<Rightarrow> uint8 list \<Rightarrow> nat" where
  "ip_checksum initial xs = 65535 - fold_value (initial + word_sum xs)"

lemma fold_value_le: "fold_value u \<le> 65535"
proof -
  have "(u - 1) mod 65535 < 65535" by simp
  then show ?thesis by (auto simp: fold_value_def)
qed

lemma unat_not: "unat (NOT w) = 65535 - unat w" for w :: uint16
proof -
  have "NOT w = - 1 - w" by (simp add: not_eq_complement)
  moreover have "unat (- 1 - w) = unat (- 1 :: uint16) - unat w" by (rule unat_sub) simp
  moreover have "unat (- 1 :: uint16) = 65535" by (simp add: unsigned_minus_1_eq_mask mask_eq_exp_minus_1)
  ultimately show ?thesis by simp
qed

lemma complement_fold: "unat (ucast (NOT (checksum_fold s)) :: uint16) = 65535 - fold_value (unat s)"
proof -
  let ?r = "checksum_fold s"
  have r: "unat ?r < 65536" using fold_value_le [of "unat s"] by (simp add: unat_checksum_fold)
  have "(ucast (NOT ?r) :: uint16) = NOT (ucast ?r)" by (rule bit_word_eqI) (simp add: bit_simps)
  moreover have "unat (ucast ?r :: uint16) = unat ?r" using r by (simp add: unsigned_ucast_eq take_bit_nat_eq_self)
  ultimately show ?thesis by (simp add: unat_not unat_checksum_fold)
qed

subsection \<open>What the iterator computes\<close>

lemma take_pair: "k + 2 \<le> length xs \<Longrightarrow> take 2 (drop k xs) = [xs ! k, xs ! (k + 1)]"
  by (simp add: Cons_nth_drop_Suc [symmetric] numeral_2_eq_2)

lemma drop_pair: "k + 2 \<le> length xs \<Longrightarrow> drop k xs = xs ! k # xs ! (k + 1) # drop (k + 2) xs"
  by (simp add: Cons_nth_drop_Suc)

lemma checksum_words_ok:
  assumes "mem_ok h bs xs" "b \<in> set bs" "k + 2 * n \<le> Buffer_GetSize b" "unat acc + word_sum (take (2 * n) (drop k (contents h b))) < 2 ^ 32"
  shows "\<exists>s. checksum_words n acc (iter_at k b) h = Some (s, iter_at (k + 2 * n) b) \<and>
    unat s = unat acc + word_sum (take (2 * n) (drop k (contents h b)))"
  using assms(3,4)
proof (induction n arbitrary: acc k)
  case (Suc n)
  let ?c = "contents h b"
  have len: "length ?c = Buffer_GetSize b" using length_contents [OF assms(1,2)] .
  have two: "k + 2 \<le> length ?c" using Suc.prems(1) len by simp
  have split: "take (2 * Suc n) (drop k ?c) = ?c ! k # ?c ! (k + 1) # take (2 * n) (drop (k + 2) ?c)"
    unfolding drop_pair [OF two] by simp
  let ?v = "from_le [?c ! k, ?c ! (k + 1)] :: uint16"
  have v: "unat (ucast ?v :: uint32) = unat (?c ! k) + 256 * unat (?c ! (k + 1))"
    using from_le_pair(2) [of "?c ! k" "?c ! (k + 1)"] by (simp add: unsigned_ucast_eq unat_from_le_pair take_bit_nat_eq_self)
  have acc: "unat (acc + ucast ?v) = unat acc + unat (ucast ?v :: uint32)"
  proof -
    have "unat acc + unat (ucast ?v :: uint32) < 2 ^ LENGTH(32)" using Suc.prems(2) unfolding split v by simp
    then show ?thesis by (simp only: unat_add_lem)
  qed
  have "ReadU16 (iter_at k b) h = Some (?v, iter_at (k + 2) b)"
    using ReadU16_ok [OF assms(1,2), of k] Suc.prems(1) take_pair [OF two] by simp
  moreover obtain s where "checksum_words n (acc + ucast ?v) (iter_at (k + 2) b) h = Some (s, iter_at (k + 2 + 2 * n) b)"
      "unat s = unat (acc + ucast ?v) + word_sum (take (2 * n) (drop (k + 2) ?c))"
    using Suc.IH [of "k + 2" "acc + ucast ?v"] Suc.prems unfolding split acc v by auto
  ultimately show ?case unfolding split using acc v by (auto simp: add.assoc)
qed simp

lemma word_sum_odd: "even (length xs) \<Longrightarrow> word_sum (xs @ [a]) = word_sum xs + unat a"
  by (simp add: word_sum_append)

lemma odd_bit: "(sz AND 1 \<noteq> 0) = odd (unat sz)" for sz :: uint16
proof -
  have "odd (unat sz) = odd sz" by (simp flip: bit_0 add: bit_unsigned_iff)
  then show ?thesis by (simp add: and_one_eq mod_2_eq_odd)
qed

lemma CalculateIpChecksum_ok:
  assumes "mem_ok h bs xs" "b \<in> set bs" "k + unat sz \<le> Buffer_GetSize b" "unat i < 65536"
  shows "\<exists>c. CalculateIpChecksum_from sz i (iter_at k b) h = Some (c, iter_at (k + unat sz) b) \<and>
    unat c = ip_checksum (unat i) (take (unat sz) (drop k (contents h b)))"
proof -
  let ?n = "unat sz div 2" and ?c = "contents h b"
  let ?W = "take (2 * ?n) (drop k ?c)"
  have len: "length ?c = Buffer_GetSize b" using length_contents [OF assms(1,2)] .
  have n: "2 * ?n \<le> unat sz" "unat sz < 65536" using unsigned_less [of sz, where ?'a = nat] by simp_all
  have lw: "length ?W = 2 * ?n" using assms(3) len n by simp
  have "word_sum ?W \<le> 65535 * ((2 * ?n + 1) div 2)" using word_sum_bound [of ?W] lw by simp
  also have "\<dots> \<le> 65535 * 32767" using n by simp
  finally have small: "word_sum ?W \<le> 65535 * 32767" .
  obtain s where s: "checksum_words ?n i (iter_at k b) h = Some (s, iter_at (k + 2 * ?n) b)" "unat s = unat i + word_sum ?W"
    using checksum_words_ok [OF assms(1,2), of k ?n i] assms(3,4) n small by auto
  show ?thesis
  proof (cases "odd (unat sz)")
    case False
    then have "2 * ?n = unat sz" by simp
    then show ?thesis
      using s False complement_fold [of s] by (simp add: CalculateIpChecksum_from_def odd_bit ip_checksum_def)
  next
    case True
    then have o': "2 * ?n + 1 = unat sz" by simp
    let ?a = "?c ! (k + 2 * ?n)"
    have "ReadU8 (iter_at (k + 2 * ?n) b) h = Some (?a, iter_at (k + unat sz) b)"
      using ReadU8_ok [OF assms(1,2), of "k + 2 * ?n"] assms(3) o' by (simp add: add.assoc)
    moreover have "take (unat sz) (drop k ?c) = ?W @ [?a]"
    proof -
      have "take (Suc (2 * ?n)) (drop k ?c) = ?W @ [drop k ?c ! (2 * ?n)]"
        using assms(3) len o' by (intro take_Suc_conv_app_nth) simp
      moreover have "drop k ?c ! (2 * ?n) = ?a" using assms(3) len o' by (intro nth_drop) simp
      ultimately show ?thesis using o' by (metis Suc_eq_plus1)
    qed
    moreover have "unat (s + ucast ?a) = unat s + unat ?a"
    proof -
      have "unat (ucast ?a :: uint32) = unat ?a" using byte_less [of ?a] by (simp add: unsigned_ucast_eq take_bit_nat_eq_self)
      moreover have "unat s + unat ?a < 2 ^ 32" using s(2) small assms(4) byte_less [of ?a] by simp
      ultimately show ?thesis using unat_add_lem [of s "ucast ?a"] by simp
    qed
    ultimately show ?thesis
      using s True complement_fold [of "s + ucast ?a"] lw
      by (simp add: CalculateIpChecksum_from_def odd_bit ip_checksum_def word_sum_odd add.assoc)
  qed
qed

subsection \<open>Verification\<close>

lemma word_sum_le_bytes: "word_sum (le_bytes 2 x) = unat x" for x :: uint16
proof -
  have "unat (byte_at 0 x) + 256 * unat (byte_at 8 x) = unat (from_le [byte_at 0 x, byte_at 8 x] :: uint16)"
    by (simp add: unat_from_le_pair)
  also have "from_le [byte_at 0 x, byte_at 8 x] = from_le (le_bytes 2 x)"
    by (simp add: le_bytes_eq numeral_2_eq_2)
  also have "\<dots> = x" by (simp add: from_le_bytes take_bit_word_eq_self)
  finally show ?thesis by (simp add: le_bytes_eq numeral_2_eq_2)
qed

text \<open>A checksum stored where zeroes were checksummed makes the checksum zero.\<close>

lemma checksum_verifies:
  fixes c :: uint16
  assumes "even (length xs)" "unat c = ip_checksum i (xs @ [0, 0] @ ys)"
  shows "ip_checksum i (xs @ le_bytes 2 c @ ys) = 0"
proof -
  let ?s = "i + word_sum xs + word_sum ys"
  have e: "even (length (le_bytes 2 c))" by simp
  have old: "i + word_sum (xs @ [0, 0] @ ys) = ?s" using assms(1) by (simp add: word_sum_append)
  have new: "i + word_sum (xs @ le_bytes 2 c @ ys) = ?s + unat c"
    using assms(1) by (simp add: word_sum_append [OF assms(1)] word_sum_append [OF e] word_sum_le_bytes)
  have c: "unat c = 65535 - fold_value ?s" using assms(2) unfolding ip_checksum_def old .
  have "fold_value (?s + (65535 - fold_value ?s)) = 65535"
  proof (cases "?s = 0")
    case True
    then show ?thesis by (simp add: fold_value_def)
  next
    case False
    define q where "q = (?s - 1) div 65535"
    define r where "r = (?s - 1) mod 65535"
    have s: "?s = 65535 * q + r + 1" "r < 65535" using False div_mult_mod_eq [of "?s - 1" 65535] by (simp_all add: q_def r_def)
    have "fold_value ?s = r + 1" using False by (simp add: fold_value_def r_def)
    then have "?s + (65535 - fold_value ?s) = 65535 * q + 65535" using s by simp
    moreover have "fold_value (65535 * q + 65535) = 65535"
    proof -
      have "65535 * q + 65535 - 1 = 65534 + 65535 * q" by simp
      then show ?thesis unfolding fold_value_def by simp
    qed
    ultimately show ?thesis by simp
  qed
  then show ?thesis unfolding ip_checksum_def new c by simp
qed

end
