(* ===== verification/Ipv4_Header.thy ===== *)
theory Ipv4_Header
  imports Net_Packet Internet_Checksum
begin

unbundle bit_operations_syntax

text \<open>
  The PPP header of point-to-point links (\<open>ppp-header.cc\<close>) and the IPv4 header (\<open>ipv4-header.cc\<close>), both as instances
  of the contract \<open>packet_header\<close>.
\<close>

subsection \<open>Reading a header back\<close>

lemma le_bytes_2: "le_bytes 2 x = [byte_at 0 x, byte_at 8 x]" for x :: uint16
  by (simp add: le_bytes_eq numeral_2_eq_2)

lemma le_bytes_4: "le_bytes 4 x = [byte_at 0 x, byte_at 8 x, byte_at 16 x, byte_at 24 x]" for x :: uint32
proof -
  have "[0..<4] = [0, 1, 2, 3 :: nat]" by (simp add: upt_rec)
  then show ?thesis by (simp add: le_bytes_eq)
qed

lemma from_le_16 [simp]: "from_le [byte_at 0 x, byte_at 8 x] = x" for x :: uint16
  unfolding le_bytes_2 [symmetric] by (simp add: from_le_bytes take_bit_word_eq_self)

lemma from_be_be16 [simp]: "from_be [byte_at 8 x, byte_at 0 x] = x" for x :: uint16
  by (simp add: from_be_rev)

lemma from_be_be32 [simp]: "from_be [byte_at 24 x, byte_at 16 x, byte_at 8 x, byte_at 0 x] = x" for x :: uint32
proof -
  have "from_be [byte_at 24 x, byte_at 16 x, byte_at 8 x, byte_at 0 x] = (from_le (le_bytes 4 x) :: uint32)"
    by (simp add: from_be_rev le_bytes_4)
  then show ?thesis by (simp add: from_le_bytes take_bit_word_eq_self)
qed

subsection \<open>PPP\<close>

record PppHeader =
  ppp_protocol :: uint16

definition PppHeader_Serialize :: "PppHeader serializer" where
  "PppHeader_Serialize hdr start h = do { (_, h1) \<leftarrow> WriteHtonU16 (ppp_protocol hdr) start h; Some h1 }"

definition PppHeader_GetSerializedSize :: "PppHeader \<Rightarrow> nat" where
  "PppHeader_GetSerializedSize hdr = 2"

definition PppHeader_Deserialize :: "PppHeader deserializer" where
  "PppHeader_Deserialize hdr start h =
     do { (p, _) \<leftarrow> ReadNtohU16 start h;
          let hdr1 = hdr\<lparr>ppp_protocol := p\<rparr>;
          Some (hdr1, PppHeader_GetSerializedSize hdr1, h) }"

interpretation ppp: packet_header PppHeader_Serialize PppHeader_Deserialize PppHeader_GetSerializedSize
  "\<lambda>hdr rest. True" "\<lambda>hdr rest. be16 (ppp_protocol hdr)" "\<lambda>hdr rx rest. rx\<lparr>ppp_protocol := ppp_protocol hdr\<rparr>"
proof
  fix hdr rx :: PppHeader and h b bs rest
  assume ok: "mem_ok h (b # bs) []"
  have len: "length (contents h b) = Buffer_GetSize b" using length_contents [OF ok, of b] by simp
  show "\<exists>h'. PppHeader_Serialize hdr (Buffer_Begin b) h = Some h' \<and> mem_ok h' (b # bs) [] \<and>
      contents h' b = be16 (ppp_protocol hdr) @ drop (PppHeader_GetSerializedSize hdr) (contents h b) \<and> others_kept h h' bs"
    if room: "room_front (PppHeader_GetSerializedSize hdr) b bs"
  proof -
    obtain h' where "WriteHtonU16 (ppp_protocol hdr) (iter_at 0 b) h = Some (iter_at (0 + length (be16 (ppp_protocol hdr))) b, h')"
        "mem_ok h' (b # bs) []" "contents h' b = overwrite 0 (be16 (ppp_protocol hdr)) (contents h b)" "others_kept h h' bs"
      by (rule writesD [OF writes_WriteHtonU16 ok room, of 0]) (simp add: PppHeader_GetSerializedSize_def)
    then show ?thesis by (simp add: PppHeader_Serialize_def PppHeader_GetSerializedSize_def Begin_iter_at overwrite_def numeral_2_eq_2)
  qed
  show "\<exists>h'. PppHeader_Deserialize rx (Buffer_Begin b) h = Some (rx\<lparr>ppp_protocol := ppp_protocol hdr\<rparr>, PppHeader_GetSerializedSize hdr, h') \<and>
      mem_ok h' (b # bs) [] \<and> others_kept h h' (b # bs)"
    if c: "contents h b = be16 (ppp_protocol hdr) @ rest"
    using ReadNtoh_ok(1) [OF ok, of b 0] len ok unfolding c
    by (simp add: PppHeader_Deserialize_def PppHeader_GetSerializedSize_def Begin_iter_at be16_def)
qed (simp add: PppHeader_GetSerializedSize_def)

subsection \<open>IPv4\<close>

record Ipv4Header =
  ip_calcChecksum :: bool
  ip_payloadSize :: uint16
  ip_identification :: uint16
  ip_tos :: uint8
  ip_ttl :: uint8
  ip_protocol :: uint8
  ip_flags :: "3 word"
  ip_fragmentOffset :: uint16
  ip_source :: uint32
  ip_destination :: uint32
  ip_sum :: uint16
  ip_goodChecksum :: bool
  ip_headerSize :: uint16

definition Ipv4Header_init :: Ipv4Header where
  "Ipv4Header_init =
     \<lparr>ip_calcChecksum = False, ip_payloadSize = 0, ip_identification = 0, ip_tos = 0, ip_ttl = 0, ip_protocol = 0,
      ip_flags = 0, ip_fragmentOffset = 0, ip_source = 0x66666666, ip_destination = 0x66666666, ip_sum = 0,
      ip_goodChecksum = True, ip_headerSize = 5 * 4\<rparr>"

definition DONT_FRAGMENT :: "3 word" where "DONT_FRAGMENT = 1"
definition MORE_FRAGMENTS :: "3 word" where "MORE_FRAGMENTS = 2"

definition EnableChecksum :: "Ipv4Header \<Rightarrow> Ipv4Header" where
  "EnableChecksum hdr = hdr\<lparr>ip_calcChecksum := True\<rparr>"

definition SetPayloadSize :: "uint16 \<Rightarrow> Ipv4Header \<Rightarrow> Ipv4Header" where
  "SetPayloadSize sz hdr = hdr\<lparr>ip_payloadSize := sz\<rparr>"

definition SetIdentification :: "uint16 \<Rightarrow> Ipv4Header \<Rightarrow> Ipv4Header" where
  "SetIdentification ident hdr = hdr\<lparr>ip_identification := ident\<rparr>"

definition SetTos :: "uint8 \<Rightarrow> Ipv4Header \<Rightarrow> Ipv4Header" where
  "SetTos tos hdr = hdr\<lparr>ip_tos := tos\<rparr>"

definition SetTtl :: "uint8 \<Rightarrow> Ipv4Header \<Rightarrow> Ipv4Header" where
  "SetTtl ttl hdr = hdr\<lparr>ip_ttl := ttl\<rparr>"

definition SetProtocol :: "uint8 \<Rightarrow> Ipv4Header \<Rightarrow> Ipv4Header" where
  "SetProtocol protocol hdr = hdr\<lparr>ip_protocol := protocol\<rparr>"

definition SetSource :: "uint32 \<Rightarrow> Ipv4Header \<Rightarrow> Ipv4Header" where
  "SetSource source hdr = hdr\<lparr>ip_source := source\<rparr>"

definition SetDestination :: "uint32 \<Rightarrow> Ipv4Header \<Rightarrow> Ipv4Header" where
  "SetDestination dst hdr = hdr\<lparr>ip_destination := dst\<rparr>"

definition SetDscp :: "uint8 \<Rightarrow> Ipv4Header \<Rightarrow> Ipv4Header" where
  "SetDscp dscp hdr = hdr\<lparr>ip_tos := (ip_tos hdr AND 0x3) OR push_bit 2 dscp\<rparr>"

definition SetEcn :: "uint8 \<Rightarrow> Ipv4Header \<Rightarrow> Ipv4Header" where
  "SetEcn ecn hdr = hdr\<lparr>ip_tos := (ip_tos hdr AND 0xFC) OR ecn\<rparr>"

definition GetDscp :: "Ipv4Header \<Rightarrow> uint8" where
  "GetDscp hdr = drop_bit 2 (ip_tos hdr AND 0xFC)"

definition GetEcn :: "Ipv4Header \<Rightarrow> uint8" where
  "GetEcn hdr = ip_tos hdr AND 0x3"

definition SetMoreFragments :: "Ipv4Header \<Rightarrow> Ipv4Header" where
  "SetMoreFragments hdr = hdr\<lparr>ip_flags := ip_flags hdr OR MORE_FRAGMENTS\<rparr>"

definition SetLastFragment :: "Ipv4Header \<Rightarrow> Ipv4Header" where
  "SetLastFragment hdr = hdr\<lparr>ip_flags := ip_flags hdr AND NOT MORE_FRAGMENTS\<rparr>"

definition IsLastFragment :: "Ipv4Header \<Rightarrow> bool" where
  "IsLastFragment hdr \<longleftrightarrow> ip_flags hdr AND MORE_FRAGMENTS = 0"

definition SetDontFragment :: "Ipv4Header \<Rightarrow> Ipv4Header" where
  "SetDontFragment hdr = hdr\<lparr>ip_flags := ip_flags hdr OR DONT_FRAGMENT\<rparr>"

definition SetMayFragment :: "Ipv4Header \<Rightarrow> Ipv4Header" where
  "SetMayFragment hdr = hdr\<lparr>ip_flags := ip_flags hdr AND NOT DONT_FRAGMENT\<rparr>"

definition IsDontFragment :: "Ipv4Header \<Rightarrow> bool" where
  "IsDontFragment hdr \<longleftrightarrow> ip_flags hdr AND DONT_FRAGMENT \<noteq> 0"

definition SetFragmentOffset :: "uint16 \<Rightarrow> Ipv4Header \<Rightarrow> Ipv4Header option" where
  "SetFragmentOffset offsetBytes hdr =
     (if offsetBytes AND 0x7 \<noteq> 0 then None else Some (hdr\<lparr>ip_fragmentOffset := offsetBytes\<rparr>))"

definition Ipv4Header_GetSerializedSize :: "Ipv4Header \<Rightarrow> nat" where
  "Ipv4Header_GetSerializedSize hdr = unat (ip_headerSize hdr)"

text \<open>The byte with the flags and the high bits of the fragment offset.\<close>

definition flagsFrag :: "Ipv4Header \<Rightarrow> uint8" where
  "flagsFrag hdr =
     (let fragmentOffset = (ucast (ip_fragmentOffset hdr div 8) :: uint32);
          f = (ucast (drop_bit 8 fragmentOffset AND 0x1f) :: uint8);
          f1 = (if ip_flags hdr AND DONT_FRAGMENT \<noteq> 0 then f OR push_bit 6 1 else f)
      in if ip_flags hdr AND MORE_FRAGMENTS \<noteq> 0 then f1 OR push_bit 5 1 else f1)"

definition frag_low :: "Ipv4Header \<Rightarrow> uint8" where
  "frag_low hdr = ucast ((ucast (ip_fragmentOffset hdr div 8) :: uint32) AND 0xff)"

definition Ipv4Header_fields :: "Ipv4Header \<Rightarrow> buffer_iter \<Rightarrow> buffer_mem \<Rightarrow> (buffer_iter \<times> buffer_mem) option" where
  "Ipv4Header_fields hdr i h =
     do { (i, h) \<leftarrow> WriteU8 (push_bit 4 4 OR 5) i h;
          (i, h) \<leftarrow> WriteU8 (ip_tos hdr) i h;
          (i, h) \<leftarrow> WriteHtonU16 (ip_payloadSize hdr + 5 * 4) i h;
          (i, h) \<leftarrow> WriteHtonU16 (ip_identification hdr) i h;
          (i, h) \<leftarrow> WriteU8 (flagsFrag hdr) i h;
          (i, h) \<leftarrow> WriteU8 (frag_low hdr) i h;
          (i, h) \<leftarrow> WriteU8 (ip_ttl hdr) i h;
          (i, h) \<leftarrow> WriteU8 (ip_protocol hdr) i h;
          (i, h) \<leftarrow> WriteHtonU16 0 i h;
          (i, h) \<leftarrow> WriteHtonU32 (ip_source hdr) i h;
          WriteHtonU32 (ip_destination hdr) i h }"

definition Ipv4Header_Serialize :: "Ipv4Header serializer" where
  "Ipv4Header_Serialize hdr start h =
     do { (_, h1) \<leftarrow> Ipv4Header_fields hdr start h;
          if ip_calcChecksum hdr
          then do { (checksum, _) \<leftarrow> CalculateIpChecksum 20 start h1;
                    i \<leftarrow> Iterator_Next 10 start;
                    (_, h2) \<leftarrow> WriteU16 checksum i h1;
                    Some h2 }
          else Some h1 }"

text \<open>\<open>i.Prev ()\<close> goes back to read the byte with the flags a second time.\<close>

definition Ipv4Header_Deserialize :: "Ipv4Header deserializer" where
  "Ipv4Header_Deserialize hdr start h =
     do { (verIhl, i) \<leftarrow> ReadU8 start h;
          let ihl = verIhl AND 0x0f;
          let headerSize = (ucast ihl * 4 :: uint16);
          if drop_bit 4 verIhl \<noteq> 4 then Some (hdr, 0, h)
          else do { (tos, i) \<leftarrow> ReadU8 i h;
                    (sz, i) \<leftarrow> ReadNtohU16 i h;
                    (ident, i) \<leftarrow> ReadNtohU16 i h;
                    (flags, i) \<leftarrow> ReadU8 i h;
                    let f = (if flags AND push_bit 6 1 \<noteq> 0 then DONT_FRAGMENT else 0);
                    let f = (if flags AND push_bit 5 1 \<noteq> 0 then f OR MORE_FRAGMENTS else f);
                    i \<leftarrow> Iterator_Prev 1 i;
                    (o1, i) \<leftarrow> ReadU8 i h;
                    (o2, i) \<leftarrow> ReadU8 i h;
                    let off = push_bit 3 (push_bit 8 (ucast (o1 AND 0x1f) :: uint16) OR ucast o2);
                    (ttl, i) \<leftarrow> ReadU8 i h;
                    (proto, i) \<leftarrow> ReadU8 i h;
                    (ck, i) \<leftarrow> ReadU16 i h;
                    (src, i) \<leftarrow> ReadNtohU32 i h;
                    (dst, i) \<leftarrow> ReadNtohU32 i h;
                    let hdr1 = hdr\<lparr>ip_tos := tos, ip_payloadSize := sz - headerSize, ip_identification := ident, ip_flags := f,
                                   ip_fragmentOffset := off, ip_ttl := ttl, ip_protocol := proto, ip_sum := ck,
                                   ip_source := src, ip_destination := dst, ip_headerSize := headerSize\<rparr>;
                    if ip_calcChecksum hdr
                    then do { (checksum, _) \<leftarrow> CalculateIpChecksum headerSize start h;
                              let hdr2 = hdr1\<lparr>ip_goodChecksum := (checksum = 0)\<rparr>;
                              Some (hdr2, Ipv4Header_GetSerializedSize hdr2, h) }
                    else Some (hdr1, Ipv4Header_GetSerializedSize hdr1, h) } }"

subsection \<open>The bytes of an IPv4 header\<close>

text \<open>Before and after the two bytes of the checksum.\<close>

definition ip_bytes1 :: "Ipv4Header \<Rightarrow> uint8 list" where
  "ip_bytes1 hdr = [0x45, ip_tos hdr] @ be16 (ip_payloadSize hdr + 20) @ be16 (ip_identification hdr) @
     [flagsFrag hdr, frag_low hdr, ip_ttl hdr, ip_protocol hdr]"

definition ip_bytes2 :: "Ipv4Header \<Rightarrow> uint8 list" where
  "ip_bytes2 hdr = be32 (ip_source hdr) @ be32 (ip_destination hdr)"

lemma length_ip_bytes [simp]: "length (ip_bytes1 hdr) = 10" "length (ip_bytes2 hdr) = 8"
  by (simp_all add: ip_bytes1_def ip_bytes2_def)

lemma writes_fields: "writes (ip_bytes1 hdr @ [0, 0] @ ip_bytes2 hdr) (Ipv4Header_fields hdr)"
proof -
  have "writes ([0x45] @ [ip_tos hdr] @ be16 (ip_payloadSize hdr + 20) @ be16 (ip_identification hdr) @ [flagsFrag hdr] @ [frag_low hdr] @
      [ip_ttl hdr] @ [ip_protocol hdr] @ be16 0 @ be32 (ip_source hdr) @ be32 (ip_destination hdr)) (\<lambda>i h. Ipv4Header_fields hdr i h)"
    unfolding Ipv4Header_fields_def
    by (intro writes_bind writes_intros) (simp_all add: writes_intros)
  then show ?thesis by (simp add: ip_bytes1_def ip_bytes2_def be16_def byte_at_def)
qed

definition ip_stored_sum :: "Ipv4Header \<Rightarrow> uint16" where
  "ip_stored_sum hdr =
     (if ip_calcChecksum hdr then of_nat (ip_checksum 0 (ip_bytes1 hdr @ [0, 0] @ ip_bytes2 hdr)) else 0)"

definition ip_image :: "Ipv4Header \<Rightarrow> uint8 list" where
  "ip_image hdr = ip_bytes1 hdr @ le_bytes 2 (ip_stored_sum hdr) @ ip_bytes2 hdr"

subsection \<open>Flags and fragment offset\<close>

definition ip_header_ok :: "Ipv4Header \<Rightarrow> bool" where
  "ip_header_ok hdr \<longleftrightarrow> ip_headerSize hdr = 20 \<and> \<not> bit (ip_flags hdr) 2 \<and> ip_fragmentOffset hdr AND 0x7 = 0"

lemma flag_bits: "ip_flags hdr AND DONT_FRAGMENT \<noteq> 0 \<longleftrightarrow> bit (ip_flags hdr) 0" "ip_flags hdr AND MORE_FRAGMENTS \<noteq> 0 \<longleftrightarrow> bit (ip_flags hdr) 1"
proof -
  have m: "(MORE_FRAGMENTS :: 3 word) = push_bit 1 1" by (simp add: MORE_FRAGMENTS_def)
  show "ip_flags hdr AND DONT_FRAGMENT \<noteq> 0 \<longleftrightarrow> bit (ip_flags hdr) 0"
    by (simp add: DONT_FRAGMENT_def and_one_eq mod_2_eq_odd bit_0)
  show "ip_flags hdr AND MORE_FRAGMENTS \<noteq> 0 \<longleftrightarrow> bit (ip_flags hdr) 1"
    unfolding m by (simp add: bit_iff_and_push_bit_not_eq_0)
qed

lemma bit_flagsFrag:
  "bit (flagsFrag hdr) n \<longleftrightarrow> n < 5 \<and> bit (ip_fragmentOffset hdr) (n + 11) \<or> n = 6 \<and> bit (ip_flags hdr) 0 \<or> n = 5 \<and> bit (ip_flags hdr) 1"
proof -
  have m: "(0x1f :: uint32) = mask 5" by (simp add: mask_eq_exp_minus_1)
  have d: "ip_fragmentOffset hdr div 8 = drop_bit 3 (ip_fragmentOffset hdr)" by (simp add: drop_bit_eq_div)
  have f: "bit (ucast (drop_bit 8 (ucast (ip_fragmentOffset hdr div 8) :: uint32) AND 0x1f) :: uint8) n \<longleftrightarrow>
      n < 5 \<and> bit (ip_fragmentOffset hdr) (n + 11)"
    unfolding m d by (auto simp: bit_simps add.commute)
  have p: "bit (push_bit 6 1 :: uint8) n \<longleftrightarrow> n = 6" "bit (push_bit 5 1 :: uint8) n \<longleftrightarrow> n = 5"
    unfolding bit_push_bit_iff bit_1_iff by auto
  show ?thesis
    unfolding flagsFrag_def Let_def flag_bits
    by (cases "bit (ip_flags hdr) 0"; cases "bit (ip_flags hdr) 1"; simp only: if_True if_False bit_or_iff p f; blast)
qed

lemma bit_frag_low: "bit (frag_low hdr) n \<longleftrightarrow> n < 8 \<and> bit (ip_fragmentOffset hdr) (n + 3)"
proof -
  have m: "(0xff :: uint32) = mask 8" by (simp add: mask_eq_exp_minus_1)
  have d: "ip_fragmentOffset hdr div 8 = drop_bit 3 (ip_fragmentOffset hdr)" by (simp add: drop_bit_eq_div)
  show ?thesis unfolding frag_low_def m d by (auto simp: bit_simps add.commute)
qed

lemma offset_back:
  assumes "ip_fragmentOffset hdr AND 0x7 = 0"
  shows "push_bit 3 (push_bit 8 (ucast (flagsFrag hdr AND 0x1f) :: uint16) OR ucast (frag_low hdr)) = ip_fragmentOffset hdr"
proof (rule bit_word_eqI)
  fix n assume n: "n < LENGTH(16)"
  have m: "(0x1f :: uint8) = mask 5" "(0x7 :: uint16) = mask 3" by (simp_all add: mask_eq_exp_minus_1)
  have low: "\<not> bit (ip_fragmentOffset hdr) n" if "n < 3"
  proof -
    have "bit (ip_fragmentOffset hdr AND mask 3) n \<longleftrightarrow> bit (ip_fragmentOffset hdr) n" using that n by (simp add: bit_simps)
    then show ?thesis using assms unfolding m by simp
  qed
  show "bit (push_bit 3 (push_bit 8 (ucast (flagsFrag hdr AND 0x1f) :: uint16) OR ucast (frag_low hdr))) n = bit (ip_fragmentOffset hdr) n"
  proof (cases "n < 3")
    case False
    then obtain k where k: "n = k + 3" by (metis le_Suc_ex not_less add.commute)
    show ?thesis
    proof (cases "k < 8")
      case False
      then obtain j where "k = j + 8" by (metis le_Suc_ex not_less add.commute)
      then show ?thesis using n k unfolding m by (auto simp: bit_simps bit_flagsFrag bit_frag_low add.commute)
    qed (use n k in \<open>unfold m, auto simp: bit_simps bit_flagsFrag bit_frag_low\<close>)
  qed (use low in \<open>simp add: bit_simps\<close>)
qed

lemma flags_back:
  assumes "\<not> bit (ip_flags hdr) 2"
  shows "(if flagsFrag hdr AND push_bit 5 1 \<noteq> 0
      then (if flagsFrag hdr AND push_bit 6 1 \<noteq> 0 then DONT_FRAGMENT else 0) OR MORE_FRAGMENTS
      else (if flagsFrag hdr AND push_bit 6 1 \<noteq> 0 then DONT_FRAGMENT else 0)) = ip_flags hdr"
proof -
  have b: "flagsFrag hdr AND push_bit 5 1 \<noteq> 0 \<longleftrightarrow> bit (ip_flags hdr) 1" "flagsFrag hdr AND push_bit 6 1 \<noteq> 0 \<longleftrightarrow> bit (ip_flags hdr) 0"
    unfolding bit_iff_and_push_bit_not_eq_0 [symmetric] by (simp_all add: bit_flagsFrag)
  have m: "(MORE_FRAGMENTS :: 3 word) = push_bit 1 1" by (simp add: MORE_FRAGMENTS_def)
  show ?thesis
  proof (rule bit_word_eqI)
    fix n assume "n < LENGTH(3)"
    then consider "n = 0" | "n = 1" | "n = 2" by fastforce
    then show "bit (if flagsFrag hdr AND push_bit 5 1 \<noteq> 0
      then (if flagsFrag hdr AND push_bit 6 1 \<noteq> 0 then DONT_FRAGMENT else 0) OR MORE_FRAGMENTS
      else (if flagsFrag hdr AND push_bit 6 1 \<noteq> 0 then DONT_FRAGMENT else 0)) n = bit (ip_flags hdr) n"
      unfolding b m DONT_FRAGMENT_def using assms by cases (auto simp: bit_simps)
  qed
qed

subsection \<open>The IPv4 header as an instance of the contract\<close>

definition ip_back :: "Ipv4Header \<Rightarrow> Ipv4Header \<Rightarrow> Ipv4Header" where
  "ip_back hdr rx =
     rx\<lparr>ip_tos := ip_tos hdr, ip_payloadSize := ip_payloadSize hdr, ip_identification := ip_identification hdr,
        ip_flags := ip_flags hdr, ip_fragmentOffset := ip_fragmentOffset hdr, ip_ttl := ip_ttl hdr,
        ip_protocol := ip_protocol hdr, ip_sum := ip_stored_sum hdr, ip_source := ip_source hdr,
        ip_destination := ip_destination hdr, ip_headerSize := 20,
        ip_goodChecksum := (if ip_calcChecksum rx then ip_checksum 0 (ip_image hdr) = 0 else ip_goodChecksum rx)\<rparr>"

lemma length_ip_image [simp]: "length (ip_image hdr) = 20"
  by (simp add: ip_image_def)

lemma ip_checksum_less: "ip_checksum i xs < 65536"
  by (simp add: ip_checksum_def)

lemma ip_checksum_of_nat: "unat c = ip_checksum i xs \<Longrightarrow> c = of_nat (ip_checksum i xs)" for c :: uint16
  by (metis of_nat_unat ucast_id)

lemma unat_of_checksum: "unat (of_nat (ip_checksum i xs) :: uint16) = ip_checksum i xs"
  unfolding unsigned_of_nat using ip_checksum_less [of i xs] by (simp add: take_bit_nat_eq_self)

lemma of_checksum_0: "(of_nat (ip_checksum i xs) :: uint16) = 0 \<longleftrightarrow> ip_checksum i xs = 0"
  using unat_eq_zero [of "of_nat (ip_checksum i xs) :: uint16"] unfolding unat_of_checksum by (rule sym)

lemma image_verifies:
  assumes "ip_calcChecksum hdr" shows "ip_checksum 0 (ip_image hdr) = 0"
proof -
  have u: "unat (ip_stored_sum hdr) = ip_checksum 0 (ip_bytes1 hdr @ [0, 0] @ ip_bytes2 hdr)"
    unfolding ip_stored_sum_def if_P [OF assms] by (rule unat_of_checksum)
  have e: "even (length (ip_bytes1 hdr))" by simp
  show ?thesis unfolding ip_image_def by (rule checksum_verifies [OF e u])
qed

lemma checksum_of_20:
  assumes "mem_ok h (b # bs) []" "20 \<le> Buffer_GetSize b"
  shows "\<exists>c. CalculateIpChecksum 20 (Buffer_Begin b) h = Some (c, iter_at 20 b) \<and> c = of_nat (ip_checksum 0 (take 20 (contents h b)))"
  using CalculateIpChecksum_ok [OF assms(1), of b 0 20 0] assms(2) ip_checksum_of_nat
  by (auto simp: CalculateIpChecksum_def Begin_iter_at)

lemma Ipv4Header_Serialize_ok:
  assumes ok: "mem_ok h (b # bs) []" and room: "room_front 20 b bs"
  shows "\<exists>h'. Ipv4Header_Serialize hdr (Buffer_Begin b) h = Some h' \<and> mem_ok h' (b # bs) [] \<and>
    contents h' b = ip_image hdr @ drop 20 (contents h b) \<and> others_kept h h' bs"
proof -
  let ?x = "ip_bytes1 hdr @ [0, 0] @ ip_bytes2 hdr"
  obtain d where d: "fits d b" using mem_ok_lookup [OF ok, of b] by auto
  have sz: "20 \<le> Buffer_GetSize b" using room d by (auto simp: room_front_def fits_def Buffer_GetSize_def)
  obtain h1 where h1: "Ipv4Header_fields hdr (iter_at 0 b) h = Some (iter_at (0 + length ?x) b, h1)" "mem_ok h1 (b # bs) []"
      "contents h1 b = overwrite 0 ?x (contents h b)" "others_kept h h1 bs"
    by (rule writesD [OF writes_fields ok room, of 0 hdr]) simp
  have c1: "contents h1 b = ?x @ drop 20 (contents h b)" using h1(3) by (simp add: overwrite_def)
  show ?thesis
  proof (cases "ip_calcChecksum hdr")
    case False
    then have "le_bytes 2 (ip_stored_sum hdr) = [0, 0]" by (simp add: ip_stored_sum_def le_bytes_2 byte_at_def)
    then show ?thesis
      using h1 c1 False by (simp add: Ipv4Header_Serialize_def Begin_iter_at ip_image_def)
  next
    case True
    obtain c where c: "CalculateIpChecksum 20 (Buffer_Begin b) h1 = Some (c, iter_at 20 b)" "c = of_nat (ip_checksum 0 (take 20 (contents h1 b)))"
      using checksum_of_20 [OF h1(2) sz] by blast
    have "take 20 (contents h1 b) = ?x" unfolding c1 by simp
    then have sum: "c = ip_stored_sum hdr" using c(2) True by (simp add: ip_stored_sum_def)
    have next': "Iterator_Next 10 (Buffer_Begin b) = Some (iter_at 10 b)"
      using sz by (simp add: Iterator_Next_def Begin_iter_at Buffer_GetSize_def)
    obtain h2 where h2: "WriteU16 c (iter_at 10 b) h1 = Some (iter_at (10 + length (le_bytes 2 c)) b, h2)" "mem_ok h2 (b # bs) []"
        "contents h2 b = overwrite 10 (le_bytes 2 c) (contents h1 b)" "others_kept h1 h2 bs"
      by (rule writesD [OF writes_WriteU16 h1(2) room, of 10]) simp
    have "contents h2 b = ip_image hdr @ drop 20 (contents h b)"
      using h2(3) sum unfolding c1 by (simp add: overwrite_def ip_image_def)
    moreover have "Ipv4Header_Serialize hdr (Buffer_Begin b) h = Some h2"
      using h1(1) c(1) next' h2(1) True by (simp add: Ipv4Header_Serialize_def Begin_iter_at)
    ultimately show ?thesis using h2(2) others_kept_trans [OF h1(4) h2(4)] by blast
  qed
qed

lemma Ipv4Header_Deserialize_ok:
  assumes ok: "mem_ok h (b # bs) []" and c: "contents h b = ip_image hdr @ rest" and hdr: "ip_header_ok hdr"
  shows "Ipv4Header_Deserialize rx (Buffer_Begin b) h = Some (ip_back hdr rx, 20, h)"
proof -
  have len: "length (contents h b) = Buffer_GetSize b" using length_contents [OF ok, of b] by simp
  then have sz: "20 \<le> Buffer_GetSize b" unfolding c by simp
  let ?S = "ip_stored_sum hdr"
  have C: "contents h b = 0x45 # ip_tos hdr # byte_at 8 (ip_payloadSize hdr + 20) # byte_at 0 (ip_payloadSize hdr + 20) #
      byte_at 8 (ip_identification hdr) # byte_at 0 (ip_identification hdr) # flagsFrag hdr # frag_low hdr # ip_ttl hdr # ip_protocol hdr #
      byte_at 0 ?S # byte_at 8 ?S # be32 (ip_source hdr) @ be32 (ip_destination hdr) @ rest"
    unfolding c by (simp add: ip_image_def ip_bytes1_def ip_bytes2_def be16_def le_bytes_2)
  note r8 = ReadU8_ok [OF ok, of b, simplified] and n16 = ReadNtoh_ok(1) [OF ok, of b, simplified]
    and n32 = ReadNtoh_ok(2) [OF ok, of b, simplified] and r16 = ReadU16_ok [OF ok, of b, simplified]
  have at: "contents h b ! 0 = 0x45" "contents h b ! 1 = ip_tos hdr" "contents h b ! 6 = flagsFrag hdr" "contents h b ! 7 = frag_low hdr"
      "contents h b ! 8 = ip_ttl hdr" "contents h b ! 9 = ip_protocol hdr"
      "take 2 (drop 2 (contents h b)) = [byte_at 8 (ip_payloadSize hdr + 20), byte_at 0 (ip_payloadSize hdr + 20)]"
      "take 2 (drop 4 (contents h b)) = [byte_at 8 (ip_identification hdr), byte_at 0 (ip_identification hdr)]"
      "take 2 (drop 10 (contents h b)) = [byte_at 0 ?S, byte_at 8 ?S]"
      "take 4 (drop 12 (contents h b)) = be32 (ip_source hdr)" "take 4 (drop 16 (contents h b)) = be32 (ip_destination hdr)"
    unfolding C by (simp_all add: be32_def)
  have reads: "ReadU8 (iter_at 0 b) h = Some (0x45, iter_at 1 b)" "ReadU8 (iter_at 1 b) h = Some (ip_tos hdr, iter_at 2 b)"
      "ReadNtohU16 (iter_at 2 b) h = Some (ip_payloadSize hdr + 20, iter_at 4 b)"
      "ReadNtohU16 (iter_at 4 b) h = Some (ip_identification hdr, iter_at 6 b)"
      "ReadU8 (iter_at 6 b) h = Some (flagsFrag hdr, iter_at 7 b)" "Iterator_Prev 1 (iter_at 7 b) = Some (iter_at 6 b)"
      "ReadU8 (iter_at 7 b) h = Some (frag_low hdr, iter_at 8 b)" "ReadU8 (iter_at 8 b) h = Some (ip_ttl hdr, iter_at 9 b)"
      "ReadU8 (iter_at 9 b) h = Some (ip_protocol hdr, iter_at 10 b)" "ReadU16 (iter_at 10 b) h = Some (?S, iter_at 12 b)"
      "ReadNtohU32 (iter_at 12 b) h = Some (ip_source hdr, iter_at 16 b)"
      "ReadNtohU32 (iter_at 16 b) h = Some (ip_destination hdr, iter_at 20 b)"
    using sz r8 [of 0] r8 [of 1] n16 [of 2] n16 [of 4] r8 [of 6] r8 [of 7] r8 [of 8] r8 [of 9] r16 [of 10] n32 [of 12] n32 [of 16]
    unfolding at be32_def by (simp_all add: Iterator_Prev_def iter_at_def Buffer_Begin_def numeral_2_eq_2)
  have words: "drop_bit 4 (0x45 :: uint8) = 4" "ucast (0x45 AND 0x0f :: uint8) * 4 = (20 :: uint16)" by simp_all
  obtain ck where ck: "CalculateIpChecksum 20 (iter_at 0 b) h = Some (ck, iter_at 20 b)" "ck = of_nat (ip_checksum 0 (take 20 (contents h b)))"
    using checksum_of_20 [OF ok sz] by (auto simp: Begin_iter_at)
  have "ck = of_nat (ip_checksum 0 (ip_image hdr))" using ck(2) unfolding c by simp
  then have ck0: "ck = 0 \<longleftrightarrow> ip_checksum 0 (ip_image hdr) = 0" by (simp add: of_checksum_0)
  have fb: "ip_fragmentOffset hdr AND 0x7 = 0" "\<not> bit (ip_flags hdr) 2" using hdr by (simp_all add: ip_header_ok_def)
  have four: "(4 :: uint8) \<noteq> 4 \<longleftrightarrow> False" by simp
  have "Ipv4Header_Deserialize rx (Buffer_Begin b) h =
      (let hdr1 = rx\<lparr>ip_tos := ip_tos hdr, ip_payloadSize := ip_payloadSize hdr + 20 - 20, ip_identification := ip_identification hdr,
          ip_flags := ip_flags hdr, ip_fragmentOffset := ip_fragmentOffset hdr, ip_ttl := ip_ttl hdr, ip_protocol := ip_protocol hdr,
          ip_sum := ?S, ip_source := ip_source hdr, ip_destination := ip_destination hdr, ip_headerSize := 20\<rparr>
       in if ip_calcChecksum rx
          then Some (hdr1\<lparr>ip_goodChecksum := (ck = 0)\<rparr>, Ipv4Header_GetSerializedSize (hdr1\<lparr>ip_goodChecksum := (ck = 0)\<rparr>), h)
          else Some (hdr1, Ipv4Header_GetSerializedSize hdr1, h))"
    by (simp only: Ipv4Header_Deserialize_def Begin_iter_at reads Option.bind_lunit prod.case Let_def words ck(1) four if_False
        offset_back [OF fb(1)] flags_back [OF fb(2)])
  then show ?thesis by (simp add: Let_def ck0 ip_back_def Ipv4Header_GetSerializedSize_def)
qed

interpretation ip4: packet_header Ipv4Header_Serialize Ipv4Header_Deserialize Ipv4Header_GetSerializedSize
  "\<lambda>hdr rest. ip_header_ok hdr" "\<lambda>hdr rest. ip_image hdr" "\<lambda>hdr rx rest. ip_back hdr rx"
proof
  fix hdr rx :: Ipv4Header and h b bs rest
  show "length (ip_image hdr) = Ipv4Header_GetSerializedSize hdr" if "ip_header_ok hdr"
    using that by (simp add: Ipv4Header_GetSerializedSize_def ip_header_ok_def)
  assume ok: "mem_ok h (b # bs) []"
  show "\<exists>h'. Ipv4Header_Serialize hdr (Buffer_Begin b) h = Some h' \<and> mem_ok h' (b # bs) [] \<and>
      contents h' b = ip_image hdr @ drop (Ipv4Header_GetSerializedSize hdr) (contents h b) \<and> others_kept h h' bs"
    if "room_front (Ipv4Header_GetSerializedSize hdr) b bs" "ip_header_ok hdr"
    using that Ipv4Header_Serialize_ok [OF ok, of hdr] by (simp add: Ipv4Header_GetSerializedSize_def ip_header_ok_def)
  show "\<exists>h'. Ipv4Header_Deserialize rx (Buffer_Begin b) h = Some (ip_back hdr rx, Ipv4Header_GetSerializedSize hdr, h') \<and>
      mem_ok h' (b # bs) [] \<and> others_kept h h' (b # bs)"
    if "contents h b = ip_image hdr @ rest" "ip_header_ok hdr"
    using that Ipv4Header_Deserialize_ok [OF ok that] ok by (simp add: Ipv4Header_GetSerializedSize_def ip_header_ok_def)
qed

end
