(* ===== verification/Buffer_Properties.thy ===== *)
theory Buffer_Properties
  imports Buffer_Simulation
begin

text \<open>What holds of all buffers that a sequence of operations leaves, and where appending a buffer goes wrong.\<close>

definition start_memory :: "(nat \<Rightarrow> uint8) \<Rightarrow> Buffer list \<times> buffer_mem" where
  "start_memory junk = ([], buffer_mem_init junk)"

text \<open>\<open>AddAtEnd\<close> of buffer \<open>j\<close> to buffer \<open>i\<close>, and the bytes that \<open>CopyData\<close> then finds in \<open>i\<close>.\<close>

definition append_bytes :: "nat \<Rightarrow> nat \<Rightarrow> Buffer list \<times> buffer_mem \<Rightarrow> uint8 list option" where
  "append_bytes i j s =
     do { (b, h1) \<leftarrow> Buffer_append (fst s ! j) (fst s ! i) (snd s); Buffer_CopyData (Buffer_GetSize b) b h1 }"

lemma run_sim:
  "represents h bs ys \<Longrightarrow> run_steps list_step ops ys = Some ys' \<Longrightarrow>
    \<exists>bs' h'. run_steps buf_step ops (bs, h) = Some (bs', h') \<and> represents h' bs' ys'"
proof (induction ops arbitrary: h bs ys)
  case (Cons op ops)
  obtain ys1 where ys1: "list_step op ys = Some ys1" "run_steps list_step ops ys1 = Some ys'"
    using Cons.prems(2) by (auto simp: bind_eq_Some_conv)
  obtain bs1 h1 where s: "buf_step op (bs, h) = Some (bs1, h1)" "represents h1 bs1 ys1"
    using buf_step_sim [OF Cons.prems(1) ys1(1)] by blast
  then show ?case using Cons.IH [OF s(2) ys1(2)] by simp
qed simp

lemma represents_init: "represents (buffer_mem_init junk) [] []"
  by (simp add: represents_def mem_ok_def buffer_mem_init_def)

lemma represents_copy_out:
  assumes "represents h bs ys" shows "map (\<lambda>b. Buffer_CopyData (Buffer_GetSize b) b h) bs = map Some ys"
proof -
  have "Buffer_CopyData (Buffer_GetSize b) b h = Some (contents h b)" if "b \<in> set bs" for b
    using assms that CopyData_ok [of h bs "[]" b "Buffer_GetSize b"] length_contents [of h bs "[]" b] by (simp add: represents_def)
  then show ?thesis using assms by (auto simp: represents_def)
qed

text \<open>C24: Buffers behave as independent byte lists: any sequence of creating, prepending, appending, removing at either end, copying, fragmenting, filling in the zero area and destroying buffers runs without a failed assertion or an access outside of an allocated block, whatever fresh memory holds, and copies out of every live buffer exactly the bytes that the same operations make of separate lists, although the buffers share and recycle their blocks.\<close>
theorem buffers_independent:
  assumes "run_steps list_step ops [] = Some ys"
  shows "\<exists>bs h. run_steps buf_step ops (start_memory junk) = Some (bs, h) \<and>
    map (\<lambda>b. Buffer_CopyData (Buffer_GetSize b) b h) bs = map Some ys"
  using run_sim [OF represents_init assms] represents_copy_out unfolding start_memory_def by blast

theorem buffers_independent_witness:
  "\<exists>bs h. run_steps buf_step
      [NewBuffer 3, PushFront 0 [1, 2], CopyBuffer 0, PushFront 1 [9], PushBack 0 [7], CutBuffer 0 1 3, DestroyBuffer 1, FillZeroes 1]
      (start_memory (\<lambda>_. 5)) = Some (bs, h) \<and>
    map (\<lambda>b. Buffer_CopyData (Buffer_GetSize b) b h) bs = map Some [[1, 2, 0, 0, 0, 7], [2, 0, 0]]"
  by (rule buffers_independent) (simp add: numeral_3_eq_3)

text \<open>C32: Appending the bytes of another buffer, on the path that counts its zeroes and on the path that copies, leaves the concatenation, if the two buffers do not share a block and no stored bytes follow the zero area of the appended buffer when its zeroes are only counted.\<close>
theorem append_concatenates:
  assumes "run_steps list_step ops [] = Some ys" "run_steps buf_step ops (start_memory junk) = Some s"
    "i < length ys" "j < length ys" "i \<noteq> j" "can_append (snd s) (fst s ! i) (fst s ! j)"
  shows "append_bytes i j s = Some (ys ! i @ ys ! j)"
proof -
  obtain bs h where s: "s = (bs, h)" by (cases s)
  have r: "represents h bs ys"
    using run_sim [OF represents_init assms(1), of junk] assms(2) s by (auto simp: start_memory_def)
  have i: "i < length bs" "j < length bs" using r assms(3,4) by (auto simp: represents_def)
  have "bs ! j \<in> set (others i bs)"
  proof (cases "j < i")
    case True
    then have "bs ! j = take i bs ! j" "j < length (take i bs)" using i by simp_all
    then show ?thesis unfolding others_def by (metis Un_iff nth_mem set_append)
  next
    case False
    then have "bs ! j = drop (Suc i) bs ! (j - Suc i)" "j - Suc i < length (drop (Suc i) bs)" using i assms(5) by simp_all
    then show ?thesis unfolding others_def by (metis Un_iff nth_mem set_append)
  qed
  then obtain u v where rest: "others i bs = u @ bs ! j # v" by (meson split_list)
  define rest where "rest = u @ v"
  have "mset (bs ! i # bs ! j # rest) = mset bs" using rest mset_others(1) [OF i(1)] by (simp add: rest_def)
  then have "mem_ok h (bs ! i # bs ! j # rest) []"
    using r mem_ok_perm [of "bs ! i # bs ! j # rest" bs "[]" "[]" h] by (simp add: represents_def)
  moreover have "contents h (bs ! i) = ys ! i" "contents h (bs ! j) = ys ! j"
    using represents_at(3) [OF r] assms(3,4) by simp_all
  ultimately obtain b' h' where b': "Buffer_append (bs ! j) (bs ! i) h = Some (b', h')" "mem_ok h' (b' # bs ! j # rest) []"
      "contents h' b' = ys ! i @ ys ! j"
    using append_ok [of h "bs ! i" "bs ! j" rest] assms(6) s by auto
  then have "Buffer_CopyData (Buffer_GetSize b') b' h' = Some (ys ! i @ ys ! j)"
    using CopyData_ok [OF b'(2), of b' "Buffer_GetSize b'"] length_contents [OF b'(2), of b'] by simp
  then show ?thesis using b'(1) by (simp add: append_bytes_def s)
qed

theorem append_concatenates_witness:
  "append_bytes 0 1 (the (run_steps buf_step [NewBuffer 2, PushFront 0 [1, 2], NewBuffer 3, PushFront 1 [7]] (start_memory (\<lambda>_. 5)))) =
    Some ([1, 2, 0, 0] @ [7, 0, 0, 0])"
proof -
  let ?ops = "[NewBuffer 2, PushFront 0 [1, 2], NewBuffer 3, PushFront 1 [7]]"
  have list: "run_steps list_step ?ops [] = Some [[1, 2, 0, 0], [7, 0, 0, 0]]"
    by (simp add: numeral_2_eq_2 numeral_3_eq_3)
  obtain bs h where run: "run_steps buf_step ?ops (start_memory (\<lambda>_. 5)) = Some (bs, h)"
    using run_sim [OF represents_init list] unfolding start_memory_def by blast
  have can: "can_append (snd (the (run_steps buf_step ?ops (start_memory (\<lambda>_. 5)))))
      (fst (the (run_steps buf_step ?ops (start_memory (\<lambda>_. 5)))) ! 0) (fst (the (run_steps buf_step ?ops (start_memory (\<lambda>_. 5)))) ! 1)"
    by code_simp
  have "can_append (snd (bs, h)) (fst (bs, h) ! 0) (fst (bs, h) ! 1)" using can unfolding run option.sel .
  then show ?thesis unfolding run option.sel using append_concatenates [OF list run, of 0 1] by simp
qed


text \<open>The bytes that \<open>AddPaddingAtEnd\<close> leaves, after as many were removed.\<close>

definition pad_again :: "nat \<Rightarrow> nat \<Rightarrow> Buffer list \<times> buffer_mem \<Rightarrow> uint8 list option" where
  "pad_again n i s =
     do { (b, h1) \<leftarrow> Buffer_AddAtEnd n (Buffer_RemoveAtEnd n (fst s ! i)) (snd s); Buffer_CopyData (Buffer_GetSize b) b h1 }"

lemma readd_ok:
  assumes "mem_ok h (b # bs) []" "mem_data h (m_data b) = Some d" "m_count d = 1" "n < m_end b - m_zeroAreaEnd b"
  shows "\<exists>b' h'. Buffer_AddAtEnd n (Buffer_RemoveAtEnd n b) h = Some (b', h') \<and> mem_ok h' (b' # bs) [] \<and> contents h' b' = contents h b"
proof -
  have fit: "fits d b" using mem_okD(1) [OF assms(1), of b] assms(2) by auto
  let ?r = "update_max_start (b\<lparr>m_end := m_end b - n\<rparr>)"
  have n: "n < m_end b - m_start b" "n \<le> m_end b" using fit assms(4) by (auto simp: fits_def)
  have r: "Buffer_RemoveAtEnd n b = ?r"
    using n assms(4) by (simp add: Buffer_RemoveAtEnd_def Let_def min_absorb1)
  have ok: "mem_ok h (?r # bs) []" using RemoveAtEnd_ok [OF assms(1), of n] r by simp
  obtain b' h' where a: "Buffer_AddAtEnd n ?r h = Some (b', h')" "mem_ok h' (b' # bs) []"
    using AddAtEnd_ok [OF ok, of n] by blast
  have "GetInternalEnd ?r + n \<le> m_size d"
    using fit assms(4) by (simp add: GetInternalEnd_def fits_def real_end_def add.commute)
  then have "Buffer_AddAtEnd n ?r h =
      Some (update_max_start (?r\<lparr>m_end := m_end b\<rparr>), put_data (m_data b) (d\<lparr>m_dirtyEnd := m_end b\<rparr>) h)"
    using assms(2,3) n(2) by (simp add: Buffer_AddAtEnd_def Let_def set_dirty_def)
  then have "contents h' b' = contents h b" using a(1) assms(2) by (auto simp: contents_def bytes_in_def real_end_def)
  then show ?thesis using a r by auto
qed



end
