(* ===== verification/Header_Properties.thy ===== *)
theory Header_Properties
  imports Ipv4_Header Buffer_Properties
begin

text \<open>Headers that are added to a packet and removed again, and which corrupted headers the checksum finds out.\<close>

subsection \<open>An IPv4 packet on a point-to-point link\<close>

text \<open>
  The sender adds the IPv4 header \<open>hdr\<close> and then the PPP header \<open>pp\<close>; the receiver removes them into its own objects
  \<open>rpp\<close> and \<open>rx\<close> and copies the rest out.
\<close>

definition ip_over_ppp ::
  "Ipv4Header \<Rightarrow> PppHeader \<Rightarrow> PppHeader \<Rightarrow> Ipv4Header \<Rightarrow> Packet \<Rightarrow> buffer_mem \<Rightarrow> (PppHeader \<times> Ipv4Header \<times> uint8 list) option" where
  "ip_over_ppp hdr pp rpp rx p h =
     do { (p, h) \<leftarrow> Packet_AddHeader Ipv4Header_Serialize Ipv4Header_GetSerializedSize hdr p h;
          (p, h) \<leftarrow> Packet_AddHeader PppHeader_Serialize PppHeader_GetSerializedSize pp p h;
          (rpp, _, p, h) \<leftarrow> Packet_RemoveHeader PppHeader_Deserialize rpp p h;
          (rx, _, p, h) \<leftarrow> Packet_RemoveHeader Ipv4Header_Deserialize rx p h;
          xs \<leftarrow> Packet_CopyData (Packet_GetSize p) p h;
          Some (rpp, rx, xs) }"

lemma CopyData_all: "mem_ok h (m_buffer p # bs) [] \<Longrightarrow> Packet_CopyData (Packet_GetSize p) p h = Some (contents h (m_buffer p))"
  using CopyData_ok [of h "m_buffer p # bs" "[]" "m_buffer p" "Buffer_GetSize (m_buffer p)"]
    length_contents [of h "m_buffer p # bs" "[]" "m_buffer p"]
  by (simp add: Packet_CopyData_def Packet_GetSize_def)

lemma ip_over_ppp_ok:
  assumes "mem_ok h (m_buffer p # bs) []" "ip_header_ok hdr"
  shows "ip_over_ppp hdr pp rpp rx p h = Some (rpp\<lparr>ppp_protocol := ppp_protocol pp\<rparr>, ip_back hdr rx, contents h (m_buffer p))"
proof -
  let ?c = "contents h (m_buffer p)"
  obtain p1 h1 where 1: "Packet_AddHeader Ipv4Header_Serialize Ipv4Header_GetSerializedSize hdr p h = Some (p1, h1)"
      "mem_ok h1 (m_buffer p1 # bs) []" "contents h1 (m_buffer p1) = ip_image hdr @ ?c"
    using ip4.AddHeader_ok [OF assms] by blast
  obtain p2 h2 where 2: "Packet_AddHeader PppHeader_Serialize PppHeader_GetSerializedSize pp p1 h1 = Some (p2, h2)"
      "mem_ok h2 (m_buffer p2 # bs) []" "contents h2 (m_buffer p2) = be16 (ppp_protocol pp) @ ip_image hdr @ ?c"
    using ppp.AddHeader_ok [OF 1(2), of pp] 1(3) by auto
  obtain p3 h3 n3 where 3: "Packet_RemoveHeader PppHeader_Deserialize rpp p2 h2 = Some (rpp\<lparr>ppp_protocol := ppp_protocol pp\<rparr>, n3, p3, h3)"
      "mem_ok h3 (m_buffer p3 # bs) []" "contents h3 (m_buffer p3) = ip_image hdr @ ?c"
    using ppp.RemoveHeader_ok [OF 2(2,3), of rpp] by auto
  obtain p4 h4 n4 where 4: "Packet_RemoveHeader Ipv4Header_Deserialize rx p3 h3 = Some (ip_back hdr rx, n4, p4, h4)"
      "mem_ok h4 (m_buffer p4 # bs) []" "contents h4 (m_buffer p4) = ?c"
    using ip4.RemoveHeader_ok [OF 3(2,3) assms(2), of rx] by auto
  show ?thesis unfolding ip_over_ppp_def using 1 2 3 4 CopyData_all [OF 4(2)] by simp
qed

lemma ip_back_fields:
  assumes "ip_header_ok hdr"
  shows "ip_back hdr rx =
    hdr\<lparr>ip_calcChecksum := ip_calcChecksum rx, ip_sum := ip_sum (ip_back hdr rx), ip_goodChecksum := ip_goodChecksum (ip_back hdr rx)\<rparr>"
  using assms by (simp add: ip_back_def ip_header_ok_def)

lemma run_head:
  assumes "run_steps list_step ops [] = Some (y # ys)" "run_steps buf_step ops (start_memory junk) = Some (bs, h)"
  shows "\<exists>b cs. bs = b # cs \<and> mem_ok h (b # cs) [] \<and> contents h b = y"
  using run_sim [OF represents_init assms(1), of junk] assms(2) by (cases bs) (auto simp: start_memory_def represents_def)

text \<open>C29: Headers come back: an IPv4 header that is added to any packet, under a PPP header, is read back by the receiver with every field unchanged, fragment offset and flags included, the payload and the PPP protocol number too, and the checksum is found good if both ends compute it.\<close>
theorem headers_roundtrip:
  assumes "run_steps list_step ops [] = Some (y # ys)" "run_steps buf_step ops (start_memory junk) = Some (bs, h)" "ip_header_ok hdr"
  shows "\<exists>got. ip_over_ppp hdr pp rpp rx \<lparr>m_buffer = hd bs, p_uid = u\<rparr> h = Some (rpp\<lparr>ppp_protocol := ppp_protocol pp\<rparr>, got, y) \<and>
    got = hdr\<lparr>ip_calcChecksum := ip_calcChecksum rx, ip_sum := ip_sum got, ip_goodChecksum := ip_goodChecksum got\<rparr> \<and>
    (ip_calcChecksum hdr \<and> ip_calcChecksum rx \<longrightarrow> ip_goodChecksum got)"
proof -
  obtain b cs where bs: "bs = b # cs" "mem_ok h (b # cs) []" "contents h b = y" using run_head [OF assms(1,2)] by blast
  have "ip_over_ppp hdr pp rpp rx \<lparr>m_buffer = hd bs, p_uid = u\<rparr> h =
      Some (rpp\<lparr>ppp_protocol := ppp_protocol pp\<rparr>, ip_back hdr rx, y)"
    using ip_over_ppp_ok [of h "\<lparr>m_buffer = b, p_uid = u\<rparr>" cs, OF _ assms(3)] bs by simp
  moreover have "ip_goodChecksum (ip_back hdr rx)" if "ip_calcChecksum hdr \<and> ip_calcChecksum rx"
    using that image_verifies by (simp add: ip_back_def)
  ultimately show ?thesis using ip_back_fields [OF assms(3), of rx] by blast
qed

definition example_header :: Ipv4Header where
  "example_header = (SetMoreFragments (SetTtl 64 (SetProtocol 17 (SetIdentification 0x1234 (SetPayloadSize 3 (EnableChecksum
     (SetSource 0x0A010101 (SetDestination 0x0A010102 Ipv4Header_init))))))))\<lparr>ip_fragmentOffset := 0x5DC0\<rparr>"

lemma example_header_facts:
  "ip_header_ok example_header" "example_header\<lparr>ip_calcChecksum := True\<rparr> = example_header" "ip_calcChecksum example_header"
  by code_simp+

theorem headers_roundtrip_witness:
  "\<exists>got. ip_over_ppp example_header \<lparr>ppp_protocol = 0x21\<rparr> \<lparr>ppp_protocol = 0\<rparr> (Ipv4Header_init\<lparr>ip_calcChecksum := True\<rparr>)
      \<lparr>m_buffer = hd (fst (the (run_steps buf_step [NewBuffer 0, PushFront 0 [7, 8, 9]] (start_memory (\<lambda>_. 5))))), p_uid = 0\<rparr>
      (snd (the (run_steps buf_step [NewBuffer 0, PushFront 0 [7, 8, 9]] (start_memory (\<lambda>_. 5))))) =
      Some (\<lparr>ppp_protocol = 0x21\<rparr>, got, [7, 8, 9]) \<and>
    got = example_header\<lparr>ip_sum := ip_sum got, ip_goodChecksum := True\<rparr>"
proof -
  let ?ops = "[NewBuffer 0, PushFront 0 [7, 8, 9]]"
  have list: "run_steps list_step ?ops [] = Some [[7, 8, 9]]" by simp
  obtain bs h where run: "run_steps buf_step ?ops (start_memory (\<lambda>_. 5)) = Some (bs, h)"
    using run_sim [OF represents_init list] unfolding start_memory_def by blast
  show ?thesis
    unfolding run option.sel prod.sel
    using headers_roundtrip [OF list run example_header_facts(1), of "\<lparr>ppp_protocol = 0x21\<rparr>" "\<lparr>ppp_protocol = 0\<rparr>"
        "Ipv4Header_init\<lparr>ip_calcChecksum := True\<rparr>" 0]
    by (auto simp: example_header_facts)
qed

subsection \<open>Corrupted headers\<close>

text \<open>
  The bytes of a packet with the header \<open>hdr\<close>, two of them changed on the way, become a new packet, from which the
  receiver \<open>rx\<close> removes the header.
\<close>

definition corrupted_header_good ::
  "Ipv4Header \<Rightarrow> Ipv4Header \<Rightarrow> nat \<Rightarrow> uint8 \<Rightarrow> uint8 \<Rightarrow> Packet \<Rightarrow> uint32 \<Rightarrow> buffer_mem \<Rightarrow> bool option" where
  "corrupted_header_good hdr rx k x y p m_globalUid h =
     do { (p, h) \<leftarrow> Packet_AddHeader Ipv4Header_Serialize Ipv4Header_GetSerializedSize hdr p h;
          xs \<leftarrow> Packet_CopyData (Packet_GetSize p) p h;
          (q, _, h) \<leftarrow> Packet_bytes (xs[k := x, k + 1 := y]) m_globalUid h;
          (rx, _, _, _) \<leftarrow> Packet_RemoveHeader Ipv4Header_Deserialize rx q h;
          Some (ip_goodChecksum rx) }"

lemma Packet_bytes_ok:
  assumes "mem_ok h bs []"
  shows "\<exists>p h'. Packet_bytes xs u h = Some (p, u + 1, h') \<and> mem_ok h' (m_buffer p # bs) [] \<and> contents h' (m_buffer p) = xs"
proof -
  obtain b h1 where 1: "Buffer_Initialize 0 h = Some (b, h1)" "mem_ok h1 (b # bs) []" "contents h1 b = []"
    using Initialize_ok [OF assms, of 0] by auto
  obtain b2 h2 where 2: "push_front xs b h1 = Some (b2, h2)" "mem_ok h2 (b2 # bs) []" "contents h2 b2 = xs"
    using push_front_ok [OF 1(2), of xs] 1(3) by auto
  then obtain b1 h3 it where "Buffer_AddAtStart (length xs) b h1 = Some (b1, h3)"
      "Iterator_Write xs (Buffer_Begin b1) h3 = Some (it, h2)" "b2 = b1"
    by (auto simp: push_front_def bind_eq_Some_conv)
  then show ?thesis using 1 2 by (simp add: Packet_bytes_def)
qed

lemma Deserialize_any:
  assumes ok: "mem_ok h (b # bs) []" and sz: "20 \<le> Buffer_GetSize b" and first: "contents h b ! 0 = 0x45" and rx: "ip_calcChecksum rx"
  shows "\<exists>hdr. Ipv4Header_Deserialize rx (Buffer_Begin b) h = Some (hdr, 20, h) \<and>
    ip_goodChecksum hdr = (ip_checksum 0 (take 20 (contents h b)) = 0)"
proof -
  note r8 = ReadU8_ok [OF ok, of b, simplified] and n16 = ReadNtoh_ok(1) [OF ok, of b, simplified]
    and n32 = ReadNtoh_ok(2) [OF ok, of b, simplified] and r16 = ReadU16_ok [OF ok, of b, simplified]
  have reads: "ReadU8 (iter_at 0 b) h = Some (0x45, iter_at 1 b)" "ReadU8 (iter_at 1 b) h = Some (contents h b ! 1, iter_at 2 b)"
      "ReadNtohU16 (iter_at 2 b) h = Some (from_be (take 2 (drop 2 (contents h b))), iter_at 4 b)"
      "ReadNtohU16 (iter_at 4 b) h = Some (from_be (take 2 (drop 4 (contents h b))), iter_at 6 b)"
      "ReadU8 (iter_at 6 b) h = Some (contents h b ! 6, iter_at 7 b)" "Iterator_Prev 1 (iter_at 7 b) = Some (iter_at 6 b)"
      "ReadU8 (iter_at 7 b) h = Some (contents h b ! 7, iter_at 8 b)" "ReadU8 (iter_at 8 b) h = Some (contents h b ! 8, iter_at 9 b)"
      "ReadU8 (iter_at 9 b) h = Some (contents h b ! 9, iter_at 10 b)"
      "ReadU16 (iter_at 10 b) h = Some (from_le (take 2 (drop 10 (contents h b))), iter_at 12 b)"
      "ReadNtohU32 (iter_at 12 b) h = Some (from_be (take 4 (drop 12 (contents h b))), iter_at 16 b)"
      "ReadNtohU32 (iter_at 16 b) h = Some (from_be (take 4 (drop 16 (contents h b))), iter_at 20 b)"
    using sz first r8 [of 0] r8 [of 1] n16 [of 2] n16 [of 4] r8 [of 6] r8 [of 7] r8 [of 8] r8 [of 9] r16 [of 10] n32 [of 12] n32 [of 16]
    by (simp_all add: Iterator_Prev_def iter_at_def Buffer_Begin_def numeral_2_eq_2)
  have words: "drop_bit 4 (0x45 :: uint8) = 4" "ucast (0x45 AND 0x0f :: uint8) * 4 = (20 :: uint16)" by simp_all
  have four: "(4 :: uint8) \<noteq> 4 \<longleftrightarrow> False" by simp
  obtain ck where ck: "CalculateIpChecksum 20 (iter_at 0 b) h = Some (ck, iter_at 20 b)" "ck = of_nat (ip_checksum 0 (take 20 (contents h b)))"
    using checksum_of_20 [OF ok sz] by (auto simp: Begin_iter_at)
  show ?thesis
    using rx of_checksum_0 [of 0 "take 20 (contents h b)"] ck(2)
    by (simp only: Ipv4Header_Deserialize_def Begin_iter_at reads Option.bind_lunit prod.case Let_def words ck(1) four if_False if_True)
      (simp add: Ipv4Header_GetSerializedSize_def)
qed

lemma checksum_0: "ip_checksum 0 xs = 0 \<longleftrightarrow> 0 < word_sum xs \<and> word_sum xs mod 65535 = 0"
proof (cases "word_sum xs = 0")
  case False
  have "(word_sum xs - 1) mod 65535 = 65534 \<longleftrightarrow> word_sum xs mod 65535 = 0"
    using False mod_Suc [of "word_sum xs - 1" 65535] by auto
  moreover have "(word_sum xs - 1) mod 65535 < 65535" by simp
  ultimately show ?thesis using False unfolding ip_checksum_def fold_value_def by auto
qed (simp add: ip_checksum_def fold_value_def)

lemma word_sum_update:
  "even k \<Longrightarrow> k + 1 < length xs \<Longrightarrow>
    word_sum (xs[k := x, k + 1 := y]) + (unat (xs ! k) + 256 * unat (xs ! (k + 1))) = word_sum xs + (unat x + 256 * unat y)"
proof (induction xs arbitrary: k rule: word_sum.induct)
  case (3 a b xs)
  show ?case
  proof (cases k)
    case (Suc k')
    then obtain k2 where k: "k = Suc (Suc k2)" "even k2" using 3 by (cases k') auto
    show ?thesis using "3.IH" [of k2] "3.prems" k by simp
  qed simp
qed simp_all

lemma zero_mod_shift: "(a + b) mod n = c mod n \<Longrightarrow> a mod n = 0 \<longleftrightarrow> c mod n = b mod n" for a b c n :: nat
  using mod_eq_dvd_iff_nat [of b "a + b" n] by (auto simp: mod_eq_0_iff_dvd)

lemma corrupted_header_ok:
  assumes ok: "mem_ok h (m_buffer p # bs) []" and hdr: "ip_header_ok hdr" "ip_calcChecksum hdr" and rx: "ip_calcChecksum rx"
    and k: "even k" "2 \<le> k" "k < 20"
  shows "corrupted_header_good hdr rx k x y p u h =
    Some ((unat x + 256 * unat y) mod 65535 = (unat (ip_image hdr ! k) + 256 * unat (ip_image hdr ! (k + 1))) mod 65535)"
proof -
  let ?i = "ip_image hdr" and ?c = "contents h (m_buffer p)"
  let ?j = "?i[k := x, k + 1 := y]"
  obtain p1 h1 where 1: "Packet_AddHeader Ipv4Header_Serialize Ipv4Header_GetSerializedSize hdr p h = Some (p1, h1)"
      "mem_ok h1 (m_buffer p1 # bs) []" "contents h1 (m_buffer p1) = ?i @ ?c"
    using ip4.AddHeader_ok [OF ok hdr(1)] by blast
  have k1: "k + 1 < 20" using k by presburger
  have changed: "(?i @ ?c)[k := x, k + 1 := y] = ?j @ ?c" using k1 by (simp add: list_update_append1)
  obtain q h2 where 2: "Packet_bytes (?j @ ?c) u h1 = Some (q, u + 1, h2)" "mem_ok h2 (m_buffer q # m_buffer p1 # bs) []"
      "contents h2 (m_buffer q) = ?j @ ?c"
    using Packet_bytes_ok [OF 1(2)] by blast
  have sz: "20 \<le> Buffer_GetSize (m_buffer q)" using length_contents [OF 2(2), of "m_buffer q"] 2(3) by simp
  have i0: "?i ! 0 = 0x45" by (simp add: ip_image_def ip_bytes1_def)
  then have first: "?i ! 0 = 0x45" "?j ! 0 = 0x45" using k(2) by simp_all
  obtain got where got: "Ipv4Header_Deserialize rx (Buffer_Begin (m_buffer q)) h2 = Some (got, 20, h2)"
      "ip_goodChecksum got = (ip_checksum 0 ?j = 0)"
    using Deserialize_any [OF 2(2) sz _ rx] 2(3) first by (auto simp: nth_append)
  have positive: "0 < word_sum xs" if f: "xs ! 0 = 0x45" "length xs = 20" for xs
    using f by (cases xs rule: word_sum.cases) auto
  have zero: "word_sum ?i mod 65535 = 0" using image_verifies [OF hdr(2)] by (simp add: checksum_0)
  have "word_sum ?j + (unat (?i ! k) + 256 * unat (?i ! (k + 1))) = word_sum ?i + (unat x + 256 * unat y)"
    using word_sum_update [OF k(1), of ?i x y] k1 by simp
  then have "(word_sum ?j + (unat (?i ! k) + 256 * unat (?i ! (k + 1)))) mod 65535 = (unat x + 256 * unat y) mod 65535"
    using zero mod_add_left_eq [of "word_sum ?i" 65535 "unat x + 256 * unat y"] by simp
  then have "word_sum ?j mod 65535 = 0 \<longleftrightarrow>
      (unat x + 256 * unat y) mod 65535 = (unat (?i ! k) + 256 * unat (?i ! (k + 1))) mod 65535"
    by (rule zero_mod_shift)
  then have "ip_goodChecksum got =
      ((unat x + 256 * unat y) mod 65535 = (unat (?i ! k) + 256 * unat (?i ! (k + 1))) mod 65535)"
    using got(2) positive [OF first(2)] by (simp add: checksum_0)
  then show ?thesis
    using 1 2 got(1) CopyData_all [OF 1(2)] changed by (simp add: corrupted_header_good_def Packet_RemoveHeader_def)
qed

text \<open>C30: The checksum of an IPv4 header finds out every change of one of its 16-bit words after the first, except of a word of ones into a word of zeroes and back: whatever the two bytes are changed into, the receiver holds the header for good exactly if the old and the new word are congruent modulo 65535.\<close>
theorem corruption_detected:
  assumes "run_steps list_step ops [] = Some (y # ys)" "run_steps buf_step ops (start_memory junk) = Some (bs, h)"
    "ip_header_ok hdr" "ip_calcChecksum hdr" "ip_calcChecksum rx" "even k" "2 \<le> k" "k < 20"
  shows "corrupted_header_good hdr rx k a b \<lparr>m_buffer = hd bs, p_uid = u\<rparr> g h =
    Some ((unat a + 256 * unat b) mod 65535 = (unat (ip_image hdr ! k) + 256 * unat (ip_image hdr ! (k + 1))) mod 65535)"
proof -
  obtain c cs where bs: "bs = c # cs" "mem_ok h (c # cs) []" using run_head [OF assms(1,2)] by blast
  then show ?thesis using corrupted_header_ok [of h "\<lparr>m_buffer = c, p_uid = u\<rparr>" cs, OF _ assms(3-8)] by simp
qed

theorem corruption_detected_witness:
  "corrupted_header_good example_header (Ipv4Header_init\<lparr>ip_calcChecksum := True\<rparr>) 8 63 17
      \<lparr>m_buffer = hd (fst (the (run_steps buf_step [NewBuffer 0, PushFront 0 [7, 8, 9]] (start_memory (\<lambda>_. 5))))), p_uid = 0\<rparr> 1
      (snd (the (run_steps buf_step [NewBuffer 0, PushFront 0 [7, 8, 9]] (start_memory (\<lambda>_. 5))))) = Some False"
proof -
  let ?ops = "[NewBuffer 0, PushFront 0 [7, 8, 9]]"
  have list: "run_steps list_step ?ops [] = Some [[7, 8, 9]]" by simp
  obtain bs h where run: "run_steps buf_step ?ops (start_memory (\<lambda>_. 5)) = Some (bs, h)"
    using run_sim [OF represents_init list] unfolding start_memory_def by blast
  have old: "ip_image example_header ! 8 = 64" "ip_image example_header ! 9 = 17"
    by (simp_all add: ip_image_def ip_bytes1_def be16_def example_header_def SetMoreFragments_def SetTtl_def SetProtocol_def
        SetIdentification_def SetPayloadSize_def EnableChecksum_def SetSource_def SetDestination_def)
  have rx: "ip_calcChecksum (Ipv4Header_init\<lparr>ip_calcChecksum := True\<rparr>)" by simp
  show ?thesis
    unfolding run option.sel prod.sel
    using corruption_detected [OF list run example_header_facts(1,3) rx, of 8 63 17 0 1] by (simp add: old)
qed

end
