(* ===== verification/Data_Rate.thy ===== *)
theory Data_Rate
  imports Ns_Time Stream_Numbers
begin

text \<open>
  \<open>DataRate\<close> (\<open>src/src/network/utils/data-rate.cc\<close>): bits per second in 64 bits, parsed from strings such as
  \<open>10Mbps\<close>, and the time to send a number of bytes, computed in 32-bit and Q64.64 arithmetic. A
  \<open>double\<close> is \<^typ>\<open>real\<close>; the cast of a number beyond 64 bits, which C++ leaves undefined, wraps here.
\<close>

subsection \<open>Parsing and printing\<close>

definition uint64_of_double :: "real \<Rightarrow> uint64" where
  "uint64_of_double r = word_of_int \<lfloor>r\<rfloor>"

text \<open>The comparisons of \<open>DoParse\<close> in their order: the unit and the bits per second it stands for.\<close>

definition data_rate_units :: "(string \<times> real) list" where
  "data_rate_units =
     [(''bps'', 1), (''b/s'', 1), (''Bps'', 8), (''B/s'', 8),
      (''kbps'', 1000), (''kb/s'', 1000), (''Kbps'', 1000), (''Kb/s'', 1000),
      (''kBps'', 8000), (''kB/s'', 8000), (''KBps'', 8000), (''KB/s'', 8000),
      (''Kib/s'', 1024), (''KiB/s'', 8192),
      (''Mbps'', 1000000), (''Mb/s'', 1000000), (''MBps'', 8000000), (''MB/s'', 8000000),
      (''Mib/s'', 1048576), (''MiB/s'', 1048576 * 8),
      (''Gbps'', 1000000000), (''Gb/s'', 1000000000), (''GBps'', 8 * 1000000000), (''GB/s'', 8 * 1000000000),
      (''Gib/s'', 1048576 * 1024), (''GiB/s'', 1048576 * 1024 * 8)]"

text \<open>\<^const>\<open>None\<close> where \<open>DoParse\<close> returns false. A number without a unit is read as an integer, clamped to 64 bits.\<close>

definition DataRate_DoParse :: "string \<Rightarrow> uint64 option" where
  "DataRate_DoParse s =
     (if unit_part s \<noteq> []
      then let r = read_double (number_part s) in
        (case map_of data_rate_units (unit_part s) of
           None \<Rightarrow> None
         | Some k \<Rightarrow> Some (uint64_of_double (r * k)))
      else Some (of_nat (min (read_uint s) (2 ^ 64 - 1))))"

definition DataRate_print :: "uint64 \<Rightarrow> string" where
  "DataRate_print r = show_dec (unat r) @ ''bps''"

subsection \<open>Arithmetic\<close>

definition DataRate_plus :: "uint64 \<Rightarrow> uint64 \<Rightarrow> uint64" where
  "DataRate_plus r r' = r + r'"

text \<open>\<^const>\<open>None\<close> is the failed assertion that a rate is not negative.\<close>

definition DataRate_minus :: "uint64 \<Rightarrow> uint64 \<Rightarrow> uint64 option" where
  "DataRate_minus r r' = (if r' \<le> r then Some (r - r') else None)"

definition DataRate_scale :: "uint64 \<Rightarrow> real \<Rightarrow> uint64" where
  "DataRate_scale r x = uint64_of_double (real (unat r) * x)"

definition DataRate_times :: "uint64 \<Rightarrow> uint64 \<Rightarrow> uint64" where
  "DataRate_times r k = r * k"

definition DataRate_bits_in :: "uint64 \<Rightarrow> int64 \<Rightarrow> real" where
  "DataRate_bits_in r t = GetSeconds t * real (unat r)"

subsection \<open>Transmission times\<close>

text \<open>
  The division of two Q64.64 numbers; a rate of \<open>2 ^ 63\<close> or more becomes negative in the signed 128-bit
  representation. \<^const>\<open>None\<close> is the division by a rate of zero.
\<close>

definition CalculateBitsTxTime :: "uint64 \<Rightarrow> uint32 \<Rightarrow> int64 option" where
  "CalculateBitsTxTime m_bps bits =
     map_option Seconds_Q (int64x64_Div (int64x64_of_int (uint bits)) (int64x64_of_int (sint m_bps)))"

text \<open>The product \<open>bytes * 8\<close> is taken in 32 bits.\<close>

definition CalculateBytesTxTime :: "uint64 \<Rightarrow> uint32 \<Rightarrow> int64 option" where
  "CalculateBytesTxTime m_bps bytes = CalculateBitsTxTime m_bps (bytes * 8)"

subsection \<open>Facts\<close>

lemma unit_lookup: "map_of data_rate_units ''bps'' = Some 1" "map_of data_rate_units ''Mbps'' = Some 1000000"
  by (simp_all add: data_rate_units_def)

lemma uint64_of_double_unat: "uint64_of_double (real (unat r)) = r"
proof -
  have "\<lfloor>real (unat r)\<rfloor> = int (unat r)" by (rule floor_of_nat)
  then show ?thesis unfolding uint64_of_double_def by simp
qed

lemma data_rate_roundtrip: "DataRate_DoParse (DataRate_print r) = Some r"
proof -
  have "\<not> digit CHR ''b''" by (simp add: digit_def)
  then have parts: "number_part (DataRate_print r) = show_dec (unat r)" "unit_part (DataRate_print r) = ''bps''"
    using printed_parts [of "CHR ''b''" "unat r" "''ps''"] by (simp_all add: DataRate_print_def)
  show ?thesis
    unfolding DataRate_DoParse_def parts read_double_show_dec Let_def unit_lookup option.case mult_1_right
      uint64_of_double_unat by simp
qed

definition tx_ns :: "int \<Rightarrow> int \<Rightarrow> int" where
  "tx_ns bits bps = (bits * 2 ^ 64 div bps * 10 ^ 9 + 2 ^ 63) div 2 ^ 64"

lemma Seconds_Q_eq:
  assumes "0 \<le> v" "v < 2 ^ 97"
  shows "Seconds_Q v = word_of_int ((v * 10 ^ 9 + 2 ^ 63) div 2 ^ 64)"
proof -
  have "v div 2 ^ 64 * 10 ^ 9 < 2 ^ 64"
  proof -
    have "v div 2 ^ 64 \<le> 2 ^ 97 div 2 ^ 64" using assms(2) by (intro zdiv_mono1) simp_all
    then show ?thesis by simp
  qed
  then have "int64x64_Umul v (10 ^ 9 * 2 ^ 64) = v * 10 ^ 9"
    using Umul_by_int [of v "10 ^ 9"] assms by simp
  moreover have "\<not> v * 10 ^ 9 < 0" using assms(1) by simp
  ultimately show ?thesis
    using assms(1)
    by (simp add: Seconds_Q_def Time_From_def Time_of_int64x64_def PeekInformation_mul int64x64_Mul_def
        int64x64_Round_def Let_def)
qed

lemma sint_small: "uint r < 2 ^ 63 \<Longrightarrow> sint (r :: uint64) = uint r"
  by (subst sint_uint, rule signed_take_bit_int_eq_self) (simp_all add: order.trans [OF _ uint_ge_0])

lemma unat_less_power: "uint w < 2 ^ n \<longleftrightarrow> unat w < 2 ^ n"
  by (simp only: uint_nat of_nat_less_iff [symmetric, where 'a = int] of_nat_power of_nat_numeral)

lemma CalculateBitsTxTime_eq:
  assumes "0 < uint r" "uint r < 2 ^ 63"
  shows "CalculateBitsTxTime r bits = Some (word_of_int (tx_ns (uint bits) (uint r)))"
proof -
  have b: "uint bits < 2 ^ 32" using uint_bounded [of bits] by simp
  have "uint bits < 2 ^ 63" using b by simp
  moreover have "0 < unat r" using assms(1) uint_nat [of r] by linarith
  ultimately have "unat bits < 2 ^ 63" "0 < unat r" "unat r < 2 ^ 63" using assms(2) unat_less_power by blast+
  then have div: "int64x64_Div (int64x64_of_int (uint bits)) (int64x64_of_int (sint r)) = Some (uint bits * 2 ^ 64 div uint r)"
    using Div_integers [of "unat bits" "unat r"] assms by (simp add: sint_small zdiv_int)
  have "uint bits * 2 ^ 64 div uint r \<le> uint bits * 2 ^ 64" using assms(1) zdiv_mono2 [of "uint bits * 2 ^ 64" 1 "uint r"] by simp
  also have "\<dots> < 2 ^ 97" using b by simp
  finally have "Seconds_Q (uint bits * 2 ^ 64 div uint r) =
      word_of_int ((uint bits * 2 ^ 64 div uint r * 10 ^ 9 + 2 ^ 63) div 2 ^ 64)"
    using assms by (intro Seconds_Q_eq) (simp_all add: pos_imp_zdiv_nonneg_iff)
  then show ?thesis unfolding CalculateBitsTxTime_def div by (simp add: tx_ns_def)
qed

lemma tx_ns_bounds:
  assumes "0 \<le> bits" "bits < 2 ^ 32" "0 < bps"
  shows "0 \<le> tx_ns bits bps" "tx_ns bits bps < 2 ^ 63"
    "\<bar>real_of_int (tx_ns bits bps) - of_int bits * 10 ^ 9 / of_int bps\<bar> \<le> 1 / 2 + 10 ^ 9 / 2 ^ 64"
proof -
  let ?q = "bits * 2 ^ 64 div bps"
  let ?n = "?q * 10 ^ 9 + 2 ^ 63"
  have q0: "0 \<le> ?q" using assms by (simp add: pos_imp_zdiv_nonneg_iff)
  have q: "real_of_int ?q \<le> of_int bits * 2 ^ 64 / of_int bps" "of_int bits * 2 ^ 64 / of_int bps - 1 < real_of_int ?q"
    using floor_divide_of_int_eq [of "bits * 2 ^ 64" bps, where 'a = real] assms by simp_all linarith+
  have n: "real_of_int (tx_ns bits bps) \<le> of_int ?n / 2 ^ 64" "of_int ?n / 2 ^ 64 - 1 < real_of_int (tx_ns bits bps)"
    using floor_divide_of_int_eq [of ?n "2 ^ 64", where 'a = real]
    by (simp_all add: tx_ns_def) linarith+
  have split: "real_of_int ?n / 2 ^ 64 = of_int ?q * 10 ^ 9 / 2 ^ 64 + 1 / 2" by (simp add: field_simps)
  define x where "x = real_of_int bits * 10 ^ 9 / real_of_int bps"
  have x: "real_of_int bits * 2 ^ 64 / of_int bps * 10 ^ 9 / 2 ^ 64 = x" by (simp add: x_def)
  have "real_of_int ?q * 10 ^ 9 / 2 ^ 64 \<le> x"
    using q(1) unfolding x [symmetric] by (intro divide_right_mono mult_right_mono) simp_all
  moreover have "x - 10 ^ 9 / 2 ^ 64 < real_of_int ?q * 10 ^ 9 / 2 ^ 64"
  proof -
    have "(real_of_int bits * 2 ^ 64 / of_int bps - 1) * 10 ^ 9 / 2 ^ 64 < real_of_int ?q * 10 ^ 9 / 2 ^ 64"
      using q(2) by (intro divide_strict_right_mono mult_strict_right_mono) simp_all
    then show ?thesis unfolding x [symmetric] by (simp add: left_diff_distrib diff_divide_distrib)
  qed
  moreover define e :: real where e: "e = 10 ^ 9 / 2 ^ 64"
  moreover have e0: "0 \<le> e" by (simp add: e)
  ultimately have bounds: "real_of_int (tx_ns bits bps) \<le> x + 1 / 2" "x - e - 1 / 2 < real_of_int (tx_ns bits bps)"
    using n unfolding split by linarith+
  then show "\<bar>real_of_int (tx_ns bits bps) - of_int bits * 10 ^ 9 / of_int bps\<bar> \<le> 1 / 2 + 10 ^ 9 / 2 ^ 64"
    unfolding x_def [symmetric] abs_le_iff e [symmetric] using e0 by (intro conjI) linarith+
  show "0 \<le> tx_ns bits bps" unfolding tx_ns_def using q0
    by (intro pos_imp_zdiv_nonneg_iff [THEN iffD2]) simp_all
  have "x \<le> real_of_int bits * 10 ^ 9"
    using assms unfolding x_def by (simp add: divide_le_eq mult_le_cancel_left1)
  also have "\<dots> < 2 ^ 32 * 10 ^ 9" using assms(2) by simp
  finally have "real_of_int (tx_ns bits bps) < of_int (2 ^ 63)" using bounds(1) by simp
  then show "tx_ns bits bps < 2 ^ 63" by (simp only: of_int_less_iff)
qed

lemma tx_ns_mono: "bits \<le> bits' \<Longrightarrow> 0 < bps \<Longrightarrow> tx_ns bits bps \<le> tx_ns bits' bps"
  unfolding tx_ns_def by (intro zdiv_mono1 add_right_mono mult_right_mono) simp_all

lemma CalculateBytesTxTime_eq:
  assumes "0 < uint r" "uint r < 2 ^ 63" "uint bytes < 2 ^ 29"
  shows "\<exists>t. CalculateBytesTxTime r bytes = Some t \<and> sint t = tx_ns (uint bytes * 8) (uint r)"
proof -
  have bits: "uint (bytes * 8) = uint bytes * 8" using assms(3) by (simp add: uint_word_ariths)
  have "0 \<le> tx_ns (uint bytes * 8) (uint r)" "tx_ns (uint bytes * 8) (uint r) < 2 ^ 63"
    using assms tx_ns_bounds [of "uint bytes * 8" "uint r"] by simp_all
  then have "sint (word_of_int (tx_ns (uint bytes * 8) (uint r)) :: int64) = tx_ns (uint bytes * 8) (uint r)"
    by (simp add: sint_sbintrunc' signed_take_bit_int_eq_self)
  then show ?thesis unfolding CalculateBytesTxTime_def CalculateBitsTxTime_eq [OF assms(1,2)] bits by blast
qed

text \<open>C38: The time to send a packet: for a rate below 2^63 and fewer than 2^29 bytes, the time that
  \<open>CalculateBytesTxTime\<close> returns is not negative, differs from the exact time by at most half a nanosecond
  and a part in 2^34, is exact where the exact time is a whole number of nanoseconds, and does not decrease when
  the packet grows; at 2^29 bytes the product with 8 wraps to 0 bits, and a rate of 0 has no time.\<close>
theorem transmission_time:
  assumes "0 < uint r" "uint r < 2 ^ 63" "uint bytes < 2 ^ 29"
  shows "(\<exists>t. CalculateBytesTxTime r bytes = Some t \<and> 0 \<le> sint t \<and>
      \<bar>of_int (sint t) - of_int (uint bytes * 8) * 10 ^ 9 / of_int (uint r)\<bar> \<le> (1 / 2 + 10 ^ 9 / 2 ^ 64 :: real) \<and>
      (uint r dvd uint bytes * 8 * 10 ^ 9 \<longrightarrow> sint t = uint bytes * 8 * 10 ^ 9 div uint r) \<and>
      (\<forall>bytes' t'. bytes' \<le> bytes \<and> CalculateBytesTxTime r bytes' = Some t' \<longrightarrow> sint t' \<le> sint t)) \<and>
    CalculateBytesTxTime r (2 ^ 29) = Some 0 \<and> CalculateBytesTxTime 0 bytes = None"
proof -
  let ?bps = "uint r" and ?bits = "uint bytes * 8"
  obtain t where t: "CalculateBytesTxTime r bytes = Some t" "sint t = tx_ns ?bits ?bps"
    using CalculateBytesTxTime_eq [OF assms] by blast
  have b: "0 \<le> tx_ns ?bits ?bps" "\<bar>of_int (tx_ns ?bits ?bps) - of_int ?bits * 10 ^ 9 / of_int ?bps\<bar> \<le> (1 / 2 + 10 ^ 9 / 2 ^ 64 :: real)"
    using assms by (intro tx_ns_bounds; simp)+
  have exact: "tx_ns ?bits ?bps = ?bits * 10 ^ 9 div ?bps" if d: "?bps dvd ?bits * 10 ^ 9"
  proof -
    have "of_int ?bits * 10 ^ 9 / of_int ?bps = (of_int (?bits * 10 ^ 9 div ?bps) :: real)"
      using real_of_int_div [OF d] by simp
    then have "\<bar>real_of_int (tx_ns ?bits ?bps - ?bits * 10 ^ 9 div ?bps)\<bar> < 1" using b(2) by simp
    then show ?thesis by linarith
  qed
  have mono: "sint t' \<le> sint t" if "b \<le> bytes" "CalculateBytesTxTime r b = Some t'" for b t'
  proof -
    have "uint b < 2 ^ 29" "uint b \<le> uint bytes" using that(1) assms(3) by (simp_all add: word_le_def)
    then show ?thesis using CalculateBytesTxTime_eq [OF assms(1,2), of b] that(2) t(2) assms(1)
      by (auto intro!: tx_ns_mono)
  qed
  have "CalculateBytesTxTime r (2 ^ 29) = Some 0"
    unfolding CalculateBytesTxTime_def CalculateBitsTxTime_eq [OF assms(1,2)] by (simp add: tx_ns_def)
  moreover have "CalculateBytesTxTime 0 bytes = None"
    by (simp add: CalculateBytesTxTime_def CalculateBitsTxTime_def int64x64_Div_def int64x64_Udiv_def int64x64_of_int_def)
  ultimately show ?thesis using t(1) b exact mono unfolding t(2) [symmetric] by (intro conjI exI [of _ t] impI allI) (assumption | blast)+
qed

theorem transmission_time_witness:
  "\<exists>t. CalculateBytesTxTime 10000000 1024 = Some t \<and> sint t = 819200"
  using transmission_time [of 10000000 1024] by (auto simp: dvd_def)

end
