(* ===== verification/Point_To_Point.thy ===== *)
theory Point_To_Point
  imports Ipv4_Header Drop_Tail_Queue Data_Rate Map_Scheduler Simulator
begin

text \<open>
  Point-to-point links (\<open>src/src/point-to-point/model\<close>): two \<open>PointToPointNetDevice\<close>s and the
  \<open>PointToPointChannel\<close> between them, as events of the simulator, over the model's queue, packets and buffers. A device
  is a number, its position in \<open>net_devices\<close>. A failing assertion is \<^const>\<open>None\<close>, which sets \<open>link_failed\<close>. The calls
  of trace sources and of the receive callback are kept as lists; a promiscuous callback would see the packet just before
  the receive callback and leave it as it is. A packet object is destroyed where its last pointer goes, when the device that sent it or the caller whose packet was refused lets go of it.
\<close>

subsection \<open>State\<close>

datatype TxMachineState = READY | BUSY

datatype WireState = INITIALIZING | IDLE | TRANSMITTING | PROPAGATING

record WireLink =
  m_state :: WireState
  m_src :: "nat option"
  m_dst :: "nat option"

record PointToPointChannel =
  m_delay :: int64
  m_nDevices :: nat
  m_link :: "WireLink list"

datatype dev_source = MacTx | MacTxDrop | MacPromiscRx | MacRx | PhyTxBegin | PhyTxEnd | PhyTxDrop | PhyRxEnd | PhyRxDrop
  | Sniffer | PromiscSniffer

record 'r PointToPointNetDevice =
  m_txMachineState :: TxMachineState
  m_bps :: uint64
  m_tInterframeGap :: int64
  m_channel :: bool
  m_queue :: "Packet Queue"
  m_receiveErrorModel :: "'r option"
  m_node :: uint32
  m_linkUp :: bool
  m_currentPkt :: "Packet option"
  m_promiscCallback :: bool
  dev_trace :: "(dev_source \<times> Packet) list"
  m_rxCalls :: "(uint16 \<times> Packet) list"

text \<open>\<open>UpperLayer\<close> stands for the events of other components: what they do is what is called before the next event.\<close>

datatype link_event = TransmitComplete nat | Receive nat Packet | UpperLayer

record 'r link_world = "(map_queue, link_event) simulator" +
  net_devices :: "'r PointToPointNetDevice list"
  net_channel :: PointToPointChannel
  net_mem :: buffer_mem
  m_globalUid :: uint32
  link_failed :: bool

text \<open>The virtual \<open>DoCorrupt\<close> of an error model with the state \<open>'r\<close>.\<close>

type_synonym 'r corrupter = "'r \<Rightarrow> Packet \<Rightarrow> bool \<times> 'r"

definition dev :: "nat \<Rightarrow> 'r link_world \<Rightarrow> 'r PointToPointNetDevice" where
  "dev i w = net_devices w ! i"

definition upd_dev :: "nat \<Rightarrow> ('r PointToPointNetDevice \<Rightarrow> 'r PointToPointNetDevice) \<Rightarrow> 'r link_world \<Rightarrow> 'r link_world" where
  "upd_dev i f w = w\<lparr>net_devices := (net_devices w)[i := f (dev i w)]\<rparr>"

definition traced_by :: "nat \<Rightarrow> dev_source list \<Rightarrow> Packet \<Rightarrow> 'r link_world \<Rightarrow> 'r link_world" where
  "traced_by i srcs p = upd_dev i (\<lambda>d. d\<lparr>dev_trace := dev_trace d @ map (\<lambda>s. (s, p)) srcs\<rparr>)"

definition packet_size :: "Packet \<Rightarrow> uint32" where
  "packet_size p = of_nat (Packet_GetSize p)"

definition drop_packet :: "Packet \<Rightarrow> 'r link_world \<Rightarrow> 'r link_world option" where
  "drop_packet p w = do { h \<leftarrow> Buffer_destroy (m_buffer p) (net_mem w); Some (w\<lparr>net_mem := h\<rparr>) }"

subsection \<open>The channel\<close>

definition PointToPointChannel_init :: PointToPointChannel where
  "PointToPointChannel_init =
     \<lparr>m_delay = 0, m_nDevices = 0, m_link = replicate 2 \<lparr>m_state = INITIALIZING, m_src = None, m_dst = None\<rparr>\<rparr>"

definition Channel_Attach :: "nat \<Rightarrow> PointToPointChannel \<Rightarrow> PointToPointChannel option" where
  "Channel_Attach device c =
     (if \<not> m_nDevices c < 2 then None
      else let c1 = c\<lparr>m_link := (m_link c)[m_nDevices c := (m_link c ! m_nDevices c)\<lparr>m_src := Some device\<rparr>],
                      m_nDevices := m_nDevices c + 1\<rparr>
           in Some (if m_nDevices c1 = 2
                    then c1\<lparr>m_link := [(m_link c1 ! 0)\<lparr>m_dst := m_src (m_link c1 ! 1), m_state := IDLE\<rparr>,
                                       (m_link c1 ! 1)\<lparr>m_dst := m_src (m_link c1 ! 0), m_state := IDLE\<rparr>]\<rparr>
                    else c1))"

definition Channel_TransmitStart :: "Packet \<Rightarrow> nat \<Rightarrow> int64 \<Rightarrow> 'r link_world \<Rightarrow> (bool \<times> 'r link_world) option" where
  "Channel_TransmitStart p src txTime w =
     (let c = net_channel w in
      if m_state (m_link c ! 0) = INITIALIZING \<or> m_state (m_link c ! 1) = INITIALIZING then None
      else let wire = (if m_src (m_link c ! 0) = Some src then 0 else 1)
           in do { dst \<leftarrow> m_dst (m_link c ! wire);
                   (q, h) \<leftarrow> Packet_Copy p (net_mem w);
                   let w1 = w\<lparr>net_mem := h\<rparr>;
                   Some (True, DSI_ScheduleWithContext map_ops True (m_node (dev dst w1)) (txTime + m_delay c) (next_impl w1)
                                 (MakeEvent (Call (Receive dst q)) w1)) })"

subsection \<open>The device\<close>

definition PointToPointNetDevice_init :: "'r PointToPointNetDevice" where
  "PointToPointNetDevice_init =
     \<lparr>m_txMachineState = READY, m_bps = 32768, m_tInterframeGap = 0, m_channel = False, m_queue = DropTailQueue_init,
      m_receiveErrorModel = None, m_node = 0, m_linkUp = False, m_currentPkt = None, m_promiscCallback = False,
      dev_trace = [], m_rxCalls = []\<rparr>"

definition SetDataRate :: "uint64 \<Rightarrow> 'r PointToPointNetDevice \<Rightarrow> 'r PointToPointNetDevice" where
  "SetDataRate bps d = d\<lparr>m_bps := bps\<rparr>"

definition SetInterframeGap :: "int64 \<Rightarrow> 'r PointToPointNetDevice \<Rightarrow> 'r PointToPointNetDevice" where
  "SetInterframeGap t d = d\<lparr>m_tInterframeGap := t\<rparr>"

definition SetQueue :: "Packet Queue \<Rightarrow> 'r PointToPointNetDevice \<Rightarrow> 'r PointToPointNetDevice" where
  "SetQueue q d = d\<lparr>m_queue := q\<rparr>"

definition SetReceiveErrorModel :: "'r option \<Rightarrow> 'r PointToPointNetDevice \<Rightarrow> 'r PointToPointNetDevice" where
  "SetReceiveErrorModel em d = d\<lparr>m_receiveErrorModel := em\<rparr>"

definition SetNode :: "uint32 \<Rightarrow> 'r PointToPointNetDevice \<Rightarrow> 'r PointToPointNetDevice" where
  "SetNode node d = d\<lparr>m_node := node\<rparr>"

definition PppToEther :: "uint16 \<Rightarrow> uint16 option" where
  "PppToEther proto = (if proto = 0x0021 then Some 0x0800 else if proto = 0x0057 then Some 0x86DD else None)"

definition EtherToPpp :: "uint16 \<Rightarrow> uint16 option" where
  "EtherToPpp proto = (if proto = 0x0800 then Some 0x0021 else if proto = 0x86DD then Some 0x0057 else None)"

definition Device_AddHeader :: "uint16 \<Rightarrow> Packet \<Rightarrow> buffer_mem \<Rightarrow> (Packet \<times> buffer_mem) option" where
  "Device_AddHeader protocolNumber p h =
     do { proto \<leftarrow> EtherToPpp protocolNumber;
          Packet_AddHeader PppHeader_Serialize PppHeader_GetSerializedSize \<lparr>ppp_protocol = proto\<rparr> p h }"

definition Device_ProcessHeader :: "Packet \<Rightarrow> buffer_mem \<Rightarrow> (uint16 \<times> Packet \<times> buffer_mem) option" where
  "Device_ProcessHeader p h =
     do { (hdr, _, p1, h1) \<leftarrow> Packet_RemoveHeader PppHeader_Deserialize \<lparr>ppp_protocol = 0\<rparr> p h;
          proto \<leftarrow> PppToEther (ppp_protocol hdr);
          Some (proto, p1, h1) }"

definition Device_TransmitStart :: "nat \<Rightarrow> Packet \<Rightarrow> 'r link_world \<Rightarrow> (bool \<times> 'r link_world) option" where
  "Device_TransmitStart i p w =
     (if m_txMachineState (dev i w) \<noteq> READY then None
      else let w1 = traced_by i [PhyTxBegin] p (upd_dev i (\<lambda>d. d\<lparr>m_txMachineState := BUSY, m_currentPkt := Some p\<rparr>) w)
           in do { txTime \<leftarrow> CalculateBytesTxTime (m_bps (dev i w1)) (packet_size p);
                   let txCompleteTime = txTime + m_tInterframeGap (dev i w1);
                   let w2 = Simulator_Schedule map_ops txCompleteTime (TransmitComplete i) w1;
                   (result, w3) \<leftarrow> Channel_TransmitStart p i txTime w2;
                   Some (result, if \<not> result then traced_by i [PhyTxDrop] p w3 else w3) })"

text \<open>\<open>m_currentPkt = nullptr\<close> lets go of the last pointer to the packet that was sent.\<close>

definition Device_TransmitComplete :: "nat \<Rightarrow> 'r link_world \<Rightarrow> 'r link_world option" where
  "Device_TransmitComplete i w =
     (if m_txMachineState (dev i w) \<noteq> BUSY then None
      else do { sent \<leftarrow> m_currentPkt (dev i w);
                let w1 = traced_by i [PhyTxEnd] sent (upd_dev i (\<lambda>d. d\<lparr>m_txMachineState := READY\<rparr>) w);
                w2 \<leftarrow> drop_packet sent (upd_dev i (\<lambda>d. d\<lparr>m_currentPkt := None\<rparr>) w1);
                (p, q) \<leftarrow> Dequeue packet_size (m_queue (dev i w2));
                let w3 = upd_dev i (\<lambda>d. d\<lparr>m_queue := q\<rparr>) w2;
                (case p of
                   None \<Rightarrow> Some w3
                 | Some p \<Rightarrow> map_option snd (Device_TransmitStart i p (traced_by i [Sniffer, PromiscSniffer] p w3))) })"

definition GetRemote :: "nat \<Rightarrow> 'r link_world \<Rightarrow> nat option" where
  "GetRemote i w =
     (let c = net_channel w in
      if m_nDevices c \<noteq> 2 then None
      else if m_src (m_link c ! 0) \<noteq> Some i then m_src (m_link c ! 0)
      else if m_src (m_link c ! 1) \<noteq> Some i then m_src (m_link c ! 1)
      else None)"

definition Device_IsCorrupt :: "'r corrupter \<Rightarrow> nat \<Rightarrow> Packet \<Rightarrow> 'r link_world \<Rightarrow> bool \<times> 'r link_world" where
  "Device_IsCorrupt DoCorrupt i packet w =
     (case m_receiveErrorModel (dev i w) of
        None \<Rightarrow> (False, w)
      | Some em \<Rightarrow> let (bad, em1) = DoCorrupt em packet in (bad, upd_dev i (\<lambda>d. d\<lparr>m_receiveErrorModel := Some em1\<rparr>) w))"

definition Device_Receive :: "'r corrupter \<Rightarrow> nat \<Rightarrow> Packet \<Rightarrow> 'r link_world \<Rightarrow> 'r link_world option" where
  "Device_Receive DoCorrupt i packet w =
     (let (bad, w1) = Device_IsCorrupt DoCorrupt i packet w in
      if bad then drop_packet packet (traced_by i [PhyRxDrop] packet w1)
      else let w2 = traced_by i [Sniffer, PromiscSniffer, PhyRxEnd] packet w1
           in do { (originalPacket, h) \<leftarrow> Packet_Copy packet (net_mem w2);
                   (protocol, packet, h) \<leftarrow> Device_ProcessHeader packet h;
                   _ \<leftarrow> GetRemote i w2;
                   let w3 = w2\<lparr>net_mem := h\<rparr>;
                   let w4 = (if m_promiscCallback (dev i w3) then traced_by i [MacPromiscRx] originalPacket w3 else w3);
                   let w5 = traced_by i [MacRx] originalPacket w4;
                   drop_packet originalPacket (upd_dev i (\<lambda>d. d\<lparr>m_rxCalls := m_rxCalls d @ [(protocol, packet)]\<rparr>) w5) })"

text \<open>The packet is returned because \<open>AddHeader\<close> changes the caller's object.\<close>

definition Device_Send :: "nat \<Rightarrow> Packet \<Rightarrow> uint16 \<Rightarrow> 'r link_world \<Rightarrow> (bool \<times> Packet \<times> 'r link_world) option" where
  "Device_Send i packet protocolNumber w =
     (if \<not> m_linkUp (dev i w) then Some (False, packet, traced_by i [MacTxDrop] packet w)
      else do { (packet, h) \<leftarrow> Device_AddHeader protocolNumber packet (net_mem w);
                let w1 = traced_by i [MacTx] packet (w\<lparr>net_mem := h\<rparr>);
                (ok, q) \<leftarrow> Enqueue packet_size packet (m_queue (dev i w1));
                let w2 = upd_dev i (\<lambda>d. d\<lparr>m_queue := q\<rparr>) w1;
                if \<not> ok then Some (False, packet, traced_by i [MacTxDrop] packet w2)
                else if m_txMachineState (dev i w2) = READY
                then do { (first, q) \<leftarrow> Dequeue packet_size (m_queue (dev i w2));
                          first \<leftarrow> first;
                          let w3 = traced_by i [Sniffer, PromiscSniffer] first (upd_dev i (\<lambda>d. d\<lparr>m_queue := q\<rparr>) w2);
                          (ret, w4) \<leftarrow> Device_TransmitStart i first w3;
                          Some (ret, packet, w4) }
                else Some (True, packet, w2) })"

definition Device_Attach :: "nat \<Rightarrow> 'r link_world \<Rightarrow> 'r link_world option" where
  "Device_Attach i w =
     do { let w1 = upd_dev i (\<lambda>d. d\<lparr>m_channel := True\<rparr>) w;
          c \<leftarrow> Channel_Attach i (net_channel w1);
          Some (upd_dev i (\<lambda>d. d\<lparr>m_linkUp := True\<rparr>) (w1\<lparr>net_channel := c\<rparr>)) }"

subsection \<open>A link of two devices\<close>

text \<open>
  \<open>PointToPointHelper::Install\<close>: two devices with the attributes of the device factory, their queues, one channel with
  the attribute \<open>Delay\<close>, both attached. The devices get the nodes 0 and 1.
\<close>

definition Install :: "uint64 \<Rightarrow> int64 \<Rightarrow> int64 \<Rightarrow> 'r option list \<Rightarrow> (nat \<Rightarrow> uint8) \<Rightarrow> 'r link_world option" where
  "Install bps gap delay ems junk =
     (let new = (\<lambda>i. SetReceiveErrorModel (ems ! i) (SetQueue DropTailQueue_init (SetNode (of_nat i)
                 (SetInterframeGap gap (SetDataRate bps PointToPointNetDevice_init)))));
          w = simulator.extend (DefaultSimulatorImpl_init ([] :: map_queue))
                \<lparr>net_devices = [new 0, new 1], net_channel = PointToPointChannel_init\<lparr>m_delay := delay\<rparr>,
                 net_mem = buffer_mem_init junk, m_globalUid = 0, link_failed = False\<rparr>
      in do { w1 \<leftarrow> Device_Attach 0 w; Device_Attach 1 w1 })"

definition link_handler :: "'r corrupter \<Rightarrow> link_event \<Rightarrow> 'r link_world \<Rightarrow> 'r link_world" where
  "link_handler DoCorrupt e w =
     (case (case e of
              TransmitComplete i \<Rightarrow> Device_TransmitComplete i w
            | Receive i p \<Rightarrow> Device_Receive DoCorrupt i p w
            | UpperLayer \<Rightarrow> Some w) of
        None \<Rightarrow> w\<lparr>link_failed := True\<rparr>
      | Some w1 \<Rightarrow> w1)"

text \<open>
  What the rest of the program does with the link: it sends a new packet with given bytes, sets the attribute
  \<open>Delay\<close>, schedules an event of its own, and the simulator runs the next event. A refused packet is destroyed.
\<close>

datatype link_call = CallSend nat "uint8 list" uint16 | SetDelay int64 | CallLater int64 | RunEvent

definition upper_send :: "nat \<Rightarrow> uint8 list \<Rightarrow> uint16 \<Rightarrow> 'r link_world \<Rightarrow> (bool \<times> 'r link_world) option" where
  "upper_send i xs protocolNumber w =
     do { (p, uid, h) \<leftarrow> Packet_bytes xs (m_globalUid w) (net_mem w);
          (ok, p, w1) \<leftarrow> Device_Send i p protocolNumber (w\<lparr>net_mem := h, m_globalUid := uid\<rparr>);
          if ok then Some (True, w1) else map_option (Pair False) (drop_packet p w1) }"

type_synonym accepted = "(nat \<times> uint16 \<times> uint8 list) list"

fun link_step :: "'r corrupter \<Rightarrow> link_call \<Rightarrow> 'r link_world \<Rightarrow> (accepted \<times> 'r link_world) option" where
  "link_step DoCorrupt (CallSend i xs proto) w =
     do { (ok, w1) \<leftarrow> upper_send i xs proto w; Some (if ok then [(i, proto, xs)] else [], w1) }"
| "link_step DoCorrupt (SetDelay d) w = Some ([], w\<lparr>net_channel := (net_channel w)\<lparr>m_delay := d\<rparr>\<rparr>)"
| "link_step DoCorrupt (CallLater d) w = Some ([], Simulator_Schedule map_ops d UpperLayer w)"
| "link_step DoCorrupt RunEvent w =
     (if DSI_IsFinished map_ops w then None
      else let w1 = DSI_ProcessOneEvent map_ops (link_handler DoCorrupt) w in if link_failed w1 then None else Some ([], w1))"

text \<open>A run, with the packets that \<open>Send\<close> accepted.\<close>

fun link_run :: "'r corrupter \<Rightarrow> link_call list \<Rightarrow> 'r link_world \<Rightarrow> (accepted \<times> 'r link_world) option" where
  "link_run DoCorrupt [] w = Some ([], w)"
| "link_run DoCorrupt (c # cs) w =
     do { (xs, w1) \<leftarrow> link_step DoCorrupt c w; (ys, w2) \<leftarrow> link_run DoCorrupt cs w1; Some (xs @ ys, w2) }"

text \<open>What device \<open>i\<close> handed to its receive callback: the protocol number and the bytes of each packet.\<close>

definition received :: "nat \<Rightarrow> 'r link_world \<Rightarrow> (uint16 \<times> uint8 list option) list" where
  "received i w = map (\<lambda>(proto, p). (proto, Packet_CopyData (Packet_GetSize p) p (net_mem w))) (m_rxCalls (dev i w))"

end
