(* ===== verification/Packet_Store.thy ===== *)
theory Packet_Store
  imports Header_Properties
begin

text \<open>
  Packets in memory: what the operations of a packet do to the bytes of all the packets that are alive, stated over the
  multiset of these packets, so that components can keep them wherever they want.
\<close>

definition pkt_data :: "buffer_mem \<Rightarrow> Packet \<Rightarrow> uint8 list" where
  "pkt_data h p = contents h (m_buffer p)"

definition holds :: "buffer_mem \<Rightarrow> Packet multiset \<Rightarrow> bool" where
  "holds h M \<longleftrightarrow> (\<exists>ps. mset ps = M \<and> mem_ok h (map m_buffer ps) [])"

definition kept :: "buffer_mem \<Rightarrow> buffer_mem \<Rightarrow> Packet multiset \<Rightarrow> bool" where
  "kept h h' M \<longleftrightarrow> (\<forall>q \<in># M. pkt_data h' q = pkt_data h q)"

lemma kept_simps [simp]:
  "kept h h M" "kept h h' {#}" "kept h h' (add_mset p M) \<longleftrightarrow> pkt_data h' p = pkt_data h p \<and> kept h h' M"
  "kept h h' (M + N) \<longleftrightarrow> kept h h' M \<and> kept h h' N"
  by (auto simp: kept_def)

lemma kept_trans: "kept h h1 M \<Longrightarrow> kept h1 h2 M \<Longrightarrow> kept h h2 M"
  by (simp add: kept_def)

lemma kept_others: "others_kept h h' (map m_buffer ps) \<Longrightarrow> kept h h' (mset ps)"
  by (simp add: kept_def others_kept_def pkt_data_def)

lemma holdsD:
  assumes "holds h (add_mset p M)"
  shows "\<exists>ps. mset ps = M \<and> mem_ok h (m_buffer p # map m_buffer ps) []"
proof -
  obtain qs where qs: "mset qs = add_mset p M" "mem_ok h (map m_buffer qs) []" using assms by (auto simp: holds_def)
  obtain ps where ps: "mset ps = M" using ex_mset by blast
  have "mset (map m_buffer qs) = mset (m_buffer p # map m_buffer ps)" using qs(1) ps by simp
  then show ?thesis using qs(2) ps mem_ok_perm [of "map m_buffer qs" "m_buffer p # map m_buffer ps" "[]" "[]" h] by auto
qed

lemma holdsI: "mem_ok h (m_buffer p # map m_buffer ps) [] \<Longrightarrow> holds h (add_mset p (mset ps))"
  unfolding holds_def by (intro exI [of _ "p # ps"]) simp

lemma holdsI2: "mem_ok h (m_buffer p # m_buffer q # map m_buffer ps) [] \<Longrightarrow> holds h (add_mset p (add_mset q (mset ps)))"
  unfolding holds_def by (intro exI [of _ "p # q # ps"]) simp

lemma holds_size: "holds h (add_mset p M) \<Longrightarrow> Packet_GetSize p = length (pkt_data h p)"
  using holdsD [of h p M] length_contents by (fastforce simp: Packet_GetSize_def pkt_data_def)

lemma holds_copy_out: "holds h (add_mset p M) \<Longrightarrow> Packet_CopyData (Packet_GetSize p) p h = Some (pkt_data h p)"
  using holdsD [of h p M] CopyData_all by (fastforce simp: pkt_data_def)

lemma holds_empty: "holds (buffer_mem_init junk) {#}"
  by (simp add: holds_def mem_ok_def buffer_mem_init_def)

lemma holds_Copy:
  assumes "holds h (add_mset p M)"
  shows "\<exists>q h'. Packet_Copy p h = Some (q, h') \<and> holds h' (add_mset q (add_mset p M)) \<and> pkt_data h' q = pkt_data h p \<and>
    p_uid q = p_uid p \<and> kept h h' (add_mset p M)"
proof -
  obtain ps where ps: "mset ps = M" "mem_ok h (m_buffer p # map m_buffer ps) []" using holdsD [OF assms] by blast
  obtain b h' where c: "Buffer_copy (m_buffer p) h = Some (b, h')" "mem_ok h' (b # m_buffer p # map m_buffer ps) []"
      "contents h' b = contents h (m_buffer p)" "others_kept h h' (m_buffer p # map m_buffer ps)"
    using copy_ok [OF ps(2)] by blast
  have k: "kept h h' (add_mset p (mset ps))" using c(4) kept_others [of h h' ps] by (simp add: pkt_data_def)
  have "holds h' (add_mset (p\<lparr>m_buffer := b\<rparr>) (add_mset p (mset ps)))" using c(2) by (intro holdsI2) simp
  moreover have "Packet_Copy p h = Some (p\<lparr>m_buffer := b\<rparr>, h')" using c(1) by (simp add: Packet_Copy_def)
  ultimately show ?thesis using c(3) k ps(1) by (intro exI [of _ "p\<lparr>m_buffer := b\<rparr>"] exI [of _ h']) (simp add: pkt_data_def)
qed

lemma holds_destroy:
  assumes "holds h (add_mset p M)"
  shows "\<exists>h'. Buffer_destroy (m_buffer p) h = Some h' \<and> holds h' M \<and> kept h h' M"
proof -
  obtain ps where ps: "mset ps = M" "mem_ok h (m_buffer p # map m_buffer ps) []" using holdsD [OF assms] by blast
  then show ?thesis using destroy_ok [OF ps(2)] kept_others unfolding holds_def by blast
qed

lemma holds_bytes:
  assumes "holds h M"
  shows "\<exists>p h'. Packet_bytes xs u h = Some (p, u + 1, h') \<and> holds h' (add_mset p M) \<and> pkt_data h' p = xs \<and> kept h h' M"
proof -
  obtain ps where ps: "mset ps = M" "mem_ok h (map m_buffer ps) []" using assms by (auto simp: holds_def)
  obtain b h1 where 1: "Buffer_Initialize 0 h = Some (b, h1)" "mem_ok h1 (b # map m_buffer ps) []" "contents h1 b = []"
      "others_kept h h1 (map m_buffer ps)"
    using Initialize_ok [OF ps(2), of 0] by auto
  obtain b2 h2 where 2: "push_front xs b h1 = Some (b2, h2)" "mem_ok h2 (b2 # map m_buffer ps) []" "contents h2 b2 = xs"
      "others_kept h1 h2 (map m_buffer ps)"
    using push_front_ok [OF 1(2), of xs] 1(3) by auto
  then obtain h3 it where 3: "Buffer_AddAtStart (length xs) b h1 = Some (b2, h3)" "Iterator_Write xs (Buffer_Begin b2) h3 = Some (it, h2)"
    by (auto simp: push_front_def bind_eq_Some_conv)
  let ?p = "\<lparr>m_buffer = b2, p_uid = ucast u\<rparr>"
  have "holds h2 (add_mset ?p (mset ps))" using 2(2) by (intro holdsI) simp
  moreover have "Packet_bytes xs u h = Some (?p, u + 1, h2)" using 1 3 by (simp add: Packet_bytes_def)
  ultimately show ?thesis
    using 2(3) kept_others [OF others_kept_trans [OF 1(4) 2(4)]] ps(1)
    by (intro exI [of _ ?p] exI [of _ h2]) (simp add: pkt_data_def)
qed

lemma holds_AddHeader:
  assumes "holds h (add_mset p M)"
  shows "\<exists>p' h'. Packet_AddHeader PppHeader_Serialize PppHeader_GetSerializedSize hdr p h = Some (p', h') \<and>
    holds h' (add_mset p' M) \<and> pkt_data h' p' = be16 (ppp_protocol hdr) @ pkt_data h p \<and> kept h h' M"
proof -
  obtain ps where ps: "mset ps = M" "mem_ok h (m_buffer p # map m_buffer ps) []" using holdsD [OF assms] by blast
  then show ?thesis
    using ppp.AddHeader_ok [OF ps(2), of hdr] kept_others holdsI by (fastforce simp: pkt_data_def)
qed

lemma holds_RemoveHeader:
  assumes "holds h (add_mset p M)" "pkt_data h p = be16 proto @ rest"
  shows "\<exists>n p' h'. Packet_RemoveHeader PppHeader_Deserialize rx p h = Some (rx\<lparr>ppp_protocol := proto\<rparr>, n, p', h') \<and>
    holds h' (add_mset p' M) \<and> pkt_data h' p' = rest \<and> kept h h' M"
proof -
  obtain ps where ps: "mset ps = M" "mem_ok h (m_buffer p # map m_buffer ps) []" using holdsD [OF assms(1)] by blast
  have "contents h (m_buffer p) = be16 (ppp_protocol \<lparr>ppp_protocol = proto\<rparr>) @ rest" using assms(2) by (simp add: pkt_data_def)
  then show ?thesis
    using ppp.RemoveHeader_ok [OF ps(2), of "\<lparr>ppp_protocol = proto\<rparr>" rest rx] kept_others [of h _ ps] holdsI [of _ _ ps] ps(1)
    by (fastforce simp: pkt_data_def)
qed

end
