(* ===== verification/Agenda.thy ===== *)
theory Agenda
  imports Map_Scheduler Simulator
begin

text \<open>
  The pending events of a simulation on the map scheduler, seen as the list of time stamps and closures in the order
  in which they will run: a new event goes behind those with the same or an earlier time stamp.
\<close>

definition agenda :: "(map_queue, 'e, 'z) simulator_scheme \<Rightarrow> (uint64 \<times> 'e closure) list" where
  "agenda s = map (\<lambda>(k, p). (m_ts k, closure (the (impls s p)))) (sim_events s)"

fun agenda_insert :: "uint64 \<Rightarrow> 'c \<Rightarrow> (uint64 \<times> 'c) list \<Rightarrow> (uint64 \<times> 'c) list" where
  "agenda_insert ts c [] = [(ts, c)]"
| "agenda_insert ts c ((t, d) # xs) = (if ts < t then (ts, c) # (t, d) # xs else (t, d) # agenda_insert ts c xs)"

lemma mset_agenda_insert [simp]: "mset (agenda_insert ts c xs) = add_mset (ts, c) (mset xs)"
  by (induction ts c xs rule: agenda_insert.induct) auto

lemma set_agenda_insert [simp]: "set (agenda_insert ts c xs) = insert (ts, c) (set xs)"
  by (induction ts c xs rule: agenda_insert.induct) auto

lemma length_agenda_insert [simp]: "length (agenda_insert ts c xs) = Suc (length xs)"
  by (induction ts c xs rule: agenda_insert.induct) auto

lemma sorted_agenda_insert: "sorted (map fst xs) \<Longrightarrow> sorted (map fst (agenda_insert ts c xs))"
  by (induction ts c xs rule: agenda_insert.induct) auto

text \<open>What a function collects from the pending events, in their order.\<close>

lemma collect_insert_other: "g (ts, c) = [] \<Longrightarrow> concat (map g (agenda_insert ts c xs)) = concat (map g xs)"
  by (induction ts c xs rule: agenda_insert.induct) auto

lemma collect_insert_mset: "mset (concat (map g (agenda_insert ts c xs))) = mset (concat (map g xs)) + mset (g (ts, c))"
  by (induction ts c xs rule: agenda_insert.induct) auto

lemma collect_insert_last:
  assumes "sorted (map fst xs)" "\<And>x. x \<in> set xs \<Longrightarrow> g x \<noteq> [] \<Longrightarrow> fst x \<le> ts"
  shows "concat (map g (agenda_insert ts c xs)) = concat (map g xs) @ g (ts, c)"
  using assms
proof (induction ts c xs rule: agenda_insert.induct)
  case (2 ts c t d xs)
  show ?case
  proof (cases "ts < t")
    case True
    have "g x = []" if "x \<in> set ((t, d) # xs)" for x
    proof -
      have "t \<le> fst x" using that 2(2) by auto
      then show ?thesis using that True 2(3) [of x] by fastforce
    qed
    then have e: "g (t, d) = []" "concat (map g xs) = []" unfolding concat_eq_Nil_conv by auto
    show ?thesis using True by (simp add: e)
  next
    case False
    have "concat (map g (agenda_insert ts c xs)) = concat (map g xs) @ g (ts, c)"
      using 2(2,3) by (intro "2.IH" [OF False]) auto
    then show ?thesis using False by simp
  qed
qed simp

subsection \<open>Scheduling and starting\<close>

text \<open>The state that a simulation on the map scheduler keeps: nothing is cancelled, and all events are queued by the main thread.\<close>

definition agenda_ok :: "(map_queue, 'e, 'z) simulator_scheme \<Rightarrow> bool" where
  "agenda_ok s \<longleftrightarrow> sim_inv map_invar map_events s \<and> m_eventsWithContextEmpty s \<and> fault s = None \<and> \<not> m_stop s \<and>
     (\<forall>p x. impls s p = Some x \<longrightarrow> \<not> m_cancel x)"

lemma map_Insert_last:
  assumes "\<And>k q. (k, q) \<in> set m \<Longrightarrow> m_uid k < m_uid (key e)"
  shows "map (\<lambda>(k, p). (m_ts k, f p)) (MapScheduler_Insert e m) =
    agenda_insert (m_ts (key e)) (f (impl e)) (map (\<lambda>(k, p). (m_ts k, f p)) m)"
  using assms
proof (induction e m rule: MapScheduler_Insert.induct)
  case (2 ev k p m)
  have u: "m_uid k < m_uid (key ev)" using 2(2) [of k p] by simp
  show ?case
  proof (cases "m_ts (key ev) < m_ts k")
    case True
    then show ?thesis by (simp add: EventKey_less_def)
  next
    case False
    then have l: "\<not> EventKey_less (key ev) k" "EventKey_less k (key ev)" using u by (auto simp: EventKey_less_def)
    have "map (\<lambda>(k, p). (m_ts k, f p)) (MapScheduler_Insert ev m) =
        agenda_insert (m_ts (key ev)) (f (impl ev)) (map (\<lambda>(k, p). (m_ts k, f p)) m)"
      by (rule "2.IH" [OF l]) (use 2(2) in auto)
    then show ?thesis using l False by simp
  qed
qed simp

lemma agenda_times:
  assumes "sim_inv map_invar map_events s"
  shows "sorted (map fst (agenda s))" "\<And>t c. (t, c) \<in> set (agenda s) \<Longrightarrow> m_currentTs s \<le> t"
proof -
  have "sorted_wrt (<) (map (\<lambda>kp. ord_key (fst kp)) (sim_events s))"
    using assms by (simp add: sim_inv_def map_invar_def)
  then have "sorted_wrt (\<lambda>x y. m_ts (fst x) \<le> m_ts (fst y)) (sim_events s)"
    unfolding sorted_wrt_map by (rule sorted_wrt_mono_rel [rotated]) (auto simp: ord_key_def)
  then show "sorted (map fst (agenda s))"
    by (simp add: agenda_def sorted_map sorted_wrt_map case_prod_beta)
  show "m_currentTs s \<le> t" if tc: "(t, c) \<in> set (agenda s)" for t c
  proof -
    obtain k p where "(k, p) \<in> set (sim_events s)" "t = m_ts k" using tc by (auto simp: agenda_def)
    moreover from this have "\<lparr>impl = p, key = k\<rparr> \<in># map_events (sim_events s)" by (force simp: map_events_def entry_event_def)
    ultimately show ?thesis using map_sched.sim_inv_event [OF assms] by (fastforce simp: event_ok_def)
  qed
qed

text \<open>A new event object, put into the queue.\<close>

definition scheduled :: "uint64 \<Rightarrow> uint32 \<Rightarrow> 'e closure \<Rightarrow> (map_queue, 'e, 'z) simulator_scheme \<Rightarrow> (map_queue, 'e, 'z) simulator_scheme" where
  "scheduled ts ctx c s = insert_event map_ops ts ctx (next_impl s) (MakeEvent c s)"

lemma scheduled_ok:
  assumes ok: "agenda_ok s" and ts: "m_currentTs s \<le> ts" and uid: "sim_uid s + 1 \<noteq> 0"
  shows "agenda_ok (scheduled ts ctx c s)" "agenda (scheduled ts ctx c s) = agenda_insert ts c (agenda s)"
proof -
  let ?s = "MakeEvent c s"
  have inv: "sim_inv map_invar map_events s" using ok by (simp add: agenda_ok_def)
  then have m: "sim_inv map_invar map_events ?s" by (rule map_sched.MakeEvent_inv)
  have p: "0 < next_impl s" "impls ?s (next_impl s) \<noteq> None" using inv by (auto simp: sim_inv_def MakeEvent_def)
  have "sim_inv map_invar map_events (scheduled ts ctx c s)"
    unfolding scheduled_def using ts uid by (intro map_sched.insert_event_inv(1) [OF m p]) (simp_all add: MakeEvent_def)
  then show "agenda_ok (scheduled ts ctx c s)"
    using ok by (auto simp: agenda_ok_def scheduled_def insert_event_def MakeEvent_def EventImpl_new_def)
  have known: "m_uid k < sim_uid s \<and> q \<noteq> next_impl s" if "(k, q) \<in> set (sim_events s)" for k q
  proof -
    have "\<lparr>impl = q, key = k\<rparr> \<in># map_events (sim_events s)" using that by (force simp: map_events_def entry_event_def)
    then have e: "event_ok s \<lparr>impl = q, key = k\<rparr>" using map_sched.sim_inv_event [OF inv] by blast
    then have "q < next_impl s" using inv by (auto simp: event_ok_def sim_inv_def)
    then show ?thesis using e by (simp add: event_ok_def)
  qed
  have old: "map (\<lambda>(k, p). (m_ts k, closure (the (impls ?s p)))) (sim_events s) = agenda s"
    unfolding agenda_def using known by (intro map_cong) (auto simp: MakeEvent_def)
  have "agenda (scheduled ts ctx c s) =
      agenda_insert ts (closure (the (impls ?s (next_impl s)))) (map (\<lambda>(k, p). (m_ts k, closure (the (impls ?s p)))) (sim_events s))"
    unfolding agenda_def scheduled_def
    using map_Insert_last [of "sim_events s" "\<lparr>impl = next_impl s, key = \<lparr>m_ts = ts, m_uid = sim_uid s, m_context = ctx\<rparr>\<rparr>"
        "\<lambda>p. closure (the (impls ?s p))"] known
    by (simp add: insert_event_def map_ops_def MakeEvent_def)
  then show "agenda (scheduled ts ctx c s) = agenda_insert ts c (agenda s)"
    unfolding old by (simp add: MakeEvent_def EventImpl_new_def)
qed

lemma Schedule_scheduled:
  "Time_IsPositive d \<Longrightarrow> Simulator_Schedule map_ops d e s = scheduled (d + m_currentTs s) (m_currentContext s) (Call e) s"
  by (simp add: Simulator_Schedule_def DSI_Schedule_def scheduled_def Let_def MakeEvent_def)

lemma ScheduleWithContext_scheduled:
  "DSI_ScheduleWithContext map_ops True ctx d (next_impl s) (MakeEvent (Call e) s) = scheduled (d + m_currentTs s) ctx (Call e) s"
  by (simp add: DSI_ScheduleWithContext_def scheduled_def MakeEvent_def)

lemma scheduled_simps [simp]:
  "m_currentTs (scheduled ts ctx c s) = m_currentTs s" "sim_uid (scheduled ts ctx c s) = sim_uid s + 1"
  "simulator.more (scheduled ts ctx c s) = simulator.more s"
  by (simp_all add: scheduled_def insert_event_def MakeEvent_def)

text \<open>The first event is taken out and its handler runs.\<close>

lemma next_event:
  assumes ok: "agenda_ok s" and ne: "agenda s = (t, c) # rest"
  obtains n q where "op_RemoveNext map_ops (sim_events s) = Some (n, q)" "agenda_ok (start_event n q s)"
    "agenda (start_event n q s) = rest" "m_currentTs (start_event n q s) = t" "m_currentTs s \<le> t"
    "impls s (impl n) \<noteq> None" "closure (the (impls s (impl n))) = c" "m_ts (key n) = t"
proof -
  have inv: "sim_inv map_invar map_events s" using ok by (simp add: agenda_ok_def)
  obtain k p m where m: "sim_events s = (k, p) # m" using ne by (cases "sim_events s") (auto simp: agenda_def)
  obtain n q where nq: "op_RemoveNext map_ops (sim_events s) = Some (n, q)" "sim_inv map_invar map_events (start_event n q s)"
      "impls s (impl n) \<noteq> None" "m_currentTs s \<le> m_ts (key n)"
    by (rule map_sched.start_event_inv [OF inv]) (auto simp: m)
  have n: "n = \<lparr>impl = p, key = k\<rparr>" "q = m" using nq(1) by (simp_all add: map_ops_def MapScheduler_RemoveNext_def m)
  have "agenda_ok (start_event n q s)" using ok nq(2) by (simp add: agenda_ok_def start_event_def)
  moreover have "agenda (start_event n q s) = rest" "m_ts (key n) = t" "closure (the (impls s (impl n))) = c"
    using ne n by (simp_all add: agenda_def start_event_def m)
  ultimately show ?thesis using that nq by (simp add: start_event_def)
qed

lemma RunNext:
  assumes ok: "agenda_ok s" and ne: "agenda s = (t, Call e) # rest"
  obtains n q where "agenda_ok (start_event n q s)" "agenda (start_event n q s) = rest" "m_currentTs (start_event n q s) = t"
    "m_currentTs s \<le> t"
    "m_eventsWithContextEmpty (h e (start_event n q s)) \<longrightarrow> DSI_ProcessOneEvent map_ops h s = h e (start_event n q s)"
proof -
  obtain n q where n: "op_RemoveNext map_ops (sim_events s) = Some (n, q)" "agenda_ok (start_event n q s)"
      "agenda (start_event n q s) = rest" "m_currentTs (start_event n q s) = t" "m_currentTs s \<le> t"
      "impls s (impl n) \<noteq> None" "closure (the (impls s (impl n))) = Call e" "m_ts (key n) = t"
    by (rule next_event [OF ok ne])
  obtain x where x: "impls s (impl n) = Some x" using n(6) by auto
  have nc: "\<not> m_cancel x" using ok x by (auto simp: agenda_ok_def)
  have im: "impls (start_event n q s) = impls s" by (simp add: start_event_def)
  have "DSI_ProcessOneEvent map_ops h s = h e (start_event n q s)" if "m_eventsWithContextEmpty (h e (start_event n q s))"
    using that n(1,5,7,8) x nc im
    by (simp add: DSI_ProcessOneEvent_def EventImpl_Invoke_def Notify_def DSI_ProcessEventsWithContext_def)
  then show ?thesis using that n(2-5) by blast
qed

end
