(* ===== verification/Link_Invariant.thy ===== *)
theory Link_Invariant
  imports Point_To_Point Packet_Store Agenda "HOL-Library.Sublist"
begin

text \<open>
  The invariant of a point-to-point link, over its parts: the clock, the pending events, the devices, the channel and
  the memory. \<open>hand i\<close> are the packets that device \<open>i\<close> has taken from its queue and is about to transmit.
\<close>

subsection \<open>Pending events\<close>

definition tx_of :: "nat \<Rightarrow> uint64 \<times> link_event closure \<Rightarrow> uint64 list" where
  "tx_of i x = (if snd x = Call (TransmitComplete i) then [fst x] else [])"

definition rx_of :: "nat \<Rightarrow> uint64 \<times> link_event closure \<Rightarrow> Packet list" where
  "rx_of j x = (case snd x of Call (Receive k p) \<Rightarrow> if k = j then [p] else [] | _ \<Rightarrow> [])"

definition txs :: "nat \<Rightarrow> (uint64 \<times> link_event closure) list \<Rightarrow> uint64 list" where
  "txs i ag = concat (map (tx_of i) ag)"

definition air :: "nat \<Rightarrow> (uint64 \<times> link_event closure) list \<Rightarrow> Packet list" where
  "air j ag = concat (map (rx_of j) ag)"

lemma tx_of_simps [simp]:
  "tx_of i (t, Call (TransmitComplete k)) = (if k = i then [t] else [])" "tx_of i (t, Call (Receive j p)) = []"
  "tx_of i (t, Call UpperLayer) = []"
  by (simp_all add: tx_of_def)

lemma rx_of_simps [simp]:
  "rx_of j (t, Call (TransmitComplete k)) = []" "rx_of j (t, Call (Receive k p)) = (if k = j then [p] else [])"
  "rx_of j (t, Call UpperLayer) = []"
  by (simp_all add: rx_of_def)

lemma txs_Cons [simp]: "txs i (x # ag) = tx_of i x @ txs i ag"
  by (simp add: txs_def)

lemma air_Cons [simp]: "air j (x # ag) = rx_of j x @ air j ag"
  by (simp add: air_def)

lemma txs_insert: "tx_of i (t, c) = [] \<Longrightarrow> txs i (agenda_insert t c ag) = txs i ag"
  by (simp add: txs_def collect_insert_other)

lemma txs_insert_new:
  assumes "txs i ag = []" shows "txs i (agenda_insert t (Call (TransmitComplete i)) ag) = [t]"
proof -
  have "mset (txs i (agenda_insert t (Call (TransmitComplete i)) ag)) = {#t#}"
    using assms by (simp add: txs_def collect_insert_mset)
  then show ?thesis by simp
qed

lemma air_insert: "rx_of j (t, c) = [] \<Longrightarrow> air j (agenda_insert t c ag) = air j ag"
  by (simp add: air_def collect_insert_other)

lemma air_insert_mset: "mset (air j (agenda_insert t c ag)) = mset (air j ag) + mset (rx_of j (t, c))"
  by (simp add: air_def collect_insert_mset)

lemma air_insert_last:
  "sorted (map fst ag) \<Longrightarrow> (\<And>x. x \<in> set ag \<Longrightarrow> rx_of j x \<noteq> [] \<Longrightarrow> fst x \<le> t) \<Longrightarrow>
    air j (agenda_insert t c ag) = air j ag @ rx_of j (t, c)"
  by (simp add: air_def collect_insert_last)

subsection \<open>Frames\<close>

definition framed :: "uint8 list \<Rightarrow> bool" where
  "framed bs \<longleftrightarrow> (\<exists>c xs. bs = be16 c @ xs \<and> PppToEther c \<noteq> None)"

definition unframe :: "uint8 list \<Rightarrow> uint16 \<times> uint8 list" where
  "unframe bs = (the (PppToEther (from_be (take 2 bs))), drop 2 bs)"

lemma unframe_frame [simp]: "unframe (be16 c @ xs) = (the (PppToEther c), xs)"
  by (simp add: unframe_def be16_def)

lemma ether_ppp: "EtherToPpp x = Some c \<Longrightarrow> PppToEther c = Some x"
  by (auto simp: EtherToPpp_def PppToEther_def split: if_splits)

subsection \<open>The invariant\<close>

abbreviation dev_received :: "buffer_mem \<Rightarrow> 'r PointToPointNetDevice \<Rightarrow> (uint16 \<times> uint8 list) list" where
  "dev_received h d \<equiv> map (\<lambda>(pr, p). (pr, pkt_data h p)) (m_rxCalls d)"

definition dev_packets :: "'r PointToPointNetDevice \<Rightarrow> Packet multiset" where
  "dev_packets d = mset (m_packets (m_queue d)) + (case m_currentPkt d of None \<Rightarrow> {#} | Some p \<Rightarrow> {#p#}) + mset (map snd (m_rxCalls d))"

definition live :: "(nat \<Rightarrow> Packet list) \<Rightarrow> (uint64 \<times> link_event closure) list \<Rightarrow> 'r PointToPointNetDevice list \<Rightarrow> Packet multiset" where
  "live hand ag ds = dev_packets (ds ! 0) + dev_packets (ds ! 1) + mset (air 0 ag) + mset (air 1 ag) + mset (hand 0) + mset (hand 1)"

definition waiting :: "(nat \<Rightarrow> Packet list) \<Rightarrow> (uint64 \<times> link_event closure) list \<Rightarrow> 'r PointToPointNetDevice list \<Rightarrow> nat \<Rightarrow> Packet list" where
  "waiting hand ag ds i = air (1 - i) ag @ hand i @ m_packets (m_queue (ds ! i))"

definition rate_ok :: "uint64 \<Rightarrow> int64 \<Rightarrow> bool" where
  "rate_ok bps gap \<longleftrightarrow> 0 < uint bps \<and> uint bps < 2 ^ 63 \<and> uint gap < 2 ^ 61"

definition dev_ok :: "nat \<Rightarrow> Packet list \<Rightarrow> uint64 list \<Rightarrow> 'r PointToPointNetDevice \<Rightarrow> bool" where
  "dev_ok L ps tx d \<longleftrightarrow> queue_ok packet_size L (m_queue d) \<and> m_linkUp d \<and> rate_ok (m_bps d) (m_tInterframeGap d) \<and>
     list_all (item_legal packet_size L) ps \<and> length ps \<le> 1 \<and>
     (if m_txMachineState d = BUSY then m_currentPkt d \<noteq> None \<and> ps = [] \<and> length tx = 1
      else m_currentPkt d = None \<and> tx = [] \<and> (ps = [] \<longrightarrow> m_packets (m_queue d) = []))"

definition chan_ok :: "PointToPointChannel \<Rightarrow> bool" where
  "chan_ok c \<longleftrightarrow> m_nDevices c = 2 \<and> uint (m_delay c) < 2 ^ 61 \<and>
     m_link c = [\<lparr>m_state = IDLE, m_src = Some 0, m_dst = Some 1\<rparr>, \<lparr>m_state = IDLE, m_src = Some 1, m_dst = Some 0\<rparr>]"

text \<open>
  The messages \<open>msgs\<close> that were accepted are those that arrived, in order if \<open>s\<close>, followed by the waiting ones; what
  arrived was received, except what an error model has dropped.
\<close>

definition delivered ::
  "bool \<Rightarrow> buffer_mem \<Rightarrow> (uint16 \<times> uint8 list) list \<Rightarrow> 'r PointToPointNetDevice \<Rightarrow> Packet list \<Rightarrow> bool" where
  "delivered s h msgs d ps \<longleftrightarrow>
     (\<exists>arr. subseq (dev_received h d) arr \<and> (m_receiveErrorModel d = None \<longrightarrow> arr = dev_received h d) \<and>
        mset (arr @ map (\<lambda>p. unframe (pkt_data h p)) ps) = mset msgs \<and> (s \<longrightarrow> arr @ map (\<lambda>p. unframe (pkt_data h p)) ps = msgs))"

definition horizon :: "uint64 \<Rightarrow> uint64 list \<Rightarrow> uint64" where
  "horizon now tx = (case tx of [] \<Rightarrow> now | t # _ \<Rightarrow> t)"

definition in_order :: "uint64 \<Rightarrow> int64 \<Rightarrow> (uint64 \<times> link_event closure) list \<Rightarrow> nat \<Rightarrow> bool" where
  "in_order now delay ag i \<longleftrightarrow>
     (\<forall>x \<in> set ag. rx_of (1 - i) x \<noteq> [] \<longrightarrow> uint (fst x) \<le> uint (horizon now (txs i ag)) + uint delay)"

definition known :: "link_event closure \<Rightarrow> bool" where
  "known c = (case c of SimulatorStop \<Rightarrow> False | Call (TransmitComplete i) \<Rightarrow> i < 2 | Call (Receive j p) \<Rightarrow> j < 2 | Call UpperLayer \<Rightarrow> True)"

definition sent :: "nat \<Rightarrow> accepted \<Rightarrow> (uint16 \<times> uint8 list) list" where
  "sent i acc = map snd (filter (\<lambda>x. fst x = i) acc)"

definition link_ok where
  "link_ok hand L s acc now ag ds ch h \<longleftrightarrow>
     length ds = 2 \<and> chan_ok ch \<and> list_all (known \<circ> snd) ag \<and> holds h (live hand ag ds) \<and>
     (\<forall>i < 2. dev_ok L (hand i) (txs i ag) (ds ! i) \<and>
        (\<forall>p \<in> set (waiting hand ag ds i). framed (pkt_data h p)) \<and>
        delivered s h (sent i acc) (ds ! (1 - i)) (waiting hand ag ds i) \<and> (s \<longrightarrow> in_order now (m_delay ch) ag i))"

definition link_inv where
  "link_inv hand L s acc w \<longleftrightarrow> agenda_ok w \<and> \<not> link_failed w \<and>
     link_ok hand L s acc (m_currentTs w) (agenda w) (net_devices w) (net_channel w) (net_mem w)"

abbreviation nobody :: "nat \<Rightarrow> Packet list" where
  "nobody \<equiv> \<lambda>_. []"

definition only :: "nat \<Rightarrow> Packet \<Rightarrow> nat \<Rightarrow> Packet list" where
  "only i p = (\<lambda>k. if k = i then [p] else [])"

lemma only_simps [simp]: "only i p i = [p]" "k \<noteq> i \<Longrightarrow> only i p k = []"
  by (simp_all add: only_def)

lemma delivered_kept:
  assumes "delivered s h msgs d ps" "kept h h' (mset (map snd (m_rxCalls d)) + mset ps)"
    "m_rxCalls d' = m_rxCalls d" "m_receiveErrorModel d' = m_receiveErrorModel d"
  shows "delivered s h' msgs d' ps"
proof -
  have p: "pkt_data h' p = pkt_data h p" if "p \<in> set ps \<or> p \<in> snd ` set (m_rxCalls d)" for p
    using assms(2) that by (auto simp: kept_def)
  have "dev_received h' d' = dev_received h d" unfolding assms(3)
  proof (rule map_cong [OF refl])
    fix x assume "x \<in> set (m_rxCalls d)"
    then have "pkt_data h' (snd x) = pkt_data h (snd x)" by (intro p) simp
    then show "(\<lambda>(pr, p). (pr, pkt_data h' p)) x = (\<lambda>(pr, p). (pr, pkt_data h p)) x" by (simp add: case_prod_beta)
  qed
  moreover have "map (\<lambda>p. unframe (pkt_data h' p)) ps = map (\<lambda>p. unframe (pkt_data h p)) ps" using p by auto
  ultimately show ?thesis using assms(1) unfolding delivered_def assms(4) by (simp only:)
qed

text \<open>The two directions.\<close>

lemma two_cases: "i < 2 \<Longrightarrow> i = 0 \<or> i = (1 :: nat)"
  by auto

lemma live_update:
  assumes "length ds = 2" "i < 2"
  shows "live hand ag (ds[i := d]) + dev_packets (ds ! i) = live hand ag ds + dev_packets d"
  using assms two_cases [OF assms(2)] by (auto simp: live_def ac_simps)

end
