(* ===== verification/Link_Ok.thy ===== *)
theory Link_Ok
  imports Link_Invariant
begin

text \<open>The invariant over the parts of a link, for each of the changes that the devices make.\<close>

lemma link_okD:
  assumes "link_ok hand L s acc now ag ds ch h" "i < 2"
  shows "dev_ok L (hand i) (txs i ag) (ds ! i)" "\<And>p. p \<in> set (waiting hand ag ds i) \<Longrightarrow> framed (pkt_data h p)"
    "delivered s h (sent i acc) (ds ! (1 - i)) (waiting hand ag ds i)" "s \<Longrightarrow> in_order now (m_delay ch) ag i"
  using assms by (auto simp: link_ok_def)

lemma link_ok_parts:
  assumes "link_ok hand L s acc now ag ds ch h"
  shows "length ds = 2" "chan_ok ch" "list_all (known \<circ> snd) ag" "holds h (live hand ag ds)"
  using assms by (auto simp: link_ok_def)

lemma link_okI:
  assumes "length ds = 2" "chan_ok ch" "list_all (known \<circ> snd) ag" "holds h (live hand ag ds)"
    and "\<And>k. k < 2 \<Longrightarrow> dev_ok L (hand k) (txs k ag) (ds ! k)"
    and "\<And>k p. k < 2 \<Longrightarrow> p \<in> set (waiting hand ag ds k) \<Longrightarrow> framed (pkt_data h p)"
    and "\<And>k. k < 2 \<Longrightarrow> delivered s h (sent k acc) (ds ! (1 - k)) (waiting hand ag ds k)"
    and "\<And>k. k < 2 \<Longrightarrow> s \<Longrightarrow> in_order now (m_delay ch) ag k"
  shows "link_ok hand L s acc now ag ds ch h"
  using assms by (auto simp: link_ok_def)

lemma in_live:
  assumes "i < 2"
  shows "p \<in> set (waiting hand ag ds i) \<Longrightarrow> p \<in># live hand ag ds" "(pr, p) \<in> set (m_rxCalls (ds ! i)) \<Longrightarrow> p \<in># live hand ag ds"
  using two_cases [OF assms] by (force simp: live_def waiting_def dev_packets_def)+

lemma kept_direction:
  assumes "kept h h' (live hand ag ds)" "i < 2"
  shows "kept h h' (mset (map snd (m_rxCalls (ds ! (1 - i)))) + mset (waiting hand ag ds i))"
proof -
  have "1 - i < 2" using assms(2) by simp
  then show ?thesis using assms in_live(1) [OF assms(2), of _ hand ag ds] in_live(2) [of "1 - i" _ _ ds hand ag] by (fastforce simp: kept_def)
qed

lemma waiting_framed_kept:
  assumes "kept h h' (live hand ag ds)" "i < 2" "p \<in> set (waiting hand ag ds i)"
  shows "pkt_data h' p = pkt_data h p"
  using assms in_live(1) [of i p hand ag ds] by (auto simp: kept_def)

lemma live_only: "i < 2 \<Longrightarrow> live (only i p) ag ds = add_mset p (live nobody ag ds)"
  using two_cases [of i] by (auto simp: live_def)

lemma waiting_only: "waiting (only i p) ag ds i = air (1 - i) ag @ p # m_packets (m_queue (ds ! i))"
  "k \<noteq> i \<Longrightarrow> waiting (only i p) ag ds k = waiting nobody ag ds k"
  by (simp_all add: waiting_def)

subsection \<open>Starting a transmission\<close>

lemma link_ok_transmit:
  assumes ok: "link_ok (only i p) L s acc now ag ds ch h" and i: "i < 2" and ag: "sorted (map fst ag)"
    and tc: "uint tc = uint tx + uint gap + uint now" and rc: "uint rc = uint tx + uint (m_delay ch) + uint now"
    and d1: "m_txMachineState d1 = BUSY" "m_currentPkt d1 = Some p" "m_queue d1 = m_queue (ds ! i)" "m_linkUp d1 = m_linkUp (ds ! i)"
      "m_bps d1 = m_bps (ds ! i)" "m_tInterframeGap d1 = m_tInterframeGap (ds ! i)" "m_rxCalls d1 = m_rxCalls (ds ! i)"
      "m_receiveErrorModel d1 = m_receiveErrorModel (ds ! i)"
    and h: "holds h' (add_mset q (add_mset p (live nobody ag ds)))" "pkt_data h' q = pkt_data h p" "kept h h' (add_mset p (live nobody ag ds))"
  shows "link_ok nobody L s acc now (agenda_insert rc (Call (Receive (1 - i) q)) (agenda_insert tc (Call (TransmitComplete i)) ag))
    (ds[i := d1]) ch h'" (is "link_ok _ _ _ _ _ ?ag ?ds _ _")
proof -
  let ?j = "1 - i" and ?ag1 = "agenda_insert tc (Call (TransmitComplete i)) ag"
  have j: "?j < 2" "?j \<noteq> i" "1 - ?j = i" using two_cases [OF i] by auto
  note D = link_okD [OF ok] and P = link_ok_parts [OF ok]
  have len: "length ds = 2" by (rule P)
  have dev: "dev_ok L [p] (txs i ag) (ds ! i)" using D(1) [OF i] by simp
  then have idle: "m_currentPkt (ds ! i) = None" "txs i ag = []"
    by (auto simp: dev_ok_def split: if_splits)
  have tx: "txs i ?ag = [tc]" "txs ?j ?ag = txs ?j ag"
    using txs_insert_new [OF idle(2)] j by (simp_all add: txs_insert)
  have air: "air i ?ag = air i ag" "mset (air ?j ?ag) = add_mset q (mset (air ?j ag))"
    using j by (simp_all add: air_insert air_insert_mset)
  have early: "uint (fst x) \<le> uint now + uint (m_delay ch)" if "s" "x \<in> set ag" "rx_of ?j x \<noteq> []" for x
    using D(4) [OF i that(1)] that(2,3) idle(2) by (auto simp: in_order_def horizon_def)
  have air_s: "air ?j ?ag = air ?j ag @ [q]" if "s"
  proof -
    have "air ?j ?ag = air ?j ?ag1 @ rx_of ?j (rc, Call (Receive ?j q))"
    proof (rule air_insert_last)
      show "sorted (map fst ?ag1)" using ag by (rule sorted_agenda_insert)
      show "fst x \<le> rc" if "x \<in> set ?ag1" "rx_of ?j x \<noteq> []" for x
      proof -
        have "x \<in> set ag" using that by auto
        then have "uint (fst x) \<le> uint now + uint (m_delay ch)" using early \<open>s\<close> that(2) by blast
        moreover have "0 \<le> uint tx" by simp
        ultimately show ?thesis unfolding word_le_def rc by linarith
      qed
    qed
    then show ?thesis by (simp add: air_insert)
  qed
  have keep: "kept h h' (live (only i p) ag ds)" using h(3) live_only [OF i] by metis
  have other: "?ds ! i = d1" "?ds ! ?j = ds ! ?j" using len i j by simp_all
  have queue: "m_packets (m_queue d1) = m_packets (m_queue (ds ! i))" using d1(3) by simp
  have wait: "waiting nobody ?ag ?ds ?j = waiting (only i p) ag ds ?j"
    "waiting nobody ?ag ?ds i = air ?j ?ag @ m_packets (m_queue (ds ! i))"
    using other queue j air(1) by (simp_all add: waiting_def)
  have same: "pkt_data h' x = pkt_data h x" if "x \<in> set (waiting (only i p) ag ds k)" "k < 2" for x k
    using waiting_framed_kept [OF keep that(2,1)] .
  have eqs: "map (\<lambda>p. unframe (pkt_data h' p)) (air ?j ag) = map (\<lambda>p. unframe (pkt_data h p)) (air ?j ag)"
    "map (\<lambda>p. unframe (pkt_data h' p)) (m_packets (m_queue (ds ! i))) = map (\<lambda>p. unframe (pkt_data h p)) (m_packets (m_queue (ds ! i)))"
    using same [OF _ i] by (auto simp: waiting_only)
  show ?thesis
  proof (rule link_okI)
    show "length ?ds = 2" "chan_ok ch" using P by simp_all
    show "list_all (known \<circ> snd) ?ag" using P(3) i j(1) by (auto simp: list_all_iff known_def)
    have "live nobody ?ag ?ds = add_mset q (add_mset p (live nobody ag ds))"
      using two_cases [OF i] len air d1 idle by (auto simp: live_def dev_packets_def)
    then show "holds h' (live nobody ?ag ?ds)" using h(1) by simp
  next
    fix k :: nat assume k: "k < 2"
    have ki: "k = i \<or> k = ?j" using k i by auto
    show "dev_ok L [] (txs k ?ag) (?ds ! k)"
      using ki
    proof
      assume "k = i"
      then show ?thesis using dev d1 other tx by (auto simp: dev_ok_def)
    next
      assume "k = ?j"
      then show ?thesis using D(1) [OF j(1)] other tx j by simp
    qed
    show "framed (pkt_data h' x)" if x: "x \<in> set (waiting nobody ?ag ?ds k)" for x
      using ki
    proof
      assume "k = ?j"
      then show ?thesis using x wait D(2) [OF j(1)] same [OF _ j(1)] by simp
    next
      assume ki: "k = i"
      then have "x \<in># mset (air ?j ?ag) \<or> x \<in> set (m_packets (m_queue (ds ! i)))" using x wait by auto
      then have "x = q \<or> x \<in> set (waiting (only i p) ag ds i)" unfolding air by (auto simp: waiting_only)
      moreover have "framed (pkt_data h p)" by (rule D(2) [OF i]) (simp add: waiting_only)
      ultimately show ?thesis
      proof (elim disjE)
        assume w: "x \<in> set (waiting (only i p) ag ds i)"
        show ?thesis unfolding same [OF w i] by (rule D(2) [OF i w])
      qed (simp add: h(2))
    qed
    show "delivered s h' (sent k acc) (?ds ! (1 - k)) (waiting nobody ?ag ?ds k)"
      using ki
    proof
      assume kj: "k = ?j"
      have "delivered s h' (sent ?j acc) d1 (waiting (only i p) ag ds ?j)"
        using delivered_kept [OF D(3) [OF j(1)] kept_direction [OF keep j(1)]] d1(7,8) j(3) by simp
      then show ?thesis using kj j(3) other wait by simp
    next
      assume ki: "k = i"
      obtain arr where arr: "subseq (dev_received h (ds ! ?j)) arr" "m_receiveErrorModel (ds ! ?j) = None \<longrightarrow> arr = dev_received h (ds ! ?j)"
          "mset (arr @ map (\<lambda>p. unframe (pkt_data h p)) (waiting (only i p) ag ds i)) = mset (sent i acc)"
          "s \<longrightarrow> arr @ map (\<lambda>p. unframe (pkt_data h p)) (waiting (only i p) ag ds i) = sent i acc"
        using D(3) [OF i] unfolding delivered_def by (elim exE conjE) (rule that; assumption)
      have rec: "dev_received h' (ds ! ?j) = dev_received h (ds ! ?j)"
      proof (rule map_cong [OF refl])
        fix x assume "x \<in> set (m_rxCalls (ds ! ?j))"
        then have "snd x \<in># live (only i p) ag ds" using in_live(2) [OF j(1), of "fst x" "snd x"] by simp
        then have "pkt_data h' (snd x) = pkt_data h (snd x)" using keep by (simp add: kept_def)
        then show "(\<lambda>(pr, p). (pr, pkt_data h' p)) x = (\<lambda>(pr, p). (pr, pkt_data h p)) x" by (simp add: case_prod_beta)
      qed
      have m: "mset (map (\<lambda>p. unframe (pkt_data h' p)) (waiting nobody ?ag ?ds i)) =
          mset (map (\<lambda>p. unframe (pkt_data h p)) (waiting (only i p) ag ds i))"
      proof -
        have "mset (map (\<lambda>p. unframe (pkt_data h' p)) (air ?j ?ag)) =
            add_mset (unframe (pkt_data h p)) (mset (map (\<lambda>p. unframe (pkt_data h p)) (air ?j ag)))"
          unfolding eqs(1) [symmetric] mset_map air by (simp add: h(2))
        then show ?thesis unfolding wait waiting_only map_append mset_append list.map eqs(2) by simp
      qed
      have l: "map (\<lambda>p. unframe (pkt_data h' p)) (waiting nobody ?ag ?ds i) =
          map (\<lambda>p. unframe (pkt_data h p)) (waiting (only i p) ag ds i)" if "s"
        unfolding wait waiting_only air_s [OF that] using eqs h(2) by simp
      have "delivered s h' (sent i acc) (ds ! ?j) (waiting nobody ?ag ?ds i)"
        unfolding delivered_def rec using arr m l by (intro exI [of _ arr]) simp
      then show ?thesis using ki other by simp
    qed
    show "in_order now (m_delay ch) ?ag k" if s: "s"
      using ki
    proof
      assume kj: "k = ?j"
      show ?thesis using D(4) [OF j(1) s] kj tx j by (auto simp: in_order_def)
    next
      assume ki: "k = i"
      have "uint (fst x) \<le> uint tc + uint (m_delay ch)" if x: "x \<in> set ?ag" "rx_of ?j x \<noteq> []" for x
      proof -
        have "x \<in> set ag \<or> fst x = rc" using x by auto
        then have "uint (fst x) \<le> uint tx + uint (m_delay ch) + uint now"
        proof
          assume "x \<in> set ag"
          then have "uint (fst x) \<le> uint now + uint (m_delay ch)" using early [OF s _ x(2)] by blast
          moreover have "0 \<le> uint tx" by simp
          ultimately show ?thesis by linarith
        qed (use rc in simp)
        moreover have "0 \<le> uint gap" by simp
        ultimately show ?thesis unfolding tc by linarith
      qed
      then show ?thesis using ki tx by (simp add: in_order_def horizon_def)
    qed
  qed
qed

subsection \<open>The other changes\<close>

text \<open>One device changes, its received packets and error model apart; the waiting packets stay where they are, or one is accepted.\<close>

lemma link_ok_device:
  assumes ok: "link_ok nobody L s acc now ag ds ch h" and i: "i < 2"
    and hand: "\<And>k. k \<noteq> i \<Longrightarrow> hand k = []"
    and d1: "dev_ok L (hand i) (txs i ag) d1" "m_rxCalls d1 = m_rxCalls (ds ! i)" "m_receiveErrorModel d1 = m_receiveErrorModel (ds ! i)"
    and wait: "hand i @ m_packets (m_queue d1) = m_packets (m_queue (ds ! i)) @ new"
    and new: "\<And>p. p \<in> set new \<Longrightarrow> framed (pkt_data h' p)"
      "sent i acc' = sent i acc @ map (\<lambda>p. unframe (pkt_data h' p)) new" "sent (1 - i) acc' = sent (1 - i) acc"
    and h: "holds h' (live hand ag (ds[i := d1]))" "kept h h' (live nobody ag ds)"
  shows "link_ok hand L s acc' now ag (ds[i := d1]) ch h'" (is "link_ok _ _ _ _ _ _ ?ds _ _")
proof -
  let ?j = "1 - i"
  have j: "?j < 2" "?j \<noteq> i" "1 - ?j = i" using two_cases [OF i] by auto
  note D = link_okD [OF ok] and P = link_ok_parts [OF ok]
  have len: "length ds = 2" by (rule P)
  have other: "?ds ! i = d1" "?ds ! ?j = ds ! ?j" using len i j by simp_all
  have w: "waiting hand ag ?ds i = waiting nobody ag ds i @ new" "waiting hand ag ?ds ?j = waiting nobody ag ds ?j"
    using other wait hand [OF j(2)] by (simp_all add: waiting_def)
  note same = waiting_framed_kept [OF h(2)] and dir = kept_direction [OF h(2)]
  show ?thesis
  proof (rule link_okI)
    show "length ?ds = 2" "chan_ok ch" "list_all (known \<circ> snd) ag" "holds h' (live hand ag ?ds)" using P h by simp_all
  next
    fix k :: nat assume k: "k < 2"
    have ki: "k = i \<or> k = ?j" using k i by auto
    show "dev_ok L (hand k) (txs k ag) (?ds ! k)"
      using ki D(1) [OF j(1)] d1(1) other hand [OF j(2)] by auto
    show "framed (pkt_data h' x)" if x: "x \<in> set (waiting hand ag ?ds k)" for x
      using ki
    proof
      assume "k = ?j"
      then have "x \<in> set (waiting nobody ag ds ?j)" using x w by simp
      then show ?thesis using D(2) [OF j(1)] same [OF j(1), of x] by simp
    next
      assume "k = i"
      then consider "x \<in> set (waiting nobody ag ds i)" | "x \<in> set new" using x w by auto
      then show ?thesis using D(2) [OF i] same [OF i, of x] new(1) by cases simp_all
    qed
    show "delivered s h' (sent k acc') (?ds ! (1 - k)) (waiting hand ag ?ds k)"
      using ki
    proof
      assume kj: "k = ?j"
      have "delivered s h' (sent ?j acc) d1 (waiting nobody ag ds ?j)"
        using delivered_kept [OF D(3) [OF j(1)] dir [OF j(1)]] d1(2,3) j(3) by simp
      then show ?thesis using kj j(3) other w new(3) by simp
    next
      assume ki: "k = i"
      have "delivered s h' (sent i acc) (ds ! ?j) (waiting nobody ag ds i)"
        using delivered_kept [OF D(3) [OF i] dir [OF i]] by simp
      then have "delivered s h' (sent i acc') (ds ! ?j) (waiting nobody ag ds i @ new)"
        unfolding delivered_def new(2) by (elim exE conjE) (rule exI, auto)
      then show ?thesis using ki other w by simp
    qed
    show "in_order now (m_delay ch) ag k" if s: "s" using D(4) [OF k s] .
  qed
qed

text \<open>An event is taken out, or another component's event is added.\<close>

lemma in_order_sub:
  assumes "in_order now delay ag i" "now \<le> now'" "set ag' \<subseteq> insert (t, Call UpperLayer) (set ag)" "txs i ag' = txs i ag" "uint delay \<le> uint delay'"
  shows "in_order now' delay' ag' i"
proof -
  have "uint (horizon now (txs i ag)) \<le> uint (horizon now' (txs i ag))"
    using assms(2) by (cases "txs i ag") (simp_all add: horizon_def word_le_def)
  then show ?thesis using assms unfolding in_order_def by fastforce
qed

lemma link_ok_agenda:
  assumes ok: "link_ok hand L s acc now ag ds ch h" and ag': "\<And>i. txs i ag' = txs i ag" "\<And>i. air i ag' = air i ag"
      "set ag' \<subseteq> insert (t, Call UpperLayer) (set ag)"
    and now: "now \<le> now'" and ch': "chan_ok ch'" "s \<Longrightarrow> uint (m_delay ch) \<le> uint (m_delay ch')"
  shows "link_ok hand L s acc now' ag' ds ch' h"
proof -
  note D = link_okD [OF ok] and P = link_ok_parts [OF ok]
  have same: "live hand ag' ds = live hand ag ds" "\<And>k. waiting hand ag' ds k = waiting hand ag ds k"
    using ag' by (simp_all add: live_def waiting_def)
  have "known (snd x)" if "x \<in> set ag'" for x
  proof -
    have "x = (t, Call UpperLayer) \<or> x \<in> set ag" using ag'(3) that by auto
    then show ?thesis using P(3) by (auto simp: list_all_iff known_def)
  qed
  then have kn: "list_all (known \<circ> snd) ag'" by (simp add: list_all_iff)
  show ?thesis
  proof (rule link_okI)
    show "length ds = 2" "chan_ok ch'" "list_all (known \<circ> snd) ag'" "holds h (live hand ag' ds)" using P ch'(1) kn same by simp_all
    show "in_order now' (m_delay ch') ag' k" if "k < 2" "s" for k
      using in_order_sub [OF D(4) [OF that] now ag'(3) ag'(1) ch'(2) [OF that(2)]] .
  qed (simp_all only: same ag' D)
qed

subsection \<open>The events of the link\<close>

lemma in_order_tail:
  assumes "in_order now delay ((t, c) # rest) i" "now \<le> t" "tx_of i (t, c) = [] \<or> txs i rest = []"
  shows "in_order t delay rest i"
proof -
  have "uint (horizon now (txs i ((t, c) # rest))) \<le> uint (horizon t (txs i rest))"
    using assms(2,3) by (cases "txs i rest") (auto simp: horizon_def word_le_def tx_of_def)
  then show ?thesis using assms(1) unfolding in_order_def by fastforce
qed

lemma link_ok_complete:
  assumes ok: "link_ok nobody L s acc now ((t, Call (TransmitComplete i)) # rest) ds ch h" and now: "now \<le> t"
    and hand: "\<And>k. k \<noteq> i \<Longrightarrow> hand k = []"
    and d1: "dev_ok L (hand i) [] d1" "m_rxCalls d1 = m_rxCalls (ds ! i)" "m_receiveErrorModel d1 = m_receiveErrorModel (ds ! i)"
    and wait: "hand i @ m_packets (m_queue d1) = m_packets (m_queue (ds ! i))"
    and h: "holds h' (live hand rest (ds[i := d1]))" "kept h h' (live hand rest (ds[i := d1]))"
  shows "i < 2" "m_txMachineState (ds ! i) = BUSY" "link_ok hand L s acc t rest (ds[i := d1]) ch h'" (is "link_ok _ _ _ _ _ _ ?ds _ _")
proof -
  let ?j = "1 - i" and ?ag = "(t, Call (TransmitComplete i)) # rest"
  note D = link_okD [OF ok] and P = link_ok_parts [OF ok]
  show i: "i < 2" using P(3) by (simp add: known_def)
  have j: "?j < 2" "?j \<noteq> i" "1 - ?j = i" using two_cases [OF i] by auto
  show "m_txMachineState (ds ! i) = BUSY" using D(1) [OF i] by (auto simp: dev_ok_def split: if_splits)
  have tx: "txs i rest = []" using D(1) [OF i] by (auto simp: dev_ok_def split: if_splits)
  have len: "length ds = 2" by (rule P)
  have other: "?ds ! i = d1" "?ds ! ?j = ds ! ?j" using len i j by simp_all
  have w: "waiting nobody ?ag ds i = waiting hand rest ?ds i" "waiting nobody ?ag ds ?j = waiting hand rest ?ds ?j"
    using other wait hand [OF j(2)] by (simp_all add: waiting_def)
  note same = waiting_framed_kept [OF h(2)] and dir = kept_direction [OF h(2)]
  have rx: "m_rxCalls (?ds ! (1 - k)) = m_rxCalls (ds ! (1 - k))" "m_receiveErrorModel (?ds ! (1 - k)) = m_receiveErrorModel (ds ! (1 - k))"
    if "k = i \<or> k = ?j" for k using that other d1(2,3) j(3) by auto
  show "link_ok hand L s acc t rest ?ds ch h'"
  proof (rule link_okI)
    show "length ?ds = 2" "chan_ok ch" "list_all (known \<circ> snd) rest" "holds h' (live hand rest ?ds)" using P h by simp_all
  next
    fix k :: nat assume k: "k < 2"
    have ki: "k = i \<or> k = ?j" using k i by auto
    have wk: "waiting nobody ?ag ds k = waiting hand rest ?ds k" using ki w by auto
    show "dev_ok L (hand k) (txs k rest) (?ds ! k)"
      using ki D(1) [OF j(1)] d1(1) other hand [OF j(2)] tx j(2) by auto
    show "framed (pkt_data h' x)" if x: "x \<in> set (waiting hand rest ?ds k)" for x
      using D(2) [OF k, of x] same [OF k x] x wk by simp
    have "kept h h' (mset (map snd (m_rxCalls (ds ! (1 - k)))) + mset (waiting hand rest ?ds k))"
      using dir [OF k] rx(1) [OF ki] by simp
    moreover have "delivered s h (sent k acc) (ds ! (1 - k)) (waiting hand rest ?ds k)" using D(3) [OF k] wk by simp
    ultimately show "delivered s h' (sent k acc) (?ds ! (1 - k)) (waiting hand rest ?ds k)"
      using delivered_kept rx [OF ki] by blast
    show "in_order t (m_delay ch) rest k" if s: "s"
      by (rule in_order_tail [OF D(4) [OF k s] now]) (use ki tx j(2) in auto)
  qed
qed

lemma link_ok_receive:
  assumes ok: "link_ok nobody L s acc now ((t, Call (Receive j p)) # rest) ds ch h" and now: "now \<le> t"
    and d1: "\<And>tx. dev_ok L [] tx (ds ! j) \<Longrightarrow> dev_ok L [] tx d1" "m_packets (m_queue d1) = m_packets (m_queue (ds ! j))"
      "m_rxCalls d1 = m_rxCalls (ds ! j) @ got" "m_receiveErrorModel d1 = None \<longleftrightarrow> m_receiveErrorModel (ds ! j) = None"
    and got: "map (\<lambda>(pr, p). (pr, pkt_data h' p)) got = [unframe (pkt_data h p)] \<or> got = [] \<and> m_receiveErrorModel (ds ! j) \<noteq> None"
    and h: "holds h' (live nobody rest (ds[j := d1]))" "kept h h' (live nobody rest ds)"
  shows "link_ok nobody L s acc t rest (ds[j := d1]) ch h'" (is "link_ok _ _ _ _ _ _ ?ds _ _")
proof -
  let ?i = "1 - j" and ?ag = "(t, Call (Receive j p)) # rest"
  note D = link_okD [OF ok] and P = link_ok_parts [OF ok]
  have j: "j < 2" using P(3) by (simp add: known_def)
  have i: "?i < 2" "?i \<noteq> j" "1 - ?i = j" using two_cases [OF j] by auto
  have len: "length ds = 2" by (rule P)
  have other: "?ds ! j = d1" "?ds ! ?i = ds ! ?i" using len i j by simp_all
  have w: "waiting nobody ?ag ds ?i = p # waiting nobody rest ?ds ?i" "waiting nobody ?ag ds j = waiting nobody rest ?ds j"
    using other d1(2) i by (simp_all add: waiting_def)
  have wr: "waiting nobody rest ?ds k = waiting nobody rest ds k" if "k < 2" for k
    using other d1(2) that i j by (cases "k = j") (auto simp: waiting_def)
  have same: "pkt_data h' x = pkt_data h x" if "x \<in> set (waiting nobody rest ?ds k)" "k < 2" for x k
    using waiting_framed_kept [OF h(2) that(2)] that wr by simp
  have dir: "kept h h' (mset (map snd (m_rxCalls (ds ! (1 - k)))) + mset (waiting nobody rest ?ds k))" if "k < 2" for k
    using kept_direction [OF h(2) that] wr [OF that] by simp
  show ?thesis
  proof (rule link_okI)
    show "length ?ds = 2" "chan_ok ch" "list_all (known \<circ> snd) rest" "holds h' (live nobody rest ?ds)" using P h by simp_all
  next
    fix k :: nat assume k: "k < 2"
    have ki: "k = j \<or> k = ?i" using k j by auto
    show "dev_ok L [] (txs k rest) (?ds ! k)"
      using ki D(1) [OF i(1)] d1(1) D(1) [OF j] other by auto
    show "framed (pkt_data h' x)" if x: "x \<in> set (waiting nobody rest ?ds k)" for x
      using D(2) [OF k, of x] same [OF x k] x w ki by auto
    show "delivered s h' (sent k acc) (?ds ! (1 - k)) (waiting nobody rest ?ds k)"
      using ki
    proof
      assume kj: "k = j"
      have "delivered s h (sent j acc) (ds ! ?i) (waiting nobody rest ?ds j)" using D(3) [OF j] w by simp
      then show ?thesis using delivered_kept [OF _ dir [OF j]] kj other by simp
    next
      assume ki: "k = ?i"
      let ?f = "\<lambda>p. unframe (pkt_data h p)" and ?W = "waiting nobody rest ?ds ?i"
      obtain arr where arr: "subseq (dev_received h (ds ! j)) arr" "m_receiveErrorModel (ds ! j) = None \<longrightarrow> arr = dev_received h (ds ! j)"
          "mset (arr @ map ?f (p # ?W)) = mset (sent ?i acc)" "s \<longrightarrow> arr @ map ?f (p # ?W) = sent ?i acc"
        using D(3) [OF i(1)] unfolding delivered_def i(3) w(1) by (elim exE conjE) (rule that; assumption)
      have rec: "dev_received h' d1 = dev_received h (ds ! j) @ map (\<lambda>(pr, p). (pr, pkt_data h' p)) got"
      proof -
        have "dev_received h' (ds ! j) = dev_received h (ds ! j)"
        proof (rule map_cong [OF refl])
          fix x assume x: "x \<in> set (m_rxCalls (ds ! j))"
          have "kept h h' (mset (map snd (m_rxCalls (ds ! j))))" using dir [OF i(1)] i(3) by simp
          then have "pkt_data h' (snd x) = pkt_data h (snd x)" using x by (simp add: kept_def)
          then show "(\<lambda>(pr, p). (pr, pkt_data h' p)) x = (\<lambda>(pr, p). (pr, pkt_data h p)) x" by (simp add: case_prod_beta)
        qed
        then show ?thesis unfolding d1(3) by simp
      qed
      have W: "map (\<lambda>p. unframe (pkt_data h' p)) ?W = map ?f ?W" using same [OF _ i(1)] by simp
      have "delivered s h' (sent ?i acc) d1 ?W"
        unfolding delivered_def W rec
      proof (intro exI conjI)
        show "subseq (dev_received h (ds ! j) @ map (\<lambda>(pr, p). (pr, pkt_data h' p)) got) (arr @ [?f p])"
          using got arr(1) by (auto intro: list_emb_append_mono)
        show "m_receiveErrorModel d1 = None \<longrightarrow> arr @ [?f p] = dev_received h (ds ! j) @ map (\<lambda>(pr, p). (pr, pkt_data h' p)) got"
          using got arr(2) d1(4) by auto
        show "mset ((arr @ [?f p]) @ map ?f ?W) = mset (sent ?i acc)" using arr(3) by simp
        show "s \<longrightarrow> (arr @ [?f p]) @ map ?f ?W = sent ?i acc" using arr(4) by simp
      qed
      then show ?thesis using ki i(3) other by simp
    qed
    show "in_order t (m_delay ch) rest k" if s: "s"
      by (rule in_order_tail [OF D(4) [OF k s] now]) simp
  qed
qed

end
