(* ===== verification/Link_Steps.thy ===== *)
theory Link_Steps
  imports Link_Ok
begin

text \<open>Every step of a point-to-point link keeps the invariant, and no assertion of the devices and the channel fails.\<close>

subsection \<open>The simulator under the link\<close>

lemma agenda_upd [simp]:
  "agenda (w\<lparr>net_devices := ds\<rparr>) = agenda w" "agenda (w\<lparr>net_channel := c\<rparr>) = agenda w" "agenda (w\<lparr>net_mem := h\<rparr>) = agenda w"
  "agenda (w\<lparr>m_globalUid := u\<rparr>) = agenda w"
  by (simp_all add: agenda_def)

lemma agenda_ok_upd [simp]:
  "agenda_ok (w\<lparr>net_devices := ds\<rparr>) = agenda_ok w" "agenda_ok (w\<lparr>net_channel := c\<rparr>) = agenda_ok w"
  "agenda_ok (w\<lparr>net_mem := h\<rparr>) = agenda_ok w" "agenda_ok (w\<lparr>m_globalUid := u\<rparr>) = agenda_ok w"
  by (simp_all add: agenda_ok_def sim_inv_def event_ok_def)

lemma scheduled_link [simp]:
  "net_devices (scheduled t x c w) = net_devices w" "net_channel (scheduled t x c w) = net_channel w"
  "net_mem (scheduled t x c w) = net_mem w" "link_failed (scheduled t x c w) = link_failed w"
  by (simp_all add: scheduled_def insert_event_def MakeEvent_def)

lemma start_link [simp]:
  "net_devices (start_event n q w) = net_devices w" "net_channel (start_event n q w) = net_channel w"
  "net_mem (start_event n q w) = net_mem w" "link_failed (start_event n q w) = link_failed w" "sim_uid (start_event n q w) = sim_uid w"
  by (simp_all add: start_event_def)

text \<open>Room for two more events and for their time stamps.\<close>

definition link_room :: "'r link_world \<Rightarrow> bool" where
  "link_room w \<longleftrightarrow> unat (sim_uid w) + 2 < 2 ^ 32 \<and> uint (m_currentTs w) < 2 ^ 62"

lemma uid_room: "unat u + n < 2 ^ 32 \<Longrightarrow> 0 < n \<Longrightarrow> u + 1 \<noteq> 0 \<and> unat (u + 1) = unat u + 1" for u :: uint32
proof -
  assume a: "unat u + n < 2 ^ 32" "0 < n"
  then have "unat u + unat (1 :: uint32) < 2 ^ LENGTH(32)" by simp
  then have "unat (u + 1) = unat u + unat (1 :: uint32)" by (simp only: unat_add_lem)
  then have "unat (u + 1) = unat u + 1" by simp
  then show ?thesis by (metis Suc_eq_plus1 nat.distinct(1) unat_0)
qed

lemma ts_room:
  fixes a b t :: uint64
  assumes "uint a < 2 ^ 61" "uint b < 2 ^ 61" "uint t < 2 ^ 62"
  shows "uint (a + b) = uint a + uint b" "uint (a + b + t) = uint a + uint b + uint t" "t \<le> a + b + t" "0 \<le> sint (a + b)"
proof -
  show ab: "uint (a + b) = uint a + uint b" using assms by (simp add: uint_word_ariths)
  show abt: "uint (a + b + t) = uint a + uint b + uint t" unfolding uint_word_ariths using assms by simp
  show "t \<le> a + b + t" unfolding word_le_def abt by simp
  have "uint (a + b) < 2 ^ 63" using ab assms by simp
  moreover have "- (2 ^ 63) \<le> uint (a + b)" by (rule order_trans [OF _ uint_ge_0]) simp
  ultimately have "sint (a + b) = uint (a + b)" using signed_take_bit_int_eq_self [of 63 "uint (a + b)"] by (simp add: sint_uint)
  then show "0 \<le> sint (a + b)" by simp
qed

lemma tx_time:
  assumes "rate_ok bps gap" "item_legal packet_size L p" "L \<le> 2 ^ 16"
  shows "\<exists>t. CalculateBytesTxTime bps (packet_size p) = Some t \<and> uint t < 2 ^ 61"
proof -
  have "unat (packet_size p) \<le> 2 ^ 16" using assms(2,3) by (simp add: item_legal_def)
  then have "int (unat (packet_size p)) \<le> int (2 ^ 16)" by (simp only: of_nat_le_iff)
  then have sz: "uint (packet_size p) \<le> 2 ^ 16" by simp
  have r: "0 < uint bps" "uint bps < 2 ^ 63" using assms(1) by (simp_all add: rate_ok_def)
  obtain t where t: "CalculateBytesTxTime bps (packet_size p) = Some t" "sint t = tx_ns (uint (packet_size p) * 8) (uint bps)"
    using CalculateBytesTxTime_eq [OF r, of "packet_size p"] sz by auto
  let ?bits = "uint (packet_size p) * 8" and ?bps = "uint bps"
  have bits: "0 \<le> ?bits" "?bits < 2 ^ 32" "?bits \<le> 2 ^ 19" using sz by simp_all
  have le: "x / b \<le> x" if "0 \<le> x" "real_of_int 1 \<le> b" for x b :: real
    using divide_left_mono [of 1 b x] that by simp
  have "real_of_int ?bits * 10 ^ 9 / of_int ?bps \<le> of_int ?bits * 10 ^ 9"
  proof (rule le)
    show "real_of_int 1 \<le> of_int ?bps" using r(1) unfolding of_int_le_iff by linarith
    show "0 \<le> real_of_int ?bits * 10 ^ 9" by (rule mult_nonneg_nonneg) (simp_all only: of_int_0_le_iff bits(1), simp)
  qed
  also have "\<dots> \<le> real_of_int (2 ^ 19) * 10 ^ 9" using bits(3) by (intro mult_right_mono) (simp_all only: of_int_le_iff, simp)
  finally have "real_of_int ?bits * 10 ^ 9 / of_int ?bps \<le> 2 ^ 19 * 10 ^ 9" by simp
  moreover have "real_of_int (tx_ns ?bits ?bps) \<le> real_of_int ?bits * 10 ^ 9 / of_int ?bps + (1 / 2 + 10 ^ 9 / 2 ^ 64)"
    using tx_ns_bounds(3) [OF bits(1,2) r(1)] by (simp only: abs_le_iff) linarith
  ultimately have "real_of_int (tx_ns ?bits ?bps) \<le> 2 ^ 19 * 10 ^ 9 + 1" by simp
  then have "real_of_int (tx_ns ?bits ?bps) < real_of_int (2 ^ 61)" by simp
  then have small: "tx_ns ?bits ?bps < 2 ^ 61" by (simp only: of_int_less_iff)
  have nonneg: "0 \<le> sint t" using t(2) tx_ns_bounds(1) [OF bits(1,2) r(1)] by simp
  have "uint t = sint t"
  proof -
    have "uint t = sint t mod 2 ^ 64" by (simp add: uint_sint take_bit_eq_mod)
    then show ?thesis using nonneg small t(2) by simp
  qed
  then show ?thesis using t small by auto
qed

subsection \<open>Transmitting\<close>

lemma Channel_TransmitStart_ok:
  assumes ok: "agenda_ok w" and ch: "chan_ok (net_channel w)" and i: "i < 2"
    and rng: "unat (sim_uid w) + 1 < 2 ^ 32" "uint (m_currentTs w) < 2 ^ 62"
    and h: "holds (net_mem w) (add_mset p M)" and t: "uint txTime < 2 ^ 61"
  shows "\<exists>q h' w'. Channel_TransmitStart p i txTime w = Some (True, w') \<and> agenda_ok w' \<and>
    agenda w' = agenda_insert (txTime + m_delay (net_channel w) + m_currentTs w) (Call (Receive (1 - i) q)) (agenda w) \<and>
    w' = scheduled (txTime + m_delay (net_channel w) + m_currentTs w) (m_node (dev (1 - i) w)) (Call (Receive (1 - i) q)) (w\<lparr>net_mem := h'\<rparr>) \<and>
    holds h' (add_mset q (add_mset p M)) \<and> pkt_data h' q = pkt_data (net_mem w) p \<and> kept (net_mem w) h' (add_mset p M)"
proof -
  let ?c = "net_channel w" and ?d = "m_delay (net_channel w)"
  let ?wire = "if m_src (m_link ?c ! 0) = Some i then 0 else (1 :: nat)"
  have links: "m_state (m_link ?c ! 0) = IDLE" "m_state (m_link ?c ! 1) = IDLE" "m_dst (m_link ?c ! ?wire) = Some (1 - i)"
    using ch two_cases [OF i] by (auto simp: chan_ok_def)
  have d: "uint ?d < 2 ^ 61" using ch by (simp add: chan_ok_def)
  obtain q h' where q: "Packet_Copy p (net_mem w) = Some (q, h')" "holds h' (add_mset q (add_mset p M))"
      "pkt_data h' q = pkt_data (net_mem w) p" "kept (net_mem w) h' (add_mset p M)"
    using holds_Copy [OF h] by blast
  let ?w = "w\<lparr>net_mem := h'\<rparr>"
  have room: "m_currentTs w \<le> txTime + ?d + m_currentTs w" "sim_uid w + 1 \<noteq> 0"
    using ts_room(3) [OF t d] uid_room [of "sim_uid w" 1] rng by simp_all
  let ?s = "scheduled (txTime + ?d + m_currentTs w) (m_node (dev (1 - i) w)) (Call (Receive (1 - i) q)) ?w"
  have "agenda_ok ?s" "agenda ?s = agenda_insert (txTime + ?d + m_currentTs w) (Call (Receive (1 - i) q)) (agenda ?w)"
    using scheduled_ok [of ?w] ok room by simp_all
  moreover have "Channel_TransmitStart p i txTime w = Some (True, ?s)"
    using links q(1) ScheduleWithContext_scheduled [of "m_node (dev (1 - i) w)" "txTime + ?d" ?w "Receive (1 - i) q"]
    by (simp add: Channel_TransmitStart_def Let_def dev_def)
  ultimately show ?thesis using q by auto
qed

text \<open>What updating a device leaves alone.\<close>

lemma upd_dev_simps [simp]:
  "net_devices (upd_dev i f w) = (net_devices w)[i := f (net_devices w ! i)]" "net_mem (upd_dev i f w) = net_mem w"
  "net_channel (upd_dev i f w) = net_channel w" "agenda (upd_dev i f w) = agenda w" "agenda_ok (upd_dev i f w) = agenda_ok w"
  "m_currentTs (upd_dev i f w) = m_currentTs w" "sim_uid (upd_dev i f w) = sim_uid w" "link_failed (upd_dev i f w) = link_failed w"
  "m_globalUid (upd_dev i f w) = m_globalUid w"
  by (simp_all add: upd_dev_def dev_def)

lemma traced_by_simps [simp]:
  "net_devices (traced_by i ss p w) =
    (net_devices w)[i := (net_devices w ! i)\<lparr>dev_trace := dev_trace (net_devices w ! i) @ map (\<lambda>s. (s, p)) ss\<rparr>]"
  "net_mem (traced_by i ss p w) = net_mem w" "net_channel (traced_by i ss p w) = net_channel w"
  "agenda (traced_by i ss p w) = agenda w" "agenda_ok (traced_by i ss p w) = agenda_ok w"
  "m_currentTs (traced_by i ss p w) = m_currentTs w" "sim_uid (traced_by i ss p w) = sim_uid w"
  "link_failed (traced_by i ss p w) = link_failed w"  "m_globalUid (traced_by i ss p w) = m_globalUid w"
  by (simp_all add: traced_by_def)

lemma TransmitStart_inv:
  assumes inv: "link_inv (only i p) L s acc w" and i: "i < 2" and rng: "link_room w" and L: "L \<le> 2 ^ 16"
  shows "\<exists>w'. Device_TransmitStart i p w = Some (True, w') \<and> link_inv nobody L s acc w' \<and> m_currentTs w' = m_currentTs w \<and>
    length (agenda w') = length (agenda w) + 2 \<and>
    map (\<lambda>d. m_packets (m_queue d)) (net_devices w') = map (\<lambda>d. m_packets (m_queue d)) (net_devices w)"
proof -
  let ?ds = "net_devices w" and ?ag = "agenda w" and ?now = "m_currentTs w"
  let ?d = "?ds ! i" and ?M = "live nobody (agenda w) (net_devices w)"
  have lk: "link_ok (only i p) L s acc ?now ?ag ?ds (net_channel w) (net_mem w)" and ok: "agenda_ok w" and nf: "\<not> link_failed w"
    using inv by (simp_all add: link_inv_def)
  note P = link_ok_parts [OF lk]
  have dev: "dev_ok L [p] (txs i ?ag) ?d" using link_okD(1) [OF lk i] by simp
  have ready: "m_txMachineState ?d = READY"
    using dev by (cases "m_txMachineState ?d") (auto simp: dev_ok_def)
  have rate: "rate_ok (m_bps ?d) (m_tInterframeGap ?d)" and legal: "item_legal packet_size L p" using dev by (simp_all add: dev_ok_def)
  obtain t where t: "CalculateBytesTxTime (m_bps ?d) (packet_size p) = Some t" "uint t < 2 ^ 61" using tx_time [OF rate legal L] by blast
  have gap: "uint (m_tInterframeGap ?d) < 2 ^ 61" using rate by (simp add: rate_ok_def)
  have now: "uint ?now < 2 ^ 62" and uid: "unat (sim_uid w) + 2 < 2 ^ 32" using rng by (simp_all add: link_room_def)
  have del: "uint (m_delay (net_channel w)) < 2 ^ 61" using P(2) by (simp add: chan_ok_def)
  note tc = ts_room [OF t(2) gap now] and rc = ts_room [OF t(2) del now]
  let ?tc = "t + m_tInterframeGap ?d + ?now" and ?rc = "t + m_delay (net_channel w) + ?now"
  let ?w1 = "traced_by i [PhyTxBegin] p (upd_dev i (\<lambda>d. d\<lparr>m_txMachineState := BUSY, m_currentPkt := Some p\<rparr>) w)"
  let ?w2 = "scheduled ?tc (m_currentContext ?w1) (Call (TransmitComplete i)) ?w1"
  have pos: "Time_IsPositive (t + m_tInterframeGap ?d)" using tc(4) by (simp add: Time_IsPositive_def)
  have w2: "Simulator_Schedule map_ops (t + m_tInterframeGap ?d) (TransmitComplete i) ?w1 = ?w2"
    using Schedule_scheduled [OF pos, of "TransmitComplete i" ?w1] by simp
  have u: "sim_uid w + 1 \<noteq> 0" "unat (sim_uid w + 1) = unat (sim_uid w) + 1" using uid_room [OF uid] by simp_all
  have ok2: "agenda_ok ?w2" "agenda ?w2 = agenda_insert ?tc (Call (TransmitComplete i)) ?ag"
    using scheduled_ok [of ?w1 ?tc "m_currentContext ?w1" "Call (TransmitComplete i)"] ok tc(3) u(1) by simp_all
  have hold: "holds (net_mem ?w2) (add_mset p ?M)" using P(4) by (simp add: live_only [OF i])
  obtain q h' w3 where q: "Channel_TransmitStart p i t ?w2 = Some (True, w3)" "agenda_ok w3"
      "agenda w3 = agenda_insert ?rc (Call (Receive (1 - i) q)) (agenda ?w2)"
      "w3 = scheduled ?rc (m_node (dev (1 - i) ?w2)) (Call (Receive (1 - i) q)) (?w2\<lparr>net_mem := h'\<rparr>)"
      "holds h' (add_mset q (add_mset p ?M))" "pkt_data h' q = pkt_data (net_mem w) p" "kept (net_mem w) h' (add_mset p ?M)"
    using Channel_TransmitStart_ok [OF ok2(1), of i p ?M t] P(2) i u uid now hold t(2) by auto
  let ?d1 = "?d\<lparr>m_txMachineState := BUSY, m_currentPkt := Some p, dev_trace := dev_trace ?d @ [(PhyTxBegin, p)]\<rparr>"
  have len: "i < length ?ds" using P(1) i by simp
  have ds: "net_devices ?w1 = ?ds[i := ?d1]" using len by simp
  have d1: "dev i ?w1 = ?d1" unfolding dev_def ds using len by simp
  have "Device_TransmitStart i p w = Some (True, w3)"
    unfolding Device_TransmitStart_def Let_def d1 using ready t(1) w2 q(1) by (simp add: dev_def)
  moreover have "link_ok nobody L s acc ?now (agenda w3) (net_devices w3) (net_channel w3) (net_mem w3)"
  proof -
    have parts: "net_devices w3 = ?ds[i := ?d1]" "net_channel w3 = net_channel w" "net_mem w3 = h'"
      unfolding q(4) using ds by simp_all
    show ?thesis unfolding q(3) ok2(2) parts
      using link_ok_transmit [OF lk i agenda_times(1) tc(2) rc(2) _ _ _ _ _ _ _ _ q(5-7), of ?d1] ok by (simp add: agenda_ok_def)
  qed
  moreover have "m_currentTs w3 = ?now" "\<not> link_failed w3" unfolding q(4) using nf by simp_all
  moreover have "length (agenda w3) = length ?ag + 2" unfolding q(3) ok2(2) by simp
  moreover have "map (\<lambda>d. m_packets (m_queue d)) (net_devices w3) = map (\<lambda>d. m_packets (m_queue d)) ?ds"
    unfolding q(4) using ds by (simp add: map_update) (metis len list_update_id map_update nth_map)
  ultimately show ?thesis using q(2) by (auto simp: link_inv_def)
qed

text \<open>The packets that wait in the two queues.\<close>

definition queued :: "'r link_world \<Rightarrow> nat" where
  "queued w = sum_list (map (\<lambda>d. length (m_packets (m_queue d))) (net_devices w))"

lemma queued_lengths: "queued w = sum_list (map length (map (\<lambda>d. m_packets (m_queue d)) (net_devices w)))"
  by (simp add: queued_def comp_def)

lemma queued_same: "map (\<lambda>d. m_packets (m_queue d)) (net_devices w') = map (\<lambda>d. m_packets (m_queue d)) (net_devices w) \<Longrightarrow> queued w' = queued w"
  by (simp only: queued_lengths)

lemma queued_update:
  assumes "length ds = 2" "i < 2"
  shows "sum_list (map (\<lambda>d. length (m_packets (m_queue d))) (ds[i := d1])) + length (m_packets (m_queue (ds ! i))) =
    sum_list (map (\<lambda>d. length (m_packets (m_queue d))) ds) + length (m_packets (m_queue d1))"
proof -
  obtain a b where "ds = [a, b]" using assms(1) by (auto simp: numeral_2_eq_2 length_Suc_conv)
  then show ?thesis using two_cases [OF assms(2)] by auto
qed

lemma TransmitComplete_inv:
  assumes ok: "agenda_ok w" and nf: "\<not> link_failed w" and rng: "link_room w" and L: "L \<le> 2 ^ 16" and now: "now \<le> m_currentTs w"
    and lk: "link_ok nobody L s acc now ((m_currentTs w, Call (TransmitComplete i)) # agenda w) (net_devices w) (net_channel w) (net_mem w)"
  shows "\<exists>w'. Device_TransmitComplete i w = Some w' \<and> link_inv nobody L s acc w' \<and> m_currentTs w' = m_currentTs w \<and>
    length (agenda w') + 2 * queued w' = length (agenda w) + 2 * queued w"
proof -
  let ?ds = "net_devices w" and ?ag = "agenda w" and ?t = "m_currentTs w"
  let ?d = "?ds ! i"
  note P = link_ok_parts [OF lk]
  have i: "i < 2" using P(3) by (simp add: known_def)
  have len: "i < length ?ds" using P(1) i by simp
  have dev: "dev_ok L [] (?t # txs i ?ag) ?d" using link_okD(1) [OF lk i] by simp
  then have busy: "m_txMachineState ?d = BUSY" and qok: "queue_ok packet_size L (m_queue ?d)" by (auto simp: dev_ok_def split: if_splits)
  obtain c where c: "m_currentPkt ?d = Some c" using dev busy by (auto simp: dev_ok_def)
  let ?dA = "?d\<lparr>m_txMachineState := READY, dev_trace := dev_trace ?d @ [(PhyTxEnd, c)], m_currentPkt := None\<rparr>"
  let ?wA = "upd_dev i (\<lambda>d. d\<lparr>m_currentPkt := None\<rparr>)
      (traced_by i [PhyTxEnd] c (upd_dev i (\<lambda>d. d\<lparr>m_txMachineState := READY\<rparr>) w))"
  let ?M = "live nobody ?ag (?ds[i := ?dA])"
  have dsA: "net_devices ?wA = ?ds[i := ?dA]" using len by simp
  have "live nobody ((?t, Call (TransmitComplete i)) # ?ag) ?ds = add_mset c ?M"
    using two_cases [OF i] P(1) c by (auto simp: live_def dev_packets_def)
  then obtain h where h: "Buffer_destroy (m_buffer c) (net_mem w) = Some h" "holds h ?M" "kept (net_mem w) h ?M"
    using P(4) holds_destroy [of "net_mem w" c ?M] by auto
  let ?w2 = "?wA\<lparr>net_mem := h\<rparr>"
  have dev2: "dev i ?w2 = ?dA" unfolding dev_def using len by simp
  obtain q where q: "Dequeue packet_size (m_queue ?d) = Some (case m_packets (m_queue ?d) of [] \<Rightarrow> None | x # _ \<Rightarrow> Some x, q)"
      "queue_ok packet_size L q" "m_packets q = tl (m_packets (m_queue ?d))"
    using drop_tail.deq_ok [OF qok] by blast
  let ?w3 = "upd_dev i (\<lambda>d. d\<lparr>m_queue := q\<rparr>) ?w2" and ?dB = "?dA\<lparr>m_queue := q\<rparr>"
  have ds3: "net_devices ?w3 = ?ds[i := ?dB]" using len by simp
  have qsum: "sum_list (map (\<lambda>d. length (m_packets (m_queue d))) (?ds[i := d1])) + length (m_packets (m_queue ?d)) =
      queued w + length (m_packets (m_queue d1))" for d1
    using queued_update [OF P(1) i] by (simp add: queued_def)
  show ?thesis
  proof (cases "m_packets (m_queue ?d)")
    case Nil
    have run: "Device_TransmitComplete i w = Some ?w3"
      unfolding Device_TransmitComplete_def Let_def drop_packet_def
      using busy c h(1) q(1) Nil dev2 by (simp add: dev_def len)
    have "live nobody ?ag (?ds[i := ?dB]) = ?M"
      using two_cases [OF i] P(1) q(3) Nil by (auto simp: live_def dev_packets_def)
    moreover have "dev_ok L [] [] ?dB" using dev q Nil by (auto simp: dev_ok_def)
    ultimately have "link_ok nobody L s acc ?t ?ag (?ds[i := ?dB]) (net_channel w) h"
      using link_ok_complete(3) [OF lk now, of nobody ?dB h] h(2,3) q(3) Nil by simp
    then have "link_inv nobody L s acc ?w3" using ok nf ds3 by (simp add: link_inv_def)
    moreover have "queued ?w3 = queued w" unfolding queued_def ds3 using qsum [of ?dB] q(3) Nil by (simp add: queued_def)
    ultimately show ?thesis using run by simp
  next
    case (Cons p ps)
    let ?w4 = "traced_by i [Sniffer, PromiscSniffer] p ?w3"
    let ?dC = "?dB\<lparr>dev_trace := dev_trace ?dB @ [(Sniffer, p), (PromiscSniffer, p)]\<rparr>"
    have ds4: "net_devices ?w4 = ?ds[i := ?dC]" using len by simp
    have run: "Device_TransmitComplete i w = map_option snd (Device_TransmitStart i p ?w4)"
      unfolding Device_TransmitComplete_def Let_def drop_packet_def
      using busy c h(1) q(1) Cons dev2 by (simp add: dev_def len)
    have "live (only i p) ?ag (?ds[i := ?dC]) = ?M"
      using two_cases [OF i] P(1) q(3) Cons by (auto simp: live_def dev_packets_def)
    moreover have "dev_ok L [p] [] ?dC" using dev q Cons qok by (auto simp: dev_ok_def queue_ok_def)
    ultimately have "link_ok (only i p) L s acc ?t ?ag (?ds[i := ?dC]) (net_channel w) h"
      using link_ok_complete(3) [OF lk now, of "only i p" ?dC h] h(2,3) q(3) Cons by simp
    then have "link_inv (only i p) L s acc ?w4" using ok nf ds4 by (simp add: link_inv_def)
    moreover have "link_room ?w4" using rng by (simp add: link_room_def)
    ultimately obtain w' where w': "Device_TransmitStart i p ?w4 = Some (True, w')" "link_inv nobody L s acc w'"
        "m_currentTs w' = m_currentTs ?w4" "length (agenda w') = length (agenda ?w4) + 2"
        "map (\<lambda>d. m_packets (m_queue d)) (net_devices w') = map (\<lambda>d. m_packets (m_queue d)) (net_devices ?w4)"
      using TransmitStart_inv [OF _ i _ L] by blast
    have "queued w' = queued ?w4" using queued_same [OF w'(5)] .
    also have "queued ?w4 + 1 = queued w" unfolding queued_def ds4 using qsum [of ?dC] q(3) Cons by (simp add: queued_def)
    finally show ?thesis using run w' by auto
  qed
qed

subsection \<open>Receiving\<close>

lemma IsCorrupt_ok:
  assumes len: "j < length (net_devices w)"
  obtains bad em where "Device_IsCorrupt C j p w = (bad, upd_dev j (\<lambda>d. d\<lparr>m_receiveErrorModel := em\<rparr>) w)"
    "em = None \<longleftrightarrow> m_receiveErrorModel (net_devices w ! j) = None" "bad \<longrightarrow> m_receiveErrorModel (net_devices w ! j) \<noteq> None"
proof (cases "m_receiveErrorModel (net_devices w ! j)")
  case None
  have e: "(net_devices w ! j)\<lparr>m_receiveErrorModel := None\<rparr> = net_devices w ! j" using None by (cases "net_devices w ! j") simp
  have "upd_dev j (\<lambda>d. d\<lparr>m_receiveErrorModel := None\<rparr>) w = w" by (simp add: upd_dev_def dev_def e)
  then show ?thesis using None by (intro that [of False None]) (simp_all add: Device_IsCorrupt_def dev_def)
next
  case (Some r)
  obtain bad r' where "C r p = (bad, r')" by (cases "C r p")
  then show ?thesis using Some by (intro that [of bad "Some r'"]) (simp_all add: Device_IsCorrupt_def dev_def)
qed

lemma GetRemote_ok: "chan_ok (net_channel w) \<Longrightarrow> j < 2 \<Longrightarrow> GetRemote j w = Some (1 - j)"
  using two_cases [of j] by (auto simp: GetRemote_def chan_ok_def)

lemma ProcessHeader_ok:
  assumes "holds h (add_mset p M)" "pkt_data h p = be16 c @ xs" "PppToEther c = Some proto"
  shows "\<exists>p' h'. Device_ProcessHeader p h = Some (proto, p', h') \<and> holds h' (add_mset p' M) \<and> pkt_data h' p' = xs \<and> kept h h' M"
proof -
  obtain n p' h' where "Packet_RemoveHeader PppHeader_Deserialize \<lparr>ppp_protocol = 0\<rparr> p h = Some (\<lparr>ppp_protocol = 0\<rparr>\<lparr>ppp_protocol := c\<rparr>, n, p', h')"
      "holds h' (add_mset p' M)" "pkt_data h' p' = xs" "kept h h' M"
    using holds_RemoveHeader [OF assms(1,2)] by blast
  then show ?thesis using assms(3) by (simp add: Device_ProcessHeader_def)
qed

lemma Receive_inv:
  assumes ok: "agenda_ok w" and nf: "\<not> link_failed w" and now: "now \<le> m_currentTs w"
    and lk: "link_ok nobody L s acc now ((m_currentTs w, Call (Receive j p)) # agenda w) (net_devices w) (net_channel w) (net_mem w)"
  shows "\<exists>w'. Device_Receive C j p w = Some w' \<and> link_inv nobody L s acc w' \<and> m_currentTs w' = m_currentTs w \<and>
    length (agenda w') = length (agenda w) \<and> queued w' = queued w"
proof -
  let ?ds = "net_devices w" and ?ag = "agenda w" and ?t = "m_currentTs w" and ?h = "net_mem w"
  let ?d = "?ds ! j" and ?M = "live nobody (agenda w) (net_devices w)"
  note P = link_ok_parts [OF lk]
  have j: "j < 2" using P(3) by (simp add: known_def)
  have i: "1 - j < 2" "1 - (1 - j) = j" using two_cases [OF j] by auto
  have len: "j < length ?ds" using P(1) j by simp
  have "framed (pkt_data ?h p)" by (rule link_okD(2) [OF lk i(1)]) (use two_cases [OF j] in \<open>auto simp: waiting_def\<close>)
  then obtain c xs proto where fr: "pkt_data ?h p = be16 c @ xs" "PppToEther c = Some proto" by (auto simp: framed_def)
  have hold: "holds ?h (add_mset p ?M)"
    using P(4) two_cases [OF j] by (auto simp: live_def)
  obtain bad em where cor: "Device_IsCorrupt C j p w = (bad, upd_dev j (\<lambda>d. d\<lparr>m_receiveErrorModel := em\<rparr>) w)"
      "em = None \<longleftrightarrow> m_receiveErrorModel ?d = None" "bad \<longrightarrow> m_receiveErrorModel ?d \<noteq> None"
    by (rule IsCorrupt_ok [OF len, where C = C and p = p])
  let ?w1 = "upd_dev j (\<lambda>d. d\<lparr>m_receiveErrorModel := em\<rparr>) w"
  have finish: "link_inv nobody L s acc w' \<and> m_currentTs w' = ?t \<and> length (agenda w') = length ?ag \<and> queued w' = queued w"
    if w': "agenda_ok w'" "\<not> link_failed w'" "m_currentTs w' = ?t" "agenda w' = ?ag" "net_channel w' = net_channel w"
        "net_devices w' = ?ds[j := ?d\<lparr>m_receiveErrorModel := em, dev_trace := tr, m_rxCalls := m_rxCalls ?d @ got\<rparr>]"
        "holds (net_mem w') (mset (map snd got) + ?M)" "kept ?h (net_mem w') ?M"
      and got: "map (\<lambda>(pr, p). (pr, pkt_data (net_mem w') p)) got = [unframe (pkt_data ?h p)] \<or> got = [] \<and> m_receiveErrorModel ?d \<noteq> None"
    for w' tr got
  proof -
    let ?d1 = "?d\<lparr>m_receiveErrorModel := em, dev_trace := tr, m_rxCalls := m_rxCalls ?d @ got\<rparr>"
    have "live nobody ?ag (?ds[j := ?d1]) = mset (map snd got) + ?M"
      using two_cases [OF j] P(1) by (auto simp: live_def dev_packets_def ac_simps)
    then have "link_ok nobody L s acc ?t ?ag (?ds[j := ?d1]) (net_channel w) (net_mem w')"
      using link_ok_receive [OF lk now, of ?d1 got "net_mem w'"] w'(7,8) got cor(2) by (simp add: dev_ok_def)
    moreover have "queued w' = queued w"
      unfolding queued_def w'(6) using queued_update [OF P(1) j, of ?d1] by simp
    ultimately show ?thesis using w' by (simp add: link_inv_def)
  qed
  show ?thesis
  proof (cases bad)
    case True
    let ?w2 = "traced_by j [PhyRxDrop] p ?w1"
    obtain h1 where h1: "Buffer_destroy (m_buffer p) ?h = Some h1" "holds h1 ?M" "kept ?h h1 ?M"
      using holds_destroy [OF hold] by blast
    have "Device_Receive C j p w = Some (?w2\<lparr>net_mem := h1\<rparr>)"
      using True h1(1) by (simp add: Device_Receive_def cor(1) drop_packet_def)
    moreover have "net_devices (?w2\<lparr>net_mem := h1\<rparr>) =
        ?ds[j := ?d\<lparr>m_receiveErrorModel := em, dev_trace := dev_trace ?d @ [(PhyRxDrop, p)], m_rxCalls := m_rxCalls ?d @ []\<rparr>]"
      using len by simp
    ultimately show ?thesis using finish [of "?w2\<lparr>net_mem := h1\<rparr>" "[]" "dev_trace ?d @ [(PhyRxDrop, p)]"] ok nf h1(2,3) cor(3) True by simp
  next
    case False
    let ?w2 = "traced_by j [Sniffer, PromiscSniffer, PhyRxEnd] p ?w1"
    obtain q h1 where q: "Packet_Copy p ?h = Some (q, h1)" "holds h1 (add_mset q (add_mset p ?M))" "pkt_data h1 q = pkt_data ?h p"
        "kept ?h h1 (add_mset p ?M)"
      using holds_Copy [OF hold] by blast
    have "holds h1 (add_mset p (add_mset q ?M))" "pkt_data h1 p = be16 c @ xs" using q(2,4) fr(1) by (simp_all add: add_mset_commute)
    then obtain p' h2 where p': "Device_ProcessHeader p h1 = Some (proto, p', h2)" "holds h2 (add_mset p' (add_mset q ?M))"
        "pkt_data h2 p' = xs" "kept h1 h2 (add_mset q ?M)"
      using ProcessHeader_ok [OF _ _ fr(2)] by blast
    have "holds h2 (add_mset q (add_mset p' ?M))" using p'(2) by (simp add: add_mset_commute)
    then obtain h3 where h3: "Buffer_destroy (m_buffer q) h2 = Some h3" "holds h3 (add_mset p' ?M)" "kept h2 h3 (add_mset p' ?M)"
      using holds_destroy by blast
    let ?w3 = "?w2\<lparr>net_mem := h2\<rparr>"
    let ?w5 = "traced_by j [MacRx] q (if m_promiscCallback (dev j ?w3) then traced_by j [MacPromiscRx] q ?w3 else ?w3)"
    let ?w6 = "upd_dev j (\<lambda>d. d\<lparr>m_rxCalls := m_rxCalls d @ [(proto, p')]\<rparr>) ?w5"
    have "Device_Receive C j p w = Some (?w6\<lparr>net_mem := h3\<rparr>)"
      using False q(1) p'(1) h3(1) GetRemote_ok [of ?w2 j] P(2) j
      by (simp add: Device_Receive_def cor(1) drop_packet_def Let_def)
    moreover have "\<exists>tr. net_devices (?w6\<lparr>net_mem := h3\<rparr>) =
        ?ds[j := ?d\<lparr>m_receiveErrorModel := em, dev_trace := tr, m_rxCalls := m_rxCalls ?d @ [(proto, p')]\<rparr>]"
      using len by (cases "m_promiscCallback (dev j ?w3)") (auto simp: intro!: exI)
    moreover have "kept ?h h3 ?M" using q(4) p'(4) h3(3) by (auto intro: kept_trans)
    moreover have "pkt_data h3 p' = xs" using p'(3) h3(3) by simp
    moreover have "unframe (pkt_data ?h p) = (proto, xs)" using fr by simp
    ultimately show ?thesis using finish [of "?w6\<lparr>net_mem := h3\<rparr>" "[(proto, p')]"] ok nf h3(2) by auto
  qed
qed

subsection \<open>Sending\<close>

lemma AddHeader_frame:
  assumes "holds h (add_mset p M)" "EtherToPpp proto = Some c"
  shows "\<exists>p' h'. Device_AddHeader proto p h = Some (p', h') \<and> holds h' (add_mset p' M) \<and> pkt_data h' p' = be16 c @ pkt_data h p \<and> kept h h' M"
  using holds_AddHeader [OF assms(1), of "\<lparr>ppp_protocol = c\<rparr>"] assms(2) by (simp add: Device_AddHeader_def)

lemma frame_size:
  assumes "holds h (add_mset p M)" "pkt_data h p = be16 c @ xs" "length xs + 2 \<le> L" "L \<le> 2 ^ 16"
  shows "packet_size p = of_nat (length xs + 2)" "item_legal packet_size L p"
proof -
  show sz: "packet_size p = of_nat (length xs + 2)" using holds_size [OF assms(1)] assms(2) by (simp add: packet_size_def)
  have "length xs + 2 < 2 ^ 32" using assms(3,4) by simp
  then have "unat (packet_size p) = length xs + 2" unfolding sz by (rule unat_of_nat_less)
  then show "item_legal packet_size L p" using assms(3) by (simp add: item_legal_def word_less_nat_alt)
qed

lemma upper_send_inv:
  assumes inv: "link_inv nobody L s acc w" and i: "i < 2" and rng: "link_room w" and L: "L \<le> 2 ^ 16"
    and xs: "length xs + 2 \<le> L" and proto: "EtherToPpp proto \<noteq> None"
  shows "\<exists>w'. upper_send i xs proto w = Some (\<not> WouldOverflow 1 (of_nat (length xs + 2)) (m_queue (dev i w)), w') \<and>
    link_inv nobody L s (acc @ (if WouldOverflow 1 (of_nat (length xs + 2)) (m_queue (dev i w)) then [] else [(i, proto, xs)])) w' \<and>
    m_currentTs w' = m_currentTs w"
proof -
  let ?ds = "net_devices w" and ?ag = "agenda w" and ?now = "m_currentTs w"
  let ?d = "?ds ! i" and ?M = "live nobody (agenda w) (net_devices w)"
  have lk: "link_ok nobody L s acc ?now ?ag ?ds (net_channel w) (net_mem w)" and ok: "agenda_ok w" and nf: "\<not> link_failed w"
    using inv by (simp_all add: link_inv_def)
  note P = link_ok_parts [OF lk]
  have len: "i < length ?ds" using P(1) i by simp
  have dev: "dev_ok L [] (txs i ?ag) ?d" using link_okD(1) [OF lk i] .
  then have up: "m_linkUp ?d" and qok: "queue_ok packet_size L (m_queue ?d)" by (simp_all add: dev_ok_def)
  obtain c where c: "EtherToPpp proto = Some c" using proto by auto
  obtain p h1 where p: "Packet_bytes xs (m_globalUid w) (net_mem w) = Some (p, m_globalUid w + 1, h1)" "holds h1 (add_mset p ?M)"
      "pkt_data h1 p = xs" "kept (net_mem w) h1 ?M"
    using holds_bytes [OF P(4)] by blast
  obtain p' h2 where p': "Device_AddHeader proto p h1 = Some (p', h2)" "holds h2 (add_mset p' ?M)" "pkt_data h2 p' = be16 c @ xs" "kept h1 h2 ?M"
    using AddHeader_frame [OF p(2) c] p(3) by auto
  note sz = frame_size [OF p'(2,3) xs L]
  have keep: "kept (net_mem w) h2 ?M" using kept_trans [OF p(4) p'(4)] .
  let ?full = "WouldOverflow 1 (of_nat (length xs + 2)) (m_queue ?d)"
  have full: "queue_full packet_size (m_queue ?d) p' \<longleftrightarrow> ?full" using queue_full_iff [OF qok sz(2)] sz(1) by simp
  obtain q where q: "Enqueue packet_size p' (m_queue ?d) = Some (\<not> ?full, q)" "queue_ok packet_size L q"
      "m_packets q = (if ?full then m_packets (m_queue ?d) else m_packets (m_queue ?d) @ [p'])"
    using drop_tail.enq_ok [OF qok sz(2)] full by auto
  let ?w1 = "traced_by i [MacTx] p' (w\<lparr>m_globalUid := m_globalUid w + 1, net_mem := h2\<rparr>)"
  let ?w2 = "upd_dev i (\<lambda>d. d\<lparr>m_queue := q\<rparr>) ?w1"
  let ?d2 = "?d\<lparr>dev_trace := dev_trace ?d @ [(MacTx, p')], m_queue := q\<rparr>"
  have ds2: "net_devices ?w2 = ?ds[i := ?d2]" using len by simp
  have d2: "dev i ?w2 = ?d2" unfolding dev_def ds2 using len by simp
  have send: "Device_Send i p proto (w\<lparr>net_mem := h1, m_globalUid := m_globalUid w + 1\<rparr>) =
      (if ?full then Some (False, p', traced_by i [MacTxDrop] p' ?w2)
       else if m_txMachineState (dev i ?w2) = READY
       then do { (first, q) \<leftarrow> Dequeue packet_size (m_queue (dev i ?w2));
                 first \<leftarrow> first;
                 let w3 = traced_by i [Sniffer, PromiscSniffer] first (upd_dev i (\<lambda>d. d\<lparr>m_queue := q\<rparr>) ?w2);
                 (ret, w4) \<leftarrow> Device_TransmitStart i first w3;
                 Some (ret, p', w4) }
       else Some (True, p', ?w2))"
    using up p'(1) q(1) by (simp add: Device_Send_def Let_def dev_def len)
  have run: "upper_send i xs proto w = do { (ok, p, w1) \<leftarrow> Device_Send i p proto (w\<lparr>net_mem := h1, m_globalUid := m_globalUid w + 1\<rparr>);
      if ok then Some (True, w1) else map_option (Pair False) (drop_packet p w1) }"
    using p(1) by (simp add: upper_send_def)
  have new: "framed (pkt_data h2 p')" "unframe (pkt_data h2 p') = (proto, xs)"
    using p'(3) ether_ppp [OF c] by (auto simp: framed_def)
  have acc: "sent i (acc @ [(i, proto, xs)]) = sent i acc @ [(proto, xs)]" "sent (1 - i) (acc @ [(i, proto, xs)]) = sent (1 - i) acc"
    using two_cases [OF i] by (auto simp: sent_def)
  show ?thesis
  proof (cases "?full")
    case True
    let ?w3 = "traced_by i [MacTxDrop] p' ?w2" and ?d3 = "?d2\<lparr>dev_trace := dev_trace ?d2 @ [(MacTxDrop, p')]\<rparr>"
    obtain h3 where h3: "Buffer_destroy (m_buffer p') h2 = Some h3" "holds h3 ?M" "kept h2 h3 ?M"
      using holds_destroy [OF p'(2)] by blast
    have ds3: "net_devices ?w3 = ?ds[i := ?d3]" using len by simp
    have "live nobody ?ag (?ds[i := ?d3]) = ?M"
      using two_cases [OF i] P(1) q(3) True by (auto simp: live_def dev_packets_def)
    moreover have "dev_ok L [] (txs i ?ag) ?d3" using dev q True by (simp add: dev_ok_def)
    ultimately have "link_ok nobody L s acc ?now ?ag (?ds[i := ?d3]) (net_channel w) h3"
      using link_ok_device [OF lk i, of nobody ?d3 "[]" h3 acc] h3(2) kept_trans [OF keep h3(3)] q(3) True by simp
    then have "link_inv nobody L s acc (?w3\<lparr>net_mem := h3\<rparr>)" using ok nf ds3 by (simp add: link_inv_def)
    moreover have "upper_send i xs proto w = Some (False, ?w3\<lparr>net_mem := h3\<rparr>)"
      unfolding run send using True h3(1) by (simp add: drop_packet_def)
    ultimately show ?thesis using True by (simp add: dev_def)
  next
    case False
    show ?thesis
    proof (cases "m_txMachineState ?d")
      case BUSY
      have "live nobody ?ag (?ds[i := ?d2]) = add_mset p' ?M"
        using two_cases [OF i] P(1) q(3) False by (auto simp: live_def dev_packets_def)
      moreover have "dev_ok L [] (txs i ?ag) ?d2" using dev q False BUSY by (simp add: dev_ok_def)
      ultimately have "link_ok nobody L s (acc @ [(i, proto, xs)]) ?now ?ag (?ds[i := ?d2]) (net_channel w) h2"
        using link_ok_device [OF lk i, of nobody ?d2 "[p']" h2 "acc @ [(i, proto, xs)]"] p'(2) keep q(3) False new acc by simp
      then have "link_inv nobody L s (acc @ [(i, proto, xs)]) ?w2" using ok nf ds2 by (simp add: link_inv_def)
      moreover have "upper_send i xs proto w = Some (True, ?w2)"
        unfolding run send d2 using False BUSY by simp
      ultimately show ?thesis using False by (simp add: dev_def)
    next
      case READY
      have none: "m_packets (m_queue ?d) = []" "txs i ?ag = []" using dev READY by (simp_all add: dev_ok_def)
      obtain q2 where q2: "Dequeue packet_size q = Some (Some p', q2)" "queue_ok packet_size L q2" "m_packets q2 = []"
        using drop_tail.deq_ok [OF q(2)] q(3) False none(1) by auto
      let ?w4 = "traced_by i [Sniffer, PromiscSniffer] p' (upd_dev i (\<lambda>d. d\<lparr>m_queue := q2\<rparr>) ?w2)"
      let ?d4 = "?d\<lparr>m_queue := q2, dev_trace := dev_trace ?d @ [(MacTx, p'), (Sniffer, p'), (PromiscSniffer, p')]\<rparr>"
      have ds4: "net_devices ?w4 = ?ds[i := ?d4]" using len by simp
      have "live (only i p') ?ag (?ds[i := ?d4]) = add_mset p' ?M"
        using two_cases [OF i] P(1) q2(3) none by (auto simp: live_def dev_packets_def)
      moreover have "dev_ok L [p'] (txs i ?ag) ?d4" using dev q2 READY sz(2) none by (simp add: dev_ok_def)
      ultimately have "link_ok (only i p') L s (acc @ [(i, proto, xs)]) ?now ?ag (?ds[i := ?d4]) (net_channel w) h2"
        using link_ok_device [OF lk i, of "only i p'" ?d4 "[p']" h2 "acc @ [(i, proto, xs)]"] p'(2) keep q2(3) none new acc by simp
      then have "link_inv (only i p') L s (acc @ [(i, proto, xs)]) ?w4" using ok nf ds4 by (simp add: link_inv_def)
      moreover have "link_room ?w4" using rng by (simp add: link_room_def)
      ultimately obtain w' where w': "Device_TransmitStart i p' ?w4 = Some (True, w')"
          "link_inv nobody L s (acc @ [(i, proto, xs)]) w'" "m_currentTs w' = m_currentTs ?w4"
        using TransmitStart_inv [OF _ i _ L] by blast
      have "upper_send i xs proto w = Some (True, w')"
        unfolding run send d2 using False READY q2(1) w'(1) by simp
      then show ?thesis using False w' by (simp add: dev_def)
    qed
  qed
qed

subsection \<open>Steps and runs\<close>

text \<open>
  What may be called: packets of known protocols that are not too long, delays that are not negative, and, if \<open>s\<close>, no
  delay below the one the channel has.
\<close>

fun call_ok :: "nat \<Rightarrow> bool \<Rightarrow> link_call \<Rightarrow> 'r link_world \<Rightarrow> bool" where
  "call_ok L s (CallSend i xs proto) w \<longleftrightarrow> i < 2 \<and> length xs + 2 \<le> L \<and> EtherToPpp proto \<noteq> None"
| "call_ok L s (SetDelay d) w \<longleftrightarrow> uint d < 2 ^ 61 \<and> (s \<longrightarrow> uint (m_delay (net_channel w)) \<le> uint d)"
| "call_ok L s (CallLater d) w \<longleftrightarrow> uint d < 2 ^ 61"
| "call_ok L s RunEvent w \<longleftrightarrow> \<not> DSI_IsFinished map_ops w"

text \<open>Unique ids are left, and the clock and the next event are within 2^62 ns, or 146 years.\<close>

definition link_in_range :: "'r link_world \<Rightarrow> bool" where
  "link_in_range w \<longleftrightarrow> link_room w \<and> (case agenda w of [] \<Rightarrow> True | (t, _) # _ \<Rightarrow> uint t < 2 ^ 62)"

definition outcome :: "link_call \<Rightarrow> 'r link_world \<Rightarrow> accepted" where
  "outcome c w = (case c of
     CallSend i xs proto \<Rightarrow> if WouldOverflow 1 (of_nat (length xs + 2)) (m_queue (dev i w)) then [] else [(i, proto, xs)]
   | _ \<Rightarrow> [])"

lemma finished_iff: "agenda_ok w \<Longrightarrow> DSI_IsFinished map_ops w \<longleftrightarrow> agenda w = []"
  by (auto simp: agenda_ok_def DSI_IsFinished_def map_ops_def MapScheduler_IsEmpty_def agenda_def)

text \<open>The work that is left: every queued packet is two events, its end of transmission and its reception.\<close>

definition work :: "'r link_world \<Rightarrow> nat" where
  "work w = length (agenda w) + 2 * queued w"

lemma link_inv_event:
  assumes inv: "link_inv nobody L s acc w" and ne: "agenda w \<noteq> []" and rng: "link_in_range w" and L: "L \<le> 2 ^ 16"
  shows "link_inv nobody L s acc (DSI_ProcessOneEvent map_ops (link_handler C) w) \<and>
    work (DSI_ProcessOneEvent map_ops (link_handler C) w) + 1 = work w \<and>
    m_currentTs w \<le> m_currentTs (DSI_ProcessOneEvent map_ops (link_handler C) w)"
proof -
  have lk: "link_ok nobody L s acc (m_currentTs w) (agenda w) (net_devices w) (net_channel w) (net_mem w)"
    and ok: "agenda_ok w" and nf: "\<not> link_failed w"
    using inv by (simp_all add: link_inv_def)
  obtain t c rest where ag: "agenda w = (t, c) # rest" using ne by (cases "agenda w") auto
  obtain e where e: "c = Call e" using link_ok_parts(3) [OF lk] ag by (cases c) (auto simp: known_def)
  obtain n q where n: "agenda_ok (start_event n q w)" "agenda (start_event n q w) = rest" "m_currentTs (start_event n q w) = t"
      "m_currentTs w \<le> t" "m_eventsWithContextEmpty (link_handler C e (start_event n q w)) \<longrightarrow>
        DSI_ProcessOneEvent map_ops (link_handler C) w = link_handler C e (start_event n q w)"
    by (rule RunNext [OF ok ag [unfolded e], of "link_handler C"])
  let ?s = "start_event n q w"
  have room: "link_room ?s" using rng n(3) ag by (simp add: link_in_range_def link_room_def)
  have lks: "link_ok nobody L s acc (m_currentTs w) ((m_currentTs ?s, Call e) # agenda ?s) (net_devices ?s) (net_channel ?s) (net_mem ?s)"
    using lk n(2,3) by (simp add: ag e)
  have now: "m_currentTs w \<le> m_currentTs ?s" using n(3,4) by simp
  have nfs: "\<not> link_failed ?s" using nf by simp
  have qs: "queued ?s = queued w" by (simp add: queued_def)
  have "link_inv nobody L s acc (link_handler C e ?s) \<and> length (agenda (link_handler C e ?s)) + 2 * queued (link_handler C e ?s) = length rest + 2 * queued w \<and>
      m_currentTs (link_handler C e ?s) = t"
  proof (cases e)
    case (TransmitComplete i)
    obtain w' where "Device_TransmitComplete i ?s = Some w'" "link_inv nobody L s acc w'" "m_currentTs w' = m_currentTs ?s"
        "length (agenda w') + 2 * queued w' = length (agenda ?s) + 2 * queued ?s"
      using TransmitComplete_inv [OF n(1) nfs room L now lks [unfolded TransmitComplete]] by blast
    then show ?thesis using TransmitComplete n(2,3) qs by (simp add: link_handler_def)
  next
    case (Receive j p)
    obtain w' where "Device_Receive C j p ?s = Some w'" "link_inv nobody L s acc w'" "m_currentTs w' = m_currentTs ?s"
        "length (agenda w') = length (agenda ?s)" "queued w' = queued ?s"
      using Receive_inv [OF n(1) nfs now lks [unfolded Receive]] by blast
    then show ?thesis using Receive n(2,3) qs by (simp add: link_handler_def)
  next
    case UpperLayer
    have "link_ok nobody L s acc t rest (net_devices w) (net_channel w) (net_mem w)"
      by (rule link_ok_agenda [OF lk]) (use ag e UpperLayer n(4) link_ok_parts(2) [OF lk] in auto)
    then have "link_inv nobody L s acc ?s" using n(1,2,3) nfs by (simp add: link_inv_def)
    then show ?thesis using UpperLayer n(2,3) qs by (simp add: link_handler_def)
  qed
  moreover from this have "m_eventsWithContextEmpty (link_handler C e ?s)" by (simp add: link_inv_def agenda_ok_def)
  ultimately show ?thesis using n(4,5) ag by (simp add: work_def)
qed

lemma link_step_ok:
  assumes inv: "link_inv nobody L s acc w" and call: "call_ok L s c w" and rng: "link_in_range w" and L: "L \<le> 2 ^ 16"
  shows "\<exists>w'. link_step C c w = Some (outcome c w, w') \<and> link_inv nobody L s (acc @ outcome c w) w' \<and>
    m_currentTs w \<le> m_currentTs w'"
proof -
  have lk: "link_ok nobody L s acc (m_currentTs w) (agenda w) (net_devices w) (net_channel w) (net_mem w)"
    and ok: "agenda_ok w" and nf: "\<not> link_failed w"
    using inv by (simp_all add: link_inv_def)
  have room: "link_room w" using rng by (simp add: link_in_range_def)
  show ?thesis
  proof (cases c)
    case (CallSend i xs proto)
    obtain w' where "upper_send i xs proto w = Some (\<not> WouldOverflow 1 (of_nat (length xs + 2)) (m_queue (dev i w)), w')"
        "link_inv nobody L s (acc @ (if WouldOverflow 1 (of_nat (length xs + 2)) (m_queue (dev i w)) then [] else [(i, proto, xs)])) w'"
        "m_currentTs w' = m_currentTs w"
      using upper_send_inv [OF inv _ room L, of i xs proto] call CallSend by auto
    then show ?thesis using CallSend by (simp add: outcome_def)
  next
    case (SetDelay d)
    let ?c = "(net_channel w)\<lparr>m_delay := d\<rparr>"
    have "chan_ok ?c" using link_ok_parts(2) [OF lk] call SetDelay by (simp add: chan_ok_def)
    then have "link_ok nobody L s acc (m_currentTs w) (agenda w) (net_devices w) ?c (net_mem w)"
      using call SetDelay by (intro link_ok_agenda [OF lk]) auto
    then show ?thesis using SetDelay ok nf by (simp add: outcome_def link_inv_def)
  next
    case (CallLater d)
    have d: "uint d < 2 ^ 61" "uint (0 :: uint64) < 2 ^ 61" using call CallLater by simp_all
    have t: "m_currentTs w \<le> d + m_currentTs w" "0 \<le> sint d"
      using ts_room(3,4) [OF d, of "m_currentTs w"] room by (simp_all add: link_room_def)
    let ?w = "scheduled (d + m_currentTs w) (m_currentContext w) (Call UpperLayer) w"
    have u: "sim_uid w + 1 \<noteq> 0" using uid_room [of "sim_uid w" 2] room by (simp add: link_room_def)
    have w: "Simulator_Schedule map_ops d UpperLayer w = ?w" using t(2) by (intro Schedule_scheduled) (simp add: Time_IsPositive_def)
    have a: "agenda_ok ?w" "agenda ?w = agenda_insert (d + m_currentTs w) (Call UpperLayer) (agenda w)"
      using scheduled_ok [OF ok t(1) u] by simp_all
    have "link_ok nobody L s acc (m_currentTs w) (agenda ?w) (net_devices w) (net_channel w) (net_mem w)"
      unfolding a(2) by (rule link_ok_agenda [OF lk]) (auto simp: txs_insert air_insert link_ok_parts(2) [OF lk])
    then have "link_inv nobody L s acc ?w" using a(1) nf by (simp add: link_inv_def)
    then show ?thesis using CallLater w by (simp add: outcome_def)
  next
    case RunEvent
    have ne: "agenda w \<noteq> []" using call RunEvent finished_iff [OF ok] by simp
    have "\<not> DSI_IsFinished map_ops w" using call RunEvent by simp
    moreover note link_inv_event [OF inv ne rng L, of C]
    moreover from this have "\<not> link_failed (DSI_ProcessOneEvent map_ops (link_handler C) w)" by (simp add: link_inv_def)
    ultimately show ?thesis using RunEvent by (simp add: outcome_def Let_def)
  qed
qed

text \<open>The states of a link that calls within the bounds lead to, with the packets accepted so far.\<close>

inductive link_reachable :: "nat \<Rightarrow> bool \<Rightarrow> 'r corrupter \<Rightarrow> 'r link_world \<Rightarrow> accepted \<Rightarrow> 'r link_world \<Rightarrow> bool" for L s C w0 where
  start: "link_reachable L s C w0 [] w0"
| step: "link_reachable L s C w0 acc w \<Longrightarrow> call_ok L s c w \<Longrightarrow> link_in_range w \<Longrightarrow> link_step C c w = Some (new, w') \<Longrightarrow>
    link_reachable L s C w0 (acc @ new) w'"

lemma link_reachable_inv:
  assumes "link_reachable L s C w0 acc w" "link_inv nobody L s [] w0" "L \<le> 2 ^ 16"
  shows "link_inv nobody L s acc w"
  using assms(1)
proof induction
  case start
  then show ?case using assms(2) by simp
next
  case (step acc w c new w')
  then show ?case using link_step_ok [OF step.IH step.hyps(2,3) assms(3), of C] by auto
qed

end
