(* ===== verification/Link_Properties.thy ===== *)
theory Link_Properties
  imports Link_Steps "HOL-Library.Code_Target_Nat"
begin

text \<open>What holds of a point-to-point link between two nodes, whatever is sent over it.\<close>

subsection \<open>A new link\<close>

lemma Install_ok:
  fixes w0 :: "'r link_world"
  assumes w0: "Install bps gap delay ems junk = Some w0" and rate: "rate_ok bps gap" and delay: "uint delay < 2 ^ 61" and L: "L \<le> 2 ^ 16"
  shows "link_inv nobody L s [] w0"
proof -
  let ?new = "\<lambda>i. PointToPointNetDevice_init\<lparr>m_bps := bps, m_tInterframeGap := gap, m_node := of_nat i, m_queue := DropTailQueue_init,
      m_receiveErrorModel := ems ! i\<rparr>"
  let ?w = "simulator.extend (DefaultSimulatorImpl_init ([] :: map_queue))
      \<lparr>net_devices = [?new 0, ?new 1], net_channel = PointToPointChannel_init\<lparr>m_delay := delay\<rparr>, net_mem = buffer_mem_init junk,
       m_globalUid = 0, link_failed = False\<rparr>"
  have two: "replicate 2 x = [x, x]" for x :: WireLink by (simp add: numeral_2_eq_2)
  define w :: "'r link_world" where "w = ?w"
  have W: "net_devices w = [?new 0, ?new 1]" "net_mem w = buffer_mem_init junk"
      "net_channel w = \<lparr>m_delay = delay, m_nDevices = 0, m_link = [\<lparr>m_state = INITIALIZING, m_src = None, m_dst = None\<rparr>,
        \<lparr>m_state = INITIALIZING, m_src = None, m_dst = None\<rparr>]\<rparr>"
    by (simp_all add: w_def simulator.defs PointToPointChannel_init_def two)
  have sim: "agenda_ok w" "agenda w = []" "\<not> link_failed w" "m_currentTs w = 0"
    by (simp_all add: w_def agenda_ok_def sim_inv_def agenda_def simulator.defs DefaultSimulatorImpl_init_def map_invar_def UID_VALID_def
        UID_INVALID_def)
  have "Device_Attach 0 w \<bind> Device_Attach 1 = Some w0" using w0
    by (simp add: Install_def Let_def w_def SetDataRate_def SetInterframeGap_def SetNode_def SetQueue_def SetReceiveErrorModel_def)
  then have w0': "agenda_ok w0" "agenda w0 = []" "\<not> link_failed w0" "m_currentTs w0 = 0" "net_mem w0 = buffer_mem_init junk"
      "net_devices w0 = [(?new 0)\<lparr>m_channel := True, m_linkUp := True\<rparr>, (?new 1)\<lparr>m_channel := True, m_linkUp := True\<rparr>]"
      "net_channel w0 = \<lparr>m_delay = delay, m_nDevices = 2, m_link = [\<lparr>m_state = IDLE, m_src = Some 0, m_dst = Some 1\<rparr>,
        \<lparr>m_state = IDLE, m_src = Some 1, m_dst = Some 0\<rparr>]\<rparr>"
    by (auto simp: Device_Attach_def Channel_Attach_def W sim)
  have q: "queue_ok packet_size L DropTailQueue_init" using L by (intro DropTailQueue_init_ok) simp
  have empty: "m_packets DropTailQueue_init = ([] :: Packet list)" by (simp add: DropTailQueue_init_eq QueueBase_init_def)
  have "link_ok nobody L s [] 0 [] (net_devices w0) (net_channel w0) (net_mem w0)"
    unfolding w0'
  proof (rule link_okI)
    fix k :: nat assume "k < 2"
    then have k: "k = 0 \<or> k = 1" by auto
    show "dev_ok L [] (txs k []) ([(?new 0)\<lparr>m_channel := True, m_linkUp := True\<rparr>, (?new 1)\<lparr>m_channel := True, m_linkUp := True\<rparr>] ! k)"
      using k rate q empty by (auto simp: dev_ok_def txs_def PointToPointNetDevice_init_def)
    show "delivered s (buffer_mem_init junk) (sent k [])
        ([(?new 0)\<lparr>m_channel := True, m_linkUp := True\<rparr>, (?new 1)\<lparr>m_channel := True, m_linkUp := True\<rparr>] ! (1 - k))
        (waiting nobody [] [(?new 0)\<lparr>m_channel := True, m_linkUp := True\<rparr>, (?new 1)\<lparr>m_channel := True, m_linkUp := True\<rparr>] k)"
      using k empty by (auto simp: delivered_def sent_def waiting_def air_def PointToPointNetDevice_init_def)
  qed (use delay in \<open>auto simp: empty holds_empty chan_ok_def live_def dev_packets_def air_def waiting_def PointToPointNetDevice_init_def
        in_order_def less_2_cases_iff\<close>)
  then show ?thesis using w0' by (simp add: link_inv_def)
qed

lemma reached:
  assumes "Install bps gap delay ems junk = Some w0" "rate_ok bps gap" "uint delay < 2 ^ 61" "L \<le> 2 ^ 16" "link_reachable L s C w0 acc w"
  shows "link_inv nobody L s acc w"
  using link_reachable_inv [OF assms(5) Install_ok [OF assms(1-4)] assms(4)] .

lemma received_bytes:
  assumes "link_ok hand L s acc now ag ds ch h" "net_devices w = ds" "net_mem w = h" "i < 2"
  shows "received i w = map (\<lambda>(pr, xs). (pr, Some xs)) (dev_received h (ds ! i))"
proof -
  have "Packet_CopyData (Packet_GetSize p) p h = Some (pkt_data h p)" if "(pr, p) \<in> set (m_rxCalls (ds ! i))" for pr p
  proof -
    have "p \<in># live hand ag ds" using in_live(2) [OF assms(4) that] .
    then have "live hand ag ds = add_mset p (live hand ag ds - {#p#})" by simp
    then show ?thesis using link_ok_parts(4) [OF assms(1)] holds_copy_out by metis
  qed
  then show ?thesis unfolding received_def dev_def assms(2,3) by (auto simp: case_prod_beta)
qed

lemma idle_waiting:
  assumes "link_ok nobody L s acc now [] ds ch h" "i < 2" shows "waiting nobody [] ds i = []"
  using link_okD(1) [OF assms] by (auto simp: waiting_def air_def dev_ok_def txs_def split: if_splits)

text \<open>The messages as they come out of the receive callback.\<close>

abbreviation handed :: "(uint16 \<times> uint8 list) list \<Rightarrow> (uint16 \<times> uint8 list option) list" where
  "handed \<equiv> map (\<lambda>(pr, xs). (pr, Some xs))"

lemma subseq_handed: "subseq xs ys \<Longrightarrow> subseq (handed xs) (handed ys)"
  by (rule subseq_map)

subsection \<open>Deliveries in order\<close>

text \<open>C25: A point-to-point link is a FIFO: as long as the delay of the channel does not shrink, the packets that \<open>Send\<close> accepted at one end come out at the other end in that order, each with its protocol number and its bytes, except those that an error model drops; the packets that have not arrived are the last ones accepted, and none is missing when no event is pending.\<close>
theorem link_is_fifo:
  assumes "Install bps gap delay ems junk = Some w0" "rate_ok bps gap" "uint delay < 2 ^ 61" "L \<le> 2 ^ 16"
    "link_reachable L True C w0 acc w" "i < 2"
  shows "\<exists>arrived rest. sent i acc = arrived @ rest \<and> (agenda w = [] \<longrightarrow> rest = []) \<and>
    subseq (received (1 - i) w) (handed arrived) \<and>
    (m_receiveErrorModel (dev (1 - i) w) = None \<longrightarrow> received (1 - i) w = handed arrived)"
proof -
  have lk: "link_ok nobody L True acc (m_currentTs w) (agenda w) (net_devices w) (net_channel w) (net_mem w)"
    using reached [OF assms(1-5)] by (simp add: link_inv_def)
  let ?W = "waiting nobody (agenda w) (net_devices w) i" and ?f = "\<lambda>p. unframe (pkt_data (net_mem w) p)"
  obtain arr where arr: "subseq (dev_received (net_mem w) (net_devices w ! (1 - i))) arr"
      "m_receiveErrorModel (net_devices w ! (1 - i)) = None \<longrightarrow> arr = dev_received (net_mem w) (net_devices w ! (1 - i))"
      "arr @ map ?f ?W = sent i acc"
    using link_okD(3) [OF lk assms(6)] unfolding delivered_def by (elim exE conjE) (rule that, assumption+, simp)
  have rec: "received (1 - i) w = handed (dev_received (net_mem w) (net_devices w ! (1 - i)))"
    using received_bytes [OF lk refl refl] assms(6) by simp
  have "?W = []" if "agenda w = []" using idle_waiting [OF lk [unfolded that] assms(6)] that by simp
  then show ?thesis
    unfolding rec using arr subseq_handed [OF arr(1)] by (intro exI [of _ arr] exI [of _ "map ?f ?W"]) (simp add: dev_def)
qed

subsection \<open>Runs on concrete input\<close>

text \<open>A run that checks the bounds as it goes.\<close>

fun checked_run :: "nat \<Rightarrow> bool \<Rightarrow> 'r corrupter \<Rightarrow> link_call list \<Rightarrow> accepted \<Rightarrow> 'r link_world \<Rightarrow> (accepted \<times> 'r link_world) option" where
  "checked_run L s C [] acc w = Some (acc, w)"
| "checked_run L s C (c # cs) acc w =
     (if call_ok L s c w \<and> link_in_range w
      then do { (new, w') \<leftarrow> link_step C c w; checked_run L s C cs (acc @ new) w' }
      else None)"

lemma checked_run_reachable:
  "link_reachable L s C w0 acc w \<Longrightarrow> checked_run L s C cs acc w = Some (acc', w') \<Longrightarrow> link_reachable L s C w0 acc' w'"
proof (induction cs arbitrary: acc w)
  case (Cons c cs)
  then obtain new w1 where "call_ok L s c w" "link_in_range w" "link_step C c w = Some (new, w1)"
      "checked_run L s C cs (acc @ new) w1 = Some (acc', w')"
    by (auto simp: bind_eq_Some_conv split: if_splits)
  then show ?case using Cons link_reachable.step by blast
qed simp

lemma CalculateBytesTxTime_code [code]:
  "CalculateBytesTxTime r b =
     (if 0 < uint r \<and> uint r < 2 ^ 63 \<and> uint b < 2 ^ 29 then Some (word_of_int (tx_ns (uint b * 8) (uint r)))
      else CalculateBitsTxTime r (b * 8))"
proof (cases "0 < uint r \<and> uint r < 2 ^ 63 \<and> uint b < 2 ^ 29")
  case True
  then obtain t where t: "CalculateBytesTxTime r b = Some t" "sint t = tx_ns (uint b * 8) (uint r)" using CalculateBytesTxTime_eq [of r b] by auto
  have "word_of_int (sint t) = t" unfolding scast_eq [symmetric] by simp
  then show ?thesis using True t by simp
qed (auto simp: CalculateBytesTxTime_def)

declare udiv_rounds.simps [code]

text \<open>A link of 8 Mbit/s and 1 ms without error models.\<close>

definition no_errors :: "unit corrupter" where "no_errors r p = (False, r)"

definition example_link :: "unit link_world" where
  "example_link = the (Install 8000000 0 1000000 [None, None] (\<lambda>_. 5))"

lemma example_link_Install: "Install 8000000 0 1000000 [None, None] (\<lambda>_. 5) = Some example_link"
proof -
  have "\<not> Option.is_none (Install 8000000 0 1000000 [None, None :: unit option] (\<lambda>_. 5))" by code_simp
  then show ?thesis by (simp add: example_link_def Option.is_none_def)
qed

lemma example_rate: "rate_ok 8000000 0" "uint (1000000 :: int64) < 2 ^ 61" "1502 \<le> (2 ^ 16 :: nat)"
  by (simp_all add: rate_ok_def)

lemmas example_bounds = example_link_Install example_rate

definition example_calls :: "link_call list" where
  "example_calls = [CallSend 0 [1, 2] 0x800, CallSend 0 [3] 0x86DD, CallSend 1 [4] 0x800, RunEvent, RunEvent, RunEvent, RunEvent]"

theorem link_is_fifo_witness:
  "\<exists>w arrived rest. checked_run 1502 True no_errors example_calls [] example_link = Some ([(0, 0x800, [1, 2]), (0, 0x86DD, [3]), (1, 0x800, [4])], w) \<and>
    [(0x800, [1, 2]), (0x86DD, [3])] = arrived @ rest \<and> subseq (received 1 w) (handed arrived)"
proof -
  have "map_option fst (checked_run 1502 True no_errors example_calls [] example_link) = Some [(0, 0x800, [1, 2]), (0, 0x86DD, [3]), (1, 0x800, [4])]"
    by code_simp
  then obtain w where w: "checked_run 1502 True no_errors example_calls [] example_link = Some ([(0, 0x800, [1, 2]), (0, 0x86DD, [3]), (1, 0x800, [4])], w)"
    by auto
  have "link_reachable 1502 True no_errors example_link [(0, 0x800, [1, 2]), (0, 0x86DD, [3]), (1, 0x800, [4])] w"
    by (rule checked_run_reachable [OF link_reachable.start w])
  from link_is_fifo [OF example_bounds this, of 0] show ?thesis using w by (auto simp: sent_def)
qed

subsection \<open>Safety, states, progress\<close>



lemma pending_agenda: "pending map_events s = mset (map snd (agenda s))"
proof -
  have "snd \<circ> (\<lambda>(k, p). (m_ts k, closure (the (impls s p)))) = (\<lambda>e. closure (the (impls s (impl e)))) \<circ> entry_event"
    by (auto simp: entry_event_def)
  then show ?thesis by (simp only: pending_def agenda_def map_events_def mset_map [symmetric] map_map)
qed

lemma count_txs: "count (mset (map snd ag)) (Call (TransmitComplete i)) = length (txs i ag)"
  by (induction ag) (auto simp: txs_def tx_of_def)

text \<open>C27: The state of a transmitter: in every reachable state a device is \<open>BUSY\<close> exactly if it has a current packet, there is one pending \<open>TransmitComplete\<close> of the device if it is \<open>BUSY\<close> and none otherwise, packets wait in its queue only while it is \<open>BUSY\<close>, and the queue keeps its limit.\<close>
theorem transmitter_states:
  assumes "Install bps gap delay ems junk = Some w0" "rate_ok bps gap" "uint delay < 2 ^ 61" "L \<le> 2 ^ 16"
    "link_reachable L s C w0 acc w" "i < 2"
  shows "(m_txMachineState (dev i w) = BUSY \<longleftrightarrow> m_currentPkt (dev i w) \<noteq> None) \<and>
    count (pending map_events w) (Call (TransmitComplete i)) = (if m_txMachineState (dev i w) = BUSY then 1 else 0) \<and>
    (m_packets (m_queue (dev i w)) \<noteq> [] \<longrightarrow> m_txMachineState (dev i w) = BUSY) \<and> queue_ok packet_size L (m_queue (dev i w))"
proof -
  have lk: "link_ok nobody L s acc (m_currentTs w) (agenda w) (net_devices w) (net_channel w) (net_mem w)"
    using reached [OF assms(1-5)] by (simp add: link_inv_def)
  have "dev_ok L [] (txs i (agenda w)) (dev i w)" using link_okD(1) [OF lk assms(6)] by (simp add: dev_def)
  then show ?thesis unfolding pending_agenda count_txs by (auto simp: dev_ok_def split: if_splits)
qed

definition two_sends :: "link_call list" where
  "two_sends = [CallSend 0 [1, 2] 0x800, CallSend 0 [3] 0x86DD]"

theorem transmitter_states_witness:
  "\<exists>w acc. checked_run 1502 True no_errors two_sends [] example_link = Some (acc, w) \<and>
    m_txMachineState (dev 0 w) = BUSY \<and> count (pending map_events w) (Call (TransmitComplete 0)) = 1"
proof -
  let ?run = "checked_run 1502 True no_errors two_sends [] example_link"
  have "map_option (\<lambda>(acc, w). length (m_packets (m_queue (dev 0 w)))) ?run = Some 1" by code_simp
  then obtain acc w where w: "?run = Some (acc, w)" "length (m_packets (m_queue (dev 0 w))) = 1" by auto
  have "link_reachable 1502 True no_errors example_link acc w" by (rule checked_run_reachable [OF link_reachable.start w(1)])
  from transmitter_states [OF example_bounds this, of 0] show ?thesis using w by fastforce
qed

text \<open>The next \<open>n\<close> events stay in range.\<close>

fun stays_in_range :: "'r corrupter \<Rightarrow> nat \<Rightarrow> 'r link_world \<Rightarrow> bool" where
  "stays_in_range C 0 w \<longleftrightarrow> True"
| "stays_in_range C (Suc n) w \<longleftrightarrow> link_in_range w \<and> stays_in_range C n (DSI_ProcessOneEvent map_ops (link_handler C) w)"

lemma idle_iff: "work w = 0 \<longleftrightarrow> agenda w = [] \<and> queued w = 0"
  by (simp add: work_def)

lemma idle_queues:
  assumes "link_ok nobody L s acc now [] ds ch h" "net_devices w = ds"
  shows "queued w = 0"
proof -
  have "m_packets (m_queue (ds ! i)) = []" if "i < 2" for i using idle_waiting [OF assms(1) that] by (simp add: waiting_def)
  moreover have "length ds = 2" by (rule link_ok_parts [OF assms(1)])
  ultimately show ?thesis unfolding queued_def assms(2) by (auto simp: in_set_conv_nth)
qed

lemma drain_ok:
  "link_inv nobody L s acc w \<Longrightarrow> L \<le> 2 ^ 16 \<Longrightarrow> stays_in_range C (work w) w \<Longrightarrow>
    \<exists>w'. link_run C (replicate (work w) RunEvent) w = Some ([], w') \<and> link_inv nobody L s acc w' \<and> agenda w' = []"
proof (induction "work w" arbitrary: w)
  case 0
  then have "work w = 0" "agenda w = []" using idle_iff [of w] by simp_all
  then show ?case using 0 by simp
next
  case (Suc n)
  let ?w = "DSI_ProcessOneEvent map_ops (link_handler C) w"
  have lk: "link_ok nobody L s acc (m_currentTs w) (agenda w) (net_devices w) (net_channel w) (net_mem w)" and ok: "agenda_ok w"
    using Suc.prems(1) by (simp_all add: link_inv_def)
  have ne: "agenda w \<noteq> []" using Suc.hyps(2) idle_queues [OF _ refl, of L s acc] lk by (metis idle_iff nat.distinct(1))
  have rng: "link_in_range w" "stays_in_range C n ?w" using Suc.prems(3) by (simp_all flip: Suc.hyps(2))
  have w: "link_inv nobody L s acc ?w" "work ?w = n"
    using link_inv_event [OF Suc.prems(1) ne rng(1) Suc.prems(2), of C] Suc.hyps(2) by auto
  obtain w' where w': "link_run C (replicate n RunEvent) ?w = Some ([], w')" "link_inv nobody L s acc w'" "agenda w' = []"
    using Suc.hyps(1) [OF w(2) [symmetric] w(1) Suc.prems(2)] rng(2) w(2) by auto
  have "link_step C RunEvent w = Some ([], ?w)"
    using ne finished_iff [OF ok] w(1) by (simp add: Let_def link_inv_def)
  then show ?case using w' by (simp flip: Suc.hyps(2))
qed

text \<open>C28: Everything that was accepted arrives: from any reachable state of a link, however its delay has been changed, the run of pending events ends after as many events as are pending plus two for each queued packet, and then each end has received exactly the packets that \<open>Send\<close> accepted at the other end, if it has no error model.\<close>
theorem link_drains:
  assumes "Install bps gap delay ems junk = Some w0" "rate_ok bps gap" "uint delay < 2 ^ 61" "L \<le> 2 ^ 16"
    "link_reachable L s C w0 acc w" "stays_in_range C (work w) w"
  shows "\<exists>w'. link_run C (replicate (work w) RunEvent) w = Some ([], w') \<and> DSI_IsFinished map_ops w' \<and>
    (\<forall>i < 2. m_receiveErrorModel (dev (1 - i) w') = None \<longrightarrow> mset (received (1 - i) w') = mset (handed (sent i acc)))"
proof -
  obtain w' where w': "link_run C (replicate (work w) RunEvent) w = Some ([], w')" "link_inv nobody L s acc w'" "agenda w' = []"
    using drain_ok [OF reached [OF assms(1-5)] assms(4,6)] by blast
  have lk: "link_ok nobody L s acc (m_currentTs w') [] (net_devices w') (net_channel w') (net_mem w')" and ok: "agenda_ok w'"
    using w'(2,3) by (simp_all add: link_inv_def)
  have "mset (received (1 - i) w') = mset (handed (sent i acc))" if i: "i < 2" and em: "m_receiveErrorModel (dev (1 - i) w') = None" for i
  proof -
    have "1 - i < 2" using i by simp
    note rec = received_bytes [OF lk refl refl this]
    have "mset (dev_received (net_mem w') (net_devices w' ! (1 - i))) = mset (sent i acc)"
      using link_okD(3) [OF lk i] em unfolding delivered_def idle_waiting [OF lk i] by (auto simp: dev_def)
    then show ?thesis unfolding rec mset_map by (rule arg_cong)
  qed
  then show ?thesis using w' finished_iff [OF ok] by blast
qed

theorem link_drains_witness:
  "\<exists>w acc w'. checked_run 1502 True no_errors two_sends [] example_link = Some (acc, w) \<and>
    link_run no_errors (replicate (work w) RunEvent) w = Some ([], w') \<and> DSI_IsFinished map_ops w'"
proof -
  let ?run = "checked_run 1502 True no_errors two_sends [] example_link"
  have "map_option (\<lambda>(acc, w). stays_in_range no_errors (work w) w) ?run = Some True" by code_simp
  then obtain acc w where w: "?run = Some (acc, w)" "stays_in_range no_errors (work w) w" by auto
  have "link_reachable 1502 True no_errors example_link acc w" by (rule checked_run_reachable [OF link_reachable.start w(1)])
  from link_drains [OF example_bounds this w(2)] show ?thesis using w(1) by blast
qed


end
