(* ===== verification/Spec2Isabelle.thy ===== *)
theory Spec2Isabelle
  imports Scheduler_Properties Cho_Properties Cho_Choice_Properties Cho_Serving_Properties
    Drop_Tail_Queue Error_Model Header_Properties Link_Properties
begin

text \<open>
  A model of the multi-UE conditional-handover simulation of this repository
  (\<open>src/scratch/MultiUE-CHO-SNR-TDCHO/SNR-CHO-Multi-TDCHO.cc\<close>), of the part of the ns-3
  core it runs on (\<open>src/src/core/model\<close>) and of the links that carry the traffic of its terminals
  (\<open>src/src/point-to-point\<close>, \<open>src/src/network\<close>, \<open>src/src/internet\<close>), with the theorems that
  make them correct.

  \<^bold>\<open>The program.\<close> A set of ground terminals (UEs) is served by low-earth-orbit satellites whose
  positions are read from a CSV file. Once a second \<open>CheckHandoverConditions\<close> computes the radio
  link of every UE to every satellite, sets the error rate and the delay of the UE's own
  point-to-point link, lets idle UEs measure and report, and lets UEs that hold a conditional
  configuration check their execution condition. A report starts a procedure of seven phases
  (\<open>CHO_TriggerProcedure\<close>, \<open>CHO_Phase1_ReportArrived\<close> to
  \<open>CHO_Phase7_ExecutionComplete\<close>); each phase is an event that the previous one schedules with the
  delay of the message. All events go through \<open>Simulator::Schedule\<close> into the event list of
  \<open>DefaultSimulatorImpl\<close>, which is a \<open>MapScheduler\<close> by default and can be exchanged.

  \<^bold>\<open>The event core.\<close>
  \<^theory_text>\<open>Scheduler\<close> has the event keys and their order (\<open>scheduler.h\<close>), the virtual interface
  of a scheduler as the record \<open>scheduler_ops\<close>, and the contract of its implementations as the
  locales \<open>event_queue\<close> (removal of the first event), \<open>scheduler\<close> (insertion as well),
  \<open>removing_scheduler\<close> (removal of any event), \<open>timed_scheduler\<close> (all of these for events that are not
  before the last one removed) and \<open>scheduler_pair\<close> (two schedulers, for \<open>SetScheduler\<close>).
  \<^theory_text>\<open>List_Scheduler\<close>, \<^theory_text>\<open>Map_Scheduler\<close>, \<^theory_text>\<open>Heap_Scheduler\<close>,
  \<^theory_text>\<open>Calendar_Scheduler\<close> and \<^theory_text>\<open>Priority_Queue_Scheduler\<close> are the
  implementations of \<open>list-scheduler.cc\<close>, \<open>map-scheduler.cc\<close>, \<open>heap-scheduler.cc\<close>,
  \<open>calendar-scheduler.cc\<close> and \<open>priority-queue-scheduler.cc\<close>, one function per member function, each
  interpreting the locales as far as it meets them: the heap's \<open>Remove\<close> does not, and the calendar
  queue (proved in \<^theory_text>\<open>Calendar_Correct\<close>) is a \<open>timed_scheduler\<close> only.
  \<^theory_text>\<open>Int64x64\<close> and \<^theory_text>\<open>Ns_Time\<close> have the fixed-point numbers of \<open>int64x64-128.cc\<close> and the conversion of
  seconds to nanoseconds (\<open>nstime.h\<close>).
  \<^theory_text>\<open>Simulator\<close> is \<open>default-simulator-impl.cc\<close> with \<open>event-impl.cc\<close>: the record
  \<open>simulator\<close> has the members of the class and a store of event objects, indexed by address,
  because \<open>Cancel\<close> works through a pointer while the event is queued. It is generic in the
  scheduler and in what an event does; the locale \<open>simulator_run\<close> proves the invariant of the
  simulator for any scheduler that meets the contract.
  \<^theory_text>\<open>Event_Properties\<close> and \<^theory_text>\<open>Scheduler_Properties\<close> state the properties of
  this part.

  \<^bold>\<open>The handover simulation.\<close>
  \<^theory_text>\<open>Cho_Types\<close> has the structs, enums and globals of the file; the global state
  \<open>cho_world\<close> extends the simulator's record, so that a handler is a function from states to
  states. \<^theory_text>\<open>Cho_Geometry\<close> has positions, delays and the 3GPP tables,
  \<^theory_text>\<open>Cho_Channel\<close> the channel model with its caches, the SNR history and the trends,
  \<^theory_text>\<open>Cho_Measurement\<close> measurement, decision and report, \<^theory_text>\<open>Cho_Procedure\<close> the phases
  of the procedure, \<^theory_text>\<open>Cho_Control\<close> the periodic task and the dispatch of events,
  \<^theory_text>\<open>Cho_Setup\<close> the readers of the CSV files, the start and the run. Definitions have the
  names of the functions they translate and are in the order of the file.

  \<^bold>\<open>The other strategies.\<close> Five more programs under \<open>src/scratch\<close> repeat the simulation with
  another decision. \<^theory_text>\<open>Cho_Strategies\<close> has what they share, as definitions over the metric and
  the condition of a program, and the programs that decide by SNR, distance and elevation
  (\<open>MultiUE-CHO-SNR\<close>, \<open>MultiUE-CHO-distance\<close>, \<open>MultiUE-CHO-elevation\<close>);
  \<^theory_text>\<open>Cho_Topsis\<close> has the ranking of \<open>MultiUE-CHO-TOPSIS\<close>,
  \<^theory_text>\<open>Cho_Serving_Time\<close> the passes and decisions of \<open>MultiUE-CHO-serving-time\<close>. A prefix
  of a name says whose function it is.

  \<^bold>\<open>The links.\<close> Every terminal has a point-to-point link of its own, whose delay and error rate
  the periodic task sets. From the bottom up:
  \<^theory_text>\<open>Stream_Numbers\<close> reads and prints numbers, for \<^theory_text>\<open>Data_Rate\<close>
  (\<open>data-rate.cc\<close>, with the transmission times) and \<^theory_text>\<open>Queue_Size\<close> (\<open>queue-size.cc\<close>).
  \<^theory_text>\<open>Drop_Tail_Queue\<close> is \<open>queue.h\<close> and \<open>drop-tail-queue.h\<close>, shown to be a bounded FIFO;
  \<^theory_text>\<open>Error_Model\<close> is \<open>error-model.cc\<close>.
  \<^theory_text>\<open>Net_Buffer\<close> is \<open>buffer.cc\<close>: reference-counted blocks in an explicit memory with
  the free list, copy on write, the zero area and the iterators, every failed assertion and every
  access outside of a block a \<^const>\<open>None\<close>. \<^theory_text>\<open>Buffer_Correct\<close>,
  \<^theory_text>\<open>Buffer_Refinement\<close> and \<^theory_text>\<open>Buffer_Operations\<close> give each operation its
  effect on the bytes of a buffer and show that it leaves the other buffers alone,
  \<^theory_text>\<open>Buffer_Simulation\<close> puts them together into a simulation of lists of bytes, and
  \<^theory_text>\<open>Buffer_Properties\<close> states it. \<^theory_text>\<open>Buffer_Numbers\<close> has the numbers of the
  iterators (\<open>WriteHtonU16\<close> and so on) and the checksum, which \<^theory_text>\<open>Internet_Checksum\<close>
  shows to be the sum of the words modulo 65535. \<^theory_text>\<open>Net_Packet\<close> is \<open>packet.cc\<close> with the
  locale \<open>packet_header\<close> (what is written is read back, by a header of the announced size),
  interpreted in \<^theory_text>\<open>Ipv4_Header\<close> for \<open>ppp-header.cc\<close> and \<open>ipv4-header.cc\<close>;
  \<^theory_text>\<open>Header_Properties\<close> has the properties of the stack of both.
  \<^theory_text>\<open>Point_To_Point\<close> is \<open>point-to-point-net-device.cc\<close>, \<open>point-to-point-channel.cc\<close> and
  \<open>Install\<close> of the helper, as handlers of the simulator's events over all of the above.
  \<^theory_text>\<open>Packet_Store\<close> (which packets a memory holds), \<^theory_text>\<open>Agenda\<close> (the pending events
  of the simulator as a list in the order they will run) and \<^theory_text>\<open>Link_Invariant\<close> say what holds
  in every reachable state of a link: each packet that was accepted is in the queue, being sent, on
  its way, handed over or dropped by the error model, in this order. \<^theory_text>\<open>Link_Ok\<close> and
  \<^theory_text>\<open>Link_Steps\<close> show that every handler and every call keeps it, and
  \<^theory_text>\<open>Link_Properties\<close> draws the conclusions: order, no failure, states, delivery.

  \<^bold>\<open>What the lemmas show.\<close>
  \<^theory_text>\<open>Cho_Frame\<close> bounds the delays the handlers schedule (positions within 10^6 km give
  delays of at most 30 s) and shows what scheduling and the updates leave alone.
  \<^theory_text>\<open>Cho_Invariant\<close> defines the invariant: the accounting of a UE's counters, what its phase
  says of its configurations, interruption and serving cell, which single event the queue holds for
  it, and the global statistics as sums. \<^theory_text>\<open>Cho_Preserve\<close> shows that every phase keeps it,
  \<^theory_text>\<open>Cho_Tick\<close> that the periodic task does, \<^theory_text>\<open>Cho_Run\<close> that executing an event does,
  and \<^theory_text>\<open>Cho_Reach\<close> that it holds in every reachable state. \<^theory_text>\<open>Cho_Protocol\<close> is the
  abstract specification, a step relation on what a UE's procedure is about (its stage and cells),
  with the simulation lemma for every handler. \<^theory_text>\<open>Cho_Link_Properties\<close> has the properties
  of single operations, \<^theory_text>\<open>Cho_Properties\<close> those of runs. The properties of the strategies
  rest on two locales of \<^theory_text>\<open>Cho_Strategy_Properties\<close>: \<open>ranking\<close> (an order of the values of
  a metric, under which the loops find a best entry) and \<open>handover_gain\<close> (an execution condition that
  demands a gain, under which handovers cannot go round in circles), interpreted for every program;
  \<^theory_text>\<open>Cho_Choice_Properties\<close> and \<^theory_text>\<open>Cho_Serving_Properties\<close> have what the
  programs choose and report. \<^theory_text>\<open>Cho_Examples\<close> has the concrete inputs of the witnesses.

  \<^bold>\<open>Conventions and bounds.\<close> \<open>double\<close> is \<^typ>\<open>real\<close>: rounding of floating-point arithmetic is
  not modelled, the rounding that the code does itself is. Counters, ids and time stamps are words
  of their width. A failing \<open>NS_ASSERT\<close> is recorded in the field \<open>fault\<close>, which ends a run. Loops
  that may not end (\<open>TopDown\<close>, \<open>Run\<close>, \<open>Destroy\<close>, the loops of \<open>NormalizeLongitude\<close>) are
  partial functions into options, with no fuel anywhere, and that they return is proved where it is
  claimed. The steps of a run are taken while fewer than 2^32 event ids are used and the clock is
  below 2^63 ns, as \<open>in_range\<close> says; the code has no protection there. For a link these bounds are
  \<open>link_in_range\<close> (the clock below 2^62 ns), delays and gaps below 2^61 ns, a positive data rate
  below 2^63 and packets of at most 2^16 bytes with their PPP header, so that no sum wraps. Number and date parsers,
  random draws and \<open>erfc\<close> are parameters.

  \<^bold>\<open>Not modelled.\<close> Output to the console and number formatting; the command line, the set-up of the
  network (nodes, addresses, UDP applications, flow monitor) and the final tables of
  \<open>main\<close>; reference counts and threads of the simulator; tags and metadata of packets, trailers;
  of the other strategies what repeats the modelled program (channel, phases, logging, \<open>main\<close>);
  the other modules of ns-3, which do not influence the handover logic.
\<close>

end
